(* ===== verification/Prelude.thy ===== *)
theory Prelude
  imports Main "HOL-Library.Word"
begin

text \<open>
  Shared vocabulary of the development: bytes and byte buffers, the C library
  functions on them that the sources use (\<open>memcpy\<close>, \<open>memcmp\<close>), the value of a
  byte buffer read as a big-endian number, and generic lemmas on lists and words.
\<close>

section \<open>Bytes and buffers\<close>

type_synonym byte = "8 word"
type_synonym bytes = "8 word list"

unbundle bit_operations_syntax

named_theorems frame_simps \<open>which parts of a state an operation leaves alone\<close>

definition byte_at :: "bytes \<Rightarrow> nat \<Rightarrow> byte" where
  "byte_at xs i = (if i < length xs then xs ! i else 0)"

definition bstr :: "string \<Rightarrow> bytes" where
  "bstr s = map of_char s"

definition memcpy :: "bytes \<Rightarrow> bytes \<Rightarrow> bytes" where
  "memcpy dst src = src @ drop (length src) dst"

fun memcmp_list :: "bytes \<Rightarrow> bytes \<Rightarrow> int" where
  "memcmp_list (x # xs) (y # ys) =
     (if x = y then memcmp_list xs ys else if x < y then - 1 else 1)"
| "memcmp_list _ _ = 0"

definition memcmp :: "bytes \<Rightarrow> bytes \<Rightarrow> nat \<Rightarrow> int" where
  "memcmp a b n = memcmp_list (take n a) (take n b)"

fun be_val :: "bytes \<Rightarrow> nat" where
  "be_val [] = 0"
| "be_val (b # bs) = unat b * 256 ^ length bs + be_val bs"

text \<open>The index of the first element that satisfies a test: the shape of the list walks
  of the sources.\<close>

fun find_index :: "('a \<Rightarrow> bool) \<Rightarrow> 'a list \<Rightarrow> nat option" where
  "find_index P [] = None"
| "find_index P (x # xs) = (if P x then Some 0 else map_option Suc (find_index P xs))"

section \<open>Generic lemmas\<close>

lemma find_index_None: "find_index P xs = None \<longleftrightarrow> (\<forall>x\<in>set xs. \<not> P x)"
  by (induction xs) auto

lemma find_index_Some:
  "find_index P xs = Some i \<longleftrightarrow> i < length xs \<and> P (xs ! i) \<and> (\<forall>k<i. \<not> P (xs ! k))"
proof (induction xs arbitrary: i)
  case (Cons x xs)
  then show ?case by (cases i) (auto simp: less_Suc_eq_0_disj)
qed simp

lemma map_of_list_update:
  "distinct (map fst xs) \<Longrightarrow> i < length xs \<Longrightarrow> fst (xs ! i) = a \<Longrightarrow>
   map_of (xs[i := (a, b)]) = (map_of xs)(a \<mapsto> b)"
proof (induction xs arbitrary: i)
  case (Cons x xs)
  show ?case
  proof (cases i)
    case (Suc j)
    then have "fst (xs ! j) = a" "j < length xs" using Cons.prems by simp_all
    then have "fst x \<noteq> a" using Cons.prems(1) nth_mem [of j xs] by force
    with Suc Cons show ?thesis by (auto simp: fun_eq_iff)
  qed (use Cons in \<open>auto simp: fun_eq_iff\<close>)
qed simp

lemma map_of_append_new:
  "a \<notin> fst ` set xs \<Longrightarrow> map_of (xs @ [(a, b)]) = (map_of xs)(a \<mapsto> b)"
  by (induction xs) (auto simp: fun_eq_iff)

lemma length_memcpy [simp]:
  "length src \<le> length dst \<Longrightarrow> length (memcpy dst src) = length dst"
  by (simp add: memcpy_def)

lemma take_memcpy [simp]: "take (length src) (memcpy dst src) = src"
  by (simp add: memcpy_def)

lemma byte_at_memcpy: "i < length src \<Longrightarrow> byte_at (memcpy dst src) i = byte_at src i"
  by (simp add: byte_at_def memcpy_def nth_append)

lemma byte_at_nth [simp]: "i < length xs \<Longrightarrow> byte_at xs i = xs ! i"
  by (simp add: byte_at_def)

lemma pow256: "(256::nat) ^ n = 2 ^ (8 * n)"
  by (simp add: power_mult)

lemma unat_byte_less [simp]: "unat (b :: byte) < 256"
  using unsigned_less [of b] by simp

lemma be_val_less: "be_val bs < 256 ^ length bs"
proof (induction bs)
  case Nil
  then show ?case by simp
next
  case (Cons b bs)
  have "unat b * 256 ^ length bs + be_val bs < unat b * 256 ^ length bs + 256 ^ length bs"
    using Cons.IH by simp
  also have "\<dots> = Suc (unat b) * 256 ^ length bs" by simp
  also have "\<dots> \<le> 256 * 256 ^ length bs"
    using unat_byte_less [of b] by (intro mult_right_mono) (simp_all add: Suc_le_eq)
  finally show ?case by simp
qed

lemma be_val_append: "be_val (xs @ ys) = be_val xs * 256 ^ length ys + be_val ys"
  by (induction xs) (simp_all add: algebra_simps power_add)

lemma be_val_split_at:
  assumes "i < length xs"
  shows "be_val xs = 256 ^ (length xs - Suc i) * (256 * be_val (take i xs) + unat (xs ! i)) +
    be_val (drop (Suc i) xs)"
proof -
  define d where "d = drop (Suc i) xs"
  have "xs = take i xs @ xs ! i # d" using assms by (simp add: d_def Cons_nth_drop_Suc)
  then have "be_val xs = be_val (take i xs) * 256 ^ Suc (length d) + unat (xs ! i) * 256 ^ length d + be_val d"
    using be_val_append [of "take i xs" "xs ! i # d"] by simp
  moreover have "length d = length xs - Suc i" by (simp add: d_def)
  ultimately show ?thesis by (simp add: d_def algebra_simps)
qed

lemma be_val_zero_iff: "be_val bs = 0 \<longleftrightarrow> (\<forall>b\<in>set bs. b = 0)"
  by (induction bs) (auto simp: unat_eq_zero)

lemma be_val_Cons_less:
  assumes "length xs = length ys" and "x < y"
  shows "be_val (x # xs) < be_val (y # ys)"
proof -
  have "be_val (x # xs) < Suc (unat x) * 256 ^ length xs"
    using be_val_less [of xs] by simp
  also have "\<dots> \<le> unat y * 256 ^ length xs"
    using assms(2) by (intro mult_right_mono) (simp_all add: word_less_nat_alt)
  also have "\<dots> \<le> be_val (y # ys)" using assms(1) by simp
  finally show ?thesis .
qed

lemma memcmp_list_be_val:
  "length a = length b \<Longrightarrow> memcmp_list a b = sgn (int (be_val a) - int (be_val b))"
proof (induction a b rule: memcmp_list.induct)
  case (1 x xs y ys)
  show ?case
  proof (cases "x = y")
    case True
    with 1 show ?thesis by simp
  next
    case False
    then consider "x < y" | "y < x" by (meson less_linear)
    then show ?thesis
    proof cases
      case 1
      then have "be_val (x # xs) < be_val (y # ys)"
        using "1.prems" by (intro be_val_Cons_less) simp_all
      then have "int (be_val (x # xs)) - int (be_val (y # ys)) < 0" by linarith
      with False 1 show ?thesis by (simp only: memcmp_list.simps if_False if_True sgn_neg)
    next
      case 2
      then have "be_val (y # ys) < be_val (x # xs)"
        using "1.prems" by (intro be_val_Cons_less) simp_all
      then have "0 < int (be_val (x # xs)) - int (be_val (y # ys))" by linarith
      moreover have "\<not> x < y" using 2 by simp
      ultimately show ?thesis
        using False by (simp only: memcmp_list.simps if_False sgn_pos)
    qed
  qed
qed auto

lemma be_val_inject: "length a = length b \<Longrightarrow> be_val a = be_val b \<longleftrightarrow> a = b"
proof (induction a b rule: list_induct2)
  case Nil
  then show ?case by simp
next
  case (Cons x xs y ys)
  have "be_val (x # xs) \<noteq> be_val (y # ys)" if "x \<noteq> y"
    using that be_val_Cons_less [of xs ys x y] be_val_Cons_less [of ys xs y x] Cons.hyps
    by (metis less_irrefl less_linear)
  with Cons.IH Cons.hyps show ?case by (cases "x = y") auto
qed

lemma memcmp_eq_iff:
  "length a = n \<Longrightarrow> length b = n \<Longrightarrow> memcmp a b n = 0 \<longleftrightarrow> a = b"
  by (simp add: memcmp_def memcmp_list_be_val sgn_0_0 be_val_inject)

text \<open>A property of all 256 byte values can be checked value by value.\<close>

lemma byte_exhaust:
  assumes "\<forall>n\<in>set [0..<256]. P (word_of_nat n :: byte)"
  shows "P b"
proof -
  have "unat b \<in> set [0..<256]" by simp
  with assms have "P (word_of_nat (unat b))" by blast
  then show ?thesis by simp
qed

text \<open>The bytes of a word.\<close>

lemma unat_byte_of: "unat (ucast (drop_bit n w) :: byte) = unat w div 2 ^ n mod 256"
proof -
  have "unat (ucast (drop_bit n w) :: byte) = take_bit 8 (unat (drop_bit n w))" by (simp add: unsigned_ucast_eq)
  also have "unat (drop_bit n w) = unat w div 2 ^ n"
    by (simp add: unsigned_drop_bit_eq take_bit_nat_eq_self flip: drop_bit_eq_div)
  finally show ?thesis by (simp add: take_bit_eq_mod)
qed

lemma be_val_word32: "be_val [ucast (drop_bit 24 w), ucast (drop_bit 16 w), ucast (drop_bit 8 w), ucast w] = unat (w :: 32 word)"
proof -
  have u: "unat w < 256 * (256 * (256 * 256))" using unsigned_less [of w] by simp
  define v where "v = unat w"
  have "be_val [ucast (drop_bit 24 w), ucast (drop_bit 16 w), ucast (drop_bit 8 w), ucast w] =
      v div 256 div 256 div 256 mod 256 * (256 * 256 * 256) + v div 256 div 256 mod 256 * (256 * 256) +
      v div 256 mod 256 * 256 + v mod 256"
    using unat_byte_of [of 24 w] unat_byte_of [of 16 w] unat_byte_of [of 8 w] unat_byte_of [of 0 w]
    by (simp add: v_def flip: div_mult2_eq)
  moreover have "v div 256 div 256 div 256 mod 256 = v div 256 div 256 div 256"
    using u by (simp add: v_def less_mult_imp_div_less flip: div_mult2_eq)
  ultimately show ?thesis
    using div_mult_mod_eq [of v 256] div_mult_mod_eq [of "v div 256" 256] div_mult_mod_eq [of "v div 256 div 256" 256]
    unfolding v_def by linarith
qed

end
