(* ===== verification/Dht_Id.thy ===== *)
theory Dht_Id
  imports Prelude
begin

text \<open>
  Node identifiers of the DHT (\<open>src/routing/dht.c\<close>): 20-byte strings, compared
  as big-endian numbers (\<open>id_cmp\<close>), by XOR distance to a reference (\<open>xorcmp\<close>), and
  inspected bit by bit (\<open>lowbit\<close>, \<open>common_bits\<close>). The lemmas relate each routine to
  the number the identifier denotes and to the XOR metric.
\<close>

section \<open>Definitions\<close>

type_synonym dht_id = bytes

definition id_cmp :: "dht_id \<Rightarrow> dht_id \<Rightarrow> int" where
  "id_cmp id1 id2 = memcmp id1 id2 20"

text \<open>\<open>lowbit\<close>: the last non-zero byte, then the last non-zero bit of that byte.\<close>

fun last_nonzero :: "nat \<Rightarrow> dht_id \<Rightarrow> nat option" where
  "last_nonzero 0 nid = None"
| "last_nonzero (Suc i) nid = (if byte_at nid i \<noteq> 0 then Some i else last_nonzero i nid)"

fun low_j :: "nat \<Rightarrow> byte \<Rightarrow> int" where
  "low_j 0 b = - 1"
| "low_j (Suc j) b = (if b AND drop_bit j 0x80 \<noteq> 0 then int j else low_j j b)"

definition lowbit :: "dht_id \<Rightarrow> int" where
  "lowbit nid =
     (case last_nonzero 20 nid of
        None \<Rightarrow> - 1
      | Some i \<Rightarrow> 8 * int i + low_j 8 (byte_at nid i))"

text \<open>\<open>common_bits\<close>: the first differing byte, then the shift loop on the exclusive or
  (fuel 8: the byte is not zero there).\<close>

fun first_diff :: "nat \<Rightarrow> nat \<Rightarrow> dht_id \<Rightarrow> dht_id \<Rightarrow> nat" where
  "first_diff 0 i id1 id2 = i"
| "first_diff (Suc n) i id1 id2 =
     (if byte_at id1 i \<noteq> byte_at id2 i then i else first_diff n (Suc i) id1 id2)"

fun shift_loop :: "nat \<Rightarrow> byte \<Rightarrow> nat" where
  "shift_loop 0 x = 0"
| "shift_loop (Suc n) x = (if x AND 0x80 = 0 then Suc (shift_loop n (push_bit 1 x)) else 0)"

definition common_bits :: "dht_id \<Rightarrow> dht_id \<Rightarrow> nat" where
  "common_bits id1 id2 =
     (let i = first_diff 20 0 id1 id2
      in if i = 20 then 160
         else 8 * i + shift_loop 8 (byte_at id1 i XOR byte_at id2 i))"

fun xorcmp_loop :: "nat \<Rightarrow> nat \<Rightarrow> dht_id \<Rightarrow> dht_id \<Rightarrow> dht_id \<Rightarrow> int" where
  "xorcmp_loop 0 i id1 id2 ref = 0"
| "xorcmp_loop (Suc n) i id1 id2 ref =
     (if byte_at id1 i = byte_at id2 i then xorcmp_loop n (Suc i) id1 id2 ref
      else if byte_at id1 i XOR byte_at ref i < byte_at id2 i XOR byte_at ref i then - 1
      else 1)"

definition xorcmp :: "dht_id \<Rightarrow> dht_id \<Rightarrow> dht_id \<Rightarrow> int" where
  "xorcmp id1 id2 ref = xorcmp_loop 20 0 id1 id2 ref"

text \<open>Specification side: the XOR distance as a number, and bit \<open>i\<close> of an identifier
  counted from its start.\<close>

definition xdist :: "dht_id \<Rightarrow> dht_id \<Rightarrow> nat" where
  "xdist a ref = be_val (map2 (XOR) a ref)"

definition id_bit :: "dht_id \<Rightarrow> nat \<Rightarrow> bool" where
  "id_bit nid i = bit (byte_at nid (i div 8)) (7 - i mod 8)"

section \<open>Comparison\<close>

lemma id_cmp_be_val:
  "length a = 20 \<Longrightarrow> length b = 20 \<Longrightarrow> id_cmp a b = sgn (int (be_val a) - int (be_val b))"
  by (simp add: id_cmp_def memcmp_def memcmp_list_be_val)

lemma id_cmp_less_iff:
  "length a = 20 \<Longrightarrow> length b = 20 \<Longrightarrow> id_cmp a b < 0 \<longleftrightarrow> be_val a < be_val b"
  by (simp add: id_cmp_be_val)

lemma id_cmp_le_iff:
  "length a = 20 \<Longrightarrow> length b = 20 \<Longrightarrow> id_cmp a b \<le> 0 \<longleftrightarrow> be_val a \<le> be_val b"
  by (simp add: id_cmp_be_val sgn_if)

lemma id_cmp_eq_iff:
  "length a = 20 \<Longrightarrow> length b = 20 \<Longrightarrow> id_cmp a b = 0 \<longleftrightarrow> a = b"
  by (simp add: id_cmp_be_val sgn_0_0 be_val_inject)

lemma id_cmp_refl [simp]: "id_cmp a a = 0"
proof -
  have "memcmp_list xs xs = 0" for xs :: bytes by (induction xs) auto
  then show ?thesis by (simp add: id_cmp_def memcmp_def)
qed

lemma xor_byte_left_cancel: "(a XOR r = b XOR r) \<longleftrightarrow> a = (b :: byte)"
  by (metis xor.assoc xor_self_eq xor.right_neutral)

lemma xor_eq_0_byte: "a XOR b = 0 \<Longrightarrow> a = (b :: byte)"
  using xor_byte_left_cancel [of a b b] by simp

lemma xorcmp_loop_drop:
  "i + n = length a \<Longrightarrow> length a = length b \<Longrightarrow> length a = length r \<Longrightarrow>
   xorcmp_loop n i a b r =
     memcmp_list (map2 (XOR) (drop i a) (drop i r)) (map2 (XOR) (drop i b) (drop i r))"
proof (induction n i a b r rule: xorcmp_loop.induct)
  case (2 n i a b r)
  have *: "drop i x = x ! i # drop (Suc i) x" if "length x = length a" for x :: bytes
    using "2.prems" that by (simp add: Cons_nth_drop_Suc)
  from 2 show ?case
    by (simp add: * [of a] * [of b] * [of r] xor_byte_left_cancel)
qed simp

lemma xorcmp_xdist:
  assumes "length a = 20" and "length b = 20" and "length r = 20"
  shows "xorcmp a b r = sgn (int (xdist a r) - int (xdist b r))"
  using assms
  by (simp add: xorcmp_def xdist_def xorcmp_loop_drop memcmp_list_be_val)

lemma xdist_inject:
  assumes "length a = 20" and "length b = 20" and "length r = 20"
  shows "xdist a r = xdist b r \<longleftrightarrow> a = b"
proof -
  have "map2 (XOR) a r = map2 (XOR) b r \<longleftrightarrow> a = b"
    using assms by (auto simp: list_eq_iff_nth_eq xor_byte_left_cancel)
  then show ?thesis using assms by (simp add: xdist_def be_val_inject)
qed

lemma xorcmp_less_iff:
  "length a = 20 \<Longrightarrow> length b = 20 \<Longrightarrow> length r = 20 \<Longrightarrow>
   xorcmp a b r < 0 \<longleftrightarrow> xdist a r < xdist b r"
  by (simp add: xorcmp_xdist)

section \<open>Bits\<close>

lemma drop_bit_0x80: "j < 8 \<Longrightarrow> drop_bit j (0x80 :: byte) = 2 ^ (7 - j)"
proof -
  assume "j < 8"
  then have "j \<in> {0, 1, 2, 3, 4, 5, 6, 7}" by auto
  then show ?thesis by auto
qed

lemma dvd_unat_iff_bit: "2 ^ n dvd unat (b :: byte) \<longleftrightarrow> (\<forall>k<n. \<not> bit b k)"
proof -
  have "2 ^ n dvd unat b \<longleftrightarrow> take_bit n (unat b) = 0"
    by (simp add: take_bit_eq_0_iff)
  also have "\<dots> \<longleftrightarrow> (\<forall>k. \<not> bit (take_bit n (unat b)) k)"
    by (auto simp: bit_eq_iff)
  also have "\<dots> \<longleftrightarrow> (\<forall>k<n. \<not> bit b k)"
    by (auto simp: bit_take_bit_iff bit_unsigned_iff dest: bit_imp_le_length)
  finally show ?thesis .
qed

lemma low_j_bits:
  "n \<le> 8 \<Longrightarrow> (\<exists>j<n. bit b (7 - j)) \<Longrightarrow>
   \<exists>j<n. low_j n b = int j \<and> bit b (7 - j) \<and> (\<forall>i. j < i \<and> i < n \<longrightarrow> \<not> bit b (7 - i))"
proof (induction n)
  case (Suc n)
  show ?case
  proof (cases "bit b (7 - n)")
    case True
    with Suc.prems(1) show ?thesis
      by (auto simp: drop_bit_0x80 and_exp_eq_0_iff_not_bit)
  next
    case False
    with Suc.prems(2) have "\<exists>j<n. bit b (7 - j)" by (metis less_Suc_eq)
    with Suc.IH Suc.prems(1) False show ?thesis
      by (auto simp: drop_bit_0x80 and_exp_eq_0_iff_not_bit less_Suc_eq)
  qed
qed simp

lemma nonzero_byte_bit: "b \<noteq> (0 :: byte) \<Longrightarrow> \<exists>j<8. bit b (7 - j)"
proof -
  assume "b \<noteq> 0"
  then obtain k where "bit b k" by (auto simp: bit_eq_iff)
  then have "k < 8" using bit_imp_le_length [of b k] by simp
  with \<open>bit b k\<close> show ?thesis by (intro exI [of _ "7 - k"]) simp
qed

lemma low_j_byte:
  assumes "b \<noteq> 0"
  obtains j where "low_j 8 b = int j" and "j < 8"
    and "2 ^ (7 - j) dvd unat b" and "\<not> 2 ^ (8 - j) dvd unat b"
proof -
  obtain j where j: "j < 8" "low_j 8 b = int j" "bit b (7 - j)"
    and above: "\<forall>i. j < i \<and> i < 8 \<longrightarrow> \<not> bit b (7 - i)"
    using low_j_bits [of 8 b] nonzero_byte_bit [OF assms] by auto
  have "\<not> bit b k" if "k < 7 - j" for k
  proof -
    from that have "j < 7 - k" "7 - (7 - k) = k" by arith+
    then show ?thesis using above [rule_format, of "7 - k"] by simp
  qed
  then have "2 ^ (7 - j) dvd unat b" by (simp add: dvd_unat_iff_bit)
  moreover have "7 - j < 8 - j" using j(1) by simp
  then have "\<not> 2 ^ (8 - j) dvd unat b" using j(3) by (auto simp: dvd_unat_iff_bit)
  ultimately show thesis using that j by blast
qed

lemma shift_loop_bits:
  "\<exists>j<n. bit (x :: byte) (7 - j) \<Longrightarrow> n \<le> 8 \<Longrightarrow>
   shift_loop n x < n \<and> bit x (7 - shift_loop n x) \<and> (\<forall>k < shift_loop n x. \<not> bit x (7 - k))"
proof (induction n arbitrary: x)
  case (Suc n)
  have x80: "x AND 0x80 = 0 \<longleftrightarrow> \<not> bit x 7"
    using and_exp_eq_0_iff_not_bit [of x 7] by simp
  show ?case
  proof (cases "bit x 7")
    case True
    then show ?thesis by (simp add: x80)
  next
    case False
    define y where "y = push_bit 1 x"
    have shift: "bit y (7 - k) \<longleftrightarrow> bit x (7 - Suc k)" if "k < 7" for k
    proof -
      have "7 - k - 1 = 7 - Suc k" "1 \<le> 7 - k" "7 - k < 8" using that by simp_all
      then show ?thesis unfolding y_def bit_push_bit_iff by simp
    qed
    obtain j where j: "j < Suc n" "bit x (7 - j)" using Suc.prems(1) by blast
    with False obtain i where i: "j = Suc i" by (cases j) auto
    with j Suc.prems(2) have "\<exists>i<n. bit y (7 - i)"
      by (intro exI [of _ i]) (simp add: shift)
    with Suc.IH Suc.prems(2) have IH: "shift_loop n y < n"
      "bit y (7 - shift_loop n y)"
      "\<forall>k < shift_loop n y. \<not> bit y (7 - k)" by simp_all
    moreover have "shift_loop (Suc n) x = Suc (shift_loop n y)"
      using False by (simp add: x80 y_def)
    ultimately show ?thesis
      using False Suc.prems(2) by (auto simp del: shift_loop.simps simp: shift less_Suc_eq_0_disj)
  qed
qed simp

section \<open>Lowest bit and common prefix\<close>

lemma last_nonzero_None: "last_nonzero n x = None \<longleftrightarrow> (\<forall>i<n. byte_at x i = 0)"
  by (induction n) (auto simp: less_Suc_eq)

lemma last_nonzero_Some:
  "last_nonzero n x = Some i \<Longrightarrow> i < n \<and> byte_at x i \<noteq> 0 \<and> (\<forall>k. i < k \<and> k < n \<longrightarrow> byte_at x k = 0)"
  by (induction n) (auto simp: less_Suc_eq split: if_splits)

lemma lowbit_zero: "length x = 20 \<Longrightarrow> lowbit x = - 1 \<longleftrightarrow> be_val x = 0"
proof -
  assume len: "length x = 20"
  show ?thesis
  proof (cases "last_nonzero 20 x")
    case None
    then have "be_val x = 0"
      using len by (auto simp: last_nonzero_None be_val_zero_iff in_set_conv_nth)
    with None show ?thesis by (simp add: lowbit_def)
  next
    case (Some i)
    from last_nonzero_Some [OF Some] len have "x ! i \<noteq> 0" "i < 20" by auto
    moreover from this(1) obtain j where "low_j 8 (x ! i) = int j" by (rule low_j_byte)
    moreover have "x ! i \<in> set x" using \<open>i < 20\<close> len by simp
    ultimately show ?thesis
      using len Some by (auto simp: lowbit_def be_val_zero_iff)
  qed
qed

lemma lowbit_dvd:
  assumes len: "length x = 20" and nz: "be_val x \<noteq> 0"
  obtains k where "lowbit x = int k" and "k < 160"
    and "2 ^ (159 - k) dvd be_val x" and "\<not> 2 ^ (160 - k) dvd be_val x"
proof -
  from nz len obtain i where i: "last_nonzero 20 x = Some i"
    by (cases "last_nonzero 20 x")
      (auto simp: last_nonzero_None be_val_zero_iff in_set_conv_nth)
  from last_nonzero_Some [OF i] len have lt: "i < 20" and xi: "x ! i \<noteq> 0"
    and zs: "\<And>k. i < k \<Longrightarrow> k < 20 \<Longrightarrow> x ! k = 0" by auto
  from xi obtain j where j: "low_j 8 (x ! i) = int j" "j < 8"
    and d: "2 ^ (7 - j) dvd unat (x ! i)" "\<not> 2 ^ (8 - j) dvd unat (x ! i)" by (rule low_j_byte)
  define h where "h = be_val (take i x)"
  have "be_val (drop (Suc i) x) = 0"
    using zs len by (auto simp: be_val_zero_iff in_set_conv_nth)
  then have val: "be_val x = 256 ^ (19 - i) * (256 * h + unat (x ! i))"
    using be_val_split_at [of i x] lt len by (simp add: h_def)
  have p: "(256::nat) ^ (19 - i) = 2 ^ (152 - 8 * i)"
    using lt by (simp only: pow256 right_diff_distrib') simp
  have e1: "(2::nat) ^ (159 - (8 * i + j)) = 2 ^ (152 - 8 * i) * 2 ^ (7 - j)"
    using lt j(2) by (simp flip: power_add)
  have e2: "(2::nat) ^ (160 - (8 * i + j)) = 2 ^ (152 - 8 * i) * 2 ^ (8 - j)"
    using lt j(2) by (simp flip: power_add)
  have dvd256: "(2::nat) ^ m dvd 256 * h" if "m \<le> 8" for m
    using le_imp_power_dvd [OF that, of "2::nat"] by (simp add: dvd_mult2)
  have D1: "2 ^ (7 - j) dvd 256 * h + unat (x ! i)"
    using d(1) dvd256 [of "7 - j"] by simp
  have D2: "\<not> 2 ^ (8 - j) dvd 256 * h + unat (x ! i)"
    using d(2) dvd256 [of "8 - j"] by (simp add: dvd_add_right_iff)
  show thesis
  proof (rule that)
    show "lowbit x = int (8 * i + j)" using i j lt len by (simp add: lowbit_def)
    show "8 * i + j < 160" using lt j(2) by simp
    show "2 ^ (159 - (8 * i + j)) dvd be_val x"
      unfolding val p e1 using D1 by (rule mult_dvd_mono [OF dvd_refl])
    show "\<not> 2 ^ (160 - (8 * i + j)) dvd be_val x"
      unfolding val p e2 using D2 by simp
  qed
qed

lemma first_diff_char:
  "first_diff n i a b \<le> i + n \<and> i \<le> first_diff n i a b \<and>
   (\<forall>k. i \<le> k \<and> k < first_diff n i a b \<longrightarrow> byte_at a k = byte_at b k) \<and>
   (first_diff n i a b < i + n \<longrightarrow>
      byte_at a (first_diff n i a b) \<noteq> byte_at b (first_diff n i a b))"
proof (induction n i a b rule: first_diff.induct)
  case (2 n i a b)
  show ?case
  proof (cases "byte_at a i = byte_at b i")
    case True
    with 2 have "first_diff n (Suc i) a b \<le> Suc i + n \<and> Suc i \<le> first_diff n (Suc i) a b \<and>
      (\<forall>k. Suc i \<le> k \<and> k < first_diff n (Suc i) a b \<longrightarrow> byte_at a k = byte_at b k) \<and>
      (first_diff n (Suc i) a b < Suc i + n \<longrightarrow>
       byte_at a (first_diff n (Suc i) a b) \<noteq> byte_at b (first_diff n (Suc i) a b))" by blast
    moreover have "i \<le> k \<longleftrightarrow> k = i \<or> Suc i \<le> k" for k by auto
    ultimately show ?thesis using True by auto
  next
    case False
    then show ?thesis by auto
  qed
qed auto

lemma common_bits_char:
  "common_bits a b \<le> 160 \<and> (\<forall>k < common_bits a b. id_bit a k = id_bit b k) \<and>
   (common_bits a b < 160 \<longrightarrow> id_bit a (common_bits a b) \<noteq> id_bit b (common_bits a b))"
proof -
  define i where "i = first_diff 20 0 a b"
  have fd: "i \<le> 20" "\<forall>k < i. byte_at a k = byte_at b k"
    "i < 20 \<Longrightarrow> byte_at a i \<noteq> byte_at b i"
    using first_diff_char [of 20 0 a b] by (auto simp: i_def)
  have before: "id_bit a k = id_bit b k" if "k < 8 * i" for k
  proof -
    from that have "k div 8 < i" by (simp add: less_mult_imp_div_less mult.commute)
    with fd(2) show ?thesis by (simp add: id_bit_def)
  qed
  show ?thesis
  proof (cases "i = 20")
    case True
    with before show ?thesis by (simp add: common_bits_def i_def [symmetric])
  next
    case False
    define x where "x = byte_at a i XOR byte_at b i"
    have "x \<noteq> 0" using fd(1,3) False by (auto simp: x_def dest: xor_eq_0_byte)
    then have s: "shift_loop 8 x < 8" "bit x (7 - shift_loop 8 x)"
      "\<forall>k < shift_loop 8 x. \<not> bit x (7 - k)"
      using shift_loop_bits [of 8 x] nonzero_byte_bit by auto
    have cb: "common_bits a b = 8 * i + shift_loop 8 x"
      using False by (simp add: common_bits_def i_def [symmetric] x_def Let_def)
    have at: "id_bit a (8 * i + m) \<noteq> id_bit b (8 * i + m) \<longleftrightarrow> bit x (7 - m)" if "m < 8" for m
      using that by (simp add: id_bit_def x_def bit_xor_iff)
    have "id_bit a k = id_bit b k" if "k < common_bits a b" for k
    proof (cases "k < 8 * i")
      case False
      then have "k - 8 * i < shift_loop 8 x" "k = 8 * i + (k - 8 * i)" using that cb by simp_all
      then show ?thesis using s(1,3) at [of "k - 8 * i"] by (metis less_trans)
    qed (rule before)
    then show ?thesis using cb s at [of "shift_loop 8 x"] False fd(1) by auto
  qed
qed

end
