(* ===== verification/Dht_State.thy ===== *)
theory Dht_State
  imports Dht_Id
begin

text \<open>
  The data of the DHT (\<open>src/routing/dht.c\<close>): its structs as records, its static
  variables as one record \<open>dht\<close>, and the outside world it talks to.

  Socket addresses are kept as the raw bytes of \<open>struct sockaddr\<close> on a little-endian
  Linux host (family in bytes 0-1, port in bytes 2-3, the IPv4 address in bytes 4-7, the
  IPv6 address in bytes 8-23); an argument pair \<open>(sa, salen)\<close> is the list of the
  \<open>salen\<close> bytes. A C linked list is a HOL list, a pointer into it an index; the
  counters the code keeps beside a list (\<open>count\<close>, \<open>numsearches\<close>, \<open>numstorage\<close>) are
  fields of their own. \<open>search.nodes\<close> and \<open>storage.peers\<close> are the live prefix of their
  arrays, so \<open>numnodes\<close> and \<open>numpeers\<close> are the lengths.

  The world: \<open>random()\<close>, \<open>calloc\<close>/\<open>realloc\<close> success, \<open>/dev/urandom\<close>, the results of
  \<open>sendto\<close> and SHA-256 (\<open>None\<close> when it fails) are fields holding arbitrary functions; what the DHT sends and
  the callbacks it makes are events appended to \<open>trace\<close>. \<open>abort()\<close> is the event
  \<open>Abort\<close> and a NULL dereference the event \<open>Fault\<close>: the process is dead from there on.
\<close>

section \<open>Structs\<close>

record node =
  nd_id :: dht_id
  nd_ss :: bytes
  nd_sslen :: nat
  nd_time :: int
  nd_reply_time :: int
  nd_pinged_time :: int
  nd_pinged :: int

record bucket =
  bk_af :: int
  bk_first :: dht_id
  bk_count :: int
  bk_time :: int
  bk_nodes :: "node list"
  bk_cached :: bytes
  bk_cachedlen :: nat

record search_node =
  sn_id :: dht_id
  sn_ss :: bytes
  sn_sslen :: nat
  sn_request_time :: int
  sn_reply_time :: int
  sn_pinged :: int
  sn_token :: bytes
  sn_replied :: bool
  sn_acked :: bool

record search =
  sr_tid :: "16 word"
  sr_af :: int
  sr_step_time :: int
  sr_id :: dht_id
  sr_port :: "16 word"
  sr_done :: bool
  sr_nodes :: "search_node list"

record peer =
  pr_time :: int
  pr_ip :: bytes
  pr_port :: "16 word"

record storage_t =
  st_id :: dht_id
  st_maxpeers :: nat
  st_peers :: "peer list"

datatype io_event =
    Send bytes int bytes
  | Callback int bytes bytes
  | Abort
  | Fault

text \<open>One opening of \<open>/dev/urandom\<close>: the descriptor, how the reads end, and after these the bytes that whole reads give.\<close>

datatype rand_read = Rand_bytes bytes | Rand_retry | Rand_fail

record urandom_file =
  ur_fd :: int
  ur_reads :: "rand_read list"
  ur_more :: "nat \<Rightarrow> byte"

record dht =
  dht_socket :: int
  dht_socket6 :: int
  search_time :: int
  confirm_nodes_time :: int
  rotate_secrets_time :: int
  myid :: dht_id
  have_v :: bool
  my_v :: bytes
  secret :: bytes
  oldsecret :: bytes
  buckets :: "bucket list"
  buckets6 :: "bucket list"
  storage :: "storage_t list"
  numstorage :: int
  searches :: "search list"
  numsearches :: int
  search_id :: "16 word"
  blacklist :: "bytes list"
  next_blacklisted :: nat
  now :: int
  mybucket_grow_time :: int
  mybucket6_grow_time :: int
  expire_stuff_time :: int
  token_bucket_time :: int
  token_bucket_tokens :: int
  rng :: "nat \<Rightarrow> nat"
  mem_ok :: "nat \<Rightarrow> bool"
  urandom :: "nat \<Rightarrow> urandom_file"
  sendto_ret :: "nat \<Rightarrow> int"
  sha256 :: "bytes \<Rightarrow> bytes option"
  trace :: "io_event list"

section \<open>Constants\<close>

definition AF_INET :: int where "AF_INET = 2"
definition AF_INET6 :: int where "AF_INET6 = 10"
definition SEARCH_NODES :: nat where "SEARCH_NODES = 14"
definition DHT_MAX_PEERS :: nat where "DHT_MAX_PEERS = 2048"
definition DHT_MAX_HASHES :: int where "DHT_MAX_HASHES = 16384"
definition DHT_MAX_SEARCHES :: int where "DHT_MAX_SEARCHES = 1024"
definition DHT_SEARCH_EXPIRE_TIME :: int where "DHT_SEARCH_EXPIRE_TIME = 62 * 60"
definition DHT_MAX_BLACKLISTED :: nat where "DHT_MAX_BLACKLISTED = 10"
definition MAX_TOKEN_BUCKET_TOKENS :: int where "MAX_TOKEN_BUCKET_TOKENS = 400"
definition TOKEN_SIZE :: nat where "TOKEN_SIZE = 8"
definition SOCKADDR_STORAGE :: nat where "SOCKADDR_STORAGE = 128"
definition MSG_NOSIGNAL :: int where "MSG_NOSIGNAL = 0x4000"
definition MSG_CONFIRM :: int where "MSG_CONFIRM = 0x800"
definition WANT4 :: int where "WANT4 = 1"
definition WANT6 :: int where "WANT6 = 2"
definition DHT_EVENT_VALUES :: int where "DHT_EVENT_VALUES = 1"
definition DHT_EVENT_VALUES6 :: int where "DHT_EVENT_VALUES6 = 2"
definition DHT_EVENT_SEARCH_DONE :: int where "DHT_EVENT_SEARCH_DONE = 3"
definition DHT_EVENT_SEARCH_DONE6 :: int where "DHT_EVENT_SEARCH_DONE6 = 4"

definition zeroes :: bytes where "zeroes = replicate 20 0"
definition v4prefix :: bytes where
  "v4prefix = [0, 0, 0, 0, 0, 0, 0, 0, 0, 0, 0xFF, 0xFF, 0, 0, 0, 0]"

section \<open>Socket addresses\<close>

definition sa_family :: "bytes \<Rightarrow> int" where
  "sa_family sa = uint (byte_at sa 0) + 256 * uint (byte_at sa 1)"

definition sa_port :: "bytes \<Rightarrow> bytes" where
  "sa_port sa = [byte_at sa 2, byte_at sa 3]"

definition sin_addr :: "bytes \<Rightarrow> bytes" where
  "sin_addr sa = map (byte_at sa) [4..<8]"

definition sin6_addr :: "bytes \<Rightarrow> bytes" where
  "sin6_addr sa = map (byte_at sa) [8..<24]"

text \<open>\<open>ss_family = 0\<close> on a \<open>struct sockaddr_storage\<close>.\<close>

definition clear_family :: "bytes \<Rightarrow> bytes" where
  "clear_family ss = memcpy ss [0, 0]"

definition is_martian :: "bytes \<Rightarrow> bool" where
  "is_martian sa =
     (if sa_family sa = AF_INET then
        (let address = sin_addr sa
         in sa_port sa = [0, 0] \<or> byte_at address 0 = 0 \<or> byte_at address 0 = 127 \<or>
            byte_at address 0 AND 0xE0 = 0xE0)
      else if sa_family sa = AF_INET6 then
        (let address = sin6_addr sa
         in sa_port sa = [0, 0] \<or> byte_at address 0 = 0xFF \<or>
            (byte_at address 0 = 0xFE \<and> byte_at address 1 AND 0xC0 = 0x80) \<or>
            (memcmp address zeroes 15 = 0 \<and> (byte_at address 15 = 0 \<or> byte_at address 15 = 1)) \<or>
            memcmp address v4prefix 12 = 0)
      else False)"

text \<open>The address structs \<open>dht_periodic\<close> builds from compact node info: \<open>memset\<close> to zero,
  then family, port and address; \<open>sizeof\<close> 16 and 28.\<close>

definition mk_sockaddr_in :: "bytes \<Rightarrow> bytes \<Rightarrow> bytes" where
  "mk_sockaddr_in addr port = [2, 0] @ port @ addr @ replicate 8 0"

definition mk_sockaddr_in6 :: "bytes \<Rightarrow> bytes \<Rightarrow> bytes" where
  "mk_sockaddr_in6 addr port = [10, 0] @ port @ replicate 4 0 @ addr @ replicate 4 0"

section \<open>The outside world\<close>

definition emit :: "io_event list \<Rightarrow> dht \<Rightarrow> dht" where
  "emit evs s = s\<lparr>trace := trace s @ evs\<rparr>"

definition c_random :: "dht \<Rightarrow> nat \<times> dht" where
  "c_random s = (rng s 0, s\<lparr>rng := (\<lambda>i. rng s (Suc i))\<rparr>)"

definition c_alloc :: "dht \<Rightarrow> bool \<times> dht" where
  "c_alloc s = (mem_ok s 0, s\<lparr>mem_ok := (\<lambda>i. mem_ok s (Suc i))\<rparr>)"

text \<open>The loop of \<open>dht_random_bytes\<close> of \<open>kademlia.c\<close>; \<open>EWOULDBLOCK\<close> is \<open>EAGAIN\<close>, which is tried again.\<close>

fun random_read :: "nat \<Rightarrow> rand_read list \<Rightarrow> (nat \<Rightarrow> byte) \<Rightarrow> bytes \<Rightarrow> int \<Rightarrow> int \<times> bytes" where
  "random_read n0 [] more0 buf rc =
     (if length buf < n0 then (int n0, buf @ map more0 [0..<n0 - length buf])
      else (if length buf > 0 \<and> rc \<ge> 0 then int (length buf) else rc, buf))"
| "random_read n0 (r # rs) more0 buf rc =
     (if length buf < n0 then
        case r of
          Rand_bytes b \<Rightarrow> let got = take (n0 - length buf) b in random_read n0 rs more0 (buf @ got) (int (length got))
        | Rand_retry \<Rightarrow> random_read n0 rs more0 buf (- 1)
        | Rand_fail \<Rightarrow> (- 1, buf)
      else (if length buf > 0 \<and> rc \<ge> 0 then int (length buf) else rc, buf))"

definition dht_random_bytes :: "nat \<Rightarrow> dht \<Rightarrow> (int \<times> bytes) \<times> dht" where
  "dht_random_bytes n0 s =
     (let f = urandom s 0
      in (if ur_fd f < 0 then (ur_fd f, []) else random_read n0 (ur_reads f) (ur_more f) [] 0, s\<lparr>urandom := (\<lambda>i. urandom s (Suc i))\<rparr>))"

definition dht_blacklisted :: "bytes \<Rightarrow> bool" where
  "dht_blacklisted sa = False"

text \<open>\<open>dht_hash\<close>: SHA-256 of the concatenation, truncated or zero-padded to
  \<open>hash_size\<close>; nothing is written when there is no input, no room, no memory for the
  input or the hash fails (\<open>None\<close> of \<open>sha\<close> covers the last two).\<close>

definition dht_hash :: "(bytes \<Rightarrow> bytes option) \<Rightarrow> bytes \<Rightarrow> bytes \<Rightarrow> bytes \<Rightarrow> bytes \<Rightarrow> bytes" where
  "dht_hash sha hash_return v1 v2 v3 =
     (let hash_size = length hash_return; inp = v1 @ v2 @ v3
      in if hash_size = 0 \<or> inp = [] then hash_return
         else case sha inp of
                None \<Rightarrow> hash_return
              | Some out \<Rightarrow> take hash_size out @ replicate (hash_size - 32) 0)"

section \<open>The bucket tables of the two families\<close>

definition get_buckets :: "int \<Rightarrow> dht \<Rightarrow> bucket list" where
  "get_buckets af s = (if af = AF_INET then buckets s else buckets6 s)"

definition set_buckets :: "int \<Rightarrow> bucket list \<Rightarrow> dht \<Rightarrow> dht" where
  "set_buckets af bs s = (if af = AF_INET then s\<lparr>buckets := bs\<rparr> else s\<lparr>buckets6 := bs\<rparr>)"

section \<open>Basic lemmas\<close>

lemmas world_defs = emit_def c_random_def c_alloc_def dht_random_bytes_def

lemma get_set_buckets [simp]:
  "get_buckets af (set_buckets af' bs s) =
     (if (af = AF_INET) = (af' = AF_INET) then bs else get_buckets af s)"
  by (simp add: get_buckets_def set_buckets_def)

lemma set_buckets_get [simp]: "set_buckets af (get_buckets af s) s = s"
  by (simp add: get_buckets_def set_buckets_def)

lemma af_distinct [simp]: "AF_INET \<noteq> AF_INET6" "AF_INET6 \<noteq> AF_INET"
  by (simp_all add: AF_INET_def AF_INET6_def)

lemma sa_family_memcpy: "2 \<le> length sa \<Longrightarrow> sa_family (memcpy ss sa) = sa_family sa"
proof -
  assume "2 \<le> length sa"
  then have "0 < length sa" and "1 < length sa" by linarith+
  then have e: "byte_at (memcpy ss sa) 0 = byte_at sa 0" "byte_at (memcpy ss sa) 1 = byte_at sa 1"
    by (simp_all only: byte_at_memcpy)
  show ?thesis unfolding sa_family_def e ..
qed

lemma sa_family_clear [simp]: "sa_family (clear_family ss) = 0"
  by (simp add: sa_family_def clear_family_def memcpy_def byte_at_def)

lemma length_clear_family [simp]: "2 \<le> length ss \<Longrightarrow> length (clear_family ss) = length ss"
  by (simp add: clear_family_def)

lemma sa_family_mk_in [simp]: "sa_family (mk_sockaddr_in addr port) = AF_INET"
  by (simp add: sa_family_def mk_sockaddr_in_def byte_at_def AF_INET_def)

lemma sa_family_mk_in6 [simp]: "sa_family (mk_sockaddr_in6 addr port) = AF_INET6"
  by (simp add: sa_family_def mk_sockaddr_in6_def byte_at_def AF_INET6_def)

lemma length_zeroes [simp]: "length zeroes = 20"
  by (simp add: zeroes_def)

end
