(* ===== verification/Dht_Send.thy ===== *)
theory Dht_Send
  imports Dht_State
begin

text \<open>
  Outgoing messages of the DHT (\<open>src/routing/dht.c\<close>): transaction ids, the
  blacklist test, \<open>dht_send\<close> and one builder per message. The builders follow the
  \<open>snprintf\<close>/\<open>INC\<close>/\<open>COPY\<close> macros: a message that does not fit its buffer is not
  sent (\<open>None\<close>), and a formatted piece that ends exactly at the end of the buffer
  has its last character replaced by the NUL that \<open>snprintf\<close> writes.
\<close>

section \<open>Transaction ids\<close>

definition le16 :: "16 word \<Rightarrow> bytes" where
  "le16 w = [ucast w, ucast (drop_bit 8 w)]"

definition un_le16 :: "bytes \<Rightarrow> 16 word" where
  "un_le16 bs = ucast (byte_at bs 0) OR push_bit 8 (ucast (byte_at bs 1))"

text \<open>\<open>htons\<close> stored to memory: most significant byte first.\<close>

definition be16 :: "16 word \<Rightarrow> bytes" where
  "be16 w = [ucast (drop_bit 8 w), ucast w]"

definition make_tid :: "string \<Rightarrow> 16 word \<Rightarrow> bytes" where
  "make_tid prefix seqno = take 2 (bstr prefix) @ le16 seqno"

definition tid_match :: "bytes \<Rightarrow> string \<Rightarrow> 16 word option" where
  "tid_match tid prefix =
     (if byte_at tid 0 = byte_at (bstr prefix) 0 \<and> byte_at tid 1 = byte_at (bstr prefix) 1
      then Some (un_le16 (drop 2 tid)) else None)"

section \<open>Sending\<close>

definition node_blacklisted :: "bytes \<Rightarrow> dht \<Rightarrow> bool" where
  "node_blacklisted sa s =
     (dht_blacklisted sa \<or> (\<exists>b\<in>set (blacklist s). memcmp b sa (length sa) = 0))"

text \<open>The \<open>abort()\<close> of \<open>node_blacklisted\<close> on an address longer than
  \<open>struct sockaddr_storage\<close>.\<close>

definition salen_check :: "bytes \<Rightarrow> io_event list" where
  "salen_check sa = (if length sa > SOCKADDR_STORAGE then [Abort] else [])"

definition dht_send :: "bytes \<Rightarrow> int \<Rightarrow> bytes \<Rightarrow> dht \<Rightarrow> int \<times> dht" where
  "dht_send buf flags sa s =
     (if length sa = 0 then (- 1, emit [Abort] s)
      else if length sa > SOCKADDR_STORAGE then (- 1, emit [Abort] s)
      else if node_blacklisted sa s then (- 1, s)
      else
        let sock = (if sa_family sa = AF_INET then dht_socket s
                    else if sa_family sa = AF_INET6 then dht_socket6 s else - 1)
        in if sock < 0 then (- 1, s)
           else (sendto_ret s (length (trace s)), emit [Send buf flags sa] s))"

section \<open>Message buffers\<close>

definition put_fmt :: "nat \<Rightarrow> bytes \<Rightarrow> bytes option \<Rightarrow> bytes option" where
  "put_fmt bufsz str acc =
     (case acc of
        None \<Rightarrow> None
      | Some buf \<Rightarrow>
          if length buf + length str > bufsz then None
          else if length buf + length str = bufsz \<and> str \<noteq> [] then Some (buf @ butlast str @ [0])
          else Some (buf @ str))"

definition put_copy :: "nat \<Rightarrow> bytes \<Rightarrow> bytes option \<Rightarrow> bytes option" where
  "put_copy bufsz src acc =
     (case acc of
        None \<Rightarrow> None
      | Some buf \<Rightarrow> if length buf + length src > bufsz then None else Some (buf @ src))"

definition add_v :: "dht \<Rightarrow> nat \<Rightarrow> bytes option \<Rightarrow> bytes option" where
  "add_v s bufsz acc = (if have_v s then put_copy bufsz (my_v s) acc else acc)"

text \<open>\<open>%d\<close> and \<open>%u\<close>.\<close>

fun dec_digits :: "nat \<Rightarrow> bytes" where
  "dec_digits n =
     (if n < 10 then [of_nat (48 + n)] else dec_digits (n div 10) @ [of_nat (48 + n mod 10)])"

declare dec_digits.simps [simp del]

definition want_list :: "int \<Rightarrow> bytes" where
  "want_list want =
     bstr ''4:wantl'' @ (if want AND WANT4 \<noteq> 0 then bstr ''2:n4'' else []) @
     (if want AND WANT6 \<noteq> 0 then bstr ''2:n6'' else []) @ bstr ''e''"

definition send_built :: "bytes option \<Rightarrow> int \<Rightarrow> bytes \<Rightarrow> dht \<Rightarrow> int \<times> dht" where
  "send_built msg flags sa s =
     (case msg of None \<Rightarrow> (- 1, s) | Some buf \<Rightarrow> dht_send buf flags sa s)"

section \<open>The messages\<close>

definition ping_msg :: "dht \<Rightarrow> bytes \<Rightarrow> bytes option" where
  "ping_msg s tid =
     put_fmt 512 (bstr ''1:y1:qe'') (add_v s 512 (put_copy 512 tid
       (put_fmt 512 (bstr ''e1:q4:ping1:t'' @ dec_digits (length tid) @ bstr '':'')
       (put_copy 512 (myid s) (put_fmt 512 (bstr ''d1:ad2:id20:'') (Some []))))))"

definition send_ping :: "bytes \<Rightarrow> bytes \<Rightarrow> dht \<Rightarrow> int \<times> dht" where
  "send_ping sa tid s = send_built (ping_msg s tid) MSG_NOSIGNAL sa s"

definition pong_msg :: "dht \<Rightarrow> bytes \<Rightarrow> bytes option" where
  "pong_msg s tid =
     put_fmt 512 (bstr ''1:y1:re'') (add_v s 512 (put_copy 512 tid
       (put_fmt 512 (bstr ''e1:t'' @ dec_digits (length tid) @ bstr '':'')
       (put_copy 512 (myid s) (put_fmt 512 (bstr ''d1:rd2:id20:'') (Some []))))))"

definition send_pong :: "bytes \<Rightarrow> bytes \<Rightarrow> dht \<Rightarrow> int \<times> dht" where
  "send_pong sa tid s = send_built (pong_msg s tid) 0 sa s"

definition find_node_msg :: "dht \<Rightarrow> bytes \<Rightarrow> dht_id \<Rightarrow> int \<Rightarrow> bytes option" where
  "find_node_msg s tid target want =
     (let m = put_copy 512 target (put_fmt 512 (bstr ''6:target20:'')
                (put_copy 512 (myid s) (put_fmt 512 (bstr ''d1:ad2:id20:'') (Some []))));
          m = (if want > 0 then put_fmt 512 (want_list want) m else m)
      in put_fmt 512 (bstr ''1:y1:qe'') (add_v s 512 (put_copy 512 tid
           (put_fmt 512 (bstr ''e1:q9:find_node1:t'' @ dec_digits (length tid) @ bstr '':'') m))))"

definition send_find_node :: "bytes \<Rightarrow> bytes \<Rightarrow> dht_id \<Rightarrow> int \<Rightarrow> bool \<Rightarrow> dht \<Rightarrow> int \<times> dht" where
  "send_find_node sa tid target want confirm s =
     send_built (find_node_msg s tid target want) (if confirm then MSG_CONFIRM else 0) sa s"

definition get_peers_msg :: "dht \<Rightarrow> bytes \<Rightarrow> dht_id \<Rightarrow> int \<Rightarrow> bytes option" where
  "get_peers_msg s tid infohash want =
     (let m = put_copy 512 infohash (put_fmt 512 (bstr ''9:info_hash20:'')
                (put_copy 512 (myid s) (put_fmt 512 (bstr ''d1:ad2:id20:'') (Some []))));
          m = (if want > 0 then put_fmt 512 (want_list want) m else m)
      in put_fmt 512 (bstr ''1:y1:qe'') (add_v s 512 (put_copy 512 tid
           (put_fmt 512 (bstr ''e1:q9:get_peers1:t'' @ dec_digits (length tid) @ bstr '':'') m))))"

definition send_get_peers :: "bytes \<Rightarrow> bytes \<Rightarrow> dht_id \<Rightarrow> int \<Rightarrow> bool \<Rightarrow> dht \<Rightarrow> int \<times> dht" where
  "send_get_peers sa tid infohash want confirm s =
     send_built (get_peers_msg s tid infohash want) (if confirm then MSG_CONFIRM else 0) sa s"

text \<open>As in the source, \<open>confirm\<close> selects the flag the other way round here.\<close>

definition announce_peer_msg :: "dht \<Rightarrow> bytes \<Rightarrow> dht_id \<Rightarrow> 16 word \<Rightarrow> bytes \<Rightarrow> bytes option" where
  "announce_peer_msg s tid infohash port token =
     put_fmt 512 (bstr ''1:y1:qe'') (add_v s 512 (put_copy 512 tid
       (put_fmt 512 (bstr ''e1:q13:announce_peer1:t'' @ dec_digits (length tid) @ bstr '':'')
       (put_copy 512 token
       (put_fmt 512 (bstr ''4:porti'' @ dec_digits (unat port) @ bstr ''e5:token'' @
                     dec_digits (length token) @ bstr '':'')
       (put_copy 512 infohash (put_fmt 512 (bstr ''9:info_hash20:'')
       (put_copy 512 (myid s) (put_fmt 512 (bstr ''d1:ad2:id20:'') (Some []))))))))))"

definition send_announce_peer ::
  "bytes \<Rightarrow> bytes \<Rightarrow> dht_id \<Rightarrow> 16 word \<Rightarrow> bytes \<Rightarrow> bool \<Rightarrow> dht \<Rightarrow> int \<times> dht" where
  "send_announce_peer sa tid infohash port token confirm s =
     send_built (announce_peer_msg s tid infohash port token)
       (if confirm then 0 else MSG_CONFIRM) sa s"

definition peer_announced_msg :: "dht \<Rightarrow> bytes \<Rightarrow> bytes option" where
  "peer_announced_msg s tid =
     put_fmt 512 (bstr ''1:y1:re'') (add_v s 512 (put_copy 512 tid
       (put_fmt 512 (bstr ''e1:t'' @ dec_digits (length tid) @ bstr '':'')
       (put_copy 512 (myid s) (put_fmt 512 (bstr ''d1:rd2:id20:'') (Some []))))))"

definition send_peer_announced :: "bytes \<Rightarrow> bytes \<Rightarrow> dht \<Rightarrow> int \<times> dht" where
  "send_peer_announced sa tid s = send_built (peer_announced_msg s tid) 0 sa s"

definition error_msg :: "dht \<Rightarrow> bytes \<Rightarrow> nat \<Rightarrow> string \<Rightarrow> bytes option" where
  "error_msg s tid code message =
     put_fmt 512 (bstr ''1:y1:ee'') (add_v s 512 (put_copy 512 tid
       (put_fmt 512 (bstr ''e1:t'' @ dec_digits (length tid) @ bstr '':'')
       (put_copy 512 (bstr message)
       (put_fmt 512 (bstr ''d1:eli'' @ dec_digits code @ bstr ''e'' @
                     dec_digits (length message) @ bstr '':'') (Some []))))))"

definition send_error :: "bytes \<Rightarrow> bytes \<Rightarrow> nat \<Rightarrow> string \<Rightarrow> dht \<Rightarrow> int \<times> dht" where
  "send_error sa tid code message s = send_built (error_msg s tid code message) 0 sa s"

text \<open>The circular walk over the peers of \<open>send_nodes_peers\<close>: from index \<open>j\<close> until it is
  back at \<open>j0\<close> or 50 peers of the family are written. Each step moves one index on, so as
  many rounds as there are peers are enough.\<close>

fun put_peers :: "nat \<Rightarrow> peer list \<Rightarrow> nat \<Rightarrow> nat \<Rightarrow> nat \<Rightarrow> nat \<Rightarrow> bytes option \<Rightarrow> bytes option" where
  "put_peers 0 ps len j0 j k acc = acc"
| "put_peers (Suc n) ps len j0 j k acc =
     (let p = ps ! j; hit = (length (pr_ip p) = len);
          acc' = (if hit then put_copy 2048 (be16 (pr_port p)) (put_copy 2048 (pr_ip p)
                     (put_fmt 2048 (dec_digits (len + 2) @ bstr '':'') acc)) else acc);
          k' = (if hit then k + 1 else k);
          j' = (j + 1) mod length ps
      in if j' \<noteq> j0 \<and> k' < 50 then put_peers n ps len j0 j' k' acc' else acc')"

definition nodes_peers_head :: "dht \<Rightarrow> bytes \<Rightarrow> bytes \<Rightarrow> bytes \<Rightarrow> bytes option" where
  "nodes_peers_head s nodes nodes6 token =
     (let m = put_copy 2048 (myid s) (put_fmt 2048 (bstr ''d1:rd2:id20:'') (Some []));
          m = (if length nodes > 0 then put_copy 2048 nodes
                 (put_fmt 2048 (bstr ''5:nodes'' @ dec_digits (length nodes) @ bstr '':'') m) else m);
          m = (if length nodes6 > 0 then put_copy 2048 nodes6
                 (put_fmt 2048 (bstr ''6:nodes6'' @ dec_digits (length nodes6) @ bstr '':'') m) else m)
      in if length token > 0 then put_copy 2048 token
           (put_fmt 2048 (bstr ''5:token'' @ dec_digits (length token) @ bstr '':'') m) else m)"

definition nodes_peers_values :: "int \<Rightarrow> peer list \<Rightarrow> nat \<Rightarrow> bytes option \<Rightarrow> bytes option" where
  "nodes_peers_values af peers rnd m =
     (let len = (if af = AF_INET then 4 else 16); j0 = rnd mod length peers
      in put_fmt 2048 (bstr ''e'')
           (put_peers (length peers) peers len j0 j0 0 (put_fmt 2048 (bstr ''6:valuesl'') m)))"

definition nodes_peers_tail :: "dht \<Rightarrow> bytes \<Rightarrow> bytes option \<Rightarrow> bytes option" where
  "nodes_peers_tail s tid m =
     put_fmt 2048 (bstr ''1:y1:re'') (add_v s 2048 (put_copy 2048 tid
       (put_fmt 2048 (bstr ''e1:t'' @ dec_digits (length tid) @ bstr '':'') m)))"

text \<open>\<open>st == NULL\<close> and an empty storage both skip the values, and only a non-empty one
  draws a random number.\<close>

definition send_nodes_peers ::
  "bytes \<Rightarrow> bytes \<Rightarrow> bytes \<Rightarrow> bytes \<Rightarrow> int \<Rightarrow> storage_t option \<Rightarrow> bytes \<Rightarrow> dht \<Rightarrow> int \<times> dht" where
  "send_nodes_peers sa tid nodes nodes6 af st token s =
     (case nodes_peers_head s nodes nodes6 token of
        None \<Rightarrow> (- 1, s)
      | Some m \<Rightarrow>
          (case st of
             Some t \<Rightarrow>
               if st_peers t \<noteq> [] then
                 (let (r, s') = c_random s
                  in send_built (nodes_peers_tail s tid
                       (nodes_peers_values af (st_peers t) r (Some m))) 0 sa s')
               else send_built (nodes_peers_tail s tid (Some m)) 0 sa s
           | None \<Rightarrow> send_built (nodes_peers_tail s tid (Some m)) 0 sa s))"

section \<open>What sending changes\<close>

text \<open>Sending appends to the trace and changes nothing else.\<close>

definition send_evs :: "bytes option \<Rightarrow> int \<Rightarrow> bytes \<Rightarrow> dht \<Rightarrow> io_event list" where
  "send_evs msg flags sa s =
     (case msg of
        None \<Rightarrow> []
      | Some buf \<Rightarrow>
          if length sa = 0 \<or> length sa > SOCKADDR_STORAGE then [Abort]
          else if node_blacklisted sa s \<or>
             (if sa_family sa = AF_INET then dht_socket s
              else if sa_family sa = AF_INET6 then dht_socket6 s else - 1) < 0 then []
          else [Send buf flags sa])"

lemma snd_send_built [frame_simps]: "snd (send_built msg flags sa s) = emit (send_evs msg flags sa s) s"
  by (auto simp: send_built_def dht_send_def send_evs_def emit_def Let_def split: option.splits)

lemmas send_defs = send_ping_def send_pong_def send_find_node_def send_get_peers_def
  send_announce_peer_def send_peer_announced_def send_error_def

declare send_defs [frame_simps] emit_def [frame_simps]

end
