(* ===== verification/Dht_Table.thy ===== *)
theory Dht_Table
  imports Dht_Send
begin

text \<open>
  The routing table of the DHT (\<open>src/routing/dht.c\<close>): sorted buckets that
  partition the identifier space, up to 8 nodes each. Modelled: lookup of buckets and
  nodes, the middle and a random id of a bucket, pings, splitting, \<open>new_node\<close> (learning
  about a node) and expiry. A node pointer is a position \<open>(i, j)\<close>: node \<open>j\<close> of bucket \<open>i\<close>.
\<close>

section \<open>Lookup\<close>

definition in_bucket :: "dht_id \<Rightarrow> bucket list \<Rightarrow> nat \<Rightarrow> bool" where
  "in_bucket nid bs i =
     (id_cmp (bk_first (bs ! i)) nid \<le> 0 \<and>
      (Suc i \<ge> length bs \<or> id_cmp nid (bk_first (bs ! Suc i)) < 0))"

fun find_idx :: "dht_id \<Rightarrow> bucket list \<Rightarrow> nat" where
  "find_idx nid (b # c # bs) =
     (if id_cmp nid (bk_first c) < 0 then 0 else Suc (find_idx nid (c # bs)))"
| "find_idx nid bs = 0"

definition find_bucket :: "dht_id \<Rightarrow> int \<Rightarrow> dht \<Rightarrow> nat option" where
  "find_bucket nid af s =
     (if get_buckets af s = [] then None else Some (find_idx nid (get_buckets af s)))"

definition previous_bucket :: "nat \<Rightarrow> nat option" where
  "previous_bucket i = (if i = 0 then None else Some (i - 1))"

definition find_node :: "dht_id \<Rightarrow> int \<Rightarrow> dht \<Rightarrow> (nat \<times> nat) option" where
  "find_node nid af s =
     (case find_bucket nid af s of
        None \<Rightarrow> None
      | Some i \<Rightarrow>
          map_option (\<lambda>j. (i, j))
            (find_index (\<lambda>n. id_cmp (nd_id n) nid = 0) (bk_nodes (get_buckets af s ! i))))"

definition random_node :: "bucket \<Rightarrow> dht \<Rightarrow> nat option \<times> dht" where
  "random_node b s =
     (if bk_count b = 0 then (None, s)
      else let (r, s') = c_random s; nn = nat (int r mod bk_count b)
           in (if nn < length (bk_nodes b) then Some nn else None, s'))"

definition bucket_bit :: "bucket list \<Rightarrow> nat \<Rightarrow> int" where
  "bucket_bit bs i =
     (let bit1 = lowbit (bk_first (bs ! i));
          bit2 = (if Suc i < length bs then lowbit (bk_first (bs ! Suc i)) else - 1)
      in max bit1 bit2 + 1)"

definition bucket_middle :: "bucket list \<Rightarrow> nat \<Rightarrow> dht_id option" where
  "bucket_middle bs i =
     (let bt = bucket_bit bs i; first = bk_first (bs ! i)
      in if bt \<ge> 160 then None
         else let k = nat bt
              in Some (first[k div 8 := byte_at first (k div 8) OR drop_bit (k mod 8) 0x80]))"

fun random_tail :: "nat \<Rightarrow> dht \<Rightarrow> bytes \<times> dht" where
  "random_tail 0 s = ([], s)"
| "random_tail (Suc n) s =
     (let (r, s1) = c_random s; (rest, s2) = random_tail n s1 in (of_nat r # rest, s2))"

definition bucket_random :: "bucket list \<Rightarrow> nat \<Rightarrow> dht \<Rightarrow> dht_id \<times> dht" where
  "bucket_random bs i s =
     (let bt = bucket_bit bs i; first = bk_first (bs ! i)
      in if bt \<ge> 160 then (first, s)
         else let k = nat bt; (r, s1) = c_random s;
                  mid = (byte_at first (k div 8) AND ucast (drop_bit (k mod 8) (0xFF00 :: 16 word)))
                        OR (of_nat r AND drop_bit (k mod 8) 0xFF);
                  (rest, s2) = random_tail (19 - k div 8) s1
              in (take (k div 8) first @ mid # rest, s2))"

section \<open>Updates\<close>

definition upd_bucket :: "int \<Rightarrow> nat \<Rightarrow> (bucket \<Rightarrow> bucket) \<Rightarrow> dht \<Rightarrow> dht" where
  "upd_bucket af i f s =
     set_buckets af ((get_buckets af s)[i := f (get_buckets af s ! i)]) s"

definition upd_node :: "int \<Rightarrow> nat \<Rightarrow> nat \<Rightarrow> (node \<Rightarrow> node) \<Rightarrow> dht \<Rightarrow> dht" where
  "upd_node af i j f =
     upd_bucket af i (\<lambda>b. b\<lparr>bk_nodes := (bk_nodes b)[j := f (bk_nodes b ! j)]\<rparr>)"

definition insert_node :: "node \<Rightarrow> dht \<Rightarrow> bool \<times> dht" where
  "insert_node n s =
     (let af = sa_family (nd_ss n)
      in case find_bucket (nd_id n) af s of
           None \<Rightarrow> (False, s)
         | Some i \<Rightarrow>
             (True, upd_bucket af i
                (\<lambda>b. b\<lparr>bk_nodes := n # bk_nodes b, bk_count := bk_count b + 1\<rparr>) s))"

definition node_good :: "node \<Rightarrow> dht \<Rightarrow> bool" where
  "node_good n s =
     (nd_pinged n \<le> 2 \<and> nd_reply_time n \<ge> now s - 7200 \<and> nd_time n \<ge> now s - 900)"

definition send_cached_ping :: "int \<Rightarrow> nat \<Rightarrow> dht \<Rightarrow> dht" where
  "send_cached_ping af i s =
     (let b = get_buckets af s ! i
      in if sa_family (bk_cached b) = 0 then s
         else upd_bucket af i (\<lambda>b. b\<lparr>bk_cached := clear_family (bk_cached b), bk_cachedlen := 0\<rparr>)
                (snd (send_ping (take (bk_cachedlen b) (bk_cached b)) (make_tid ''pn'' 0) s)))"

definition pinged :: "int \<Rightarrow> nat \<Rightarrow> nat \<Rightarrow> nat option \<Rightarrow> dht \<Rightarrow> dht" where
  "pinged af i j b s =
     (let s1 = upd_node af i j
                 (\<lambda>n. n\<lparr>nd_pinged := nd_pinged n + 1, nd_pinged_time := now s\<rparr>) s;
          n = bk_nodes (get_buckets af s1 ! i) ! j
      in if nd_pinged n \<ge> 3 then
           (case b of
              Some k \<Rightarrow> send_cached_ping af k s1
            | None \<Rightarrow>
                (let af' = sa_family (nd_ss n)
                 in case find_bucket (nd_id n) af' s1 of
                      None \<Rightarrow> emit [Fault] s1
                    | Some k \<Rightarrow> send_cached_ping af' k s1))
         else s1)"

definition split_bucket :: "int \<Rightarrow> nat \<Rightarrow> dht \<Rightarrow> bool \<times> dht" where
  "split_bucket af i s =
     (case bucket_middle (get_buckets af s) i of
        None \<Rightarrow> (False, s)
      | Some new_id \<Rightarrow>
          let (ok, s1) = c_alloc s
          in if \<not> ok then (False, s1)
             else
               let s2 = send_cached_ping af i s1;
                   bs = get_buckets af s2; b = bs ! i;
                   new = \<lparr>bk_af = bk_af b, bk_first = new_id, bk_count = 0, bk_time = bk_time b,
                          bk_nodes = [], bk_cached = replicate SOCKADDR_STORAGE 0,
                          bk_cachedlen = 0\<rparr>;
                   s3 = set_buckets af
                          (take i bs @ [b\<lparr>bk_nodes := [], bk_count := 0\<rparr>, new] @ drop (Suc i) bs) s2
               in (True, fold (\<lambda>n s. snd (insert_node n s)) (bk_nodes b) s3))"

text \<open>The bucket is full: ping the first dubious node not pinged in the last 15 seconds.\<close>

definition ping_dubious :: "int \<Rightarrow> nat \<Rightarrow> dht \<Rightarrow> bool \<times> dht" where
  "ping_dubious af i s =
     (let ns = bk_nodes (get_buckets af s ! i);
          dubious = (\<exists>n\<in>set ns. \<not> node_good n s)
      in case find_index (\<lambda>n. \<not> node_good n s \<and> nd_pinged_time n < now s - 15) ns of
           None \<Rightarrow> (dubious, s)
         | Some j \<Rightarrow>
             (dubious,
              upd_node af i j (\<lambda>n. n\<lparr>nd_pinged := nd_pinged n + 1, nd_pinged_time := now s\<rparr>)
                (snd (send_ping (take (nd_sslen (ns ! j)) (nd_ss (ns ! j))) (make_tid ''pn'' 0) s))))"

text \<open>\<open>new_node\<close> and its pieces: the time stamp of the bucket, the refresh of a known node, the
  reuse of a bad one, a new one, and what happens in a full bucket. \<open>confirm\<close> is 0, 1 or 2;
  \<open>None\<close> means that the function never returns.\<close>

definition touch_bucket :: "int \<Rightarrow> nat \<Rightarrow> nat \<Rightarrow> dht \<Rightarrow> dht" where
  "touch_bucket af i confirm s =
     (if confirm = 2 then upd_bucket af i (\<lambda>b. b\<lparr>bk_time := now s\<rparr>) s else s)"

definition refresh_node :: "bytes \<Rightarrow> nat \<Rightarrow> dht \<Rightarrow> node \<Rightarrow> node" where
  "refresh_node sa confirm s n =
     (if confirm \<noteq> 0 \<or> nd_time n < now s - 15 * 60 then
        (let n = n\<lparr>nd_ss := memcpy (nd_ss n) sa\<rparr>;
             n = (if confirm \<noteq> 0 then n\<lparr>nd_time := now s\<rparr> else n)
         in if confirm \<ge> 2 then n\<lparr>nd_reply_time := now s, nd_pinged := 0, nd_pinged_time := 0\<rparr>
            else n)
      else n)"

definition replace_node :: "dht_id \<Rightarrow> bytes \<Rightarrow> nat \<Rightarrow> dht \<Rightarrow> node \<Rightarrow> node" where
  "replace_node nid sa confirm s n =
     n\<lparr>nd_id := nid, nd_ss := memcpy (nd_ss n) sa,
       nd_time := (if confirm \<noteq> 0 then now s else 0),
       nd_reply_time := (if confirm \<ge> 2 then now s else 0),
       nd_pinged_time := 0, nd_pinged := 0\<rparr>"

definition fresh_node :: "dht_id \<Rightarrow> bytes \<Rightarrow> nat \<Rightarrow> dht \<Rightarrow> node" where
  "fresh_node nid sa confirm s =
     \<lparr>nd_id = nid, nd_ss = memcpy (replicate SOCKADDR_STORAGE 0) sa, nd_sslen = length sa,
      nd_time = (if confirm \<noteq> 0 then now s else 0),
      nd_reply_time = (if confirm \<ge> 2 then now s else 0),
      nd_pinged_time = 0, nd_pinged = 0\<rparr>"

definition grow_time :: "int \<Rightarrow> bool \<Rightarrow> dht \<Rightarrow> dht" where
  "grow_time af mybucket s =
     (if mybucket then
        (if af = AF_INET then s\<lparr>mybucket_grow_time := now s\<rparr>
         else s\<lparr>mybucket6_grow_time := now s\<rparr>)
      else s)"

definition split_wanted :: "int \<Rightarrow> nat \<Rightarrow> bool \<Rightarrow> bool \<Rightarrow> dht \<Rightarrow> bool" where
  "split_wanted af i mybucket dubious s =
     (mybucket \<and>
      (\<not> dubious \<or>
       (bk_af (get_buckets af s ! i) = AF_INET \<and> length (buckets s) = 1) \<or>
       (bk_af (get_buckets af s ! i) = AF_INET6 \<and> length (buckets6 s) = 1)))"

definition cache_candidate :: "int \<Rightarrow> nat \<Rightarrow> bytes \<Rightarrow> nat \<Rightarrow> dht \<Rightarrow> dht" where
  "cache_candidate af i sa confirm s =
     (if confirm \<noteq> 0 \<or> sa_family (bk_cached (get_buckets af s ! i)) = 0
      then upd_bucket af i (\<lambda>b. b\<lparr>bk_cached := memcpy (bk_cached b) sa, bk_cachedlen := length sa\<rparr>) s
      else s)"

partial_function (option) new_node ::
  "dht_id \<Rightarrow> bytes \<Rightarrow> nat \<Rightarrow> dht \<Rightarrow> (bool \<times> dht) option" where
  "new_node nid sa confirm s =
     (let af = sa_family sa
      in case find_bucket nid af s of
           None \<Rightarrow> Some (False, s)
         | Some i \<Rightarrow>
             if id_cmp nid (myid s) = 0 then Some (False, s)
             else if is_martian sa then Some (False, s)
             else if length sa > SOCKADDR_STORAGE then Some (False, emit [Abort] s)
             else if node_blacklisted sa s then Some (False, s)
             else
               let mybucket = in_bucket (myid s) (get_buckets af s) i;
                   s1 = touch_bucket af i confirm s;
                   ns = bk_nodes (get_buckets af s1 ! i)
               in case find_index (\<lambda>n. id_cmp (nd_id n) nid = 0) ns of
                    Some j \<Rightarrow> Some (True, upd_node af i j (refresh_node sa confirm s) s1)
                  | None \<Rightarrow>
                      let s2 = grow_time af mybucket s1
                      in case find_index (\<lambda>n. nd_pinged n \<ge> 3 \<and> nd_pinged_time n < now s - 15) ns of
                           Some j \<Rightarrow> Some (True, upd_node af i j (replace_node nid sa confirm s) s2)
                         | None \<Rightarrow>
                             if bk_count (get_buckets af s2 ! i) \<ge> 8 then
                               (let (dubious, s3) = ping_dubious af i s2
                                in if split_wanted af i mybucket dubious s3
                                   then new_node nid sa confirm (snd (split_bucket af i s3))
                                   else Some (False, cache_candidate af i sa confirm s3))
                             else
                               (let (ok, s3) = c_alloc s2
                                in if \<not> ok then Some (False, s3)
                                   else Some (True, upd_bucket af i
                                     (\<lambda>b. b\<lparr>bk_nodes := fresh_node nid sa confirm s # bk_nodes b,
                                            bk_count := bk_count b + 1\<rparr>) s3)))"

section \<open>Expiry\<close>

text \<open>The two deletion loops of \<open>expire_buckets\<close>: at the head of the list, then after each
  surviving node.\<close>

function expire_after :: "node list \<Rightarrow> node list" where
  "expire_after [] = []"
| "expire_after (p # ns) = p # expire_after (dropWhile (\<lambda>n. nd_pinged n \<ge> 4) ns)"
  by pat_completeness auto
termination
  by (relation "measure length") (auto simp: le_imp_less_Suc length_dropWhile_le)

definition expire_nodes :: "node list \<Rightarrow> node list" where
  "expire_nodes ns = expire_after (dropWhile (\<lambda>n. nd_pinged n \<ge> 4) ns)"

definition expire_bucket :: "int \<Rightarrow> nat \<Rightarrow> dht \<Rightarrow> dht" where
  "expire_bucket af i s =
     (let b = get_buckets af s ! i; ns = expire_nodes (bk_nodes b);
          removed = length (bk_nodes b) - length ns;
          s1 = upd_bucket af i (\<lambda>b. b\<lparr>bk_nodes := ns, bk_count := bk_count b - int removed\<rparr>) s
      in if removed > 0 then send_cached_ping af i s1 else s1)"

definition expire_buckets :: "int \<Rightarrow> dht \<Rightarrow> dht" where
  "expire_buckets af s =
     (let s1 = fold (expire_bucket af) [0..<length (get_buckets af s)] s; (r, s2) = c_random s1
      in s2\<lparr>expire_stuff_time := now s2 + 120 + int (r mod 240)\<rparr>)"

end
