(* ===== verification/Dht_Routing.thy ===== *)
theory Dht_Routing
  imports Dht_Table
begin

text \<open>
  Correctness of the routing table of \<open>Dht_Table\<close>. The invariant \<open>table_inv\<close> says
  that the buckets partition the 160-bit identifier space into aligned blocks of a power
  of two, that every node lies in the block of its bucket, and that a bucket holds at most
  8 nodes with distinct identifiers. Every operation keeps it; \<open>find_bucket\<close> finds the block
  of an identifier, \<open>split_bucket\<close> halves a block and \<open>new_node\<close> terminates.
\<close>

section \<open>The invariant\<close>

definition id_space :: nat where
  "id_space = 2 ^ 160"

definition blo :: "bucket list \<Rightarrow> nat \<Rightarrow> nat" where
  "blo bs i = be_val (bk_first (bs ! i))"

definition bhi :: "bucket list \<Rightarrow> nat \<Rightarrow> nat" where
  "bhi bs i = (if Suc i < length bs then be_val (bk_first (bs ! Suc i)) else id_space)"

definition dyadic :: "nat \<Rightarrow> nat \<Rightarrow> bool" where
  "dyadic lo hi = (\<exists>k\<in>set [0..<161]. hi = lo + 2 ^ (160 - k) \<and> 2 ^ (160 - k) dvd lo)"

definition node_ok :: "int \<Rightarrow> node \<Rightarrow> bool" where
  "node_ok af n =
     (length (nd_id n) = 20 \<and> length (nd_ss n) = SOCKADDR_STORAGE \<and> sa_family (nd_ss n) = af \<and>
      2 \<le> nd_sslen n \<and> nd_sslen n \<le> SOCKADDR_STORAGE)"

definition bucket_ok :: "int \<Rightarrow> bucket \<Rightarrow> bool" where
  "bucket_ok af b =
     (bk_af b = af \<and> length (bk_first b) = 20 \<and> bk_count b = int (length (bk_nodes b)) \<and>
      length (bk_nodes b) \<le> 8 \<and> distinct (map nd_id (bk_nodes b)) \<and>
      (\<forall>n\<in>set (bk_nodes b). node_ok af n) \<and>
      length (bk_cached b) = SOCKADDR_STORAGE \<and> bk_cachedlen b \<le> SOCKADDR_STORAGE \<and>
      (sa_family (bk_cached b) \<noteq> 0 \<longrightarrow> 2 \<le> bk_cachedlen b))"

definition nodes_within :: "bucket \<Rightarrow> nat \<Rightarrow> nat \<Rightarrow> bool" where
  "nodes_within b lo hi = (\<forall>n\<in>set (bk_nodes b). lo \<le> be_val (nd_id n) \<and> be_val (nd_id n) < hi)"

definition table_inv :: "int \<Rightarrow> bucket list \<Rightarrow> bool" where
  "table_inv af bs =
     ((bs \<noteq> [] \<longrightarrow> blo bs 0 = 0) \<and>
      (\<forall>i<length bs. bucket_ok af (bs ! i) \<and> dyadic (blo bs i) (bhi bs i) \<and>
                     nodes_within (bs ! i) (blo bs i) (bhi bs i)))"

lemma table_invD:
  assumes "table_inv af bs" and "i < length bs"
  shows "bucket_ok af (bs ! i)" and "dyadic (blo bs i) (bhi bs i)"
    and "nodes_within (bs ! i) (blo bs i) (bhi bs i)" and "length (bk_first (bs ! i)) = 20"
  using assms by (auto simp: table_inv_def bucket_ok_def)

lemma dyadicE:
  assumes "dyadic lo hi"
  obtains k where "k \<le> 160" and "hi = lo + 2 ^ (160 - k)" and "2 ^ (160 - k) dvd lo"
proof -
  from assms obtain k where "k \<in> set [0..<161]" "hi = lo + 2 ^ (160 - k)" "2 ^ (160 - k) dvd lo"
    unfolding dyadic_def by blast
  then show thesis by (intro that [of k]) simp_all
qed

lemma dyadic_less: "dyadic lo hi \<Longrightarrow> lo < hi"
  by (auto simp: dyadic_def)

lemma id_val_less: "length nid = 20 \<Longrightarrow> be_val nid < id_space"
proof -
  assume "length nid = 20"
  then have "be_val nid < 256 ^ 20" using be_val_less [of nid] by simp
  also have "(256 :: nat) ^ 20 = (2 ^ 8) ^ 20" by simp
  also have "\<dots> = id_space" by (simp only: id_space_def power_mult [symmetric]) simp
  finally show ?thesis .
qed

lemma blo_less: "table_inv af bs \<Longrightarrow> i < length bs \<Longrightarrow> blo bs i < bhi bs i"
  by (blast intro: dyadic_less dest: table_invD(2))

lemma blo_Suc: "Suc i < length bs \<Longrightarrow> blo bs (Suc i) = bhi bs i"
  by (simp add: blo_def bhi_def)

lemma bhi_le_blo: "table_inv af bs \<Longrightarrow> i < j \<Longrightarrow> j < length bs \<Longrightarrow> bhi bs i \<le> blo bs j"
proof (induction j)
  case (Suc j)
  show ?case
  proof (cases "i = j")
    case True
    then show ?thesis using Suc.prems by (simp add: blo_Suc)
  next
    case False
    then have "bhi bs i \<le> blo bs j" using Suc by simp
    also have "\<dots> < bhi bs j" using Suc.prems by (simp add: blo_less)
    finally show ?thesis using Suc.prems by (simp add: blo_Suc)
  qed
qed simp

section \<open>Finding the bucket of an identifier\<close>

lemma find_idx_less: "bs \<noteq> [] \<Longrightarrow> find_idx nid bs < length bs"
  by (induction nid bs rule: find_idx.induct) auto

lemma find_idx_range:
  "\<forall>b\<in>set bs. length (bk_first b) = 20 \<Longrightarrow> length nid = 20 \<Longrightarrow> bs \<noteq> [] \<Longrightarrow>
   blo bs 0 \<le> be_val nid \<Longrightarrow>
   blo bs (find_idx nid bs) \<le> be_val nid \<and> be_val nid < bhi bs (find_idx nid bs)"
proof (induction nid bs rule: find_idx.induct)
  case (1 nid b c bs)
  show ?case
  proof (cases "id_cmp nid (bk_first c) < 0")
    case True
    with 1 show ?thesis by (simp add: blo_def bhi_def id_cmp_less_iff)
  next
    case False
    with 1 have "blo (c # bs) (find_idx nid (c # bs)) \<le> be_val nid \<and>
      be_val nid < bhi (c # bs) (find_idx nid (c # bs))"
      by (simp add: blo_def id_cmp_less_iff)
    with False show ?thesis by (simp add: blo_def bhi_def split: if_splits)
  qed
qed (auto simp: bhi_def id_val_less)

lemma table_firsts: "table_inv af bs \<Longrightarrow> \<forall>b\<in>set bs. length (bk_first b) = 20"
  by (auto simp: in_set_conv_nth dest: table_invD(4))

lemma find_idx_block:
  assumes "table_inv af bs" and "bs \<noteq> []" and "length nid = 20"
  shows "find_idx nid bs < length bs" and "blo bs (find_idx nid bs) \<le> be_val nid"
    and "be_val nid < bhi bs (find_idx nid bs)"
  using find_idx_range [of bs nid] find_idx_less [of bs nid] assms table_firsts [OF assms(1)]
  by (auto simp: table_inv_def)

lemma block_unique:
  assumes "table_inv af bs" and "i < length bs" and "j < length bs"
    and "blo bs i \<le> v" and "v < bhi bs i" and "blo bs j \<le> v" and "v < bhi bs j"
  shows "i = j"
proof (rule ccontr)
  assume "i \<noteq> j"
  then consider "i < j" | "j < i" by linarith
  then show False
    using bhi_le_blo [of af bs i j] bhi_le_blo [of af bs j i] assms by cases auto
qed

lemma in_bucket_iff:
  assumes "table_inv af bs" and "i < length bs" and "length nid = 20"
  shows "in_bucket nid bs i \<longleftrightarrow> blo bs i \<le> be_val nid \<and> be_val nid < bhi bs i"
proof -
  have "length (bk_first (bs ! i)) = 20" using assms by (blast dest: table_invD(4))
  moreover have "length (bk_first (bs ! Suc i)) = 20" if "Suc i < length bs"
    using assms that by (blast dest: table_invD(4))
  ultimately show ?thesis
    using assms(3) id_val_less [OF assms(3)]
    by (auto simp: in_bucket_def blo_def bhi_def id_cmp_le_iff id_cmp_less_iff)
qed

lemma find_idx_unique:
  assumes "table_inv af bs" and "i < length bs" and "length nid = 20"
  shows "in_bucket nid bs i \<longleftrightarrow> find_idx nid bs = i"
proof -
  have "bs \<noteq> []" using assms(2) by auto
  note * = find_idx_block [OF assms(1) this assms(3)]
  show ?thesis
    using * in_bucket_iff [OF assms] block_unique [OF assms(1) assms(2) *(1)] by blast
qed

section \<open>Updates that stay inside a bucket\<close>

lemma table_inv_update:
  assumes inv: "table_inv af bs" and i: "i < length bs"
    and ok: "bucket_ok af b" and same: "bk_first b = bk_first (bs ! i)"
    and within: "nodes_within b (blo bs i) (bhi bs i)"
  shows "table_inv af (bs[i := b])"
proof -
  have lo: "blo (bs[i := b]) j = blo bs j" for j
    using same i by (cases "j = i") (simp_all add: blo_def)
  have hi: "bhi (bs[i := b]) j = bhi bs j" for j
    using same i by (cases "Suc j = i") (simp_all add: bhi_def)
  show ?thesis
    using inv i ok within by (auto simp: table_inv_def lo hi nth_list_update)
qed

section \<open>The middle of a bucket\<close>

lemma lowbit_multiple:
  assumes len: "length x = 20" and v: "be_val x = m * 2 ^ (160 - k)"
    and k: "1 \<le> k" "k \<le> 160"
  shows "odd m \<Longrightarrow> lowbit x = int k - 1" and "even m \<Longrightarrow> lowbit x < int k - 1"
proof -
  have d0: "2 ^ (160 - k) dvd be_val x" using v by simp
  show "lowbit x = int k - 1" if "odd m"
  proof -
    have nz: "be_val x \<noteq> 0" using that v by (auto elim: oddE)
    obtain j where j: "lowbit x = int j" "j < 160"
      and d: "2 ^ (159 - j) dvd be_val x" "\<not> 2 ^ (160 - j) dvd be_val x"
      using lowbit_dvd [OF len nz] .
    have nd: "\<not> 2 ^ Suc (160 - k) dvd be_val x"
      using that v by simp
    have "\<not> Suc (160 - k) \<le> 159 - j" using nd d(1) by (meson dvd_trans le_imp_power_dvd)
    moreover have "\<not> 160 - j \<le> 160 - k" using d0 d(2) by (meson dvd_trans le_imp_power_dvd)
    ultimately show ?thesis using j k by auto
  qed
  show "lowbit x < int k - 1" if "even m"
  proof (cases "be_val x = 0")
    case True
    then have "lowbit x = - 1" using lowbit_zero [OF len] by simp
    with k show ?thesis by simp
  next
    case False
    obtain j where j: "lowbit x = int j" "j < 160"
      and d: "2 ^ (159 - j) dvd be_val x" "\<not> 2 ^ (160 - j) dvd be_val x"
      using lowbit_dvd [OF len False] .
    have "2 ^ Suc (160 - k) dvd be_val x" using that v by (auto elim!: evenE)
    then have "\<not> 160 - j \<le> Suc (160 - k)" using d(2) by (meson dvd_trans le_imp_power_dvd)
    then show ?thesis using j k by auto
  qed
qed

lemma bucket_bit_eq:
  assumes inv: "table_inv af bs" and i: "i < length bs"
    and k: "k \<le> 160" and hi: "bhi bs i = blo bs i + 2 ^ (160 - k)" and lo: "2 ^ (160 - k) dvd blo bs i"
  shows "bucket_bit bs i = int k"
proof -
  from lo obtain m where m: "blo bs i = m * 2 ^ (160 - k)" by (metis dvd_def mult.commute)
  have f: "length (bk_first (bs ! i)) = 20" using inv i by (rule table_invD(4))
  have nf: "length (bk_first (bs ! Suc i)) = 20" if "Suc i < length bs"
    using inv that by (rule table_invD(4))
  have him: "bhi bs i = Suc m * 2 ^ (160 - k)" using hi m by simp
  show ?thesis
  proof (cases "k = 0")
    case True
    have le: "bhi bs i \<le> id_space"
      using nf id_val_less by (auto simp: bhi_def less_imp_le)
    have "bhi bs i = Suc m * id_space" using him True by (simp only: id_space_def) simp
    with le have "m = 0" by (simp add: id_space_def)
    then have "blo bs i = 0" "bhi bs i = id_space"
      using m True \<open>bhi bs i = Suc m * id_space\<close> by simp_all
    moreover from this have "\<not> Suc i < length bs"
      using nf id_val_less by (fastforce simp: bhi_def)
    ultimately show ?thesis
      using True lowbit_zero [OF f] by (simp add: bucket_bit_def blo_def)
  next
    case False
    then have k1: "1 \<le> k" by simp
    note L = lowbit_multiple [OF f _ k1 k, of m]
    have v: "be_val (bk_first (bs ! i)) = m * 2 ^ (160 - k)" using m by (simp add: blo_def)
    show ?thesis
    proof (cases "Suc i < length bs")
      case True
      have v': "be_val (bk_first (bs ! Suc i)) = Suc m * 2 ^ (160 - k)"
        using him True by (simp add: bhi_def)
      note L' = lowbit_multiple [OF nf [OF True] v' k1 k]
      show ?thesis
        using L [OF v] L' True by (cases "even m") (auto simp: bucket_bit_def Let_def)
    next
      case last: False
      then have "Suc m * 2 ^ (160 - k) = 2 ^ k * 2 ^ (160 - k)"
        using him k by (simp add: bhi_def id_space_def flip: power_add)
      then have "Suc m = 2 ^ k" by (simp only: mult_cancel2) simp
      then have "odd m" using k1 by (metis even_Suc dvd_power not_one_le_zero gr0I)
      with L [OF v] last k1 show ?thesis by (simp add: bucket_bit_def Let_def)
    qed
  qed
qed

lemma be_val_list_update:
  "i < length xs \<Longrightarrow>
   be_val (xs[i := c]) + unat (xs ! i) * 256 ^ (length xs - Suc i) =
   be_val xs + unat c * 256 ^ (length xs - Suc i)"
proof (induction xs arbitrary: i)
  case (Cons x xs)
  then show ?case by (cases i) (auto simp: algebra_simps)
qed simp

text \<open>Setting bit \<open>k\<close> of an identifier whose bits from \<open>k\<close> on are clear adds \<open>2 ^ (159 - k)\<close>.\<close>

lemma set_bit_val:
  assumes len: "length x = 20" and k: "k < 160" and dvd: "2 ^ (160 - k) dvd be_val x"
  defines "i \<equiv> k div 8" and "r \<equiv> k mod 8"
  shows "be_val (x[i := x ! i OR drop_bit r 0x80]) = be_val x + 2 ^ (159 - k)"
proof -
  have i: "i < 20" and r: "r < 8" and ir: "k = 8 * i + r"
    using k by (simp_all add: i_def r_def less_mult_imp_div_less)
  define w :: nat where "w = 256 ^ (19 - i)"
  have wp: "w = 2 ^ (152 - 8 * i)"
    using i by (simp only: w_def pow256 right_diff_distrib') simp
  have val: "be_val x = w * (256 * be_val (take i x) + unat (x ! i)) + be_val (drop (Suc i) x)"
    using be_val_split_at [of i x] i len by (simp add: w_def)
  have split: "(2::nat) ^ (160 - k) = w * 2 ^ (8 - r)"
    using i r unfolding wp ir by (simp flip: power_add)
  have "w dvd be_val x" using dvd unfolding split by (rule dvd_mult_left)
  then have "w dvd be_val (drop (Suc i) x)" unfolding val by (simp add: dvd_add_right_iff)
  moreover have "be_val (drop (Suc i) x) < w" using be_val_less [of "drop (Suc i) x"] len i by (simp add: w_def)
  ultimately have tl: "be_val (drop (Suc i) x) = 0" by (meson dvd_imp_le not_le neq0_conv)
  have "w \<noteq> 0" by (simp add: w_def)
  with dvd tl have "2 ^ (8 - r) dvd 256 * be_val (take i x) + unat (x ! i)"
    unfolding val split by simp
  moreover have "(2::nat) ^ (8 - r) dvd 256"
    using le_imp_power_dvd [of "8 - r" 8 "2::nat"] by simp
  ultimately have "2 ^ (8 - r) dvd unat (x ! i)"
    by (meson dvd_add_right_iff dvd_mult2)
  then have nb: "\<not> bit (x ! i) (7 - r)" using r by (simp add: dvd_unat_iff_bit)
  have "x ! i AND 2 ^ (7 - r) = 0" using nb by (simp add: and_exp_eq_0_iff_not_bit)
  then have "x ! i OR drop_bit r 0x80 = x ! i + 2 ^ (7 - r)"
    using r by (simp add: drop_bit_0x80 disjunctive_add_eq_or)
  moreover have "unat (x ! i) + 2 ^ (7 - r) < 256"
  proof -
    obtain q where q: "unat (x ! i) = 2 ^ (8 - r) * q" using \<open>2 ^ (8 - r) dvd unat (x ! i)\<close> by (elim dvdE)
    have e: "(256::nat) = 2 ^ (8 - r) * 2 ^ r" using r by (simp flip: power_add)
    have "2 ^ (8 - r) * q < 2 ^ (8 - r) * 2 ^ r" by (metis q e unat_byte_less)
    then have "Suc q \<le> 2 ^ r" by simp
    then have "2 ^ (8 - r) * Suc q \<le> 256" unfolding e by (rule mult_le_mono2)
    moreover have "(2::nat) ^ (7 - r) < 2 ^ (8 - r)" using r by simp
    ultimately show ?thesis unfolding q mult_Suc_right by linarith
  qed
  moreover have "unat ((2::byte) ^ (7 - r)) = 2 ^ (7 - r)"
  proof -
    from r have "r \<in> {0, 1, 2, 3, 4, 5, 6, 7}" by auto
    then show ?thesis by auto
  qed
  ultimately have u: "unat (x ! i OR drop_bit r 0x80) = unat (x ! i) + 2 ^ (7 - r)"
    by (simp add: unat_word_ariths)
  have "2 ^ (7 - r) * w = 2 ^ (159 - k)" using i r unfolding wp ir by (simp flip: power_add)
  moreover have "length x - Suc i = 19 - i" using len by simp
  ultimately show ?thesis
    using be_val_list_update [of i x "x ! i OR drop_bit r 0x80"] i len u
    by (simp add: w_def [symmetric] algebra_simps)
qed

lemma bucket_middle_Some:
  assumes inv: "table_inv af bs" and i: "i < length bs" and wide: "1 < bhi bs i - blo bs i"
  obtains m where "bucket_middle bs i = Some m" and "length m = 20"
    and "blo bs i < be_val m" and "be_val m < bhi bs i"
    and "dyadic (blo bs i) (be_val m)" and "dyadic (be_val m) (bhi bs i)"
    and "2 * be_val m = blo bs i + bhi bs i"
proof -
  have f: "length (bk_first (bs ! i)) = 20" using inv i by (rule table_invD(4))
  from table_invD(2) [OF inv i] obtain k where k: "k \<le> 160"
    and hi: "bhi bs i = blo bs i + 2 ^ (160 - k)" and lo: "2 ^ (160 - k) dvd blo bs i"
    by (rule dyadicE)
  have "k < 160" using wide hi k by (cases "k = 160") auto
  define m where "m = (bk_first (bs ! i))[k div 8 := bk_first (bs ! i) ! (k div 8) OR drop_bit (k mod 8) 0x80]"
  have mid: "bucket_middle bs i = Some m"
    using bucket_bit_eq [OF inv i k hi lo] \<open>k < 160\<close> f
    by (simp add: bucket_middle_def m_def Let_def less_mult_imp_div_less)
  have val: "be_val m = blo bs i + 2 ^ (159 - k)"
    unfolding m_def blo_def using f \<open>k < 160\<close> lo [unfolded blo_def] by (rule set_bit_val)
  have half: "(2::nat) ^ (160 - k) = 2 * 2 ^ (159 - k)"
    using \<open>k < 160\<close> by (simp flip: power_Suc)
  have sk: "160 - Suc k = 159 - k" by simp
  have d: "2 ^ (159 - k) dvd blo bs i" using lo unfolding half by (rule dvd_mult_right)
  show thesis
  proof (rule that [OF mid])
    show "length m = 20" using f by (simp add: m_def)
    show "blo bs i < be_val m" using val by simp
    show "be_val m < bhi bs i" using val hi half by simp
    show "dyadic (blo bs i) (be_val m)"
      unfolding dyadic_def using \<open>k < 160\<close> val d sk by (intro bexI [of _ "Suc k"]) auto
    show "dyadic (be_val m) (bhi bs i)"
      unfolding dyadic_def using \<open>k < 160\<close> val hi half d sk by (intro bexI [of _ "Suc k"]) auto
    show "2 * be_val m = blo bs i + bhi bs i" using val hi half by simp
  qed
qed

section \<open>The invariant of the two tables\<close>

definition valid_af :: "int \<Rightarrow> bool" where
  "valid_af af = (af = AF_INET \<or> af = AF_INET6)"

definition tables_inv :: "dht \<Rightarrow> bool" where
  "tables_inv s = (table_inv AF_INET (buckets s) \<and> table_inv AF_INET6 (buckets6 s) \<and> length (myid s) = 20)"

lemma tables_invD:
  "tables_inv s \<Longrightarrow> valid_af af \<Longrightarrow> table_inv af (get_buckets af s)"
  "tables_inv s \<Longrightarrow> length (myid s) = 20"
  by (auto simp: tables_inv_def valid_af_def get_buckets_def)

lemma tables_inv_cong:
  "buckets s' = buckets s \<Longrightarrow> buckets6 s' = buckets6 s \<Longrightarrow> myid s' = myid s \<Longrightarrow>
   tables_inv s' = tables_inv s"
  by (simp add: tables_inv_def)

lemma tables_inv_emit [simp]: "tables_inv (emit e s) = tables_inv s"
  by (simp add: emit_def tables_inv_def)

lemma get_buckets_emit [simp]: "get_buckets af (emit e s) = get_buckets af s"
  by (simp add: emit_def get_buckets_def)

lemma myid_set_buckets [simp]: "myid (set_buckets af bs s) = myid s"
  by (simp add: set_buckets_def)

lemma set_buckets_inv:
  assumes "tables_inv s" and "valid_af af" and "table_inv af bs"
  shows "tables_inv (set_buckets af bs s)"
  using assms by (auto simp: tables_inv_def set_buckets_def valid_af_def)

lemma upd_bucket_inv:
  assumes "tables_inv s" and "valid_af af" and "i < length (get_buckets af s)"
    and "bucket_ok af (f (get_buckets af s ! i))"
    and "bk_first (f (get_buckets af s ! i)) = bk_first (get_buckets af s ! i)"
    and "nodes_within (f (get_buckets af s ! i)) (blo (get_buckets af s) i) (bhi (get_buckets af s) i)"
  shows "tables_inv (upd_bucket af i f s)"
  unfolding upd_bucket_def using assms
  by (intro set_buckets_inv table_inv_update tables_invD(1))

lemma get_upd_bucket [simp]:
  "get_buckets af (upd_bucket af i f s) = (get_buckets af s)[i := f (get_buckets af s ! i)]"
  by (simp add: upd_bucket_def)

lemma bucket_state:
  assumes "tables_inv s" and "valid_af af" and "i < length (get_buckets af s)"
  shows "bucket_ok af (get_buckets af s ! i)"
    and "nodes_within (get_buckets af s ! i) (blo (get_buckets af s) i) (bhi (get_buckets af s) i)"
  using assms table_invD tables_invD by blast+

text \<open>Replacing a node of a bucket by another that fits.\<close>

lemma upd_node_inv:
  assumes inv: "tables_inv s" "valid_af af" "i < length (get_buckets af s)"
  defines "b \<equiv> get_buckets af s ! i"
  assumes j: "j < length (bk_nodes b)" and ok: "node_ok af (f (bk_nodes b ! j))"
    and rng: "blo (get_buckets af s) i \<le> be_val (nd_id (f (bk_nodes b ! j)))"
      "be_val (nd_id (f (bk_nodes b ! j))) < bhi (get_buckets af s) i"
    and fresh: "nd_id (f (bk_nodes b ! j)) \<notin> set (map nd_id (bk_nodes b)) - {nd_id (bk_nodes b ! j)}"
  shows "tables_inv (upd_node af i j f s)"
proof -
  let ?ns = "(bk_nodes b)[j := f (bk_nodes b ! j)]"
  note bs = bucket_state [OF inv, folded b_def]
  have "set ?ns \<subseteq> insert (f (bk_nodes b ! j)) (set (bk_nodes b))" by (rule set_update_subset_insert)
  moreover have "distinct (map nd_id ?ns)"
    using bs(1) j fresh
    by (simp add: map_update bucket_ok_def distinct_list_update)
  ultimately have "bucket_ok af (b\<lparr>bk_nodes := ?ns\<rparr>)" and
    "nodes_within (b\<lparr>bk_nodes := ?ns\<rparr>) (blo (get_buckets af s) i) (bhi (get_buckets af s) i)"
    using bs ok rng by (auto simp: bucket_ok_def nodes_within_def)
  then show ?thesis
    unfolding upd_node_def using inv by (intro upd_bucket_inv) (simp_all add: b_def)
qed

lemma upd_node_same_id:
  assumes "tables_inv s" "valid_af af" "i < length (get_buckets af s)"
    and "j < length (bk_nodes (get_buckets af s ! i))"
    and "\<And>n. nd_id (f n) = nd_id n" and "\<And>n. node_ok af n \<Longrightarrow> node_ok af (f n)"
  shows "tables_inv (upd_node af i j f s)"
proof -
  let ?b = "get_buckets af s ! i"
  have "bk_nodes ?b ! j \<in> set (bk_nodes ?b)" using assms(4) by simp
  then show ?thesis
    using assms bucket_state [OF assms(1-3)]
    by (intro upd_node_inv) (auto simp: bucket_ok_def nodes_within_def)
qed

lemma length_upd_node [simp]: "length (get_buckets af (upd_node af i j f s)) = length (get_buckets af s)"
  by (simp add: upd_node_def)

section \<open>What table operations leave alone\<close>

text \<open>The state without the tables, the allocator and the trace; and whether the process has not yet
  hit an \<open>abort()\<close> or a NULL dereference.\<close>

definition rest :: "dht \<Rightarrow> dht" where
  "rest s = s\<lparr>buckets := [], buckets6 := [], mybucket_grow_time := 0, mybucket6_grow_time := 0,
     mem_ok := (\<lambda>_. True), trace := []\<rparr>"

definition alive :: "dht \<Rightarrow> bool" where
  "alive s = (Abort \<notin> set (trace s) \<and> Fault \<notin> set (trace s))"

lemma rest_fields:
  assumes "rest s' = rest s"
  shows "searches s' = searches s" "numsearches s' = numsearches s" "storage s' = storage s"
    "numstorage s' = numstorage s" "blacklist s' = blacklist s" "next_blacklisted s' = next_blacklisted s"
    "now s' = now s" "myid s' = myid s" "search_id s' = search_id s" "secret s' = secret s"
    "oldsecret s' = oldsecret s" "token_bucket_tokens s' = token_bucket_tokens s"
    "token_bucket_time s' = token_bucket_time s" "sha256 s' = sha256 s" "dht_socket s' = dht_socket s"
    "dht_socket6 s' = dht_socket6 s" "urandom s' = urandom s"
  using arg_cong [OF assms, of searches] arg_cong [OF assms, of numsearches] arg_cong [OF assms, of storage]
    arg_cong [OF assms, of numstorage] arg_cong [OF assms, of blacklist] arg_cong [OF assms, of next_blacklisted]
    arg_cong [OF assms, of now] arg_cong [OF assms, of myid] arg_cong [OF assms, of search_id]
    arg_cong [OF assms, of secret] arg_cong [OF assms, of oldsecret] arg_cong [OF assms, of token_bucket_tokens]
    arg_cong [OF assms, of token_bucket_time] arg_cong [OF assms, of sha256] arg_cong [OF assms, of dht_socket]
    arg_cong [OF assms, of dht_socket6] arg_cong [OF assms, of urandom]
  by (simp_all add: rest_def)

lemma frame_upd_bucket [simp]:
  "mem_ok (upd_bucket af i f s) = mem_ok s" "rest (upd_bucket af i f s) = rest s"
  "alive (upd_bucket af i f s) = alive s"
  by (simp_all add: upd_bucket_def set_buckets_def rest_def alive_def)

lemma frame_upd_node [simp]:
  "mem_ok (upd_node af i j f s) = mem_ok s" "rest (upd_node af i j f s) = rest s"
  "alive (upd_node af i j f s) = alive s"
  by (simp_all add: upd_node_def)

lemma frame_set_buckets [simp]:
  "mem_ok (set_buckets af bs s) = mem_ok s" "rest (set_buckets af bs s) = rest s"
  "alive (set_buckets af bs s) = alive s"
  by (simp_all add: set_buckets_def rest_def alive_def)

lemma frame_emit [simp]:
  "mem_ok (emit e s) = mem_ok s" "rest (emit e s) = rest s"
  "alive (emit e s) \<longleftrightarrow> alive s \<and> Abort \<notin> set e \<and> Fault \<notin> set e"
  by (auto simp: emit_def rest_def alive_def)

lemma frame_mem [simp]: "rest (s\<lparr>mem_ok := f\<rparr>) = rest s" "alive (s\<lparr>mem_ok := f\<rparr>) = alive s"
  by (simp_all add: rest_def alive_def)

lemma send_evs_alive [simp]:
  "0 < length sa \<Longrightarrow> length sa \<le> SOCKADDR_STORAGE \<Longrightarrow> Abort \<notin> set (send_evs msg flags sa s)"
  "Fault \<notin> set (send_evs msg flags sa s)"
  by (auto simp: send_evs_def split: option.splits if_splits)

section \<open>Pings\<close>

lemma send_ping_state [simp]: "snd (send_ping sa tid s) = emit (send_evs (ping_msg s tid) MSG_NOSIGNAL sa s) s"
  by (simp add: send_ping_def snd_send_built)

lemma upd_cached_inv:
  assumes "tables_inv s" "valid_af af" "i < length (get_buckets af s)"
    and "\<And>b. bucket_ok af b \<Longrightarrow> bucket_ok af (f b)"
    and "\<And>b. bk_first (f b) = bk_first b" and "\<And>b. bk_nodes (f b) = bk_nodes b"
  shows "tables_inv (upd_bucket af i f s)"
  using assms bucket_state [OF assms(1-3)]
  by (intro upd_bucket_inv) (auto simp: nodes_within_def)

lemma send_cached_ping_inv:
  assumes "tables_inv s" "valid_af af" "i < length (get_buckets af s)"
  shows "tables_inv (send_cached_ping af i s)"
proof -
  have "bucket_ok af (b\<lparr>bk_cached := clear_family (bk_cached b), bk_cachedlen := 0\<rparr>)"
    if "bucket_ok af b" for b
    using that by (auto simp: bucket_ok_def SOCKADDR_STORAGE_def)
  then show ?thesis
    using assms by (auto simp: send_cached_ping_def Let_def intro: upd_cached_inv)
qed

lemma map_update_same: "g (f (xs ! i)) = g (xs ! i) \<Longrightarrow> map g (xs[i := f (xs ! i)]) = map g xs"
proof (cases "i < length xs")
  case True
  assume "g (f (xs ! i)) = g (xs ! i)"
  then have "map g (xs[i := f (xs ! i)]) = (map g xs)[i := map g xs ! i]" using True by (simp add: map_update)
  then show ?thesis by simp
qed (simp add: list_update_beyond)

lemma upd_cached_lists:
  assumes "\<And>b. bk_first (f b) = bk_first b" and "\<And>b. bk_nodes (f b) = bk_nodes b"
  shows "map bk_nodes (get_buckets af (upd_bucket af i f s)) = map bk_nodes (get_buckets af s)"
    and "map bk_first (get_buckets af (upd_bucket af i f s)) = map bk_first (get_buckets af s)"
  unfolding get_upd_bucket by (intro map_update_same assms)+

lemma get_send_cached_ping:
  "length (get_buckets af (send_cached_ping af i s)) = length (get_buckets af s)"
  "map bk_nodes (get_buckets af (send_cached_ping af i s)) = map bk_nodes (get_buckets af s)"
  "map bk_first (get_buckets af (send_cached_ping af i s)) = map bk_first (get_buckets af s)"
  by (simp_all add: send_cached_ping_def Let_def upd_cached_lists del: get_upd_bucket)
     (simp add: upd_bucket_def)

lemma send_cached_ping_frame:
  "mem_ok (send_cached_ping af i s) = mem_ok s" "rest (send_cached_ping af i s) = rest s"
  by (simp_all add: send_cached_ping_def Let_def)

lemma send_cached_ping_alive:
  assumes "tables_inv s" "valid_af af" "i < length (get_buckets af s)"
  shows "alive (send_cached_ping af i s) = alive s"
  using bucket_state(1) [OF assms]
  by (auto simp: send_cached_ping_def Let_def bucket_ok_def SOCKADDR_STORAGE_def)

lemma find_bucket_less:
  "find_bucket nid af s = Some i \<Longrightarrow> i < length (get_buckets af s)"
  by (auto simp: find_bucket_def find_idx_less split: if_splits)

lemma pinged_inv:
  assumes inv: "tables_inv s" "valid_af af" "i < length (get_buckets af s)"
    and j: "j < length (bk_nodes (get_buckets af s ! i))"
    and b: "\<And>k. b = Some k \<Longrightarrow> k < length (get_buckets af s)"
  shows "tables_inv (pinged af i j b s)" and "alive (pinged af i j b s) = alive s"
proof -
  define s1 where "s1 = upd_node af i j (\<lambda>n. n\<lparr>nd_pinged := nd_pinged n + 1, nd_pinged_time := now s\<rparr>) s"
  have s1: "tables_inv s1"
    unfolding s1_def using inv j by (intro upd_node_same_id) (auto simp: node_ok_def)
  have len: "length (get_buckets af s1) = length (get_buckets af s)" by (simp add: s1_def)
  define n where "n = bk_nodes (get_buckets af s1 ! i) ! j"
  have n: "j < length (bk_nodes (get_buckets af s1 ! i))"
    using inv(3) j by (simp add: s1_def upd_node_def)
  have "node_ok af n"
    using bucket_state(1) [OF s1 inv(2), of i] inv(3) len n by (auto simp: bucket_ok_def n_def)
  then have "valid_af (sa_family (nd_ss n))" using inv(2) by (simp add: node_ok_def)
  have nb: "find_bucket (nd_id n) (sa_family (nd_ss n)) s1 \<noteq> None"
    using \<open>node_ok af n\<close> inv(3) len by (auto simp: find_bucket_def node_ok_def)
  have al: "alive s1 = alive s" by (simp add: s1_def)
  show "tables_inv (pinged af i j b s)"
    using s1 inv(2) b len \<open>valid_af (sa_family (nd_ss n))\<close>
    by (auto simp: pinged_def Let_def s1_def [symmetric] n_def [symmetric]
        split: option.splits intro!: send_cached_ping_inv dest: find_bucket_less)
  show "alive (pinged af i j b s) = alive s"
    using s1 inv(2) b len nb al \<open>valid_af (sa_family (nd_ss n))\<close>
    by (auto simp: pinged_def Let_def s1_def [symmetric] n_def [symmetric] send_cached_ping_alive
        split: option.splits dest: find_bucket_less)
qed

lemma pinged_rest: "rest (pinged af i j b s) = rest s" "mem_ok (pinged af i j b s) = mem_ok s"
  by (auto simp: pinged_def Let_def send_cached_ping_frame split: option.splits)

end
