(* ===== verification/Dht_Growth.thy ===== *)
theory Dht_Growth
  imports Dht_Routing
begin

text \<open>
  Growth of the routing table: what \<open>split_bucket\<close> does to a table that satisfies
  \<open>table_inv\<close>, that \<open>new_node\<close> keeps the invariant and returns, and that expiry drops
  exactly the nodes with four unanswered pings.
\<close>

section \<open>A table with one bucket cut in two\<close>

definition with_nodes :: "bucket \<Rightarrow> node list \<Rightarrow> bucket" where
  "with_nodes b ns = b\<lparr>bk_nodes := ns, bk_count := int (length ns)\<rparr>"

definition split_tab :: "bucket list \<Rightarrow> nat \<Rightarrow> bucket \<Rightarrow> node list \<Rightarrow> node list \<Rightarrow> bucket list" where
  "split_tab bs i new xs ys =
     take i bs @ [with_nodes (bs ! i) xs, with_nodes new ys] @ drop (Suc i) bs"

lemma with_nodes_simps [simp]:
  "bk_nodes (with_nodes b ns) = ns" "bk_first (with_nodes b ns) = bk_first b"
  "bk_af (with_nodes b ns) = bk_af b" "bk_count (with_nodes b ns) = int (length ns)"
  "bk_cached (with_nodes b ns) = bk_cached b" "bk_cachedlen (with_nodes b ns) = bk_cachedlen b"
  "(with_nodes b ns)\<lparr>bk_nodes := ms, bk_count := int (length ms)\<rparr> = with_nodes b ms"
  by (simp_all add: with_nodes_def)

lemma length_split_tab [simp]: "i < length bs \<Longrightarrow> length (split_tab bs i new xs ys) = Suc (length bs)"
  by (simp add: split_tab_def)

lemma nth_split_tab:
  "i < length bs \<Longrightarrow> j \<le> length bs \<Longrightarrow>
   split_tab bs i new xs ys ! j =
     (if j < i then bs ! j else if j = i then with_nodes (bs ! i) xs
      else if j = Suc i then with_nodes new ys else bs ! (j - 1))"
  by (auto simp: split_tab_def nth_append nth_Cons' min_def intro!: arg_cong [where f = "(!) bs"])

lemma find_idx_cong:
  "map bk_first bs = map bk_first cs \<Longrightarrow> find_idx nid bs = find_idx nid cs"
proof (induction nid bs arbitrary: cs rule: find_idx.induct)
  case (1 nid b c bs)
  then obtain b' c' cs' where "cs = b' # c' # cs'" "bk_first c = bk_first c'"
    "map bk_first (c # bs) = map bk_first (c' # cs')"
    by (auto simp: Cons_eq_map_conv)
  with "1.IH" [of "c' # cs'"] show ?case by auto
qed (auto simp: Cons_eq_map_conv)

lemma split_tab_bounds:
  assumes "i < length bs" and "j \<le> length bs"
  shows "blo (split_tab bs i new xs ys) j =
      (if j \<le> i then blo bs j else if j = Suc i then be_val (bk_first new) else blo bs (j - 1))"
    and "bhi (split_tab bs i new xs ys) j =
      (if j < i then bhi bs j else if j = i then be_val (bk_first new) else bhi bs (j - 1))"
  using assms by (auto simp: blo_def bhi_def nth_split_tab not_less le_Suc_eq less_Suc_eq)

lemma split_tab_inv:
  assumes inv: "table_inv af bs" and i: "i < length bs"
    and new: "bk_af new = af" "length (bk_first new) = 20" "length (bk_cached new) = SOCKADDR_STORAGE"
      "sa_family (bk_cached new) = 0" "bk_cachedlen new = 0"
    and lo: "dyadic (blo bs i) (be_val (bk_first new))"
    and hi: "dyadic (be_val (bk_first new)) (bhi bs i)"
    and xs: "bucket_ok af (with_nodes (bs ! i) xs)"
      "nodes_within (with_nodes (bs ! i) xs) (blo bs i) (be_val (bk_first new))"
    and ys: "bucket_ok af (with_nodes (bs ! i) ys)"
      "nodes_within (with_nodes (bs ! i) ys) (be_val (bk_first new)) (bhi bs i)"
  shows "table_inv af (split_tab bs i new xs ys)"
proof -
  let ?t = "split_tab bs i new xs ys"
  have z: "blo ?t 0 = 0" using inv i by (auto simp: split_tab_bounds table_inv_def)
  have ok: "bucket_ok af (with_nodes new ys)" using ys(1) new by (auto simp: bucket_ok_def)
  have "bucket_ok af (?t ! j) \<and> dyadic (blo ?t j) (bhi ?t j) \<and> nodes_within (?t ! j) (blo ?t j) (bhi ?t j)"
    if "j \<le> length bs" for j
  proof -
    consider "j < i" | "j = i" | "j = Suc i" | "Suc i < j" by linarith
    then show ?thesis
    proof cases
      case 1
      then show ?thesis using inv i that table_invD [OF inv, of j] by (simp add: nth_split_tab split_tab_bounds)
    next
      case 2
      then show ?thesis using i that lo xs by (simp add: nth_split_tab split_tab_bounds)
    next
      case 3
      then show ?thesis using i that hi ys(2) ok by (simp add: nth_split_tab split_tab_bounds nodes_within_def)
    next
      case 4
      then show ?thesis
        using inv i that table_invD [OF inv, of "j - 1"] by (simp add: nth_split_tab split_tab_bounds)
    qed
  qed
  then show ?thesis using i z by (simp add: table_inv_def less_Suc_eq_le)
qed

section \<open>Splitting\<close>

text \<open>Putting a node of the old block back: it lands at the head of one of the halves.\<close>

lemma insert_node_split_tab:
  assumes inv: "table_inv af (split_tab bs i new [] [])" and i: "i < length bs"
    and n: "sa_family (nd_ss n) = af" "length (nd_id n) = 20"
      "blo bs i \<le> be_val (nd_id n)" "be_val (nd_id n) < bhi bs i"
  shows "snd (insert_node n (set_buckets af (split_tab bs i new xs ys) s)) =
    set_buckets af (if be_val (nd_id n) < be_val (bk_first new) then split_tab bs i new (n # xs) ys
                    else split_tab bs i new xs (n # ys)) s"
proof -
  let ?t = "split_tab bs i new xs ys" and ?e = "split_tab bs i new [] []"
  define k where "k = (if be_val (nd_id n) < be_val (bk_first new) then i else Suc i)"
  have e: "map bk_first ?t = map bk_first ?e" by (simp add: split_tab_def)
  have "in_bucket (nd_id n) ?e k"
    using in_bucket_iff [OF inv _ n(2), of k] i n by (simp add: k_def split_tab_bounds)
  then have k: "find_idx (nd_id n) ?t = k"
    using find_idx_unique [OF inv _ n(2), of k] i find_idx_cong [OF e] by (simp add: k_def)
  have "?t \<noteq> []" by (simp add: split_tab_def)
  moreover have "?t[i := with_nodes (bs ! i) zs] = split_tab bs i new zs ys"
    "?t[Suc i := with_nodes new zs] = split_tab bs i new xs zs" for zs
    using i by (simp_all add: split_tab_def list_update_append)
  moreover have "set_buckets af t' (set_buckets af t s) = set_buckets af t' s" for t t'
    by (simp add: set_buckets_def)
  moreover have "(with_nodes b zs)\<lparr>bk_nodes := n # zs, bk_count := int (length zs) + 1\<rparr> = with_nodes b (n # zs)"
    for b zs by (simp add: with_nodes_def)
  ultimately show ?thesis
    using i n(1) k by (auto simp: insert_node_def find_bucket_def upd_bucket_def k_def nth_split_tab Let_def)
qed

lemma fold_insert_node:
  assumes inv: "table_inv af (split_tab bs i new [] [])" and i: "i < length bs"
  shows "\<forall>n\<in>set ns. sa_family (nd_ss n) = af \<and> length (nd_id n) = 20 \<and>
      blo bs i \<le> be_val (nd_id n) \<and> be_val (nd_id n) < bhi bs i \<Longrightarrow>
    fold (\<lambda>n s. snd (insert_node n s)) ns (set_buckets af (split_tab bs i new xs ys) s) =
    set_buckets af (split_tab bs i new
      (rev (filter (\<lambda>n. be_val (nd_id n) < be_val (bk_first new)) ns) @ xs)
      (rev (filter (\<lambda>n. \<not> be_val (nd_id n) < be_val (bk_first new)) ns) @ ys)) s"
  by (induction ns arbitrary: xs ys) (simp_all add: insert_node_split_tab [OF inv i])

lemma bounds_cong:
  assumes "map bk_first bs = map bk_first cs"
  shows "i < length bs \<Longrightarrow> blo bs i = blo cs i" and "bhi bs i = bhi cs i"
proof -
  have len: "length bs = length cs" using assms by (metis length_map)
  have f: "bk_first (bs ! j) = bk_first (cs ! j)" if "j < length bs" for j
    using assms that len by (metis nth_map)
  show "blo bs i = blo cs i" if "i < length bs" using f that by (simp add: blo_def)
  show "bhi bs i = bhi cs i" using f len by (simp add: bhi_def)
qed

definition new_bucket :: "bucket \<Rightarrow> dht_id \<Rightarrow> bucket" where
  "new_bucket b m =
     \<lparr>bk_af = bk_af b, bk_first = m, bk_count = 0, bk_time = bk_time b, bk_nodes = [],
      bk_cached = replicate SOCKADDR_STORAGE 0, bk_cachedlen = 0\<rparr>"

lemma c_alloc_state [simp]:
  "get_buckets af (s\<lparr>mem_ok := f\<rparr>) = get_buckets af s" "tables_inv (s\<lparr>mem_ok := f\<rparr>) = tables_inv s"
  by (simp_all add: get_buckets_def tables_inv_def)

lemma sub_bucket:
  fixes m :: nat
  assumes "bucket_ok af b" and "nodes_within b lo hi"
  defines "xs \<equiv> rev (filter (\<lambda>n. be_val (nd_id n) < m) (bk_nodes b))"
    and "ys \<equiv> rev (filter (\<lambda>n. \<not> be_val (nd_id n) < m) (bk_nodes b))"
  shows "bucket_ok af (with_nodes b xs)" "nodes_within (with_nodes b xs) lo m"
    "bucket_ok af (with_nodes b ys)" "nodes_within (with_nodes b ys) m hi"
    "bucket_ok af (with_nodes b [])"
proof -
  have "length (filter P (bk_nodes b)) \<le> 8" for P
    using assms(1) order_trans [OF length_filter_le [of P "bk_nodes b"]] by (simp add: bucket_ok_def)
  moreover have "distinct (map nd_id (rev (filter P (bk_nodes b))))" for P
    using assms(1) by (simp add: bucket_ok_def distinct_map_filter rev_map [symmetric])
  ultimately show "bucket_ok af (with_nodes b xs)" "bucket_ok af (with_nodes b ys)"
    "bucket_ok af (with_nodes b [])"
    using assms(1) by (simp_all add: bucket_ok_def xs_def ys_def)
  show "nodes_within (with_nodes b xs) lo m" "nodes_within (with_nodes b ys) m hi"
    using assms(2) by (auto simp: nodes_within_def xs_def ys_def)
qed

text \<open>The whole of a successful split, on the state after the ping of the cached candidate.\<close>

lemma split_bucket_tab:
  assumes inv: "tables_inv s" and af: "valid_af af" and i: "i < length (get_buckets af s)"
    and mid: "bucket_middle (get_buckets af s) i = Some m" and mem: "mem_ok s 0"
    and len: "length m = 20" and dy: "dyadic (blo (get_buckets af s) i) (be_val m)"
      "dyadic (be_val m) (bhi (get_buckets af s) i)"
  defines "s2 \<equiv> send_cached_ping af i (snd (c_alloc s))"
  defines "bs \<equiv> get_buckets af s2"
  defines "t \<equiv> split_tab bs i (new_bucket (bs ! i) m)
    (rev (filter (\<lambda>n. be_val (nd_id n) < be_val m) (bk_nodes (bs ! i))))
    (rev (filter (\<lambda>n. \<not> be_val (nd_id n) < be_val m) (bk_nodes (bs ! i))))"
  shows "split_bucket af i s = (True, set_buckets af t s2)" and "table_inv af t" and "tables_inv s2"
proof -
  let ?new = "new_bucket (bs ! i) m"
  have s2: "tables_inv s2" unfolding s2_def
    using inv af i by (intro send_cached_ping_inv) (simp_all add: c_alloc_def)
  have bs: "map bk_first bs = map bk_first (get_buckets af s)" "length bs = length (get_buckets af s)"
    unfolding bs_def s2_def by (simp_all add: get_send_cached_ping c_alloc_def)
  have ib: "i < length bs" using i bs(2) by simp
  note B = bucket_state [OF s2 af, of i, folded bs_def, OF ib]
  note T = tables_invD(1) [OF s2 af, folded bs_def]
  have dy': "dyadic (blo bs i) (be_val m)" "dyadic (be_val m) (bhi bs i)"
    using dy bounds_cong [OF bs(1), of i] ib by simp_all
  have new: "bk_af ?new = af" "length (bk_first ?new) = 20" "bk_first ?new = m" "length (bk_cached ?new) = SOCKADDR_STORAGE"
    "sa_family (bk_cached ?new) = 0" "bk_cachedlen ?new = 0"
    using B(1) len by (simp_all add: new_bucket_def bucket_ok_def sa_family_def SOCKADDR_STORAGE_def byte_at_def)
  have "nodes_within (with_nodes (bs ! i) []) lo hi" for lo hi by (simp add: nodes_within_def)
  then have e: "table_inv af (split_tab bs i ?new [] [])"
    using T ib new dy' sub_bucket(5) [OF B] by (intro split_tab_inv) simp_all
  show "table_inv af t" unfolding t_def
    using T ib new dy' sub_bucket(1-4) [OF B, of "be_val m"] by (intro split_tab_inv) simp_all
  have ns: "\<forall>n\<in>set (bk_nodes (bs ! i)). sa_family (nd_ss n) = af \<and> length (nd_id n) = 20 \<and>
      blo bs i \<le> be_val (nd_id n) \<and> be_val (nd_id n) < bhi bs i"
    using B by (auto simp: bucket_ok_def node_ok_def nodes_within_def)
  have start: "split_tab bs i ?new [] [] =
    take i bs @ [(bs ! i)\<lparr>bk_nodes := [], bk_count := 0\<rparr>, ?new] @ drop (Suc i) bs"
    by (simp add: split_tab_def with_nodes_def new_bucket_def)
  show "split_bucket af i s = (True, set_buckets af t s2)"
    using mid mem fold_insert_node [OF e ib ns, of "[]" "[]" s2] new(3)
    by (simp add: split_bucket_def c_alloc_def Let_def s2_def [unfolded c_alloc_def snd_conv, symmetric]
        bs_def [symmetric] start [unfolded new_bucket_def] t_def new_bucket_def)
  show "tables_inv s2" by (rule s2)
qed

text \<open>The width of the block of an identifier: the measure of \<open>new_node\<close>.\<close>

definition id_width :: "dht_id \<Rightarrow> bucket list \<Rightarrow> nat" where
  "id_width nid bs = bhi bs (find_idx nid bs) - blo bs (find_idx nid bs)"

lemma id_width_cong:
  assumes "map bk_first bs = map bk_first cs" and "bs \<noteq> []"
  shows "id_width nid bs = id_width nid cs"
  using find_idx_cong [OF assms(1), of nid] bounds_cong [OF assms(1)] find_idx_less [OF assms(2), of nid]
  by (simp add: id_width_def)

lemma nodes_width:
  assumes "bucket_ok af b" and "nodes_within b lo hi"
  shows "length (bk_nodes b) \<le> hi - lo"
proof -
  have "inj_on be_val (set (map nd_id (bk_nodes b)))"
    using assms(1) by (auto simp: inj_on_def bucket_ok_def node_ok_def be_val_inject)
  then have "card (be_val ` set (map nd_id (bk_nodes b))) = length (bk_nodes b)"
    using assms(1) distinct_card [of "map nd_id (bk_nodes b)"] by (simp add: card_image bucket_ok_def)
  moreover have "be_val ` set (map nd_id (bk_nodes b)) \<subseteq> {lo..<hi}"
    using assms(2) by (auto simp: nodes_within_def)
  then have "card (be_val ` set (map nd_id (bk_nodes b))) \<le> hi - lo"
    using card_mono [of "{lo..<hi}"] by fastforce
  ultimately show ?thesis by simp
qed

lemma split_bucket_fail:
  assumes "bucket_middle (get_buckets af s) i = None \<or> \<not> mem_ok s 0"
  shows "fst (split_bucket af i s) = False" and "rest (snd (split_bucket af i s)) = rest s"
    and "alive (snd (split_bucket af i s)) = alive s"
    and "get_buckets af' (snd (split_bucket af i s)) = get_buckets af' s"
    and "tables_inv (snd (split_bucket af i s)) = tables_inv s"
  using assms by (auto simp: split_bucket_def c_alloc_def split: option.splits)

text \<open>With more than one identifier in the block and memory at hand, the split succeeds, keeps the
  invariant and halves the block of every identifier of it.\<close>

lemma split_bucket_halves:
  assumes inv: "tables_inv s" and af: "valid_af af" and i: "i < length (get_buckets af s)"
    and wide: "1 < bhi (get_buckets af s) i - blo (get_buckets af s) i" and mem: "mem_ok s 0"
  shows "tables_inv (snd (split_bucket af i s))" and "fst (split_bucket af i s)"
    and "length nid = 20 \<Longrightarrow> in_bucket nid (get_buckets af s) i \<Longrightarrow>
      2 * id_width nid (get_buckets af (snd (split_bucket af i s))) = id_width nid (get_buckets af s)"
    and "length (get_buckets af (snd (split_bucket af i s))) = Suc (length (get_buckets af s))"
    and "rest (snd (split_bucket af i s)) = rest s" and "alive (snd (split_bucket af i s)) = alive s"
    and "mem_ok (snd (split_bucket af i s)) = (\<lambda>k. mem_ok s (Suc k))"
proof -
  let ?bs = "get_buckets af s"
  note T = tables_invD(1) [OF inv af]
  obtain m where m: "bucket_middle ?bs i = Some m" "length m = 20"
    and dy: "dyadic (blo ?bs i) (be_val m)" "dyadic (be_val m) (bhi ?bs i)"
    and half: "2 * be_val m = blo ?bs i + bhi ?bs i"
    using bucket_middle_Some [OF T i wide] by metis
  define s2 where "s2 = send_cached_ping af i (snd (c_alloc s))"
  define bs where "bs = get_buckets af s2"
  define t where "t = split_tab bs i (new_bucket (bs ! i) m)
    (rev (filter (\<lambda>n. be_val (nd_id n) < be_val m) (bk_nodes (bs ! i))))
    (rev (filter (\<lambda>n. \<not> be_val (nd_id n) < be_val m) (bk_nodes (bs ! i))))"
  note S = split_bucket_tab [OF inv af i m(1) mem m(2) dy, folded s2_def, folded bs_def, folded t_def]
  show "tables_inv (snd (split_bucket af i s))" using S af by (simp add: set_buckets_inv)
  show "fst (split_bucket af i s)" using S by simp
  show "rest (snd (split_bucket af i s)) = rest s" "mem_ok (snd (split_bucket af i s)) = (\<lambda>k. mem_ok s (Suc k))"
    using S(1) by (simp_all add: s2_def send_cached_ping_frame c_alloc_def)
  show "alive (snd (split_bucket af i s)) = alive s"
    using S(1) inv af i by (simp add: s2_def c_alloc_def send_cached_ping_alive)
  have bs: "map bk_first bs = map bk_first ?bs" "length bs = length ?bs"
    unfolding bs_def s2_def by (simp_all add: get_send_cached_ping c_alloc_def)
  then show "length (get_buckets af (snd (split_bucket af i s))) = Suc (length ?bs)"
    using S(1) i by (simp add: t_def)
  show "2 * id_width nid (get_buckets af (snd (split_bucket af i s))) = id_width nid ?bs"
    if nid: "length nid = 20" "in_bucket nid ?bs i"
  proof -
    have at: "find_idx nid ?bs = i" using find_idx_unique [OF T i nid(1)] nid(2) by simp
    define k where "k = (if be_val nid < be_val m then i else Suc i)"
    have kt: "k < length t" using i bs(2) by (simp add: t_def k_def)
    have bd: "blo bs i = blo ?bs i" "bhi bs i = bhi ?bs i" using bounds_cong [OF bs(1)] i bs(2) by simp_all
    have tb: "blo t i = blo ?bs i" "bhi t i = be_val m" "blo t (Suc i) = be_val m" "bhi t (Suc i) = bhi ?bs i"
      using i bs(2) bd by (simp_all add: t_def split_tab_bounds new_bucket_def)
    have "in_bucket nid t k"
      using in_bucket_iff [OF S(2) kt nid(1)] in_bucket_iff [OF T i nid(1)] nid(2) tb
      by (simp add: k_def)
    then have "find_idx nid t = k" using find_idx_unique [OF S(2) kt nid(1)] by simp
    then have "2 * id_width nid t = id_width nid ?bs"
      using tb half at dyadic_less [OF dy(1)] dyadic_less [OF dy(2)] by (auto simp: id_width_def k_def)
    then show ?thesis using S(1) by simp
  qed
qed

lemma split_bucket_inv:
  assumes "tables_inv s" and "valid_af af" and "i < length (get_buckets af s)"
    and "1 < bhi (get_buckets af s) i - blo (get_buckets af s) i"
  shows "tables_inv (snd (split_bucket af i s))"
  using assms split_bucket_halves(1) split_bucket_fail(5) by (cases "mem_ok s 0") auto

section \<open>Learning about a node\<close>

lemma ping_dubious_inv:
  assumes inv: "tables_inv s" "valid_af af" "i < length (get_buckets af s)"
  shows "tables_inv (snd (ping_dubious af i s))"
proof -
  let ?ns = "bk_nodes (get_buckets af s ! i)"
  show ?thesis
  proof (cases "find_index (\<lambda>n. \<not> node_good n s \<and> nd_pinged_time n < now s - 15) ?ns")
    case None
    then show ?thesis using inv by (simp add: ping_dubious_def)
  next
    case (Some j)
    then have "j < length ?ns" by (simp add: find_index_Some)
    then have "tables_inv (upd_node af i j (\<lambda>n. n\<lparr>nd_pinged := nd_pinged n + 1, nd_pinged_time := now s\<rparr>)
      (emit e s))" for e
      using inv by (intro upd_node_same_id) (auto simp: node_ok_def)
    with Some show ?thesis by (simp add: ping_dubious_def Let_def)
  qed
qed

lemma upd_node_firsts: "map bk_first (get_buckets af (upd_node af i j f s)) = map bk_first (get_buckets af s)"
  unfolding upd_node_def get_upd_bucket by (rule map_update_same) simp

lemma upd_node_counts:
  "map (length \<circ> bk_nodes) (get_buckets af (upd_node af i j f s)) = map (length \<circ> bk_nodes) (get_buckets af s)"
  unfolding upd_node_def get_upd_bucket by (rule map_update_same) simp

lemma ping_dubious_frame:
  "map bk_first (get_buckets af (snd (ping_dubious af i s))) = map bk_first (get_buckets af s)"
  "map (length \<circ> bk_nodes) (get_buckets af (snd (ping_dubious af i s))) = map (length \<circ> bk_nodes) (get_buckets af s)"
  "mem_ok (snd (ping_dubious af i s)) = mem_ok s" "rest (snd (ping_dubious af i s)) = rest s"
  by (simp_all add: ping_dubious_def Let_def upd_node_firsts upd_node_counts split: option.splits)

lemma ping_dubious_alive:
  assumes "tables_inv s" "valid_af af" "i < length (get_buckets af s)"
  shows "alive (snd (ping_dubious af i s)) = alive s"
proof -
  have "node_ok af (bk_nodes (get_buckets af s ! i) ! j)" if "j < length (bk_nodes (get_buckets af s ! i))" for j
    using bucket_state(1) [OF assms] that by (simp add: bucket_ok_def)
  then show ?thesis
    by (fastforce simp: ping_dubious_def Let_def find_index_Some node_ok_def split: option.splits)
qed

definition addr_ok :: "bytes \<Rightarrow> bool" where
  "addr_ok sa = (valid_af (sa_family sa) \<and> 2 \<le> length sa)"

lemma refresh_node_ok:
  assumes "addr_ok sa" and "length sa \<le> SOCKADDR_STORAGE" and "node_ok (sa_family sa) n"
  shows "node_ok (sa_family sa) (refresh_node sa c s n)" and "nd_id (refresh_node sa c s n) = nd_id n"
  using assms by (auto simp: node_ok_def refresh_node_def Let_def addr_ok_def sa_family_memcpy)

lemma nd_id_refresh [simp]: "nd_id (refresh_node sa c s n) = nd_id n"
  by (simp add: refresh_node_def Let_def)

lemma replace_node_ok:
  assumes "addr_ok sa" and "length sa \<le> SOCKADDR_STORAGE" and "node_ok (sa_family sa) n" and "length nid = 20"
  shows "node_ok (sa_family sa) (replace_node nid sa c s n)"
  using assms by (auto simp: node_ok_def replace_node_def addr_ok_def sa_family_memcpy)

lemma nd_id_replace [simp]: "nd_id (replace_node nid sa c s n) = nid"
  by (simp add: replace_node_def)

lemma fresh_node_ok:
  assumes "addr_ok sa" and "length sa \<le> SOCKADDR_STORAGE" and "length nid = 20"
  shows "node_ok (sa_family sa) (fresh_node nid sa c s)"
  using assms by (auto simp: node_ok_def fresh_node_def addr_ok_def sa_family_memcpy)

lemma nd_id_fresh [simp]: "nd_id (fresh_node nid sa c s) = nid"
  by (simp add: fresh_node_def)

lemma cache_candidate_inv:
  assumes "tables_inv s" and "addr_ok sa" and "length sa \<le> SOCKADDR_STORAGE"
    and "i < length (get_buckets (sa_family sa) s)"
  shows "tables_inv (cache_candidate (sa_family sa) i sa c s)"
proof -
  have "bucket_ok (sa_family sa) (b\<lparr>bk_cached := memcpy (bk_cached b) sa, bk_cachedlen := length sa\<rparr>)"
    if "bucket_ok (sa_family sa) b" for b
    using that assms(2,3) by (auto simp: bucket_ok_def addr_ok_def)
  then show ?thesis
    using assms by (auto simp: cache_candidate_def addr_ok_def intro: upd_cached_inv)
qed

lemma add_node_inv:
  assumes inv: "tables_inv s" "valid_af af" "i < length (get_buckets af s)"
    and n: "node_ok af n" "blo (get_buckets af s) i \<le> be_val (nd_id n)" "be_val (nd_id n) < bhi (get_buckets af s) i"
    and room: "bk_count (get_buckets af s ! i) < 8"
    and new: "nd_id n \<notin> set (map nd_id (bk_nodes (get_buckets af s ! i)))"
  shows "tables_inv (upd_bucket af i (\<lambda>b. b\<lparr>bk_nodes := n # bk_nodes b, bk_count := bk_count b + 1\<rparr>) s)"
  using inv n new room bucket_state [OF inv]
  by (intro upd_bucket_inv) (auto simp: bucket_ok_def nodes_within_def)

lemma grow_time_frame [simp]:
  "get_buckets af' (grow_time af mb s) = get_buckets af' s" "tables_inv (grow_time af mb s) = tables_inv s"
  "mem_ok (grow_time af mb s) = mem_ok s" "myid (grow_time af mb s) = myid s"
  "rest (grow_time af mb s) = rest s" "alive (grow_time af mb s) = alive s"
  by (simp_all add: grow_time_def get_buckets_def tables_inv_def rest_def alive_def)

lemma not_known:
  assumes "bucket_ok af b" and "length nid = 20"
    and "find_index (\<lambda>n. id_cmp (nd_id n) nid = 0) (bk_nodes b) = None"
  shows "nid \<notin> set (map nd_id (bk_nodes b))"
  using assms by (auto simp: find_index_None bucket_ok_def node_ok_def id_cmp_eq_iff)

text \<open>A node that sits in a bucket of a table with the invariant is found.\<close>

lemma find_node_known:
  assumes inv: "tables_inv s" "valid_af af" and i: "i < length (get_buckets af s)"
    and n: "n \<in> set (bk_nodes (get_buckets af s ! i))"
  shows "find_node (nd_id n) af s \<noteq> None"
proof -
  note B = bucket_state [OF inv i] and T = tables_invD(1) [OF inv]
  have len: "length (nd_id n) = 20" using B(1) n by (auto simp: bucket_ok_def node_ok_def)
  have "in_bucket (nd_id n) (get_buckets af s) i"
    using in_bucket_iff [OF T i len] B(2) n by (auto simp: nodes_within_def)
  then have "find_idx (nd_id n) (get_buckets af s) = i" using find_idx_unique [OF T i len] by simp
  moreover have "find_index (\<lambda>m. id_cmp (nd_id m) (nd_id n) = 0) (bk_nodes (get_buckets af s ! i)) \<noteq> None"
    unfolding find_index_None using n by force
  ultimately show ?thesis
    using i by (auto simp: find_node_def find_bucket_def)
qed

lemma upd_node_known:
  assumes "tables_inv (upd_node af i j f s)" "valid_af af" and "i < length (get_buckets af s)"
    and "j < length (bk_nodes (get_buckets af s ! i))"
  shows "find_node (nd_id (f (bk_nodes (get_buckets af s ! i) ! j))) af (upd_node af i j f s) \<noteq> None"
  using assms by (intro find_node_known [where i = i]) (auto simp: upd_node_def set_update_memI)

lemma touch_bucket_frame:
  assumes "tables_inv s" and "valid_af af" and "i < length (get_buckets af s)"
  shows "tables_inv (touch_bucket af i c s)" and "mem_ok (touch_bucket af i c s) = mem_ok s"
    and "map bk_first (get_buckets af (touch_bucket af i c s)) = map bk_first (get_buckets af s)"
    and "rest (touch_bucket af i c s) = rest s" and "alive (touch_bucket af i c s) = alive s"
  using assms upd_cached_lists [of "\<lambda>b. b\<lparr>bk_time := now s\<rparr>"]
  by (auto simp: touch_bucket_def bucket_ok_def intro!: upd_cached_inv simp del: get_upd_bucket)

text \<open>\<open>new_node\<close> past its guards, over the state with the bucket's time stamp set.\<close>

lemma new_node_unfold:
  fixes c :: nat
  assumes "get_buckets af s \<noteq> []" and "id_cmp nid (myid s) \<noteq> 0" and "\<not> is_martian sa"
    and "length sa \<le> SOCKADDR_STORAGE" and "\<not> node_blacklisted sa s" and af: "af = sa_family sa"
  defines "i \<equiv> find_idx nid (get_buckets af s)"
  defines "mb \<equiv> in_bucket (myid s) (get_buckets af s) i"
  defines "s1 \<equiv> touch_bucket af i c s"
  defines "s2 \<equiv> grow_time af mb s1"
  shows "new_node nid sa c s =
    (case find_index (\<lambda>n. id_cmp (nd_id n) nid = 0) (bk_nodes (get_buckets af s1 ! i)) of
       Some j \<Rightarrow> Some (True, upd_node af i j (refresh_node sa c s) s1)
     | None \<Rightarrow>
       (case find_index (\<lambda>n. nd_pinged n \<ge> 3 \<and> nd_pinged_time n < now s - 15) (bk_nodes (get_buckets af s1 ! i)) of
          Some j \<Rightarrow> Some (True, upd_node af i j (replace_node nid sa c s) s2)
        | None \<Rightarrow>
            if bk_count (get_buckets af s1 ! i) \<ge> 8 then
              (let s3 = snd (ping_dubious af i s2)
               in if split_wanted af i mb (fst (ping_dubious af i s2)) s3
                  then new_node nid sa c (snd (split_bucket af i s3))
                  else Some (False, cache_candidate af i sa c s3))
            else (let s3 = s2\<lparr>mem_ok := (\<lambda>k. mem_ok s2 (Suc k))\<rparr>
                  in if \<not> mem_ok s2 0 then Some (False, s3)
                     else Some (True, upd_bucket af i
                       (\<lambda>b. b\<lparr>bk_nodes := fresh_node nid sa c s # bk_nodes b, bk_count := bk_count b + 1\<rparr>) s3))))"
proof -
  have "get_buckets af s2 = get_buckets af s1" by (simp add: s2_def)
  then show ?thesis
    using assms(1-5)
    by (subst new_node.simps)
       (simp add: find_bucket_def af [symmetric] i_def [symmetric] s1_def [symmetric] mb_def [symmetric]
          s2_def [symmetric] Let_def c_alloc_def split_beta split: option.splits)
qed

text \<open>The full bucket: after the ping of a dubious node the bucket still holds the block of the
  identifier and eight nodes.\<close>

lemma full_bucket_round:
  assumes inv: "tables_inv s" "valid_af af" and nid: "length nid = 20"
    and i: "i < length (get_buckets af s)" "in_bucket nid (get_buckets af s) i"
    and full: "8 \<le> bk_count (get_buckets af s ! i)"
  defines "s3 \<equiv> snd (ping_dubious af i s)"
  shows "tables_inv s3" and "mem_ok s3 = mem_ok s" and "rest s3 = rest s" and "alive s3 = alive s"
    and "map bk_first (get_buckets af s3) = map bk_first (get_buckets af s)"
    and "i < length (get_buckets af s3)" and "in_bucket nid (get_buckets af s3) i"
    and "8 \<le> length (bk_nodes (get_buckets af s3 ! i))"
proof -
  show s3: "tables_inv s3" unfolding s3_def using inv i by (intro ping_dubious_inv)
  show "alive s3 = alive s" unfolding s3_def using inv i by (intro ping_dubious_alive)
  show "mem_ok s3 = mem_ok s" "rest s3 = rest s" and f: "map bk_first (get_buckets af s3) = map bk_first (get_buckets af s)"
    by (simp_all add: s3_def ping_dubious_frame)
  then show i3: "i < length (get_buckets af s3)" using i by (metis length_map)
  show "in_bucket nid (get_buckets af s3) i"
    using find_idx_unique [OF tables_invD(1) [OF s3 inv(2)] i3 nid] find_idx_cong [OF f, of nid]
      find_idx_unique [OF tables_invD(1) [OF inv] i(1) nid] i(2) by simp
  have "length (bk_nodes (get_buckets af s3 ! i)) = length (bk_nodes (get_buckets af s ! i))"
    using arg_cong [OF ping_dubious_frame(2) [of af i s, folded s3_def], of "\<lambda>l. l ! i"] i i3 by simp
  then show "8 \<le> length (bk_nodes (get_buckets af s3 ! i))"
    using full bucket_state(1) [OF inv i(1)] by (simp add: bucket_ok_def)
qed

text \<open>One round of \<open>new_node\<close>: either it returns with the invariant, or it goes round again after
  splitting the full bucket the identifier falls into.\<close>

definition returns_ok :: "dht_id \<Rightarrow> bytes \<Rightarrow> nat \<Rightarrow> dht \<Rightarrow> bool" where
  "returns_ok nid sa c s = (\<exists>ok s'. new_node nid sa c s = Some (ok, s') \<and> tables_inv s' \<and>
     (mem_ok s' = mem_ok s \<or> mem_ok s' = (\<lambda>k. mem_ok s (Suc k))) \<and> rest s' = rest s \<and>
     (length sa \<le> SOCKADDR_STORAGE \<longrightarrow> alive s' = alive s) \<and>
     (ok \<longrightarrow> find_node nid (sa_family sa) s' \<noteq> None))"

lemma new_node_guards:
  assumes "tables_inv s" and "get_buckets (sa_family sa) s = [] \<or> id_cmp nid (myid s) = 0 \<or> is_martian sa \<or>
    length sa > SOCKADDR_STORAGE \<or> node_blacklisted sa s"
  shows "returns_ok nid sa c s"
proof -
  have "new_node nid sa c s = Some (False, s) \<or>
    length sa > SOCKADDR_STORAGE \<and> new_node nid sa c s = Some (False, emit [Abort] s)"
    using assms(2) by (subst (1 2) new_node.simps) (auto simp: find_bucket_def Let_def)
  then show ?thesis using assms(1) by (auto simp: returns_ok_def)
qed

lemma new_node_round:
  assumes inv: "tables_inv s" and sa: "addr_ok sa" and nid: "length nid = 20" and ret: "\<not> returns_ok nid sa c s"
  defines "af \<equiv> sa_family sa"
  obtains i s3 where "new_node nid sa c s = new_node nid sa c (snd (split_bucket af i s3))"
    and "tables_inv s3" and "mem_ok s3 = mem_ok s" and "rest s3 = rest s" and "alive s3 = alive s"
    and "map bk_first (get_buckets af s3) = map bk_first (get_buckets af s)"
    and "i < length (get_buckets af s3)" and "in_bucket nid (get_buckets af s3) i"
    and "8 \<le> length (bk_nodes (get_buckets af s3 ! i))"
proof -
  have ok: "get_buckets af s \<noteq> []" "id_cmp nid (myid s) \<noteq> 0" "\<not> is_martian sa"
    "length sa \<le> SOCKADDR_STORAGE" "\<not> node_blacklisted sa s"
    using ret new_node_guards [OF inv, of sa nid c] unfolding not_less [symmetric] af_def by blast+
  define i where "i = find_idx nid (get_buckets af s)"
  define mb where "mb = in_bucket (myid s) (get_buckets af s) i"
  define s1 where "s1 = touch_bucket af i c s"
  define s2 where "s2 = grow_time af mb s1"
  note unf = new_node_unfold [OF ok meta_eq_to_obj_eq [OF af_def], of c, folded i_def, folded mb_def, folded s1_def, folded s2_def]
  have af: "valid_af af" using sa by (simp add: addr_ok_def af_def)
  have i: "i < length (get_buckets af s)" using ok find_idx_less by (simp add: i_def)
  note f1 = touch_bucket_frame [OF inv af i, of c, folded s1_def]
  have i1: "i < length (get_buckets af s1)" using i f1(3) by (metis length_map)
  have s2: "tables_inv s2" "get_buckets af s2 = get_buckets af s1" "mem_ok s2 = mem_ok s" "i < length (get_buckets af s2)"
    "rest s2 = rest s" "alive s2 = alive s"
    using f1 i1 by (simp_all add: s2_def)
  let ?b = "get_buckets af s1 ! i"
  note B = bucket_state [OF f1(1) af i1]
  have inb: "in_bucket nid (get_buckets af s1) i"
    using find_idx_unique [OF tables_invD(1) [OF f1(1) af] i1 nid] find_idx_cong [OF f1(3), of nid] by (simp add: i_def)
  then have blk: "blo (get_buckets af s1) i \<le> be_val nid" "be_val nid < bhi (get_buckets af s1) i"
    using in_bucket_iff [OF tables_invD(1) [OF f1(1) af] i1 nid] by simp_all
  have unknown: "find_index (\<lambda>n. id_cmp (nd_id n) nid = 0) (bk_nodes ?b) = None"
  proof (rule ccontr)
    assume "find_index (\<lambda>n. id_cmp (nd_id n) nid = 0) (bk_nodes ?b) \<noteq> None"
    then obtain j where j: "find_index (\<lambda>n. id_cmp (nd_id n) nid = 0) (bk_nodes ?b) = Some j" by blast
    then have "tables_inv (upd_node af i j (refresh_node sa c s) s1)"
      using f1 af i1 sa ok(4) by (intro upd_node_same_id) (auto simp: af_def refresh_node_ok find_index_Some)
    moreover from j have "nd_id (bk_nodes ?b ! j) = nid" "j < length (bk_nodes ?b)"
      using B(1) nid by (auto simp: find_index_Some bucket_ok_def node_ok_def id_cmp_eq_iff)
    ultimately have "find_node nid af (upd_node af i j (refresh_node sa c s) s1) \<noteq> None"
      using upd_node_known [of af i j "refresh_node sa c s" s1] af i1 by simp
    with \<open>tables_inv (upd_node af i j (refresh_node sa c s) s1)\<close> show False
      using unf j f1 ret by (auto simp: returns_ok_def af_def)
  qed
  note new = not_known [OF B(1) nid this]
  have no_bad: "find_index (\<lambda>n. nd_pinged n \<ge> 3 \<and> nd_pinged_time n < now s - 15) (bk_nodes ?b) = None"
  proof (rule ccontr)
    assume "find_index (\<lambda>n. nd_pinged n \<ge> 3 \<and> nd_pinged_time n < now s - 15) (bk_nodes ?b) \<noteq> None"
    then obtain j where j: "find_index (\<lambda>n. nd_pinged n \<ge> 3 \<and> nd_pinged_time n < now s - 15) (bk_nodes ?b) = Some j" by blast
    then have jl: "j < length (bk_nodes ?b)" by (simp add: find_index_Some)
    then have "node_ok af (bk_nodes ?b ! j)" using B(1) by (auto simp: bucket_ok_def)
    then have "tables_inv (upd_node af i j (replace_node nid sa c s) s2)"
      using s2 af jl sa ok(4) nid blk new by (intro upd_node_inv) (auto simp: af_def replace_node_ok)
    moreover from this have "find_node nid af (upd_node af i j (replace_node nid sa c s) s2) \<noteq> None"
      using upd_node_known [of af i j "replace_node nid sa c s" s2] af s2 jl by simp
    ultimately show False using unf j unknown s2 ret by (auto simp: returns_ok_def af_def)
  qed
  have full: "8 \<le> bk_count (get_buckets af s2 ! i)"
  proof (rule ccontr)
    assume room: "\<not> 8 \<le> bk_count (get_buckets af s2 ! i)"
    let ?s3 = "s2\<lparr>mem_ok := (\<lambda>k. mem_ok s2 (Suc k))\<rparr>"
    let ?s4 = "upd_bucket af i
      (\<lambda>b. b\<lparr>bk_nodes := fresh_node nid sa c s # bk_nodes b, bk_count := bk_count b + 1\<rparr>) ?s3"
    have "tables_inv ?s4"
      using s2 af sa ok(4) nid blk new room by (intro add_node_inv) (auto simp: af_def fresh_node_ok)
    moreover from this have "find_node nid af ?s4 \<noteq> None"
      using find_node_known [of ?s4 af i "fresh_node nid sa c s"] af s2 by simp
    ultimately show False
      using unf unknown no_bad room s2 ret by (auto simp: returns_ok_def Let_def af_def split: if_splits)
  qed
  define s3 where "s3 = snd (ping_dubious af i s2)"
  note R = full_bucket_round [OF s2(1) af nid s2(4) _ full, folded s3_def]
  have inb2: "in_bucket nid (get_buckets af s2) i" using inb s2(2) by simp
  have "tables_inv (cache_candidate af i sa c s3) \<and> mem_ok (cache_candidate af i sa c s3) = mem_ok s \<and>
    rest (cache_candidate af i sa c s3) = rest s \<and> alive (cache_candidate af i sa c s3) = alive s"
    using cache_candidate_inv [OF R(1) sa ok(4)] R [OF inb2] inb2 s2 by (simp add: af_def cache_candidate_def)
  then have "new_node nid sa c s = new_node nid sa c (snd (split_bucket af i s3))"
    using unf unknown no_bad full s2(2) ret by (auto simp: s3_def [symmetric] Let_def returns_ok_def split: if_splits)
  with R [OF inb2] s2 f1 show thesis by (intro that [of i s3]) simp_all
qed

text \<open>Allocation may fail, but not forever.\<close>

definition mem_fair :: "dht \<Rightarrow> bool" where
  "mem_fair s = (\<forall>n. \<exists>m\<ge>n. mem_ok s m)"

lemma mem_fair_shift: "mem_ok s' = mem_ok s \<or> mem_ok s' = (\<lambda>k. mem_ok s (Suc k)) \<Longrightarrow> mem_fair s \<Longrightarrow> mem_fair s'"
  unfolding mem_fair_def by (metis Suc_le_D Suc_le_mono)

definition keeps :: "bytes \<Rightarrow> dht \<Rightarrow> dht \<Rightarrow> bool" where
  "keeps sa s s' = (tables_inv s' \<and> mem_fair s' \<and> rest s' = rest s \<and>
     (length sa \<le> SOCKADDR_STORAGE \<longrightarrow> alive s' = alive s))"

lemma returns_keeps:
  "returns_ok nid sa c s \<Longrightarrow> mem_fair s \<Longrightarrow> \<exists>ok s'. new_node nid sa c s = Some (ok, s') \<and> keeps sa s s' \<and>
     (ok \<longrightarrow> find_node nid (sa_family sa) s' \<noteq> None)"
  unfolding returns_ok_def keeps_def using mem_fair_shift by blast

text \<open>Going round again consumes one allocation; if that succeeds the block of the identifier shrinks.\<close>

lemma new_node_again:
  assumes inv: "tables_inv s" and sa: "addr_ok sa" and nid: "length nid = 20" and ret: "\<not> returns_ok nid sa c s"
  defines "af \<equiv> sa_family sa"
  obtains s4 where "new_node nid sa c s = new_node nid sa c s4" and "tables_inv s4"
    and "mem_ok s4 = (\<lambda>k. mem_ok s (Suc k))" and "rest s4 = rest s" and "alive s4 = alive s"
    and "if mem_ok s 0 then id_width nid (get_buckets af s4) < id_width nid (get_buckets af s)
         else id_width nid (get_buckets af s4) = id_width nid (get_buckets af s)"
proof -
  have af: "valid_af af" using sa by (simp add: addr_ok_def af_def)
  obtain i s3 where again: "new_node nid sa c s = new_node nid sa c (snd (split_bucket af i s3))"
    and s3: "tables_inv s3" "mem_ok s3 = mem_ok s" "rest s3 = rest s" "alive s3 = alive s"
      "map bk_first (get_buckets af s3) = map bk_first (get_buckets af s)"
    and i: "i < length (get_buckets af s3)" "in_bucket nid (get_buckets af s3) i"
    and full: "8 \<le> length (bk_nodes (get_buckets af s3 ! i))"
    using new_node_round [OF inv sa nid ret] unfolding af_def by metis
  note T = tables_invD(1) [OF s3(1) af]
  have at: "find_idx nid (get_buckets af s3) = i" using find_idx_unique [OF T i(1) nid] i(2) by simp
  have w3: "id_width nid (get_buckets af s3) = id_width nid (get_buckets af s)"
    using id_width_cong [OF s3(5)] i by fastforce
  have w8: "8 \<le> bhi (get_buckets af s3) i - blo (get_buckets af s3) i"
    using nodes_width [OF bucket_state [OF s3(1) af i(1)]] full by simp
  then have wide: "1 < bhi (get_buckets af s3) i - blo (get_buckets af s3) i" by simp
  show thesis
  proof (cases "mem_ok s 0")
    case True
    then have "mem_ok s3 0" by (simp add: s3)
    note H = split_bucket_halves [OF s3(1) af i(1) wide this]
    have "id_width nid (get_buckets af (snd (split_bucket af i s3))) < id_width nid (get_buckets af s)"
      using H(3) [OF nid i(2)] w3 w8 at by (simp add: id_width_def)
    then show thesis using True H s3 by (intro that [OF again]) simp_all
  next
    case False
    obtain m where "bucket_middle (get_buckets af s3) i = Some m" using bucket_middle_Some [OF T i(1) wide] .
    then have "mem_ok (snd (split_bucket af i s3)) = (\<lambda>k. mem_ok s (Suc k))"
      using False s3(2) by (simp add: split_bucket_def c_alloc_def)
    moreover have "\<not> mem_ok s3 0" using False by (simp add: s3)
    ultimately show thesis
      using False s3 w3 split_bucket_fail [of af s3 i] by (intro that [OF again]) simp_all
  qed
qed

lemma keeps_trans: "keeps sa s1 s2 \<Longrightarrow> rest s1 = rest s \<Longrightarrow> alive s1 = alive s \<Longrightarrow> keeps sa s s2"
  by (simp add: keeps_def)

lemma new_node_keeps:
  assumes "tables_inv s" and "mem_fair s" and sa: "addr_ok sa" and nid: "length nid = 20"
  shows "\<exists>ok s'. new_node nid sa c s = Some (ok, s') \<and> keeps sa s s' \<and>
     (ok \<longrightarrow> find_node nid (sa_family sa) s' \<noteq> None)"
proof -
  let ?w = "\<lambda>s. id_width nid (get_buckets (sa_family sa) s)"
  have wf: "wf (less_than <*lex*> less_than)" by blast
  have "\<lbrakk>tables_inv s; mem_fair s; mem_ok s (snd p); ?w s = fst p\<rbrakk> \<Longrightarrow>
    \<exists>ok s'. new_node nid sa c s = Some (ok, s') \<and> keeps sa s s' \<and>
     (ok \<longrightarrow> find_node nid (sa_family sa) s' \<noteq> None)" for p
    using wf
  proof (induction p arbitrary: s rule: wf_induct_rule)
    case (less p)
    show ?case
    proof (cases "returns_ok nid sa c s")
      case False
      with less.prems sa nid obtain s4 where again: "new_node nid sa c s = new_node nid sa c s4"
        and s4: "tables_inv s4" "mem_ok s4 = (\<lambda>k. mem_ok s (Suc k))" "rest s4 = rest s" "alive s4 = alive s"
        and w: "if mem_ok s 0 then ?w s4 < ?w s else ?w s4 = ?w s"
        by (metis new_node_again)
      have fair: "mem_fair s4" using less.prems(2) s4(2) mem_fair_shift by blast
      then obtain e where "mem_ok s4 e" by (auto simp: mem_fair_def)
      have "\<exists>q. (q, p) \<in> less_than <*lex*> less_than \<and> mem_ok s4 (snd q) \<and> ?w s4 = fst q"
      proof (cases "mem_ok s 0")
        case True
        with w less.prems(4) \<open>mem_ok s4 e\<close> show ?thesis by (intro exI [of _ "(?w s4, e)"]) (cases p, auto)
      next
        case False
        then obtain d where "snd p = Suc d" using less.prems(3) by (cases "snd p") auto
        with False w less.prems s4(2) show ?thesis by (intro exI [of _ "(?w s4, d)"]) (cases p, auto)
      qed
      then obtain q where "(q, p) \<in> less_than <*lex*> less_than" "mem_ok s4 (snd q)" "?w s4 = fst q" by blast
      from less.IH [OF this(1) s4(1) fair this(2,3)] show ?thesis
        unfolding again using keeps_trans s4 by blast
    qed (use less.prems returns_keeps in blast)
  qed
  moreover obtain d where "mem_ok s d" using assms(2) by (auto simp: mem_fair_def)
  ultimately show ?thesis using assms(1,2) by (metis fst_conv snd_conv)
qed

section \<open>Expiry\<close>

lemma expire_nodes_filter: "expire_nodes ns = filter (\<lambda>n. nd_pinged n < 4) ns"
proof -
  have after: "dropWhile (\<lambda>n. nd_pinged n \<ge> 4) ns = [] \<or> nd_pinged (hd (dropWhile (\<lambda>n. nd_pinged n \<ge> 4) ns)) < 4" for ns
    by (induction ns) auto
  have drop: "filter (\<lambda>n. nd_pinged n < 4) (dropWhile (\<lambda>n. nd_pinged n \<ge> 4) ns) = filter (\<lambda>n. nd_pinged n < 4) ns" for ns
    by (induction ns) auto
  have "ms = [] \<or> nd_pinged (hd ms) < 4 \<Longrightarrow> expire_after ms = filter (\<lambda>n. nd_pinged n < 4) ms" for ms
  proof (induction ms rule: expire_after.induct)
    case (2 p ms)
    then show ?case using after [of ms] drop [of ms] by auto
  qed simp
  from this [OF after] show ?thesis unfolding expire_nodes_def by (simp only: drop)
qed

lemma expire_bucket_inv:
  assumes inv: "tables_inv s" "valid_af af" and i: "i < length (get_buckets af s)"
  shows "tables_inv (expire_bucket af i s)" and "alive (expire_bucket af i s) = alive s"
    and "length (get_buckets af (expire_bucket af i s)) = length (get_buckets af s)"
proof -
  let ?b = "get_buckets af s ! i"
  define ns where "ns = expire_nodes (bk_nodes ?b)"
  define s1 where "s1 = upd_bucket af i
    (\<lambda>b. b\<lparr>bk_nodes := ns, bk_count := bk_count b - int (length (bk_nodes ?b) - length ns)\<rparr>) s"
  have le: "length ns \<le> length (bk_nodes ?b)" by (simp add: ns_def expire_nodes_filter)
  have "distinct (map nd_id ns)" "set ns \<subseteq> set (bk_nodes ?b)"
    using bucket_state(1) [OF inv i] by (auto simp: ns_def expire_nodes_filter bucket_ok_def distinct_map_filter)
  then have s1: "tables_inv s1" unfolding s1_def
    using inv i bucket_state [OF inv i] le by (intro upd_bucket_inv) (auto simp: bucket_ok_def nodes_within_def)
  have i1: "i < length (get_buckets af s1)" using i by (simp add: s1_def)
  have e: "expire_bucket af i s = (if length (bk_nodes ?b) - length ns > 0 then send_cached_ping af i s1 else s1)"
    by (simp only: expire_bucket_def Let_def ns_def s1_def)
  show "tables_inv (expire_bucket af i s)" using e s1 inv i1 by (simp add: send_cached_ping_inv)
  show "alive (expire_bucket af i s) = alive s"
    using e s1 inv i1 by (simp add: send_cached_ping_alive) (simp add: s1_def)
  show "length (get_buckets af (expire_bucket af i s)) = length (get_buckets af s)"
    using e by (simp add: get_send_cached_ping) (simp add: s1_def)
qed

lemma expire_bucket_rest: "rest (expire_bucket af i s) = rest s" "mem_ok (expire_bucket af i s) = mem_ok s"
  by (simp_all add: expire_bucket_def Let_def send_cached_ping_frame)

lemma fold_expire_bucket:
  assumes "valid_af af"
  shows "\<forall>i\<in>set is. i < length (get_buckets af s) \<Longrightarrow> tables_inv s \<Longrightarrow>
    tables_inv (fold (expire_bucket af) is s) \<and> alive (fold (expire_bucket af) is s) = alive s \<and>
    rest (fold (expire_bucket af) is s) = rest s \<and> mem_ok (fold (expire_bucket af) is s) = mem_ok s"
  by (induction "is" arbitrary: s) (use assms in \<open>simp_all add: expire_bucket_inv expire_bucket_rest\<close>)

lemma expire_bucket_nodes:
  "i < length (get_buckets af s) \<Longrightarrow>
   map bk_nodes (get_buckets af (expire_bucket af i s)) =
     (map bk_nodes (get_buckets af s))[i := filter (\<lambda>n. nd_pinged n < 4) (bk_nodes (get_buckets af s ! i))]"
  by (simp add: expire_bucket_def Let_def expire_nodes_filter get_send_cached_ping map_update)

lemma expire_buckets_nodes:
  "map bk_nodes (get_buckets af (expire_buckets af s)) = map (filter (\<lambda>n. nd_pinged n < 4) \<circ> bk_nodes) (get_buckets af s)"
proof -
  let ?f = "filter (\<lambda>n. nd_pinged n < 4) :: node list \<Rightarrow> node list"
  have "map bk_nodes (get_buckets af (fold (expire_bucket af) [0..<n] s)) =
      map ?f (take n (map bk_nodes (get_buckets af s))) @ drop n (map bk_nodes (get_buckets af s))"
    if "n \<le> length (get_buckets af s)" for n
    using that
  proof (induction n)
    case (Suc n)
    let ?s = "fold (expire_bucket af) [0..<n] s" and ?l = "map bk_nodes (get_buckets af s)"
    have IH: "map bk_nodes (get_buckets af ?s) = map ?f (take n ?l) @ drop n ?l" using Suc by simp
    have n: "n < length ?l" using Suc.prems by simp
    then have len: "n < length (get_buckets af ?s)" using arg_cong [OF IH, of length] by simp
    have "bk_nodes (get_buckets af ?s ! n) = map bk_nodes (get_buckets af ?s) ! n" using len by simp
    also have "\<dots> = ?l ! n" unfolding IH using n by (simp add: nth_append)
    finally have "map bk_nodes (get_buckets af (expire_bucket af n ?s)) = (map ?f (take n ?l) @ drop n ?l)[n := ?f (?l ! n)]"
      using expire_bucket_nodes [OF len] IH by simp
    also have "\<dots> = map ?f (take (Suc n) ?l) @ drop (Suc n) ?l"
      using n by (simp add: list_update_append take_Suc_conv_app_nth min_def flip: Cons_nth_drop_Suc)
    finally show ?case by simp
  qed simp
  from this [of "length (get_buckets af s)"] show ?thesis
    by (simp add: expire_buckets_def c_random_def Let_def get_buckets_def split: if_splits)
qed

lemma expire_buckets_keeps:
  assumes "tables_inv s" and "valid_af af"
  shows "tables_inv (expire_buckets af s)" and "alive (expire_buckets af s) = alive s"
    and "mem_ok (expire_buckets af s) = mem_ok s"
  using fold_expire_bucket [OF assms(2), of "[0..<length (get_buckets af s)]" s] assms(1)
  by (simp_all add: expire_buckets_def Let_def c_random_def tables_inv_def alive_def)

end
