(* ===== verification/Dht_Storage.thy ===== *)
theory Dht_Storage
  imports Dht_Growth "HOL-Library.Multiset"
begin

text \<open>
  The peers announced to this node (\<open>struct storage\<close> of \<open>src/routing/dht.c\<close>), the write
  tokens that guard announcements, and the rate limiter of incoming requests. The storage
  implements a finite map from info-hash and peer to the time of the last announcement; a token is
  accepted until the secret it was made with has been rotated out twice.
\<close>

section \<open>Definitions\<close>

definition find_storage :: "dht_id \<Rightarrow> dht \<Rightarrow> nat option" where
  "find_storage nid s = find_index (\<lambda>st. id_cmp nid (st_id st) = 0) (storage s)"

text \<open>The address a peer is stored under: 4 or 16 bytes.\<close>

definition sa_ip :: "bytes \<Rightarrow> bytes option" where
  "sa_ip sa = (if sa_family sa = AF_INET then Some (sin_addr sa)
               else if sa_family sa = AF_INET6 then Some (sin6_addr sa) else None)"

definition storage_slot :: "dht_id \<Rightarrow> dht \<Rightarrow> nat option \<times> dht" where
  "storage_slot nid s =
     (case find_storage nid s of
        Some k \<Rightarrow> (Some k, s)
      | None \<Rightarrow>
          if numstorage s \<ge> DHT_MAX_HASHES then (None, s)
          else let (ok, s1) = c_alloc s
               in if \<not> ok then (None, s1)
                  else (Some 0, s1\<lparr>storage := \<lparr>st_id = nid, st_maxpeers = 0, st_peers = []\<rparr> # storage s1,
                                    numstorage := numstorage s1 + 1\<rparr>))"

definition upd_storage :: "nat \<Rightarrow> (storage_t \<Rightarrow> storage_t) \<Rightarrow> dht \<Rightarrow> dht" where
  "upd_storage k f s = s\<lparr>storage := (storage s)[k := f (storage s ! k)]\<rparr>"

definition grow_peers :: "nat \<Rightarrow> nat" where
  "grow_peers maxpeers = min (if maxpeers = 0 then 2 else 2 * maxpeers) DHT_MAX_PEERS"

definition add_peer :: "peer \<Rightarrow> storage_t \<Rightarrow> storage_t" where
  "add_peer p st = st\<lparr>st_peers := st_peers st @ [p]\<rparr>"

definition storage_store :: "dht_id \<Rightarrow> bytes \<Rightarrow> 16 word \<Rightarrow> dht \<Rightarrow> int \<times> dht" where
  "storage_store nid sa port s =
     (case sa_ip sa of
        None \<Rightarrow> (- 1, s)
      | Some ip \<Rightarrow>
          (case storage_slot nid s of
             (None, s1) \<Rightarrow> (- 1, s1)
           | (Some k, s1) \<Rightarrow>
               (let st = storage s1 ! k;
                    p = \<lparr>pr_time = now s1, pr_ip = ip, pr_port = port\<rparr>
                in case find_index (\<lambda>p. pr_port p = port \<and> length (pr_ip p) = length ip \<and>
                                        memcmp (pr_ip p) ip (length ip) = 0) (st_peers st) of
                     Some i \<Rightarrow>
                       (0, upd_storage k (\<lambda>st. st\<lparr>st_peers := (st_peers st)[i := (st_peers st ! i)\<lparr>pr_time := now s1\<rparr>]\<rparr>) s1)
                   | None \<Rightarrow>
                       if length (st_peers st) \<ge> st_maxpeers st then
                         if st_maxpeers st \<ge> DHT_MAX_PEERS then (0, s1)
                         else
                           (let (ok, s2) = c_alloc s1
                            in if \<not> ok then (- 1, s2)
                               else (1, upd_storage k (\<lambda>st. add_peer p (st\<lparr>st_maxpeers := grow_peers (st_maxpeers st)\<rparr>)) s2))
                       else (1, upd_storage k (add_peer p) s1))))"

text \<open>Expiry overwrites a stale peer with the last one and shortens the array.\<close>

function expire_peers :: "int \<Rightarrow> nat \<Rightarrow> peer list \<Rightarrow> peer list" where
  "expire_peers t i ps =
     (if i < length ps then
        (if pr_time (ps ! i) < t - 32 * 60 then expire_peers t i (butlast (ps[i := last ps]))
         else expire_peers t (Suc i) ps)
      else ps)"
  by pat_completeness auto
termination
  by (relation "measure (\<lambda>(t, i, ps). length ps - i)") auto

declare expire_peers.simps [simp del]

fun expire_storage_loop :: "int \<Rightarrow> storage_t list \<Rightarrow> int \<Rightarrow> storage_t list \<times> int" where
  "expire_storage_loop t [] n = ([], n)"
| "expire_storage_loop t (st # sts) n =
     (let ps = expire_peers t 0 (st_peers st)
      in if ps = [] then expire_storage_loop t sts (if n - 1 < 0 then 0 else n - 1)
         else let (sts', n') = expire_storage_loop t sts n in (st\<lparr>st_peers := ps\<rparr> # sts', n'))"

definition expire_storage :: "dht \<Rightarrow> dht" where
  "expire_storage s =
     (let (sts, n) = expire_storage_loop (now s) (storage s) (numstorage s)
      in s\<lparr>storage := sts, numstorage := n\<rparr>)"

definition rotate_secrets :: "dht \<Rightarrow> int \<times> dht" where
  "rotate_secrets s =
     (let (r, s1) = c_random s;
          s2 = s1\<lparr>rotate_secrets_time := now s1 + 900 + int (r mod 1800), oldsecret := secret s1\<rparr>;
          ((rc, bs), s3) = dht_random_bytes (length (secret s2)) s2;
          s4 = s3\<lparr>secret := memcpy (secret s3) (take (length (secret s3)) bs)\<rparr>
      in if rc < 0 then (- 1, s4) else (1, s4))"

text \<open>\<open>make_token\<close>: a hash of a secret, the address and the port in host order;
  \<open>None\<close> is its \<open>abort()\<close>. The caller's buffer is uninitialised; the model has zeroes there,
  which matters only when the hash fails, and the claims about tokens assume it does not.\<close>

definition make_token :: "bytes \<Rightarrow> bool \<Rightarrow> dht \<Rightarrow> bytes option" where
  "make_token sa old s =
     (case sa_ip sa of
        None \<Rightarrow> None
      | Some ip \<Rightarrow>
          Some (dht_hash (sha256 s) (replicate TOKEN_SIZE 0)
                  (if old then oldsecret s else secret s) ip (rev (sa_port sa))))"

definition token_match :: "bytes \<Rightarrow> bytes \<Rightarrow> dht \<Rightarrow> bool option" where
  "token_match token sa s =
     (if length token \<noteq> TOKEN_SIZE then Some False
      else case make_token sa False s of
             None \<Rightarrow> None
           | Some t \<Rightarrow>
               if memcmp t token TOKEN_SIZE = 0 then Some True
               else case make_token sa True s of
                      None \<Rightarrow> None
                    | Some t' \<Rightarrow> Some (memcmp t' token TOKEN_SIZE = 0))"

definition token_bucket :: "dht \<Rightarrow> bool \<times> dht" where
  "token_bucket s =
     (let s1 = (if token_bucket_tokens s = 0 then
                  s\<lparr>token_bucket_tokens := sint (of_int (min MAX_TOKEN_BUCKET_TOKENS (100 * (now s - token_bucket_time s))) :: 32 word),
                    token_bucket_time := now s\<rparr>
                else s)
      in if token_bucket_tokens s1 = 0 then (False, s1)
         else (True, s1\<lparr>token_bucket_tokens := token_bucket_tokens s1 - 1\<rparr>))"

section \<open>Expiry\<close>

lemma swap_last_mset:
  assumes "i < length ps"
  shows "mset ps = add_mset (ps ! i) (mset (butlast (ps[i := last ps])))"
proof -
  let ?qs = "ps[i := last ps]"
  have ne: "?qs \<noteq> []" using assms by auto
  have "last ?qs = last ps" using ne by (simp add: last_list_update)
  then have "mset ?qs = add_mset (last ps) (mset (butlast ?qs))"
    using ne by (metis append_butlast_last_id mset_append mset.simps union_mset_add_mset_right add.right_neutral)
  moreover have "mset ?qs = add_mset (last ps) (mset ps - {#ps ! i#})" using assms by (simp add: mset_update)
  ultimately have "mset ps - {#ps ! i#} = mset (butlast ?qs)" by simp
  moreover have "ps ! i \<in># mset ps" using assms by simp
  ultimately show ?thesis by (metis insert_DiffM)
qed

lemma expire_peers_mset:
  "\<forall>k<i. k < length ps \<longrightarrow> \<not> pr_time (ps ! k) < t - 32 * 60 \<Longrightarrow>
   mset (expire_peers t i ps) = filter_mset (\<lambda>p. \<not> pr_time p < t - 32 * 60) (mset ps)"
proof (induction t i ps rule: expire_peers.induct)
  case (1 t i ps)
  show ?case
  proof (cases "i < length ps")
    case False
    then have "\<forall>p\<in>set ps. \<not> pr_time p < t - 32 * 60"
      using "1.prems" by (auto simp: in_set_conv_nth)
    then have "filter_mset (\<lambda>p. \<not> pr_time p < t - 32 * 60) (mset ps) = mset ps"
      by (metis filter_True mset_filter)
    with False show ?thesis by (simp add: expire_peers.simps)
  next
    case True
    show ?thesis
    proof (cases "pr_time (ps ! i) < t - 32 * 60")
      case stale: True
      let ?qs = "butlast (ps[i := last ps])"
      have "mset ps = add_mset (ps ! i) (mset ?qs)" using True by (rule swap_last_mset)
      moreover have "\<forall>k<i. k < length ?qs \<longrightarrow> \<not> pr_time (?qs ! k) < t - 32 * 60"
        using "1.prems" by (auto simp: nth_butlast)
      ultimately show ?thesis using "1.IH"(1) [OF True stale] True stale by (simp add: expire_peers.simps [of t i ps])
    next
      case fresh: False
      then have "\<forall>k<Suc i. k < length ps \<longrightarrow> \<not> pr_time (ps ! k) < t - 32 * 60"
        using "1.prems" by (auto simp: less_Suc_eq)
      then show ?thesis using "1.IH"(2) [OF True fresh] True fresh by (simp add: expire_peers.simps [of t i ps])
    qed
  qed
qed

section \<open>The map the storage implements\<close>

definition peer_key :: "peer \<Rightarrow> bytes \<times> 16 word" where
  "peer_key p = (pr_ip p, pr_port p)"

definition peer_map :: "peer list \<Rightarrow> bytes \<times> 16 word \<rightharpoonup> int" where
  "peer_map ps = map_of (map (\<lambda>p. (peer_key p, pr_time p)) ps)"

definition storage_abs :: "dht \<Rightarrow> dht_id \<times> bytes \<times> 16 word \<rightharpoonup> int" where
  "storage_abs s = (\<lambda>(nid, k).
     Option.bind (map_of (map (\<lambda>st. (st_id st, peer_map (st_peers st))) (storage s)) nid) (\<lambda>m. m k))"

definition storage_ok :: "storage_t \<Rightarrow> bool" where
  "storage_ok st =
     (length (st_id st) = 20 \<and> length (st_peers st) \<le> st_maxpeers st \<and> st_maxpeers st \<le> DHT_MAX_PEERS \<and>
      distinct (map peer_key (st_peers st)) \<and> (\<forall>p\<in>set (st_peers st). length (pr_ip p) \<in> {4, 16}))"

text \<open>\<open>dht_uninit\<close> frees the storage and leaves the counter behind: \<open>z\<close> is by how much the counter is ahead of the list.\<close>

definition storage_inv_by :: "nat \<Rightarrow> dht \<Rightarrow> bool" where
  "storage_inv_by z s =
     (numstorage s = int (length (storage s)) + int z \<and> numstorage s \<le> DHT_MAX_HASHES \<and>
      distinct (map st_id (storage s)) \<and> (\<forall>st\<in>set (storage s). storage_ok st))"

abbreviation storage_inv :: "dht \<Rightarrow> bool" where
  "storage_inv \<equiv> storage_inv_by 0"

lemma length_sa_ip: "sa_ip sa = Some ip \<Longrightarrow> length ip \<in> {4, 16}"
  by (auto simp: sa_ip_def sin_addr_def sin6_addr_def split: if_splits)

lemma find_storage_Some:
  assumes "storage_inv_by z s" and "length nid = 20" and "find_storage nid s = Some k"
  shows "k < length (storage s)" and "st_id (storage s ! k) = nid"
proof -
  show k: "k < length (storage s)" using assms(3) by (simp add: find_storage_def find_index_Some)
  then have "length (st_id (storage s ! k)) = 20" using assms(1) by (simp add: storage_inv_by_def storage_ok_def)
  then show "st_id (storage s ! k) = nid"
    using assms(2,3) id_cmp_eq_iff [of nid "st_id (storage s ! k)"] by (auto simp: find_storage_def find_index_Some)
qed

lemma find_storage_fresh:
  "find_storage nid s = None \<Longrightarrow> nid \<notin> set (map st_id (storage s))"
  by (auto simp: find_storage_def find_index_None)

lemma peer_found:
  "find_index (\<lambda>p. pr_port p = port \<and> length (pr_ip p) = length ip \<and> memcmp (pr_ip p) ip (length ip) = 0) (st_peers st)
    = find_index (\<lambda>p. peer_key p = (ip, port)) (st_peers st)"
proof -
  have "(pr_port p = port \<and> length (pr_ip p) = length ip \<and> memcmp (pr_ip p) ip (length ip) = 0) = (peer_key p = (ip, port))" for p
    by (auto simp: peer_key_def memcmp_eq_iff)
  then show ?thesis by simp
qed

lemma peer_map_append:
  "(ip, port) \<notin> set (map peer_key ps) \<Longrightarrow>
   peer_map (ps @ [\<lparr>pr_time = t, pr_ip = ip, pr_port = port\<rparr>]) = (peer_map ps)((ip, port) \<mapsto> t)"
  unfolding peer_map_def by (subst map_of_append_new [symmetric]) (auto simp: peer_key_def)

lemma peer_key_time [simp]: "peer_key (p\<lparr>pr_time := t\<rparr>) = peer_key p"
  by (simp add: peer_key_def)

lemma peer_map_refresh:
  "i < length ps \<Longrightarrow> distinct (map peer_key ps) \<Longrightarrow>
   peer_map (ps[i := (ps ! i)\<lparr>pr_time := t\<rparr>]) = (peer_map ps)(peer_key (ps ! i) \<mapsto> t)"
  unfolding peer_map_def
  by (subst map_of_list_update [symmetric]) (auto simp: comp_def map_update)

text \<open>Changing the peers of one info-hash changes the map at that info-hash only.\<close>

lemma upd_storage_abs:
  assumes inv: "storage_inv_by z s" and k: "k < length (storage s)" and id: "st_id (f (storage s ! k)) = st_id (storage s ! k)"
  shows "storage_abs (upd_storage k f s) =
    (\<lambda>(nid, q). if nid = st_id (storage s ! k) then peer_map (st_peers (f (storage s ! k))) q else storage_abs s (nid, q))"
proof -
  let ?g = "\<lambda>st. (st_id st, peer_map (st_peers st))"
  have "map_of (map ?g ((storage s)[k := f (storage s ! k)])) =
    (map_of (map ?g (storage s)))(st_id (storage s ! k) \<mapsto> peer_map (st_peers (f (storage s ! k))))"
    using inv k id by (simp add: map_update map_of_list_update storage_inv_by_def comp_def)
  then show ?thesis by (auto simp: storage_abs_def upd_storage_def fun_eq_iff)
qed

lemma upd_storage_inv:
  assumes inv: "storage_inv_by z s" and k: "k < length (storage s)" and id: "st_id (f (storage s ! k)) = st_id (storage s ! k)"
    and ok: "storage_ok (f (storage s ! k))"
  shows "storage_inv_by z (upd_storage k f s)"
proof -
  have "map st_id ((storage s)[k := f (storage s ! k)]) = map st_id (storage s)" using id by (rule map_update_same)
  then show ?thesis
    using inv ok set_update_subset_insert [of "storage s" k "f (storage s ! k)"]
    by (auto simp: storage_inv_by_def upd_storage_def)
qed

text \<open>The slot of an info-hash: found, or created empty.\<close>

lemma storage_slot_spec:
  assumes inv: "storage_inv_by z s" and nid: "length nid = 20"
  defines "r \<equiv> storage_slot nid s"
  shows "storage_inv_by z (snd r)" and "storage_abs (snd r) = storage_abs s" and "now (snd r) = now s"
    and "fst r = Some k \<Longrightarrow> k < length (storage (snd r)) \<and> st_id (storage (snd r) ! k) = nid"
proof -
  have "storage_inv_by z (snd r) \<and> storage_abs (snd r) = storage_abs s \<and> now (snd r) = now s \<and>
    (fst r = Some k \<longrightarrow> k < length (storage (snd r)) \<and> st_id (storage (snd r) ! k) = nid)"
  proof (cases "find_storage nid s")
    case (Some j)
    then show ?thesis using find_storage_Some [OF inv nid Some] inv by (auto simp: r_def storage_slot_def)
  next
    case None
    then have "map_of (map (\<lambda>st. (st_id st, peer_map (st_peers st))) (storage s)) nid = None"
      using find_storage_fresh by (force simp: map_of_eq_None_iff)
    then show ?thesis
      using None inv nid find_storage_fresh [OF None]
      by (auto simp: r_def storage_slot_def c_alloc_def storage_inv_by_def storage_ok_def storage_abs_def
          peer_map_def fun_eq_iff)
  qed
  then show "storage_inv_by z (snd r)" "storage_abs (snd r) = storage_abs s" "now (snd r) = now s"
    "fst r = Some k \<Longrightarrow> k < length (storage (snd r)) \<and> st_id (storage (snd r) ! k) = nid" by simp_all
qed

lemma grow_peers_bounds: "m < DHT_MAX_PEERS \<Longrightarrow> m < grow_peers m \<and> grow_peers m \<le> DHT_MAX_PEERS"
  by (auto simp: grow_peers_def DHT_MAX_PEERS_def)

lemma add_peer_ok:
  assumes "storage_ok st" and "length ip \<in> {4, 16}" and "(ip, port) \<notin> set (map peer_key (st_peers st))"
    and "length (st_peers st) < m" and "m \<le> DHT_MAX_PEERS"
  shows "storage_ok (add_peer \<lparr>pr_time = t, pr_ip = ip, pr_port = port\<rparr> (st\<lparr>st_maxpeers := m\<rparr>))"
  using assms by (auto simp: storage_ok_def add_peer_def peer_key_def)

text \<open>What \<open>storage_store\<close> does to a slot that exists, by what it finds there.\<close>

lemma store_peer_spec:
  assumes inv: "storage_inv_by z s" and k: "k < length (storage s)" and ip: "length ip \<in> {4, 16}"
  defines "st \<equiv> storage s ! k"
  shows "find_index (\<lambda>p. peer_key p = (ip, port)) (st_peers st) = Some i \<Longrightarrow>
      (let s' = upd_storage k (\<lambda>st. st\<lparr>st_peers := (st_peers st)[i := (st_peers st ! i)\<lparr>pr_time := t\<rparr>]\<rparr>) s
       in storage_inv_by z s' \<and> storage_abs s' = (storage_abs s)((st_id st, ip, port) \<mapsto> t) \<and>
          storage_abs s (st_id st, ip, port) \<noteq> None)"
    and "find_index (\<lambda>p. peer_key p = (ip, port)) (st_peers st) = None \<Longrightarrow>
      length (st_peers st) < m \<Longrightarrow> m \<le> DHT_MAX_PEERS \<Longrightarrow>
      (let s' = upd_storage k (\<lambda>st. add_peer \<lparr>pr_time = t, pr_ip = ip, pr_port = port\<rparr> (st\<lparr>st_maxpeers := m\<rparr>)) s
       in storage_inv_by z s' \<and> storage_abs s' = (storage_abs s)((st_id st, ip, port) \<mapsto> t) \<and>
          storage_abs s (st_id st, ip, port) = None)"
proof -
  have ok: "storage_ok st" using inv k by (simp add: storage_inv_by_def st_def)
  have here: "storage_abs s (st_id st, q) = peer_map (st_peers st) q" for q
    using fun_cong [OF upd_storage_abs [OF inv k, of "\<lambda>st. st"], of "(st_id st, q)"]
    by (simp add: upd_storage_def st_def)
  show "let s' = upd_storage k (\<lambda>st. st\<lparr>st_peers := (st_peers st)[i := (st_peers st ! i)\<lparr>pr_time := t\<rparr>]\<rparr>) s
       in storage_inv_by z s' \<and> storage_abs s' = (storage_abs s)((st_id st, ip, port) \<mapsto> t) \<and>
          storage_abs s (st_id st, ip, port) \<noteq> None"
    if "find_index (\<lambda>p. peer_key p = (ip, port)) (st_peers st) = Some i"
  proof -
    from that have i: "i < length (st_peers st)" "peer_key (st_peers st ! i) = (ip, port)"
      by (auto simp: find_index_Some)
    have "length (pr_ip ((st_peers st ! i)\<lparr>pr_time := t\<rparr>)) \<in> {4, 16}" using i(2) ip by (simp add: peer_key_def)
    then have "\<forall>p\<in>set ((st_peers st)[i := (st_peers st ! i)\<lparr>pr_time := t\<rparr>]). length (pr_ip p) \<in> {4, 16}"
      using ok set_update_subset_insert [of "st_peers st" i] unfolding storage_ok_def by blast
    then have "storage_ok (st\<lparr>st_peers := (st_peers st)[i := (st_peers st ! i)\<lparr>pr_time := t\<rparr>]\<rparr>)"
      using ok map_update_same [of peer_key "\<lambda>p. p\<lparr>pr_time := t\<rparr>" "st_peers st" i] by (simp add: storage_ok_def)
    moreover have "(ip, port) \<in> fst ` set (map (\<lambda>p. (peer_key p, pr_time p)) (st_peers st))"
      using i(2) imageI [OF nth_mem [OF i(1)], of peer_key] by (simp add: image_image)
    then have "peer_map (st_peers st) (ip, port) \<noteq> None" unfolding peer_map_def map_of_eq_None_iff by simp
    ultimately show ?thesis
      using upd_storage_inv [OF inv k] upd_storage_abs [OF inv k] here ok i
      by (auto simp: Let_def st_def [symmetric] peer_map_refresh storage_ok_def fun_eq_iff)
  qed
  show "let s' = upd_storage k (\<lambda>st. add_peer \<lparr>pr_time = t, pr_ip = ip, pr_port = port\<rparr> (st\<lparr>st_maxpeers := m\<rparr>)) s
       in storage_inv_by z s' \<and> storage_abs s' = (storage_abs s)((st_id st, ip, port) \<mapsto> t) \<and>
          storage_abs s (st_id st, ip, port) = None"
    if "find_index (\<lambda>p. peer_key p = (ip, port)) (st_peers st) = None" "length (st_peers st) < m" "m \<le> DHT_MAX_PEERS"
  proof -
    from that(1) have new: "(ip, port) \<notin> set (map peer_key (st_peers st))" by (auto simp: find_index_None)
    then have "peer_map (st_peers st) (ip, port) = None" by (auto simp: peer_map_def map_of_eq_None_iff)
    then show ?thesis
      using upd_storage_inv [OF inv k] upd_storage_abs [OF inv k] here add_peer_ok [OF ok ip new that(2,3)] new
      by (auto simp: Let_def st_def [symmetric] add_peer_def peer_map_append fun_eq_iff)
  qed
qed

lemma upd_storage_cong: "f (storage s ! k) = g (storage s ! k) \<Longrightarrow> upd_storage k f s = upd_storage k g s"
  by (simp add: upd_storage_def)

lemma upd_storage_mem [simp]:
  "upd_storage k f (s\<lparr>mem_ok := g\<rparr>) = (upd_storage k f s)\<lparr>mem_ok := g\<rparr>"
  "storage_inv_by z (s\<lparr>mem_ok := g\<rparr>) = storage_inv_by z s" "storage_abs (s\<lparr>mem_ok := g\<rparr>) = storage_abs s"
  by (simp_all add: upd_storage_def storage_inv_by_def storage_abs_def)

lemma store_absent:
  assumes inv: "storage_inv_by z s" and k: "k < length (storage s)"
    and none: "find_index (\<lambda>p. peer_key p = q) (st_peers (storage s ! k)) = None"
  shows "storage_abs s (st_id (storage s ! k), q) = None"
proof -
  have "q \<notin> set (map peer_key (st_peers (storage s ! k)))" using none by (auto simp: find_index_None)
  then have "peer_map (st_peers (storage s ! k)) q = None" by (auto simp: peer_map_def map_of_eq_None_iff)
  then show ?thesis
    using fun_cong [OF upd_storage_abs [OF inv k, of "\<lambda>st. st"], of "(st_id (storage s ! k), q)"]
    by (simp add: upd_storage_def)
qed

text \<open>Refinement: the outcomes of \<open>storage_store\<close> on the map. 1 adds a peer, 0 refreshes one or
  finds the array of the info-hash full, -1 leaves the map alone.\<close>

definition store_outcome :: "dht_id \<times> bytes \<times> 16 word \<Rightarrow> dht \<Rightarrow> int \<Rightarrow> dht \<Rightarrow> bool" where
  "store_outcome q s rc s' =
     (if rc = 1 then storage_abs s q = None \<and> storage_abs s' = (storage_abs s)(q \<mapsto> now s)
      else if rc = 0 \<and> storage_abs s q \<noteq> None then storage_abs s' = (storage_abs s)(q \<mapsto> now s)
      else if rc = 0 then storage_abs s' = storage_abs s \<and>
        (\<exists>st\<in>set (storage s'). st_id st = fst q \<and> length (st_peers st) = DHT_MAX_PEERS)
      else rc = - 1 \<and> storage_abs s' = storage_abs s)"

lemma storage_store_refines:
  assumes inv: "storage_inv_by z s" and nid: "length nid = 20" and ip: "sa_ip sa = Some ip"
  shows "storage_inv_by z (snd (storage_store nid sa port s)) \<and>
    store_outcome (nid, ip, port) s (fst (storage_store nid sa port s)) (snd (storage_store nid sa port s))"
proof -
  obtain r s1 where r: "storage_slot nid s = (r, s1)" by (cases "storage_slot nid s")
  note S = storage_slot_spec [OF inv nid, unfolded r, simplified]
  note ip4 = length_sa_ip [OF ip]
  show ?thesis
  proof (cases r)
    case None
    then show ?thesis using ip r S by (simp add: storage_store_def store_outcome_def)
  next
    case (Some k)
    with S have k: "k < length (storage s1)" and id: "st_id (storage s1 ! k) = nid" by simp_all
    let ?st = "storage s1 ! k"
    have ok: "storage_ok ?st" using S(1) k by (simp add: storage_inv_by_def)
    show ?thesis
    proof (cases "find_index (\<lambda>p. peer_key p = (ip, port)) (st_peers ?st)")
      case (Some i)
      then show ?thesis
        using store_peer_spec(1) [OF S(1) k ip4 Some, of "now s"] ip r S \<open>r = Some k\<close> id
        by (simp add: storage_store_def peer_found store_outcome_def Let_def)
    next
      case None
      note new = store_peer_spec(2) [OF S(1) k ip4 None, of _ "now s"] and gone = store_absent [OF S(1) k None]
      have "storage_store nid sa port s =
        (if length (st_peers ?st) \<ge> st_maxpeers ?st then
           if st_maxpeers ?st \<ge> DHT_MAX_PEERS then (0, s1)
           else if \<not> mem_ok s1 0 then (- 1, s1\<lparr>mem_ok := (\<lambda>i. mem_ok s1 (Suc i))\<rparr>)
           else (1, upd_storage k (\<lambda>st. add_peer \<lparr>pr_time = now s, pr_ip = ip, pr_port = port\<rparr>
              (st\<lparr>st_maxpeers := grow_peers (st_maxpeers st)\<rparr>)) (s1\<lparr>mem_ok := (\<lambda>i. mem_ok s1 (Suc i))\<rparr>))
         else (1, upd_storage k (add_peer \<lparr>pr_time = now s, pr_ip = ip, pr_port = port\<rparr>) s1))"
        using ip r None S \<open>r = Some k\<close> by (simp add: storage_store_def peer_found c_alloc_def Let_def)
      moreover have "upd_storage k (add_peer p) s1 = upd_storage k (\<lambda>st. add_peer p (st\<lparr>st_maxpeers := st_maxpeers ?st\<rparr>)) s1"
        "upd_storage k (\<lambda>st. add_peer p (st\<lparr>st_maxpeers := grow_peers (st_maxpeers st)\<rparr>)) s1 =
         upd_storage k (\<lambda>st. add_peer p (st\<lparr>st_maxpeers := grow_peers (st_maxpeers ?st)\<rparr>)) s1" for p
        by (auto intro: upd_storage_cong)
      moreover have "length (st_peers ?st) = DHT_MAX_PEERS" "?st \<in> set (storage s1)"
        if "length (st_peers ?st) \<ge> st_maxpeers ?st" "st_maxpeers ?st \<ge> DHT_MAX_PEERS"
        using ok k that by (auto simp: storage_ok_def)
      ultimately show ?thesis
        using new [of "st_maxpeers ?st"] new [of "grow_peers (st_maxpeers ?st)"] gone S id ok
          grow_peers_bounds [of "st_maxpeers ?st"]
        by (auto simp: store_outcome_def Let_def storage_ok_def)
    qed
  qed
qed

text \<open>The storage side of the state is untouched by everything but the storage operations.\<close>

lemma storage_inv_cong:
  "storage s' = storage s \<Longrightarrow> numstorage s' = numstorage s \<Longrightarrow> storage_inv_by z s' = storage_inv_by z s"
  by (simp add: storage_inv_by_def)

section \<open>Expiry of the storage\<close>

lemma mset_keys_distinct: "mset ps = mset qs \<Longrightarrow> distinct (map peer_key qs) \<Longrightarrow> distinct (map peer_key ps)"
  using mset_eq_imp_distinct_iff [of "map peer_key ps" "map peer_key qs"] by simp

lemma peer_map_mset:
  assumes "mset ps = mset qs" and "distinct (map peer_key qs)"
  shows "peer_map ps = peer_map qs"
proof -
  have "set ps = set qs" using assms(1) by (metis set_mset_mset)
  moreover have "distinct (map peer_key ps)" using assms mset_keys_distinct by blast
  ultimately show ?thesis
    unfolding peer_map_def using assms(2)
    by (intro map_of_inject_set [THEN iffD2]) (auto simp: comp_def)
qed

lemma peer_map_filter:
  "distinct (map peer_key ps) \<Longrightarrow>
   peer_map (filter (\<lambda>p. \<not> pr_time p < l) ps) = (\<lambda>q. case peer_map ps q of Some t \<Rightarrow> if t < l then None else Some t | None \<Rightarrow> None)"
proof (induction ps)
  case (Cons p ps)
  have "peer_map ps (peer_key p) = None"
    using Cons.prems by (auto simp: peer_map_def map_of_eq_None_iff)
  with Cons show ?case by (auto simp: peer_map_def fun_eq_iff split: option.splits)
qed (simp add: peer_map_def)

lemma expire_peers_map:
  assumes "distinct (map peer_key ps)"
  shows "peer_map (expire_peers t 0 ps) =
    (\<lambda>q. case peer_map ps q of Some u \<Rightarrow> if u < t - 32 * 60 then None else Some u | None \<Rightarrow> None)"
    and "distinct (map peer_key (expire_peers t 0 ps))" and "set (expire_peers t 0 ps) \<subseteq> set ps"
    and "length (expire_peers t 0 ps) \<le> length ps"
proof -
  let ?f = "filter (\<lambda>p. \<not> pr_time p < t - 32 * 60) ps"
  have m: "mset (expire_peers t 0 ps) = mset ?f" using expire_peers_mset [of 0 ps t] by simp
  have d: "distinct (map peer_key ?f)" using assms by (simp add: distinct_map_filter)
  show "peer_map (expire_peers t 0 ps) =
    (\<lambda>q. case peer_map ps q of Some u \<Rightarrow> if u < t - 32 * 60 then None else Some u | None \<Rightarrow> None)"
    unfolding peer_map_mset [OF m d] using assms by (rule peer_map_filter)
  show "distinct (map peer_key (expire_peers t 0 ps))" using m d mset_keys_distinct by blast
  show "set (expire_peers t 0 ps) \<subseteq> set ps" using m by (metis filter_is_subset set_mset_mset)
  show "length (expire_peers t 0 ps) \<le> length ps" using m by (metis length_filter_le size_mset)
qed

definition peers_of :: "storage_t list \<Rightarrow> dht_id \<times> bytes \<times> 16 word \<rightharpoonup> int" where
  "peers_of sts = (\<lambda>(nid, k). Option.bind (map_of (map (\<lambda>st. (st_id st, peer_map (st_peers st))) sts) nid) (\<lambda>m. m k))"

definition unexpired :: "int \<Rightarrow> int option \<Rightarrow> int option" where
  "unexpired l v = (case v of Some u \<Rightarrow> if u < l then None else Some u | None \<Rightarrow> None)"

lemma storage_abs_peers: "storage_abs s = peers_of (storage s)"
  by (simp add: storage_abs_def peers_of_def)

lemma peers_of_Cons: "peers_of (st # sts) (nid, k) = (if nid = st_id st then peer_map (st_peers st) k else peers_of sts (nid, k))"
  by (simp add: peers_of_def)

lemma peers_of_outside: "nid \<notin> set (map st_id sts) \<Longrightarrow> peers_of sts (nid, k) = None"
  by (auto simp: peers_of_def bind_eq_None_conv map_of_eq_None_iff image_iff)

lemma expire_storage_loop_spec:
  "distinct (map st_id sts) \<Longrightarrow> \<forall>st\<in>set sts. storage_ok st \<Longrightarrow> int (length sts) \<le> n \<Longrightarrow>
   expire_storage_loop t sts n = (sts', n') \<Longrightarrow>
   n' = n - (int (length sts) - int (length sts')) \<and> length sts' \<le> length sts \<and>
   set (map st_id sts') \<subseteq> set (map st_id sts) \<and> distinct (map st_id sts') \<and>
   (\<forall>st\<in>set sts'. storage_ok st \<and> st_peers st \<noteq> []) \<and>
   (\<forall>nid k. peers_of sts' (nid, k) = unexpired (t - 32 * 60) (peers_of sts (nid, k)))"
proof (induction t sts n arbitrary: sts' n' rule: expire_storage_loop.induct)
  case (1 t n)
  then show ?case by (simp add: peers_of_def unexpired_def)
next
  case (2 t st sts n)
  let ?ps = "expire_peers t 0 (st_peers st)"
  have ok: "storage_ok st" using "2.prems" by simp
  have d: "distinct (map peer_key (st_peers st))" using ok by (simp add: storage_ok_def)
  note P = expire_peers_map [OF d, of t]
  have pm: "peer_map ?ps k = unexpired (t - 32 * 60) (peer_map (st_peers st) k)" for k
    unfolding P(1) unexpired_def ..
  have fresh: "st_id st \<notin> set (map st_id sts)" using "2.prems"(1) by simp
  show ?case
  proof (cases "?ps = []")
    case True
    then have rec: "expire_storage_loop t sts (n - 1) = (sts', n')" using "2.prems"(3,4) by (simp split: if_splits)
    have IH: "n' = n - 1 - (int (length sts) - int (length sts')) \<and> length sts' \<le> length sts \<and>
      set (map st_id sts') \<subseteq> set (map st_id sts) \<and> distinct (map st_id sts') \<and>
      (\<forall>st\<in>set sts'. storage_ok st \<and> st_peers st \<noteq> []) \<and>
      (\<forall>nid k. peers_of sts' (nid, k) = unexpired (t - 32 * 60) (peers_of sts (nid, k)))"
      using "2.IH"(1) [OF refl True] "2.prems" rec by simp
    moreover have "unexpired (t - 32 * 60) (peer_map (st_peers st) k) = None" for k
      using pm [of k] True by (simp add: peer_map_def)
    moreover have "peers_of sts' (st_id st, k) = None" for k
      using fresh IH by (intro peers_of_outside) auto
    ultimately show ?thesis by (auto simp: peers_of_Cons)
  next
    case False
    then obtain sts'' where rec: "expire_storage_loop t sts n = (sts'', n')" and s': "sts' = st\<lparr>st_peers := ?ps\<rparr> # sts''"
      using "2.prems"(4) by (auto simp: Let_def split: prod.splits)
    have "storage_ok (st\<lparr>st_peers := ?ps\<rparr>)" using ok P(2-4) by (auto simp: storage_ok_def)
    then show ?thesis
      using "2.IH"(2) [OF refl False _ _ _ rec] "2.prems" s' False fresh pm
      by (auto simp: peers_of_Cons)
  qed
qed

lemma expire_storage_spec:
  assumes "storage_inv_by z s"
  shows "storage_inv_by z (expire_storage s)"
    and "storage_abs (expire_storage s) q = unexpired (now s - 32 * 60) (storage_abs s q)"
    and "\<forall>st\<in>set (storage (expire_storage s)). st_peers st \<noteq> []"
proof -
  obtain sts n where e: "expire_storage_loop (now s) (storage s) (numstorage s) = (sts, n)" by fastforce
  note L = expire_storage_loop_spec [OF _ _ _ e]
  show "storage_inv_by z (expire_storage s)" "\<forall>st\<in>set (storage (expire_storage s)). st_peers st \<noteq> []"
    "storage_abs (expire_storage s) q = unexpired (now s - 32 * 60) (storage_abs s q)"
    using L assms e
    by (cases q; auto simp: expire_storage_def storage_inv_by_def storage_abs_peers split: prod.splits)+
qed

section \<open>Tokens\<close>

text \<open>\<open>token_match\<close> accepts exactly the tokens made with the current or the previous secret.\<close>

lemma length_dht_hash:
  assumes "\<forall>m. map_option length (sha m) = Some 32" and "length r \<le> 32"
  shows "length (dht_hash sha r a b c) = length r"
  using assms(1) [rule_format, of "a @ b @ c"] assms(2) by (auto simp: dht_hash_def Let_def split: option.splits)

lemma length_token:
  "make_token sa old s = Some t \<Longrightarrow> \<forall>m. map_option length (sha256 s m) = Some 32 \<Longrightarrow> length t = TOKEN_SIZE"
  by (auto simp: make_token_def TOKEN_SIZE_def length_dht_hash simp del: map_option_eq_Some split: option.splits)

lemma make_token_cong:
  "sha256 s' = sha256 s \<Longrightarrow> (if old' then oldsecret s' else secret s') = (if old then oldsecret s else secret s) \<Longrightarrow>
   make_token sa old' s' = make_token sa old s"
  unfolding make_token_def by (simp only:)

lemma token_match_iff:
  assumes "\<forall>m. map_option length (sha256 s m) = Some 32" and "valid_af (sa_family sa)"
  shows "token_match token sa s = Some True \<longleftrightarrow> make_token sa False s = Some token \<or> make_token sa True s = Some token"
    and "token_match token sa s \<noteq> None"
proof -
  obtain t t' where t: "make_token sa False s = Some t" "make_token sa True s = Some t'"
    using assms(2) by (auto simp: make_token_def sa_ip_def valid_af_def)
  with assms(1) have len: "length t = TOKEN_SIZE" "length t' = TOKEN_SIZE" by (auto intro: length_token)
  show "token_match token sa s \<noteq> None" using t by (simp add: token_match_def del: not_None_eq)
  show "token_match token sa s = Some True \<longleftrightarrow> make_token sa False s = Some token \<or> make_token sa True s = Some token"
    using t len by (auto simp: token_match_def memcmp_eq_iff)
qed

lemma rotate_secrets_frame:
  "oldsecret (snd (rotate_secrets s)) = secret s" "sha256 (snd (rotate_secrets s)) = sha256 s"
  "tables_inv (snd (rotate_secrets s)) = tables_inv s" "storage_inv_by z (snd (rotate_secrets s)) = storage_inv_by z s"
  "alive (snd (rotate_secrets s)) = alive s" "mem_ok (snd (rotate_secrets s)) = mem_ok s"
  "length (secret (snd (rotate_secrets s))) = length (secret s)"
  by (simp_all add: rotate_secrets_def c_random_def dht_random_bytes_def Let_def split_beta tables_inv_def
      storage_inv_by_def alive_def)

section \<open>Rate control\<close>

lemma token_bucket_frame:
  "tables_inv (snd (token_bucket s)) = tables_inv s" "storage_inv_by z (snd (token_bucket s)) = storage_inv_by z s"
  "alive (snd (token_bucket s)) = alive s" "mem_ok (snd (token_bucket s)) = mem_ok s"
  "now (snd (token_bucket s)) = now s"
  by (simp_all add: token_bucket_def Let_def tables_inv_def storage_inv_by_def alive_def)

end
