(* ===== verification/Nearest.thy ===== *)
theory Nearest
  imports Dht_Id
begin

text \<open>
  Bounded lists of the nearest identifiers: the insertion loop that
  \<open>insert_search_node\<close> and \<open>insert_closest_node\<close> of \<open>src/routing/dht.c\<close> share, and the
  interface \<open>nearest_insert\<close> that captures what both promise. The client lemma says that
  inserting any sequence of candidates leaves the \<open>cap\<close> nearest of them, in order.
\<close>

section \<open>The loop\<close>

text \<open>The scan for the place of \<open>nid\<close>: (found, index).\<close>

fun near_scan :: "dht_id \<Rightarrow> dht_id \<Rightarrow> dht_id list \<Rightarrow> nat \<Rightarrow> bool \<times> nat" where
  "near_scan nid target [] i = (False, i)"
| "near_scan nid target (x # xs) i =
     (if id_cmp nid x = 0 then (True, i)
      else if xorcmp nid x target < 0 then (False, i)
      else near_scan nid target xs (Suc i))"

text \<open>Make room at \<open>i\<close> in an array of at most \<open>cap\<close> entries and write \<open>x\<close> there.\<close>

definition shift_in :: "nat \<Rightarrow> nat \<Rightarrow> 'a \<Rightarrow> 'a list \<Rightarrow> 'a list" where
  "shift_in cap i x xs =
     (let n = (if length xs < cap then length xs + 1 else length xs)
      in take i xs @ x # take (n - 1 - i) (drop i xs))"

lemma shift_in_take:
  "i \<le> length xs \<Longrightarrow> i < cap \<Longrightarrow> length xs \<le> cap \<Longrightarrow>
   shift_in cap i x xs = take cap (take i xs @ x # drop i xs)"
  by (auto simp: shift_in_def min_def Let_def take_Cons' simp flip: Suc_diff_Suc)

lemma map_shift_in: "map f (shift_in cap i x xs) = shift_in cap i (f x) (map f xs)"
  by (simp add: shift_in_def Let_def take_map drop_map)

lemma near_scan_shift: "near_scan nid t xs (i + k) = (fst (near_scan nid t xs i), snd (near_scan nid t xs i) + k)"
proof (induction xs arbitrary: i)
  case (Cons x xs)
  from Cons [of "Suc i"] show ?case by simp
qed simp

lemma insort_nat_take_drop:
  fixes d :: nat
  shows "(\<forall>x\<in>set (take i ds). x < d) \<Longrightarrow> (i < length ds \<longrightarrow> d \<le> ds ! i) \<Longrightarrow> sorted ds \<Longrightarrow> i \<le> length ds \<Longrightarrow>
    insort d ds = take i ds @ d # drop i ds"
proof (induction ds arbitrary: i)
  case (Cons e ds)
  show ?case
  proof (cases i)
    case 0
    with Cons.prems show ?thesis by simp
  next
    case (Suc j)
    with Cons show ?thesis by simp
  qed
qed simp

text \<open>On identifiers sorted by distance, the scan finds the identifier or its place.\<close>

lemma near_scan_spec:
  assumes "length nid = 20" and "length t = 20"
  shows "\<forall>x\<in>set xs. length x = 20 \<Longrightarrow> sorted (map (\<lambda>x. xdist x t) xs) \<Longrightarrow> distinct (map (\<lambda>x. xdist x t) xs) \<Longrightarrow>
    (if nid \<in> set xs
     then fst (near_scan nid t xs 0) \<and> snd (near_scan nid t xs 0) < length xs \<and> xs ! snd (near_scan nid t xs 0) = nid
     else \<not> fst (near_scan nid t xs 0) \<and> snd (near_scan nid t xs 0) \<le> length xs \<and>
       (\<forall>x\<in>set (take (snd (near_scan nid t xs 0)) xs). xdist x t < xdist nid t) \<and>
       (snd (near_scan nid t xs 0) < length xs \<longrightarrow> xdist nid t \<le> xdist (xs ! snd (near_scan nid t xs 0)) t))"
proof (induction xs)
  case (Cons x xs)
  have lx: "length x = 20" using Cons.prems by simp
  consider "nid = x" | "nid \<noteq> x" "xdist nid t < xdist x t" | "nid \<noteq> x" "xdist x t < xdist nid t"
    using xdist_inject [OF assms(1) lx assms(2)] by (metis linorder_less_linear)
  then show ?case
  proof cases
    case 1
    then show ?thesis using assms lx by (simp add: id_cmp_eq_iff)
  next
    case 2
    have "nid \<notin> set xs" using 2 Cons.prems by auto
    with 2 show ?thesis using assms lx by (simp add: id_cmp_eq_iff xorcmp_less_iff less_imp_le)
  next
    case 3
    then have scan: "near_scan nid t (x # xs) 0 = (fst (near_scan nid t xs 0), Suc (snd (near_scan nid t xs 0)))"
      using assms lx near_scan_shift [of nid t xs 0 1] by (simp add: id_cmp_eq_iff xorcmp_less_iff)
    show ?thesis
      using Cons 3 unfolding scan by (auto split: if_splits)
  qed
qed simp

section \<open>Keeping the smallest\<close>

lemma take_insort_take:
  fixes a :: nat
  shows "sorted l \<Longrightarrow> take n (insort a (take n l)) = take n (insort a l)"
proof (induction l arbitrary: n)
  case (Cons x l)
  show ?case
  proof (cases n)
    case (Suc m)
    with Cons.IH [of m] Cons.prems show ?thesis by (cases m) (auto simp: take_Cons')
  qed simp
qed simp

lemma take_insort_known:
  fixes a :: nat
  shows "sorted l \<Longrightarrow> distinct l \<Longrightarrow> a \<in> set l \<Longrightarrow> a \<notin> set (take n l) \<Longrightarrow> take n (insort a (take n l)) = take n l"
proof (induction l arbitrary: n)
  case (Cons x l)
  show ?case
  proof (cases n)
    case (Suc m)
    with Cons show ?thesis by (auto simp: take_Cons')
  qed simp
qed simp

lemma take_sorted_insert:
  fixes D :: "nat set"
  assumes "finite D" and a: "a \<notin> set (take n (sorted_list_of_set D))"
  shows "take n (insort a (take n (sorted_list_of_set D))) = take n (sorted_list_of_set (insert a D))"
proof (cases "a \<in> D")
  case True
  then have "insert a D = D" by auto
  then show ?thesis using True assms by (simp add: take_insort_known)
next
  case False
  then show ?thesis using assms(1) by (simp add: take_insort_take)
qed

section \<open>The interface\<close>

text \<open>\<open>dist\<close> and \<open>key\<close> are the distances of list entries and of candidates; \<open>good\<close> and \<open>fit\<close>
  say which entries and candidates the operation is meant for.\<close>

locale nearest_insert =
  fixes dist :: "'a \<Rightarrow> nat" and good :: "'a \<Rightarrow> bool" and key :: "'b \<Rightarrow> nat" and fit :: "'b \<Rightarrow> bool"
    and cap :: nat and ins :: "'b \<Rightarrow> 'a list \<Rightarrow> 'a list"
  assumes ins_good: "\<lbrakk>fit x; \<forall>y\<in>set xs. good y; sorted (map dist xs); distinct (map dist xs); length xs \<le> cap\<rbrakk> \<Longrightarrow>
      \<forall>y\<in>set (ins x xs). good y"
    and ins_known: "\<lbrakk>fit x; \<forall>y\<in>set xs. good y; sorted (map dist xs); distinct (map dist xs); length xs \<le> cap;
      key x \<in> set (map dist xs)\<rbrakk> \<Longrightarrow> map dist (ins x xs) = map dist xs"
    and ins_new: "\<lbrakk>fit x; \<forall>y\<in>set xs. good y; sorted (map dist xs); distinct (map dist xs); length xs \<le> cap;
      key x \<notin> set (map dist xs)\<rbrakk> \<Longrightarrow> map dist (ins x xs) = take cap (insort (key x) (map dist xs))"
begin

definition ordered :: "'a list \<Rightarrow> bool" where
  "ordered xs \<longleftrightarrow> (\<forall>y\<in>set xs. good y) \<and> sorted (map dist xs) \<and> distinct (map dist xs) \<and> length xs \<le> cap"

lemma ins_ordered: "fit x \<Longrightarrow> ordered xs \<Longrightarrow> ordered (ins x xs)"
proof -
  assume "fit x" and o: "ordered xs"
  then have d: "map dist (ins x xs) = map dist xs \<or> map dist (ins x xs) = take cap (insort (key x) (map dist xs)) \<and>
      key x \<notin> set (map dist xs)"
    unfolding ordered_def using ins_known ins_new by blast
  then have "sorted (map dist (ins x xs)) \<and> distinct (map dist (ins x xs))"
    using o by (auto simp: ordered_def sorted_insort distinct_insort sorted_wrt_take)
  moreover have "length (map dist (ins x xs)) \<le> cap" 
    using d o unfolding ordered_def by (metis length_map length_take min.cobounded2)
  ultimately show ?thesis using \<open>fit x\<close> o ins_good by (auto simp: ordered_def)
qed

text \<open>Whatever the order of the candidates and however often each comes, the list ends up with the
  \<open>cap\<close> smallest distances among them and what it had.\<close>

lemma ins_nearest:
  assumes "fit x" and "ordered xs" and "finite D" and "map dist xs = take cap (sorted_list_of_set D)"
  shows "map dist (ins x xs) = take cap (sorted_list_of_set (insert (key x) D))"
proof (cases "key x \<in> set (map dist xs)")
  case True
  then have "key x \<in> D" using assms(3,4) by (metis in_set_takeD set_sorted_list_of_set)
  then have "insert (key x) D = D" by auto
  moreover have "map dist (ins x xs) = map dist xs"
    using assms(1,2) True unfolding ordered_def by (blast intro: ins_known)
  ultimately show ?thesis using assms(4) by simp
next
  case False
  then have "map dist (ins x xs) = take cap (insort (key x) (map dist xs))"
    using assms(1,2) unfolding ordered_def by (blast intro: ins_new)
  then show ?thesis using assms(3,4) False take_sorted_insert [of D "key x" cap] by simp
qed

lemma fold_nearest:
  "\<forall>x\<in>set ys. fit x \<Longrightarrow> ordered xs \<Longrightarrow> finite D \<Longrightarrow> map dist xs = take cap (sorted_list_of_set D) \<Longrightarrow>
   map dist (fold ins ys xs) = take cap (sorted_list_of_set (D \<union> key ` set ys))"
proof (induction ys arbitrary: xs D)
  case (Cons y ys)
  then have "map dist (fold ins ys (ins y xs)) = take cap (sorted_list_of_set (insert (key y) D \<union> key ` set ys))"
    by (intro Cons.IH) (simp_all add: ins_ordered ins_nearest)
  then show ?case by (simp add: insert_commute Un_insert_right)
qed simp

lemma fold_ordered: "\<forall>x\<in>set ys. fit x \<Longrightarrow> ordered xs \<Longrightarrow> ordered (fold ins ys xs)"
  by (induction ys arbitrary: xs) (simp_all add: ins_ordered)

end

end
