(* ===== verification/Dht_Search.thy ===== *)
theory Dht_Search
  imports Dht_Storage Nearest
begin

text \<open>
  Searches of the DHT (\<open>src/routing/dht.c\<close>): the bounded list of the nodes nearest to
  a target, the requests a search sends, its start and its end, and the blacklist, which also
  throws a node out of the searches. A \<open>struct search *\<close> is passed as the record it points to
  and written back by the caller; none of the functions called in between touch the list of
  searches. \<open>callback\<close> is whether the caller passed one.
\<close>

section \<open>The nodes of a search\<close>

definition find_search :: "16 word \<Rightarrow> int \<Rightarrow> dht \<Rightarrow> nat option" where
  "find_search tid af s = find_index (\<lambda>sr. sr_tid sr = tid \<and> sr_af sr = af) (searches s)"

definition zero_search_node :: search_node where
  "zero_search_node =
     \<lparr>sn_id = replicate 20 0, sn_ss = replicate SOCKADDR_STORAGE 0, sn_sslen = 0, sn_request_time = 0,
      sn_reply_time = 0, sn_pinged = 0, sn_token = [], sn_replied = False, sn_acked = False\<rparr>"

text \<open>The code after the label \<open>found\<close>.\<close>

definition fill_search_node :: "bytes \<Rightarrow> bool \<Rightarrow> bytes option \<Rightarrow> int \<Rightarrow> search_node \<Rightarrow> search_node" where
  "fill_search_node sa replied token t n =
     (let n = n\<lparr>sn_ss := memcpy (sn_ss n) sa, sn_sslen := length sa\<rparr>;
          n = (if replied then n\<lparr>sn_replied := True, sn_reply_time := t, sn_request_time := 0, sn_pinged := 0\<rparr> else n)
      in case token of
           None \<Rightarrow> n
         | Some tok \<Rightarrow> if length tok \<ge> 40 then n else n\<lparr>sn_token := tok\<rparr>)"

definition insert_search_node ::
  "dht_id \<Rightarrow> bytes \<Rightarrow> search \<Rightarrow> bool \<Rightarrow> bytes option \<Rightarrow> int \<Rightarrow> bool \<times> search" where
  "insert_search_node nid sa sr replied token t =
     (if sa_family sa \<noteq> sr_af sr then (False, sr)
      else
        let ns = sr_nodes sr; (found, i) = near_scan nid (sr_id sr) (map sn_id ns) 0
        in if found then
             (True, sr\<lparr>sr_nodes := ns[i := fill_search_node sa replied token t (ns ! i)]\<rparr>)
           else if i = SEARCH_NODES then (False, sr)
           else (True, sr\<lparr>sr_nodes := shift_in SEARCH_NODES i
                    (fill_search_node sa replied token t (zero_search_node\<lparr>sn_id := nid\<rparr>)) ns\<rparr>))"

definition flush_search_node :: "nat \<Rightarrow> search \<Rightarrow> search" where
  "flush_search_node i sr = sr\<lparr>sr_nodes := take i (sr_nodes sr) @ drop (Suc i) (sr_nodes sr)\<rparr>"

text \<open>\<open>expire_searches\<close>, with the unlinking of expired records done on the list.\<close>

fun expire_searches_loop :: "int \<Rightarrow> search list \<Rightarrow> int \<Rightarrow> search list \<times> int" where
  "expire_searches_loop t [] n = ([], n)"
| "expire_searches_loop t (sr # srs) n =
     (if sr_step_time sr < t - DHT_SEARCH_EXPIRE_TIME then expire_searches_loop t srs (n - 1)
      else let (srs', n') = expire_searches_loop t srs n in (sr # srs', n'))"

definition expire_searches :: "dht \<Rightarrow> dht" where
  "expire_searches s =
     (let (srs, n) = expire_searches_loop (now s) (searches s) (numsearches s)
      in s\<lparr>searches := srs, numsearches := n\<rparr>)"

section \<open>Sending the requests of a search\<close>

text \<open>\<open>node = find_node(...); if(node) pinged(node, NULL);\<close>\<close>

definition mark_pinged :: "dht_id \<Rightarrow> int \<Rightarrow> dht \<Rightarrow> dht" where
  "mark_pinged nid af s =
     (case find_node nid af s of None \<Rightarrow> s | Some (i, j) \<Rightarrow> pinged af i j None s)"

definition askable :: "int \<Rightarrow> search_node \<Rightarrow> bool" where
  "askable t n = (sn_pinged n < 3 \<and> \<not> sn_replied n \<and> sn_request_time n < t - 15)"

fun last_askable :: "int \<Rightarrow> nat \<Rightarrow> search_node list \<Rightarrow> nat option \<Rightarrow> nat option" where
  "last_askable t i [] r = r"
| "last_askable t i (n # ns) r = last_askable t (Suc i) ns (if askable t n then Some i else r)"

definition search_send_get_peers :: "search \<Rightarrow> nat option \<Rightarrow> dht \<Rightarrow> bool \<times> search \<times> dht" where
  "search_send_get_peers sr which s =
     (let which = (case which of None \<Rightarrow> last_askable (now s) 0 (sr_nodes sr) None | Some i \<Rightarrow> Some i)
      in case which of
           None \<Rightarrow> (False, sr, s)
         | Some i \<Rightarrow>
             let n = sr_nodes sr ! i
             in if sn_pinged n \<ge> 3 \<or> sn_replied n \<or> sn_request_time n \<ge> now s - 15 then (False, sr, s)
                else
                  let s1 = snd (send_get_peers (take (sn_sslen n) (sn_ss n)) (make_tid ''gp'' (sr_tid sr))
                                  (sr_id sr) (- 1) (sn_reply_time n \<ge> now s - 15) s);
                      sr1 = sr\<lparr>sr_nodes := (sr_nodes sr)[i := n\<lparr>sn_pinged := sn_pinged n + 1, sn_request_time := now s\<rparr>]\<rparr>
                  in (True, sr1, mark_pinged (sn_id n) (sa_family (sn_ss n)) s1))"

text \<open>The first eight live nodes have replied.\<close>

fun all_replied :: "search_node list \<Rightarrow> nat \<Rightarrow> bool" where
  "all_replied [] j = True"
| "all_replied (n # ns) j =
     (if \<not> j < 8 then True
      else if sn_pinged n \<ge> 3 then all_replied ns j
      else if \<not> sn_replied n then False
      else all_replied ns (Suc j))"

text \<open>The announce loop: the nodes, the flag \<open>all_acked\<close> and the state. The address is passed with
  the size of \<open>struct sockaddr_storage\<close>, as in the source.\<close>

fun announce_loop :: "search \<Rightarrow> search_node list \<Rightarrow> nat \<Rightarrow> bool \<Rightarrow> dht \<Rightarrow> search_node list \<times> bool \<times> dht" where
  "announce_loop sr [] j acked s = ([], acked, s)"
| "announce_loop sr (n # ns) j acked s =
     (if \<not> j < 8 then (n # ns, acked, s)
      else if sn_pinged n \<ge> 3 then
        (let (ns', acked', s') = announce_loop sr ns j acked s in (n # ns', acked', s'))
      else
        let n1 = (if sn_token n = [] then n\<lparr>sn_acked := True\<rparr> else n)
        in if \<not> sn_acked n1 then
             let s1 = snd (send_announce_peer (sn_ss n1) (make_tid ''ap'' (sr_tid sr)) (sr_id sr) (sr_port sr)
                             (sn_token n1) (sn_reply_time n1 \<ge> now s - 15) s);
                 n2 = n1\<lparr>sn_pinged := sn_pinged n1 + 1, sn_request_time := now s\<rparr>;
                 s2 = mark_pinged (sn_id n2) (sa_family (sn_ss n2)) s1;
                 (ns', acked', s') = announce_loop sr ns (Suc j) False s2
             in (n2 # ns', acked', s')
           else
             let (ns', acked', s') = announce_loop sr ns (Suc j) acked s in (n1 # ns', acked', s'))"

text \<open>The loop that sends up to three \<open>get_peers\<close>: from index \<open>i\<close>, with \<open>m\<close> nodes to go.\<close>

fun get_peers_loop :: "nat \<Rightarrow> nat \<Rightarrow> nat \<Rightarrow> search \<Rightarrow> dht \<Rightarrow> search \<times> dht" where
  "get_peers_loop 0 i j sr s = (sr, s)"
| "get_peers_loop (Suc m) i j sr s =
     (let (sent, sr1, s1) = search_send_get_peers sr (Some i) s; j' = (if sent then j + 1 else j)
      in if j' \<ge> 3 then (sr1, s1) else get_peers_loop m (Suc i) j' sr1 s1)"

definition search_done :: "bool \<Rightarrow> search \<Rightarrow> dht \<Rightarrow> search \<times> dht" where
  "search_done callback sr s =
     (let s1 = (if callback then emit [Callback (if sr_af sr = AF_INET then DHT_EVENT_SEARCH_DONE
                                                 else DHT_EVENT_SEARCH_DONE6) (sr_id sr) []] s else s)
      in (sr\<lparr>sr_done := True, sr_step_time := now s\<rparr>, s1))"

definition search_step :: "bool \<Rightarrow> search \<Rightarrow> dht \<Rightarrow> search \<times> dht" where
  "search_step callback sr s =
     (if all_replied (sr_nodes sr) 0 then
        (if sr_port sr = 0 then search_done callback sr s
         else
           let (ns, acked, s1) = announce_loop sr (sr_nodes sr) 0 True s; sr1 = sr\<lparr>sr_nodes := ns\<rparr>
           in if acked then search_done callback sr1 s1
              else (sr1\<lparr>sr_step_time := now s1\<rparr>, s1))
      else if sr_step_time sr + 15 \<ge> now s then (sr, s)
      else
        let (sr1, s1) = get_peers_loop (length (sr_nodes sr)) 0 0 sr s
        in (sr1\<lparr>sr_step_time := now s1\<rparr>, s1))"

section \<open>Starting a search\<close>

fun oldest_done :: "nat \<Rightarrow> search list \<Rightarrow> (nat \<times> int) option \<Rightarrow> (nat \<times> int) option" where
  "oldest_done k [] r = r"
| "oldest_done k (sr # srs) r =
     oldest_done (Suc k) srs
       (if sr_done sr \<and> (case r of None \<Rightarrow> True | Some (_, t) \<Rightarrow> t > sr_step_time sr)
        then Some (k, sr_step_time sr) else r)"

definition zero_search :: search where
  "zero_search = \<lparr>sr_tid = 0, sr_af = 0, sr_step_time = 0, sr_id = replicate 20 0, sr_port = 0,
     sr_done = False, sr_nodes = []\<rparr>"

text \<open>The slot for a new search: an index into the list.\<close>

definition new_search :: "dht \<Rightarrow> nat option \<times> dht" where
  "new_search s =
     (let oldest = oldest_done 0 (searches s) None;
          expired = (case oldest of None \<Rightarrow> False | Some (_, t) \<Rightarrow> t < now s - DHT_SEARCH_EXPIRE_TIME)
      in if expired then (map_option fst oldest, s)
         else if numsearches s < DHT_MAX_SEARCHES then
           let (ok, s1) = c_alloc s
           in if ok then (Some 0, s1\<lparr>searches := zero_search # searches s1, numsearches := numsearches s1 + 1\<rparr>)
              else (map_option fst oldest, s1)
         else (map_option fst oldest, s))"

definition insert_search_bucket :: "bucket \<Rightarrow> int \<Rightarrow> search \<Rightarrow> search" where
  "insert_search_bucket b t sr =
     fold (\<lambda>n sr. snd (insert_search_node (nd_id n) (take (nd_sslen n) (nd_ss n)) sr False None t)) (bk_nodes b) sr"

text \<open>\<open>dht_search\<close> on a search for the same hash that is still around: doubtful nodes are flushed
  (\<open>goto again\<close> starts over), the others forget their replies.\<close>

function reuse_nodes :: "int \<Rightarrow> nat \<Rightarrow> search \<Rightarrow> search" where
  "reuse_nodes t i sr =
     (if i < length (sr_nodes sr) then
        (let n = sr_nodes sr ! i
         in if sn_pinged n \<ge> 3 \<or> sn_reply_time n < t - 7200 then reuse_nodes t 0 (flush_search_node i sr)
            else reuse_nodes t (Suc i)
                   (sr\<lparr>sr_nodes := (sr_nodes sr)[i := n\<lparr>sn_pinged := 0, sn_token := [], sn_replied := False, sn_acked := False\<rparr>]\<rparr>))
      else sr)"
  by pat_completeness auto
termination
  by (relation "measures [\<lambda>(t, i, sr). length (sr_nodes sr), \<lambda>(t, i, sr). length (sr_nodes sr) - i]")
     (auto simp: flush_search_node_def)

declare reuse_nodes.simps [simp del]

definition local_answers :: "storage_t \<Rightarrow> dht_id \<Rightarrow> io_event list" where
  "local_answers st nid =
     concat (map (\<lambda>p. if length (pr_ip p) = 4 then [Callback DHT_EVENT_VALUES nid (pr_ip p @ be16 (pr_port p))]
                      else if length (pr_ip p) = 16 then [Callback DHT_EVENT_VALUES6 nid (pr_ip p @ be16 (pr_port p))]
                      else []) (st_peers st))"

definition upd_search :: "nat \<Rightarrow> search \<Rightarrow> dht \<Rightarrow> dht" where
  "upd_search k sr s = s\<lparr>searches := (searches s)[k := sr]\<rparr>"

definition fill_search :: "int \<Rightarrow> nat \<Rightarrow> dht \<Rightarrow> search \<Rightarrow> search" where
  "fill_search af i s sr =
     (let bs = get_buckets af s;
          sr1 = insert_search_bucket (bs ! i) (now s) sr;
          sr2 = (if length (sr_nodes sr1) < SEARCH_NODES then
                   (let a = (if Suc i < length bs then insert_search_bucket (bs ! Suc i) (now s) sr1 else sr1)
                    in case previous_bucket i of None \<Rightarrow> a | Some p \<Rightarrow> insert_search_bucket (bs ! p) (now s) a)
                 else sr1)
      in if length (sr_nodes sr2) < SEARCH_NODES
         then insert_search_bucket (bs ! find_idx (myid s) bs) (now s) sr2 else sr2)"

definition dht_search :: "dht_id \<Rightarrow> int \<Rightarrow> int \<Rightarrow> bool \<Rightarrow> dht \<Rightarrow> int \<times> dht" where
  "dht_search nid port af callback s =
     (case find_bucket nid af s of
        None \<Rightarrow> (- 1, s)
      | Some i \<Rightarrow>
          let s1 = (if callback then
                      (case find_storage nid s of
                         None \<Rightarrow> s
                       | Some k \<Rightarrow> emit (local_answers (storage s ! k) nid) s)
                    else s);
              (slot, s2) =
                (case find_index (\<lambda>sr. sr_af sr = af \<and> id_cmp (sr_id sr) nid = 0) (searches s1) of
                   Some k \<Rightarrow> (Some (k, reuse_nodes (now s1) 0 ((searches s1 ! k)\<lparr>sr_done := False\<rparr>)), s1)
                 | None \<Rightarrow>
                     (case new_search s1 of
                        (None, s2) \<Rightarrow> (None, s2)
                      | (Some k, s2) \<Rightarrow>
                          (Some (k, (searches s2 ! k)\<lparr>sr_af := af, sr_tid := search_id s2, sr_step_time := 0,
                                      sr_id := nid, sr_done := False, sr_nodes := []\<rparr>),
                           s2\<lparr>search_id := search_id s2 + 1\<rparr>)))
          in case slot of
               None \<Rightarrow> (- 1, s2)
             | Some (k, sr) \<Rightarrow>
                 let sr1 = fill_search af i s2 (sr\<lparr>sr_port := of_int port\<rparr>);
                     (sr2, s3) = search_step callback sr1 s2
                 in (1, (upd_search k sr2 s3)\<lparr>search_time := now s3\<rparr>))"

section \<open>The blacklist\<close>

text \<open>The flush loop of \<open>blacklist_node\<close>: the index moves on after a flush, so the node that moves
  into the hole is skipped.\<close>

function flush_id :: "dht_id \<Rightarrow> nat \<Rightarrow> search \<Rightarrow> search" where
  "flush_id nid i sr =
     (if i < length (sr_nodes sr) then
        flush_id nid (Suc i) (if id_cmp (sn_id (sr_nodes sr ! i)) nid = 0 then flush_search_node i sr else sr)
      else sr)"
  by pat_completeness auto
termination
  by (relation "measure (\<lambda>(nid, i, sr). length (sr_nodes sr) - i)") (auto simp: flush_search_node_def)

declare flush_id.simps [simp del]

definition blacklist_node :: "dht_id \<Rightarrow> bytes \<Rightarrow> dht \<Rightarrow> dht" where
  "blacklist_node nid sa s =
     (let af = sa_family sa;
          s1 = (case find_node nid af s of
                  None \<Rightarrow> s
                | Some (i, j) \<Rightarrow> pinged af i j None (upd_node af i j (\<lambda>n. n\<lparr>nd_pinged := 3\<rparr>) s));
          s2 = s1\<lparr>searches := map (flush_id nid 0) (searches s1)\<rparr>
      in s2\<lparr>blacklist := (blacklist s2)[next_blacklisted s2 := memcpy (blacklist s2 ! next_blacklisted s2) sa],
            next_blacklisted := (next_blacklisted s2 + 1) mod DHT_MAX_BLACKLISTED\<rparr>)"

section \<open>The node list of a search holds the nearest candidates\<close>

definition sn_ok :: "int \<Rightarrow> search_node \<Rightarrow> bool" where
  "sn_ok af n =
     (length (sn_id n) = 20 \<and> length (sn_ss n) = SOCKADDR_STORAGE \<and> sa_family (sn_ss n) = af \<and>
      2 \<le> sn_sslen n \<and> sn_sslen n \<le> SOCKADDR_STORAGE \<and> length (sn_token n) < 40)"

text \<open>A candidate: id, address, whether it replied, token.\<close>

type_synonym candidate = "dht_id \<times> bytes \<times> bool \<times> bytes option"

definition cand_ok :: "search \<Rightarrow> candidate \<Rightarrow> bool" where
  "cand_ok sr = (\<lambda>(nid, sa, r, tok). length nid = 20 \<and> length (sr_id sr) = 20 \<and> sa_family sa = sr_af sr \<and>
     2 \<le> length sa \<and> length sa \<le> SOCKADDR_STORAGE)"

definition sn_insert :: "search \<Rightarrow> int \<Rightarrow> candidate \<Rightarrow> search_node list \<Rightarrow> search_node list" where
  "sn_insert sr t = (\<lambda>(nid, sa, r, tok) ns. sr_nodes (snd (insert_search_node nid sa (sr\<lparr>sr_nodes := ns\<rparr>) r tok t)))"

lemma fill_ok:
  assumes "sa_family sa = af" "2 \<le> length sa" "length sa \<le> SOCKADDR_STORAGE"
    and "length (sn_id n) = 20" "length (sn_ss n) = SOCKADDR_STORAGE" "length (sn_token n) < 40"
  shows "sn_ok af (fill_search_node sa r tok t n)"
  using assms by (auto simp: sn_ok_def fill_search_node_def Let_def sa_family_memcpy split: option.splits)

lemma fill_id [simp]: "sn_id (fill_search_node sa r tok t n) = sn_id n"
  by (simp add: fill_search_node_def Let_def split: option.splits)

lemma set_shift_in: "set (shift_in cap i x xs) \<subseteq> insert x (set xs)"
  by (auto simp: shift_in_def Let_def dest: in_set_takeD in_set_dropD)

lemma sn_insert_cases:
  fixes t :: int
  assumes fit: "cand_ok sr (nid, sa, r, tok)" and good: "\<forall>n\<in>set ns. sn_ok (sr_af sr) n"
    and ord: "sorted (map (\<lambda>n. xdist (sn_id n) (sr_id sr)) ns)" "distinct (map (\<lambda>n. xdist (sn_id n) (sr_id sr)) ns)"
      "length ns \<le> SEARCH_NODES"
  defines "r' \<equiv> sn_insert sr t (nid, sa, r, tok) ns"
  shows "(nid \<in> set (map sn_id ns) \<longrightarrow> (\<exists>i<length ns. sn_id (ns ! i) = nid \<and> r' = ns[i := fill_search_node sa r tok t (ns ! i)])) \<and>
    (nid \<notin> set (map sn_id ns) \<longrightarrow>
       map (\<lambda>n. xdist (sn_id n) (sr_id sr)) r' =
         take SEARCH_NODES (insort (xdist nid (sr_id sr)) (map (\<lambda>n. xdist (sn_id n) (sr_id sr)) ns)) \<and>
       set r' \<subseteq> insert (fill_search_node sa r tok t (zero_search_node\<lparr>sn_id := nid\<rparr>)) (set ns))"
proof -
  let ?ids = "map sn_id ns" and ?d = "\<lambda>x. xdist x (sr_id sr)"
  have len: "length nid = 20" "length (sr_id sr) = 20" and fam: "sa_family sa = sr_af sr" using fit by (auto simp: cand_ok_def)
  have comp: "map (\<lambda>n. xdist (sn_id n) (sr_id sr)) ns = map ?d ?ids" by simp
  have l20: "\<forall>x\<in>set ?ids. length x = 20" using good by (auto simp: sn_ok_def)
  obtain f i where scan: "near_scan nid (sr_id sr) ?ids 0 = (f, i)" by fastforce
  note S = near_scan_spec [OF len l20 ord(1,2) [unfolded comp], unfolded scan, simplified]
  show ?thesis
  proof (cases "nid \<in> set ?ids")
    case True
    with S have "f" "i < length ns" "sn_id (ns ! i) = nid" by auto
    then show ?thesis using True fam scan by (auto simp: r'_def sn_insert_def insert_search_node_def)
  next
    case False
    with S have f: "\<not> f" and i: "i \<le> length ns" and lt: "\<forall>x\<in>set (take i ns). ?d (sn_id x) < ?d nid"
      and ge: "i < length ns \<longrightarrow> ?d nid \<le> ?d (sn_id (ns ! i))" by (auto simp: take_map split: if_splits)
    have ins: "insort (?d nid) (map (\<lambda>n. ?d (sn_id n)) ns) = take i (map (\<lambda>n. ?d (sn_id n)) ns) @ ?d nid # drop i (map (\<lambda>n. ?d (sn_id n)) ns)"
      using lt ge i ord(1) by (intro insort_nat_take_drop) (auto simp: take_map)
    let ?new = "fill_search_node sa r tok t (zero_search_node\<lparr>sn_id := nid\<rparr>)"
    show ?thesis
    proof (cases "i = SEARCH_NODES")
      case True
      then have "r' = ns" "length ns = SEARCH_NODES"
        using f fam scan i ord(3) by (auto simp: r'_def sn_insert_def insert_search_node_def)
      then show ?thesis using False ins True by auto
    next
      case room: False
      then have r: "r' = shift_in SEARCH_NODES i ?new ns"
        using f fam scan by (simp add: r'_def sn_insert_def insert_search_node_def)
      have "i < SEARCH_NODES" using room i ord(3) by simp
      then have "map (\<lambda>n. ?d (sn_id n)) r' = take SEARCH_NODES (insort (?d nid) (map (\<lambda>n. ?d (sn_id n)) ns))"
        unfolding ins r map_shift_in using i ord(3) by (subst shift_in_take) simp_all
      moreover have "set r' \<subseteq> insert ?new (set ns)" unfolding r by (rule set_shift_in)
      ultimately show ?thesis using False by blast
    qed
  qed
qed

lemma sn_key_known:
  assumes "length nid = 20" and "length (sr_id sr) = 20" and "\<forall>n\<in>set ns. sn_ok af n"
  shows "xdist nid (sr_id sr) \<in> set (map (\<lambda>n. xdist (sn_id n) (sr_id sr)) ns) \<longleftrightarrow> nid \<in> set (map sn_id ns)"
  using assms xdist_inject by (auto simp: sn_ok_def image_iff)

interpretation near: nearest_insert "\<lambda>n. xdist (sn_id n) (sr_id sr)" "sn_ok (sr_af sr)"
  "\<lambda>c. xdist (fst c) (sr_id sr)" "cand_ok sr" SEARCH_NODES "sn_insert sr t" for sr t
proof unfold_locales
  fix c :: candidate and ns
  obtain nid sa r tok where c: "c = (nid, sa, r, tok)" by (cases c)
  assume fit: "cand_ok sr c" and good: "\<forall>n\<in>set ns. sn_ok (sr_af sr) n"
    and ord: "sorted (map (\<lambda>n. xdist (sn_id n) (sr_id sr)) ns)" "distinct (map (\<lambda>n. xdist (sn_id n) (sr_id sr)) ns)"
      "length ns \<le> SEARCH_NODES"
  note C = sn_insert_cases [OF fit [unfolded c] good ord, of t]
  have len: "length nid = 20" "length (sr_id sr) = 20" using fit c by (auto simp: cand_ok_def)
  have ok: "sn_ok (sr_af sr) (fill_search_node sa r tok t n)" if "length (sn_id n) = 20" "length (sn_ss n) = SOCKADDR_STORAGE" "length (sn_token n) < 40" for n
    using fit that c by (intro fill_ok) (auto simp: cand_ok_def)
  have ok': "sn_ok (sr_af sr) (fill_search_node sa r tok t n)" if "n \<in> set ns" for n
    using good that by (intro ok) (auto simp: sn_ok_def)
  show "\<forall>n\<in>set (sn_insert sr t c ns). sn_ok (sr_af sr) n"
  proof (cases "nid \<in> set (map sn_id ns)")
    case True
    then obtain i where "i < length ns" "sn_insert sr t c ns = ns[i := fill_search_node sa r tok t (ns ! i)]"
      using C c by auto
    then show ?thesis using good ok' set_update_subset_insert [of ns i] by fastforce
  next
    case False
    then have "set (sn_insert sr t c ns) \<subseteq> insert (fill_search_node sa r tok t (zero_search_node\<lparr>sn_id := nid\<rparr>)) (set ns)"
      using C c by simp
    moreover have "sn_ok (sr_af sr) (fill_search_node sa r tok t (zero_search_node\<lparr>sn_id := nid\<rparr>))"
      using len by (intro ok) (simp_all add: zero_search_node_def)
    ultimately show ?thesis using good by blast
  qed
  show "map (\<lambda>n. xdist (sn_id n) (sr_id sr)) (sn_insert sr t c ns) = map (\<lambda>n. xdist (sn_id n) (sr_id sr)) ns"
    if "xdist (fst c) (sr_id sr) \<in> set (map (\<lambda>n. xdist (sn_id n) (sr_id sr)) ns)"
  proof -
    have "nid \<in> set (map sn_id ns)" using that sn_key_known [OF len good] c by simp
    then obtain i where "sn_insert sr t c ns = ns[i := fill_search_node sa r tok t (ns ! i)]" using C c by auto
    then show ?thesis by (simp add: map_update_same)
  qed
  show "map (\<lambda>n. xdist (sn_id n) (sr_id sr)) (sn_insert sr t c ns) =
      take SEARCH_NODES (insort (xdist (fst c) (sr_id sr)) (map (\<lambda>n. xdist (sn_id n) (sr_id sr)) ns))"
    if "xdist (fst c) (sr_id sr) \<notin> set (map (\<lambda>n. xdist (sn_id n) (sr_id sr)) ns)"
    using that sn_key_known [OF len good] C c by simp
qed

section \<open>The invariant of searches\<close>

definition search_ok :: "search \<Rightarrow> bool" where
  "search_ok sr =
     (length (sr_id sr) = 20 \<and> valid_af (sr_af sr) \<and> (\<forall>n\<in>set (sr_nodes sr). sn_ok (sr_af sr) n) \<and>
      sorted (map (\<lambda>n. xdist (sn_id n) (sr_id sr)) (sr_nodes sr)) \<and>
      distinct (map (\<lambda>n. xdist (sn_id n) (sr_id sr)) (sr_nodes sr)) \<and> length (sr_nodes sr) \<le> SEARCH_NODES)"

text \<open>As for the storage, \<open>dht_uninit\<close> leaves the counter behind.\<close>

definition searches_inv_by :: "nat \<Rightarrow> dht \<Rightarrow> bool" where
  "searches_inv_by z s =
     (numsearches s = int (length (searches s)) + int z \<and> numsearches s \<le> DHT_MAX_SEARCHES \<and>
      (\<forall>sr\<in>set (searches s). search_ok sr))"

abbreviation searches_inv :: "dht \<Rightarrow> bool" where
  "searches_inv \<equiv> searches_inv_by 0"

lemma search_ok_ordered: "search_ok sr \<longleftrightarrow> length (sr_id sr) = 20 \<and> valid_af (sr_af sr) \<and> near.ordered sr (sr_nodes sr)"
  by (auto simp: search_ok_def near.ordered_def)

lemma insert_search_node_frame:
  "sr_id (snd (insert_search_node nid sa sr r tok t)) = sr_id sr" "sr_af (snd (insert_search_node nid sa sr r tok t)) = sr_af sr"
  by (simp_all add: insert_search_node_def Let_def split_beta)

lemma insert_search_node_nodes:
  "sr_nodes (snd (insert_search_node nid sa sr r tok t)) = sn_insert sr t (nid, sa, r, tok) (sr_nodes sr)"
  by (simp add: sn_insert_def)

lemma insert_search_node_ok:
  assumes "search_ok sr" and "length nid = 20" and "2 \<le> length sa" and "length sa \<le> SOCKADDR_STORAGE"
  shows "search_ok (snd (insert_search_node nid sa sr r tok t))"
proof (cases "sa_family sa = sr_af sr")
  case False
  then show ?thesis using assms by (simp add: insert_search_node_def)
next
  case True
  then have "cand_ok sr (nid, sa, r, tok)" using assms by (simp add: cand_ok_def search_ok_def)
  moreover have "near.ordered sr ns = near.ordered sr' ns" if "sr_id sr' = sr_id sr" "sr_af sr' = sr_af sr" for sr' ns
    using that by (simp add: near.ordered_def)
  ultimately show ?thesis
    using assms(1) near.ins_ordered insert_search_node_frame [of nid sa sr r tok t]
    unfolding search_ok_ordered insert_search_node_nodes by metis
qed

text \<open>Changes of the nodes that keep their ids and addresses keep the invariant; so does dropping some.\<close>

lemma search_ok_map:
  assumes "search_ok sr" and "map sn_id ns = map sn_id (sr_nodes sr)" and "\<forall>n\<in>set ns. sn_ok (sr_af sr) n"
  shows "search_ok (sr\<lparr>sr_nodes := ns\<rparr>)"
proof -
  have "map (\<lambda>n. xdist (sn_id n) (sr_id sr)) ns = map (\<lambda>x. xdist x (sr_id sr)) (map sn_id ns)" by simp
  also have "\<dots> = map (\<lambda>n. xdist (sn_id n) (sr_id sr)) (sr_nodes sr)" unfolding assms(2) by simp
  finally have "map (\<lambda>n. xdist (sn_id n) (sr_id sr)) ns = map (\<lambda>n. xdist (sn_id n) (sr_id sr)) (sr_nodes sr)" .
  moreover have "length ns = length (sr_nodes sr)" using assms(2) by (metis length_map)
  ultimately show ?thesis using assms(1,3) by (simp add: search_ok_def)
qed

lemma search_ok_upd:
  assumes "search_ok sr" and "i < length (sr_nodes sr)" and "sn_id n = sn_id (sr_nodes sr ! i)" and "sn_ok (sr_af sr) n"
  shows "search_ok (sr\<lparr>sr_nodes := (sr_nodes sr)[i := n]\<rparr>)"
proof (rule search_ok_map [OF assms(1)])
  show "map sn_id ((sr_nodes sr)[i := n]) = map sn_id (sr_nodes sr)"
    using map_update_same [of sn_id "\<lambda>_. n"] assms(3) by simp
  show "\<forall>m\<in>set ((sr_nodes sr)[i := n]). sn_ok (sr_af sr) m"
    using assms(1,4) set_update_subset_insert [of "sr_nodes sr" i n] by (auto simp: search_ok_def)
qed

lemma drop_one:
  fixes l :: "nat list"
  shows "sorted l \<Longrightarrow> sorted (take i l @ drop (Suc i) l)" and "distinct l \<Longrightarrow> distinct (take i l @ drop (Suc i) l)"
proof -
  have *: "(sorted l \<longrightarrow> sorted (take i l @ drop (Suc i) l)) \<and> (distinct l \<longrightarrow> distinct (take i l @ drop (Suc i) l))"
  proof (cases "i < length l")
    case True
    define as bs x where "as = take i l" and "bs = drop (Suc i) l" and "x = l ! i"
    have "l = as @ x # bs" unfolding as_def bs_def x_def using True by (rule id_take_nth_drop)
    then show ?thesis unfolding as_def [symmetric] bs_def [symmetric] by (auto simp: sorted_append)
  qed simp
  then show "sorted l \<Longrightarrow> sorted (take i l @ drop (Suc i) l)" and "distinct l \<Longrightarrow> distinct (take i l @ drop (Suc i) l)"
    by blast+
qed

lemma flush_ok: "search_ok sr \<Longrightarrow> search_ok (flush_search_node i sr)"
  using drop_one [of "map (\<lambda>n. xdist (sn_id n) (sr_id sr)) (sr_nodes sr)" i]
  by (auto simp: search_ok_def flush_search_node_def take_map drop_map dest: in_set_takeD in_set_dropD)

lemma flush_id_ok: "search_ok sr \<Longrightarrow> search_ok (flush_id nid i sr)"
  by (induction nid i sr rule: flush_id.induct) (subst flush_id.simps, simp add: flush_ok)

lemma reuse_ok: "search_ok sr \<Longrightarrow> search_ok (reuse_nodes t i sr)"
proof (induction t i sr rule: reuse_nodes.induct)
  case (1 t i sr)
  show ?case
  proof (cases "i < length (sr_nodes sr)")
    case True
    let ?n = "sr_nodes sr ! i"
    have "sn_ok (sr_af sr) ?n" using "1.prems" True by (simp add: search_ok_def)
    then have "search_ok (sr\<lparr>sr_nodes := (sr_nodes sr)[i := ?n\<lparr>sn_pinged := 0, sn_token := [], sn_replied := False, sn_acked := False\<rparr>]\<rparr>)"
      using "1.prems" True by (intro search_ok_upd) (auto simp: sn_ok_def)
    then show ?thesis
      using 1 True flush_ok by (subst reuse_nodes.simps) (auto simp: Let_def)
  qed (use 1 in \<open>subst reuse_nodes.simps, simp\<close>)
qed

lemma expire_searches_loop_spec:
  "expire_searches_loop t srs n =
     (filter (\<lambda>sr. \<not> sr_step_time sr < t - DHT_SEARCH_EXPIRE_TIME) srs,
      n - int (length (filter (\<lambda>sr. sr_step_time sr < t - DHT_SEARCH_EXPIRE_TIME) srs)))"
  by (induction t srs n rule: expire_searches_loop.induct) auto

lemma expire_searches_inv: "searches_inv_by z s \<Longrightarrow> searches_inv_by z (expire_searches s)"
proof -
  assume inv: "searches_inv_by z s"
  have "length (filter (\<lambda>sr. sr_step_time sr < now s - DHT_SEARCH_EXPIRE_TIME) (searches s)) +
    length (filter (\<lambda>sr. \<not> sr_step_time sr < now s - DHT_SEARCH_EXPIRE_TIME) (searches s)) = length (searches s)"
    by (rule sum_length_filter_compl)
  then show ?thesis
    using inv by (auto simp: expire_searches_def expire_searches_loop_spec searches_inv_by_def Let_def)
qed

section \<open>Requests\<close>

text \<open>Steps that touch the routing tables and the trace only, and keep the table invariant.\<close>

definition tstep :: "dht \<Rightarrow> dht \<Rightarrow> bool" where
  "tstep s s' = (rest s' = rest s \<and> mem_ok s' = mem_ok s \<and> (tables_inv s \<longrightarrow> tables_inv s' \<and> alive s' = alive s))"

lemma tstep_refl [simp]: "tstep s s"
  by (simp add: tstep_def)

lemma tstep_trans: "tstep s1 s2 \<Longrightarrow> tstep s2 s3 \<Longrightarrow> tstep s1 s3"
  by (auto simp: tstep_def)

lemma tstep_emit [simp]: "Abort \<notin> set e \<Longrightarrow> Fault \<notin> set e \<Longrightarrow> tstep s (emit e s)"
  by (simp add: tstep_def)

lemma tstep_send: "0 < length sa \<Longrightarrow> length sa \<le> SOCKADDR_STORAGE \<Longrightarrow> tstep s (snd (send_built m flags sa s))"
  by (simp add: snd_send_built)

lemma find_node_Some:
  "find_node nid af s = Some (i, j) \<Longrightarrow> i < length (get_buckets af s) \<and> j < length (bk_nodes (get_buckets af s ! i))"
  by (auto simp: find_node_def find_index_Some split: option.splits dest: find_bucket_less)

lemma pinged_tstep:
  assumes "valid_af af" and "i < length (get_buckets af s)" and "j < length (bk_nodes (get_buckets af s ! i))"
    and "\<And>k. b = Some k \<Longrightarrow> k < length (get_buckets af s)"
  shows "tstep s (pinged af i j b s)"
  using assms pinged_inv [of s af i j b] by (simp add: tstep_def pinged_rest)

lemma mark_pinged_tstep: "valid_af af \<Longrightarrow> tstep s (mark_pinged nid af s)"
  by (auto simp: mark_pinged_def intro: pinged_tstep dest: find_node_Some split: option.splits)

lemma last_askable_less: "last_askable t i ns r = Some k \<Longrightarrow> (\<forall>m. r = Some m \<longrightarrow> m < i) \<Longrightarrow> k < i + length ns"
proof (induction t i ns r rule: last_askable.induct)
  case (2 t i n ns r)
  then have "k < Suc i + length ns" by (auto split: if_splits simp: less_Suc_eq)
  then show ?case by simp
qed auto

lemma search_send_get_peers_ok:
  assumes ok: "search_ok sr" and which: "\<And>i. which = Some i \<Longrightarrow> i < length (sr_nodes sr)"
    and res: "search_send_get_peers sr which s = (b, sr', s')"
  shows "search_ok sr'" and "tstep s s'" and "length (sr_nodes sr') = length (sr_nodes sr)"
    and "sr_id sr' = sr_id sr" and "sr_af sr' = sr_af sr" and "sr_tid sr' = sr_tid sr"
proof -
  define w where "w = (case which of None \<Rightarrow> last_askable (now s) 0 (sr_nodes sr) None | Some i \<Rightarrow> Some i)"
  have "search_ok sr' \<and> tstep s s' \<and> length (sr_nodes sr') = length (sr_nodes sr) \<and>
    sr_id sr' = sr_id sr \<and> sr_af sr' = sr_af sr \<and> sr_tid sr' = sr_tid sr"
  proof (cases "b")
    case False
    then show ?thesis using res ok by (auto simp: search_send_get_peers_def Let_def split: option.splits if_splits)
  next
    case True
    then obtain i where i: "w = Some i"
      using res by (auto simp: search_send_get_peers_def w_def Let_def split: option.splits)
    then have lt: "i < length (sr_nodes sr)"
      using which last_askable_less [of "now s" 0 "sr_nodes sr" None i] by (auto simp: w_def split: option.splits)
    let ?n = "sr_nodes sr ! i"
    have n: "sn_ok (sr_af sr) ?n" using ok lt by (simp add: search_ok_def)
    define s1 where "s1 = snd (send_get_peers (take (sn_sslen ?n) (sn_ss ?n)) (make_tid ''gp'' (sr_tid sr))
      (sr_id sr) (- 1) (sn_reply_time ?n \<ge> now s - 15) s)"
    have e: "sr' = sr\<lparr>sr_nodes := (sr_nodes sr)[i := ?n\<lparr>sn_pinged := sn_pinged ?n + 1, sn_request_time := now s\<rparr>]\<rparr>"
      "s' = mark_pinged (sn_id ?n) (sa_family (sn_ss ?n)) s1"
      using res True i by (auto simp: search_send_get_peers_def w_def [symmetric] Let_def s1_def split: if_splits)
    have "tstep s s1" unfolding s1_def send_get_peers_def
      using n by (intro tstep_send) (auto simp: sn_ok_def SOCKADDR_STORAGE_def)
    moreover have "tstep s1 s'" unfolding e(2) using n ok by (intro mark_pinged_tstep) (simp add: sn_ok_def search_ok_def)
    moreover have "search_ok sr'" unfolding e(1) using ok lt n by (intro search_ok_upd) (auto simp: sn_ok_def)
    ultimately show ?thesis using e(1) tstep_trans by auto
  qed
  then show "search_ok sr'" and "tstep s s'" and "length (sr_nodes sr') = length (sr_nodes sr)"
    and "sr_id sr' = sr_id sr" and "sr_af sr' = sr_af sr" and "sr_tid sr' = sr_tid sr" by simp_all
qed

lemma get_peers_loop_ok:
  "search_ok sr \<Longrightarrow> i + m \<le> length (sr_nodes sr) \<Longrightarrow> get_peers_loop m i j sr s = (sr', s') \<Longrightarrow> search_ok sr' \<and> tstep s s'"
proof (induction m i j sr s arbitrary: sr' s' rule: get_peers_loop.induct)
  case (2 m i j sr s)
  obtain b sr1 s1 where one: "search_send_get_peers sr (Some i) s = (b, sr1, s1)" by (metis prod_cases3)
  note O = search_send_get_peers_ok [OF "2.prems"(1) _ one]
  have O1: "search_ok sr1" "tstep s s1" "length (sr_nodes sr1) = length (sr_nodes sr)"
    using O(1,2,3) "2.prems"(2) by auto
  let ?j = "if b then j + 1 else j"
  show ?case
  proof (cases "?j \<ge> 3")
    case True
    then show ?thesis using "2.prems"(3) one O1 by (auto simp: Let_def split: if_splits)
  next
    case False
    then have rec: "get_peers_loop m (Suc i) ?j sr1 s1 = (sr', s')" using "2.prems"(3) one by (simp add: Let_def)
    have "search_ok sr' \<and> tstep s1 s'"
      using "2.IH" [OF one [symmetric] refl refl refl False O1(1) _ rec] "2.prems"(2) O1(3) by simp
    then show ?thesis using O1(2) tstep_trans by blast
  qed
qed simp

lemma announce_loop_ok:
  "\<forall>n\<in>set ns. sn_ok (sr_af sr) n \<Longrightarrow> valid_af (sr_af sr) \<Longrightarrow> announce_loop sr ns j acked s = (ns', acked', s') \<Longrightarrow>
   map sn_id ns' = map sn_id ns \<and> (\<forall>n\<in>set ns'. sn_ok (sr_af sr) n) \<and> tstep s s'"
proof (induction sr ns j acked s arbitrary: ns' acked' s' rule: announce_loop.induct)
  case (2 sr n ns j acked s)
  define n1 where "n1 = (if sn_token n = [] then n\<lparr>sn_acked := True\<rparr> else n)"
  have n1: "sn_ok (sr_af sr) n1" "sn_id n1 = sn_id n" using "2.prems"(1) by (auto simp: n1_def sn_ok_def)
  have ns: "\<forall>n\<in>set ns. sn_ok (sr_af sr) n" using "2.prems"(1) by simp
  consider (stop) "\<not> j < 8" | (dead) "j < 8" "sn_pinged n \<ge> 3" | (ask) "j < 8" "\<not> sn_pinged n \<ge> 3" "\<not> sn_acked n1"
    | (acked) "j < 8" "\<not> sn_pinged n \<ge> 3" "sn_acked n1" by blast
  then show ?case
  proof cases
    case stop
    then show ?thesis using "2.prems" by auto
  next
    case dead
    then obtain ms where "announce_loop sr ns j acked s = (ms, acked', s')" "ns' = n # ms"
      using "2.prems"(3) by (auto split: prod.splits)
    then show ?thesis using "2.IH"(1) [OF _ _ ns] dead "2.prems" by auto
  next
    case ask
    define s1 where "s1 = snd (send_announce_peer (sn_ss n1) (make_tid ''ap'' (sr_tid sr)) (sr_id sr) (sr_port sr)
      (sn_token n1) (sn_reply_time n1 \<ge> now s - 15) s)"
    define n2 where "n2 = n1\<lparr>sn_pinged := sn_pinged n1 + 1, sn_request_time := now s\<rparr>"
    define s2 where "s2 = mark_pinged (sn_id n2) (sa_family (sn_ss n2)) s1"
    have "tstep s s1" unfolding s1_def send_announce_peer_def
      using n1 by (intro tstep_send) (auto simp: sn_ok_def SOCKADDR_STORAGE_def)
    moreover have "tstep s1 s2" unfolding s2_def
      using n1 "2.prems"(2) by (intro mark_pinged_tstep) (simp add: sn_ok_def n2_def)
    ultimately have t: "tstep s s2" by (rule tstep_trans)
    obtain ms where rec: "announce_loop sr ns (Suc j) False s2 = (ms, acked', s')" "ns' = n2 # ms"
      using "2.prems"(3) ask
      by (auto simp: n1_def [symmetric] s1_def [symmetric] n2_def [symmetric] s2_def [symmetric] Let_def split: prod.splits)
    have "map sn_id ms = map sn_id ns \<and> (\<forall>n\<in>set ms. sn_ok (sr_af sr) n) \<and> tstep s2 s'"
      using "2.IH"(2) [OF _ _ n1_def _ s1_def n2_def s2_def ns "2.prems"(2) rec(1)] ask by blast
    then show ?thesis using rec(2) n1 t tstep_trans by (auto simp: n2_def sn_ok_def)
  next
    case acked
    obtain ms where rec: "announce_loop sr ns (Suc j) acked s = (ms, acked', s')" "ns' = n1 # ms"
      using "2.prems"(3) acked by (auto simp: n1_def [symmetric] Let_def split: prod.splits)
    have "map sn_id ms = map sn_id ns \<and> (\<forall>n\<in>set ms. sn_ok (sr_af sr) n) \<and> tstep s s'"
      using "2.IH"(3) [OF _ _ n1_def _ ns "2.prems"(2) rec(1)] acked by blast
    then show ?thesis using rec(2) n1 by auto
  qed
qed simp

lemma search_step_ok:
  assumes ok: "search_ok sr" and res: "search_step callback sr s = (sr', s')"
  shows "search_ok sr' \<and> tstep s s'"
proof -
  have flags: "search_ok (sr0\<lparr>sr_step_time := x\<rparr>) = search_ok sr0" "search_ok (sr0\<lparr>sr_done := y\<rparr>) = search_ok sr0" for sr0 x y
    by (simp_all add: search_ok_def)
  have "search_done callback sr0 s0 = (sr', s') \<Longrightarrow> search_ok sr0 \<Longrightarrow> search_ok sr' \<and> tstep s0 s'" for sr0 s0
    by (auto simp: search_done_def Let_def flags split: if_splits)
  note fin = this
  show ?thesis
  proof (cases "all_replied (sr_nodes sr) 0")
    case True
    show ?thesis
    proof (cases "sr_port sr = 0")
      case True
      then show ?thesis using res \<open>all_replied (sr_nodes sr) 0\<close> ok fin by (simp add: search_step_def)
    next
      case False
      obtain ns acked s1 where loop: "announce_loop sr (sr_nodes sr) 0 True s = (ns, acked, s1)" by (metis prod_cases3)
      from announce_loop_ok [OF _ _ loop] ok have "map sn_id ns = map sn_id (sr_nodes sr)" "\<forall>n\<in>set ns. sn_ok (sr_af sr) n"
        and t: "tstep s s1" by (auto simp: search_ok_def)
      then have ok1: "search_ok (sr\<lparr>sr_nodes := ns\<rparr>)" using ok by (intro search_ok_map)
      have "search_ok sr' \<and> tstep s1 s'"
        using res True False loop ok1 fin [of "sr\<lparr>sr_nodes := ns\<rparr>" s1]
        by (auto simp: search_step_def flags Let_def split: if_splits)
      then show ?thesis using t tstep_trans by blast
    qed
  next
    case False
    obtain sr1 s1 where loop: "get_peers_loop (length (sr_nodes sr)) 0 0 sr s = (sr1, s1)" by fastforce
    from get_peers_loop_ok [OF ok _ loop] have "search_ok sr1" "tstep s s1" by simp_all
    then show ?thesis using res False ok loop by (auto simp: search_step_def flags split: if_splits)
  qed
qed

section \<open>The invariant of the whole state\<close>

definition blacklist_ok :: "dht \<Rightarrow> bool" where
  "blacklist_ok s = (length (blacklist s) = DHT_MAX_BLACKLISTED \<and> (\<forall>b\<in>set (blacklist s). length b = SOCKADDR_STORAGE) \<and>
     next_blacklisted s < DHT_MAX_BLACKLISTED)"

text \<open>The counters are ahead of the lists only while the sockets are closed.\<close>

definition dht_inv_by :: "nat \<times> nat \<Rightarrow> dht \<Rightarrow> bool" where
  "dht_inv_by z s = (tables_inv s \<and> storage_inv_by (fst z) s \<and> searches_inv_by (snd z) s \<and> blacklist_ok s \<and> mem_fair s \<and> alive s \<and>
     (dht_socket s < 0 \<and> dht_socket6 s < 0 \<or> z = (0, 0)))"

abbreviation dht_inv :: "dht \<Rightarrow> bool" where
  "dht_inv \<equiv> dht_inv_by (0, 0)"

lemma dht_inv_tstep:
  assumes "dht_inv_by z s" and "tstep s s'"
  shows "dht_inv_by z s'"
proof -
  have r: "rest s' = rest s" "mem_ok s' = mem_ok s" using assms(2) by (simp_all add: tstep_def)
  show ?thesis
    using assms mem_fair_shift [of s' s] rest_fields [OF r(1)] r(2)
    by (auto simp: dht_inv_by_def tstep_def storage_inv_by_def searches_inv_by_def blacklist_ok_def)
qed

lemma new_node_dht_inv:
  assumes "dht_inv_by z s" and "addr_ok sa" and "length sa \<le> SOCKADDR_STORAGE" and "length nid = 20"
  shows "\<exists>ok s'. new_node nid sa c s = Some (ok, s') \<and> dht_inv_by z s' \<and> rest s' = rest s"
proof -
  have inv: "tables_inv s" "mem_fair s" using assms(1) by (simp_all add: dht_inv_by_def)
  obtain ok s' where r: "new_node nid sa c s = Some (ok, s')" and k: "keeps sa s s'"
    using new_node_keeps [OF inv assms(2,4)] by blast
  have e: "rest s' = rest s" using k by (simp add: keeps_def)
  have "dht_inv_by z s'"
    using assms(1,3) k rest_fields [OF e]
    by (auto simp: dht_inv_by_def keeps_def storage_inv_by_def searches_inv_by_def blacklist_ok_def)
  then show ?thesis using r e by blast
qed

text \<open>Writing back a search.\<close>

lemma upd_search_inv:
  assumes "dht_inv_by z s" and "search_ok sr"
  shows "dht_inv_by z (upd_search k sr s)"
  using assms set_update_subset_insert [of "searches s" k sr]
  by (auto simp: dht_inv_by_def upd_search_def tables_inv_def storage_inv_by_def searches_inv_by_def blacklist_ok_def
      mem_fair_def alive_def)

section \<open>Starting a search keeps the invariant\<close>

lemma oldest_done_less:
  "oldest_done k srs r = Some (m, t) \<Longrightarrow> (\<forall>a b. r = Some (a, b) \<longrightarrow> a < k) \<Longrightarrow> m < k + length srs"
proof (induction k srs r rule: oldest_done.induct)
  case (2 k sr srs r)
  let ?r = "if sr_done sr \<and> (case r of None \<Rightarrow> True | Some (_, t) \<Rightarrow> t > sr_step_time sr) then Some (k, sr_step_time sr) else r"
  have "\<forall>a b. ?r = Some (a, b) \<longrightarrow> a < Suc k" using "2.prems"(2) by (simp add: less_Suc_eq)
  moreover have "oldest_done (Suc k) srs ?r = Some (m, t)" using "2.prems"(1) by simp
  ultimately have "m < Suc k + length srs" using "2.IH" by blast
  then show ?case by simp
qed auto

lemma new_search_cases:
  defines "o' \<equiv> \<lambda>s. map_option fst (oldest_done 0 (searches s) None)"
  shows "new_search s = (o' s, s) \<or> new_search s = (o' s, s\<lparr>mem_ok := (\<lambda>i. mem_ok s (Suc i))\<rparr>) \<or>
    numsearches s < DHT_MAX_SEARCHES \<and>
    new_search s = (Some 0, s\<lparr>mem_ok := (\<lambda>i. mem_ok s (Suc i)), searches := zero_search # searches s, numsearches := numsearches s + 1\<rparr>)"
  unfolding new_search_def c_alloc_def Let_def o'_def by simp

text \<open>\<open>new_search\<close> returns a slot; apart from that slot the state is as good as before.\<close>

lemma new_search_slot:
  assumes inv: "dht_inv_by z s" and res: "new_search s = (r, s')"
  shows "r = None \<Longrightarrow> dht_inv_by z s'"
    and "r = Some k \<Longrightarrow> k < length (searches s') \<and> (\<forall>sr. search_ok sr \<longrightarrow> dht_inv_by z (upd_search k sr s'))"
    and "get_buckets af s' = get_buckets af s" and "myid s' = myid s" and "tables_inv s'" and "alive s'"
proof -
  let ?s1 = "s\<lparr>mem_ok := (\<lambda>i. mem_ok s (Suc i))\<rparr>"
  have s1: "dht_inv_by z ?s1"
    using inv mem_fair_shift [of ?s1 s] by (auto simp: dht_inv_by_def tables_inv_def storage_inv_by_def searches_inv_by_def blacklist_ok_def alive_def)
  have old: "m < length (searches s)" if "map_option fst (oldest_done 0 (searches s) None) = Some m" for m
    using that oldest_done_less [of 0 "searches s" None m] by auto
  let ?s2 = "?s1\<lparr>searches := zero_search # searches s, numsearches := numsearches s + 1\<rparr>"
  consider "s' = s" "r = map_option fst (oldest_done 0 (searches s) None)"
    | "s' = ?s1" "r = map_option fst (oldest_done 0 (searches s) None)"
    | "s' = ?s2" "r = Some 0" "numsearches s < DHT_MAX_SEARCHES"
    using res new_search_cases [of s] by (metis prod.inject)
  then have "(r = None \<longrightarrow> dht_inv_by z s') \<and>
    (r = Some k \<longrightarrow> k < length (searches s') \<and> (\<forall>sr. search_ok sr \<longrightarrow> dht_inv_by z (upd_search k sr s'))) \<and>
    get_buckets af s' = get_buckets af s \<and> myid s' = myid s \<and> tables_inv s' \<and> alive s'"
  proof cases
    case 1
    then show ?thesis using inv old [of k] upd_search_inv [OF inv] by (auto simp: dht_inv_by_def)
  next
    case 2
    then show ?thesis using s1 old [of k] upd_search_inv [OF s1] by (auto simp: dht_inv_by_def get_buckets_def)
  next
    case 3
    have "dht_inv_by z (upd_search 0 sr ?s2)" if "search_ok sr" for sr
      using s1 that 3(3)
      by (auto simp: dht_inv_by_def upd_search_def tables_inv_def storage_inv_by_def searches_inv_by_def blacklist_ok_def
          mem_fair_def alive_def)
    then show ?thesis using 3 s1 by (auto simp: get_buckets_def dht_inv_by_def tables_inv_def alive_def)
  qed
  then show "r = None \<Longrightarrow> dht_inv_by z s'"
    and "r = Some k \<Longrightarrow> k < length (searches s') \<and> (\<forall>sr. search_ok sr \<longrightarrow> dht_inv_by z (upd_search k sr s'))"
    and "get_buckets af s' = get_buckets af s" and "myid s' = myid s" and "tables_inv s'" and "alive s'" by blast+
qed

lemma insert_search_bucket_ok:
  assumes "bucket_ok af b"
  shows "search_ok sr \<Longrightarrow> search_ok (insert_search_bucket b t sr)"
proof -
  have "\<forall>n\<in>set ns. node_ok af n \<Longrightarrow> search_ok sr \<Longrightarrow>
    search_ok (fold (\<lambda>n sr. snd (insert_search_node (nd_id n) (take (nd_sslen n) (nd_ss n)) sr False None t)) ns sr)" for ns
  proof (induction ns arbitrary: sr)
    case (Cons n ns)
    then have "search_ok (snd (insert_search_node (nd_id n) (take (nd_sslen n) (nd_ss n)) sr False None t))"
      by (intro insert_search_node_ok) (simp_all add: node_ok_def)
    with Cons show ?case by simp
  qed simp
  then show "search_ok sr \<Longrightarrow> search_ok (insert_search_bucket b t sr)"
    using assms by (simp add: insert_search_bucket_def bucket_ok_def)
qed

lemma fill_search_ok:
  assumes inv: "tables_inv s" "valid_af af" and i: "i < length (get_buckets af s)" and ok: "search_ok sr"
  shows "search_ok (fill_search af i s sr)"
proof -
  have b: "search_ok sr' \<Longrightarrow> search_ok (insert_search_bucket (get_buckets af s ! k) t sr')" if "k < length (get_buckets af s)" for k t sr'
    using bucket_state(1) [OF inv that] insert_search_bucket_ok by blast
  have "find_idx (myid s) (get_buckets af s) < length (get_buckets af s)" using i by (intro find_idx_less) auto
  then show ?thesis
    using ok i by (auto simp: fill_search_def Let_def previous_bucket_def intro!: b)
qed

lemma tstep_upd_search: "tstep s s' \<Longrightarrow> tstep (upd_search k sr s) (upd_search k sr s')"
proof -
  assume t: "tstep s s'"
  have u: "rest (upd_search k sr s0) = upd_search k sr (rest s0)" for s0 by (simp add: rest_def upd_search_def)
  have v: "tables_inv (upd_search k sr s0) = tables_inv s0" "alive (upd_search k sr s0) = alive s0"
    "mem_ok (upd_search k sr s0) = mem_ok s0" for s0
    by (simp_all add: upd_search_def tables_inv_def alive_def)
  show ?thesis using t by (simp add: tstep_def u v)
qed

lemma dht_inv_irrelevant [simp]:
  "dht_inv_by z (s\<lparr>search_time := x\<rparr>) = dht_inv_by z s" "dht_inv_by z (s\<lparr>search_id := y\<rparr>) = dht_inv_by z s"
  "dht_inv_by z (s\<lparr>confirm_nodes_time := x\<rparr>) = dht_inv_by z s" "dht_inv_by z (s\<lparr>rng := f\<rparr>) = dht_inv_by z s"
  "dht_inv_by z (s\<lparr>now := x\<rparr>) = dht_inv_by z s"
  by (simp_all add: dht_inv_by_def tables_inv_def storage_inv_by_def searches_inv_by_def blacklist_ok_def mem_fair_def alive_def)

text \<open>The rest of \<open>dht_search\<close> once a slot is found: fill it from the table, take a step, store it.\<close>

lemma run_search_inv:
  assumes slot: "\<And>sr. search_ok sr \<Longrightarrow> dht_inv_by z (upd_search k sr s)" and inv: "tables_inv s" "valid_af af"
    and i: "i < length (get_buckets af s)" and ok: "search_ok sr"
    and step: "search_step cb (fill_search af i s (sr\<lparr>sr_port := p\<rparr>)) s = (sr2, s3)"
  shows "dht_inv_by z ((upd_search k sr2 s3)\<lparr>search_time := x\<rparr>)"
proof -
  have "search_ok (sr\<lparr>sr_port := p\<rparr>)" using ok by (simp add: search_ok_def)
  then have "search_ok (fill_search af i s (sr\<lparr>sr_port := p\<rparr>))" by (rule fill_search_ok [OF inv i])
  from search_step_ok [OF this step] have s3: "search_ok sr2" "tstep s s3" by simp_all
  then show ?thesis using slot dht_inv_tstep tstep_upd_search by (metis dht_inv_irrelevant(1))
qed

lemma local_answers_events: "Abort \<notin> set (local_answers st nid)" "Fault \<notin> set (local_answers st nid)"
  by (auto simp: local_answers_def split: if_splits)

lemma dht_search_inv:
  assumes inv: "dht_inv_by z s" and af: "valid_af af" and nid: "length nid = 20"
  shows "dht_inv_by z (snd (dht_search nid port af callback s))"
proof (cases "find_bucket nid af s")
  case None
  then show ?thesis using inv by (simp add: dht_search_def)
next
  case (Some i)
  define s1 where "s1 = (if callback then (case find_storage nid s of None \<Rightarrow> s
    | Some k \<Rightarrow> emit (local_answers (storage s ! k) nid) s) else s)"
  have s1: "dht_inv_by z s1" "get_buckets af s1 = get_buckets af s"
    using inv dht_inv_tstep [OF inv tstep_emit] local_answers_events by (auto simp: s1_def split: option.splits)
  have i: "i < length (get_buckets af s)" using Some by (rule find_bucket_less)
  show ?thesis
  proof (cases "find_index (\<lambda>sr. sr_af sr = af \<and> id_cmp (sr_id sr) nid = 0) (searches s1)")
    case old: (Some k)
    then have k: "k < length (searches s1)" by (simp add: find_index_Some)
    then have "search_ok ((searches s1 ! k)\<lparr>sr_done := False\<rparr>)" using s1 by (simp add: dht_inv_by_def searches_inv_by_def search_ok_def)
    then have ok: "search_ok (reuse_nodes (now s1) 0 ((searches s1 ! k)\<lparr>sr_done := False\<rparr>))" by (rule reuse_ok)
    show ?thesis
      using run_search_inv [of z k s1, OF upd_search_inv [OF s1(1)] _ af _ ok] s1 i Some old
      by (simp add: dht_search_def s1_def [symmetric] dht_inv_by_def split: prod.splits)
  next
    case new: None
    obtain r s2 where r: "new_search s1 = (r, s2)" by fastforce
    note N = new_search_slot [OF s1(1) r]
    show ?thesis
    proof (cases r)
      case None
      then show ?thesis using Some new r N(1) by (simp add: dht_search_def s1_def [symmetric])
    next
      case (Some k)
      let ?s2 = "s2\<lparr>search_id := search_id s2 + 1\<rparr>"
      let ?sr = "(searches s2 ! k)\<lparr>sr_af := af, sr_tid := search_id s2, sr_step_time := 0, sr_id := nid, sr_done := False, sr_nodes := []\<rparr>"
      have ok: "search_ok ?sr" using af nid by (simp add: search_ok_def)
      have slot: "dht_inv_by z (upd_search k sr ?s2)" if "search_ok sr" for sr
      proof -
        have e: "upd_search k sr ?s2 = (upd_search k sr s2)\<lparr>search_id := search_id s2 + 1\<rparr>" by (simp add: upd_search_def)
        show ?thesis unfolding e using N(2) [OF Some] that by simp
      qed
      have "tables_inv ?s2" "get_buckets af ?s2 = get_buckets af s"
        using N(3) [of af] N(5) s1(2) by (simp_all add: tables_inv_def get_buckets_def split: if_splits)
      then show ?thesis
        using run_search_inv [of z k ?s2, OF slot _ af _ ok] i \<open>find_bucket nid af s = Some i\<close> new r Some
        by (simp add: dht_search_def s1_def [symmetric] split: prod.splits)
    qed
  qed
qed

lemma blacklist_node_inv:
  assumes inv: "dht_inv_by z s" and af: "valid_af (sa_family sa)" and sa: "length sa \<le> SOCKADDR_STORAGE"
  shows "dht_inv_by z (blacklist_node nid sa s)"
proof -
  let ?af = "sa_family sa"
  define s1 where "s1 = (case find_node nid ?af s of None \<Rightarrow> s
    | Some (i, j) \<Rightarrow> pinged ?af i j None (upd_node ?af i j (\<lambda>n. n\<lparr>nd_pinged := 3\<rparr>) s))"
  have "tstep s s1"
  proof (cases "find_node nid ?af s")
    case (Some p)
    obtain i j where p: "p = (i, j)" by (cases p)
    have ij: "i < length (get_buckets ?af s)" "j < length (bk_nodes (get_buckets ?af s ! i))"
      using find_node_Some Some p by auto
    let ?s = "upd_node ?af i j (\<lambda>n. n\<lparr>nd_pinged := 3\<rparr>) s"
    have "tstep s ?s"
      using af ij by (auto simp: tstep_def node_ok_def intro!: upd_node_same_id)
    moreover have "tstep ?s (pinged ?af i j None ?s)"
      using af ij by (intro pinged_tstep) (auto simp: upd_node_def)
    ultimately show ?thesis using Some p tstep_trans by (auto simp: s1_def)
  qed (simp add: s1_def)
  then have s1: "dht_inv_by z s1" using inv dht_inv_tstep by blast
  have "length (memcpy b sa) = SOCKADDR_STORAGE" if "b \<in> set (blacklist s1)" for b
    using that s1 sa by (auto simp: dht_inv_by_def blacklist_ok_def)
  then have "\<forall>b\<in>set ((blacklist s1)[next_blacklisted s1 := memcpy (blacklist s1 ! next_blacklisted s1) sa]). length b = SOCKADDR_STORAGE"
    using s1 set_update_subset_insert [of "blacklist s1" "next_blacklisted s1" "memcpy (blacklist s1 ! next_blacklisted s1) sa"]
    by (auto simp: dht_inv_by_def blacklist_ok_def)
  then show ?thesis
    using s1 flush_id_ok
    by (auto simp: blacklist_node_def s1_def [symmetric] Let_def dht_inv_by_def tables_inv_def storage_inv_by_def searches_inv_by_def
        blacklist_ok_def mem_fair_def alive_def DHT_MAX_BLACKLISTED_def)
qed

end
