(* ===== verification/Dht_Parse.thy ===== *)
theory Dht_Parse
  imports Dht_Search
begin

text \<open>
  The parser of incoming messages, \<open>parse_message\<close> of \<open>src/routing/dht.c\<close>: it looks for
  fixed substrings with \<open>memmem\<close> and reads decimal lengths with \<open>strtol\<close>. The buffer is the
  list of its \<open>buflen\<close> bytes; the NUL the caller checks behind it is what \<open>byte_at\<close> reads
  past the end. A truncated field makes the whole parse fail (\<open>None\<close>, the return value -1).
  \<open>p_tid = None\<close> stands for a message without \<open>1:t\<close>: the code leaves the caller's 16
  bytes and length alone then.
\<close>

section \<open>Substrings and numbers\<close>

definition dht_memmem :: "bytes \<Rightarrow> bytes \<Rightarrow> nat option" where
  "dht_memmem h n =
     (if length n > length h then None
      else find_index (\<lambda>i. memcmp (drop i h) n (length n) = 0) [0..<length h - length n + 1])"

definition is_space :: "byte \<Rightarrow> bool" where
  "is_space b = (b = 32 \<or> (9 \<le> b \<and> b \<le> 13))"

definition is_digit :: "byte \<Rightarrow> bool" where
  "is_digit b = (48 \<le> b \<and> b \<le> 57)"

function skip_space :: "bytes \<Rightarrow> nat \<Rightarrow> nat" where
  "skip_space buf i = (if i < length buf \<and> is_space (byte_at buf i) then skip_space buf (Suc i) else i)"
  by pat_completeness auto
termination by (relation "measure (\<lambda>(buf, i). length buf - i)") auto

function read_digits :: "bytes \<Rightarrow> nat \<Rightarrow> int \<Rightarrow> int \<times> nat" where
  "read_digits buf i acc =
     (if i < length buf \<and> is_digit (byte_at buf i)
      then read_digits buf (Suc i) (acc * 10 + (uint (byte_at buf i) - 48)) else (acc, i))"
  by pat_completeness auto
termination by (relation "measure (\<lambda>(buf, i, acc). length buf - i)") auto

declare skip_space.simps [simp del] read_digits.simps [simp del]

definition LONG_MAX :: int where "LONG_MAX = 2 ^ 63 - 1"

text \<open>\<open>strtol(p, &q, 10)\<close>: the value, clamped to \<open>long\<close>, and \<open>q\<close>.\<close>

definition strtol :: "bytes \<Rightarrow> nat \<Rightarrow> int \<times> nat" where
  "strtol buf p =
     (let i = skip_space buf p;
          neg = (byte_at buf i = 45);
          i1 = (if neg \<or> byte_at buf i = 43 then Suc i else i);
          (v, q) = read_digits buf i1 0
      in if q = i1 then (0, p)
         else (if neg then max (- v) (- LONG_MAX - 1) else min v LONG_MAX, q))"

section \<open>Fields\<close>

datatype field = Absent | Malformed | Truncated | Field bytes

text \<open>A needle followed by a length, a colon and that many bytes, at most \<open>limit\<close>.\<close>

definition counted_field :: "bytes \<Rightarrow> string \<Rightarrow> int \<Rightarrow> field" where
  "counted_field buf needle limit =
     (case dht_memmem buf (bstr needle) of
        None \<Rightarrow> Absent
      | Some p \<Rightarrow>
          let (l, q) = strtol buf (p + length needle)
          in if byte_at buf q = 58 \<and> l > 0 \<and> l \<le> limit then
               if q + 1 + nat l > length buf then Truncated
               else Field (take (nat l) (drop (q + 1) buf))
             else Malformed)"

text \<open>A needle followed by a 20-byte identifier; zeros when it is absent.\<close>

definition id_field :: "bytes \<Rightarrow> string \<Rightarrow> dht_id option" where
  "id_field buf needle =
     (case dht_memmem buf (bstr needle) of
        None \<Rightarrow> Some (replicate 20 0)
      | Some p \<Rightarrow>
          if p + length needle + 20 > length buf then None
          else Some (take 20 (drop (p + length needle) buf)))"

definition port_field :: "bytes \<Rightarrow> 16 word" where
  "port_field buf =
     (case dht_memmem buf (bstr ''porti'') of
        None \<Rightarrow> 0
      | Some p \<Rightarrow>
          let (l, q) = strtol buf (p + 5)
          in if byte_at buf q = 101 \<and> l > 0 \<and> l < 0x10000 then of_int l else 0)"

lemma skip_space_ge: "i \<le> skip_space buf i"
  by (induction buf i rule: skip_space.induct) (subst skip_space.simps, auto)

lemma read_digits_ge: "i \<le> snd (read_digits buf i acc)"
  by (induction buf i acc rule: read_digits.induct) (subst read_digits.simps, auto)

lemma strtol_ge: "p \<le> snd (strtol buf p)"
proof -
  let ?i = "skip_space buf p"
  let ?j = "if byte_at buf ?i = 45 \<or> byte_at buf ?i = 43 then Suc ?i else ?i"
  have "p \<le> ?j" using skip_space_ge [of p buf] by simp
  also have "?j \<le> snd (read_digits buf ?j 0)" by (rule read_digits_ge)
  finally show ?thesis by (auto simp: strtol_def Let_def split_beta)
qed

lemma strtol_step: "(l, q) = strtol buf p \<Longrightarrow> p \<le> q"
  using strtol_ge [of p buf] by (metis snd_conv)

text \<open>The loop over the values: 6-byte and 18-byte ones are collected as long as they fit.\<close>

function values_loop :: "bytes \<Rightarrow> nat \<Rightarrow> bytes \<Rightarrow> bytes \<Rightarrow> (bytes \<times> bytes) option" where
  "values_loop buf i vs vs6 =
     (let (l, q) = strtol buf i
      in if byte_at buf q = 58 \<and> l > 0 then
           if q + 1 + nat l > length buf then None
           else
             (let v = take (nat l) (drop (q + 1) buf); i' = q + 1 + nat l
              in if l = 6 then values_loop buf i' (if length vs + 6 > 2048 then vs else vs @ v) vs6
                 else if l = 18 then values_loop buf i' vs (if length vs6 + 18 > 2048 then vs6 else vs6 @ v)
                 else values_loop buf i' vs vs6)
         else Some (vs, vs6))"
  by pat_completeness auto
termination
  by (relation "measure (\<lambda>(buf, i, vs, vs6). Suc (length buf) - i)") (auto dest: strtol_step)

declare values_loop.simps [simp del]

definition values_field :: "bytes \<Rightarrow> (bytes \<times> bytes) option" where
  "values_field buf =
     (case dht_memmem buf (bstr ''6:valuesl'') of
        None \<Rightarrow> Some ([], [])
      | Some p \<Rightarrow> values_loop buf (p + 9) [] [])"

function want_loop :: "bytes \<Rightarrow> nat \<Rightarrow> int \<Rightarrow> int" where
  "want_loop buf i want =
     (let d = unat (byte_at buf i) - 48
      in if byte_at buf i > 48 \<and> byte_at buf i \<le> 57 \<and> byte_at buf (i + 1) = 58 \<and> i + 2 + d < length buf then
           want_loop buf (i + 2 + d)
             (if byte_at buf i = 50 \<and> memcmp (drop (i + 2) buf) (bstr ''n4'') 2 = 0 then want OR WANT4
              else if byte_at buf i = 50 \<and> memcmp (drop (i + 2) buf) (bstr ''n6'') 2 = 0 then want OR WANT6
              else want)
         else want)"
  by pat_completeness auto
termination by (relation "measure (\<lambda>(buf, i, want). length buf - i)") auto

declare want_loop.simps [simp del]

definition want_field :: "bytes \<Rightarrow> int" where
  "want_field buf =
     (case dht_memmem buf (bstr ''4:wantl'') of
        None \<Rightarrow> - 1
      | Some p \<Rightarrow> want_loop buf (p + 7) 0)"

section \<open>Messages\<close>

datatype msg_type = ERROR | REPLY | PING | FIND_NODE | GET_PEERS | ANNOUNCE_PEER

definition message_type :: "bytes \<Rightarrow> msg_type option" where
  "message_type buf =
     (if dht_memmem buf (bstr ''1:y1:r'') \<noteq> None then Some REPLY
      else if dht_memmem buf (bstr ''1:y1:e'') \<noteq> None then Some ERROR
      else if dht_memmem buf (bstr ''1:y1:q'') = None then None
      else if dht_memmem buf (bstr ''1:q4:ping'') \<noteq> None then Some PING
      else if dht_memmem buf (bstr ''1:q9:find_node'') \<noteq> None then Some FIND_NODE
      else if dht_memmem buf (bstr ''1:q9:get_peers'') \<noteq> None then Some GET_PEERS
      else if dht_memmem buf (bstr ''1:q13:announce_peer'') \<noteq> None then Some ANNOUNCE_PEER
      else None)"

record parsed =
  p_type :: msg_type
  p_tid :: "bytes option"
  p_id :: dht_id
  p_info_hash :: dht_id
  p_target :: dht_id
  p_port :: "16 word"
  p_token :: bytes
  p_nodes :: bytes
  p_nodes6 :: bytes
  p_values :: bytes
  p_values6 :: bytes
  p_want :: int

definition field_bytes :: "field \<Rightarrow> bytes" where
  "field_bytes f = (case f of Field bs \<Rightarrow> bs | _ \<Rightarrow> [])"

definition parse_message :: "bytes \<Rightarrow> parsed option" where
  "parse_message buf =
     (let tid = counted_field buf ''1:t'' 15;
          token = counted_field buf ''5:token'' 127;
          nodes = counted_field buf ''5:nodes'' (26 * 16);
          nodes6 = counted_field buf ''6:nodes6'' (38 * 16)
      in case (id_field buf ''2:id20:'', id_field buf ''9:info_hash20:'', id_field buf ''6:target20:'',
               values_field buf, message_type buf) of
           (Some nid, Some info_hash, Some target, Some (vs, vs6), Some ty) \<Rightarrow>
             if Truncated \<in> {tid, token, nodes, nodes6} then None
             else Some \<lparr>p_type = ty,
                        p_tid = (case tid of Absent \<Rightarrow> None | f \<Rightarrow> Some (field_bytes f)),
                        p_id = nid, p_info_hash = info_hash, p_target = target, p_port = port_field buf,
                        p_token = field_bytes token, p_nodes = field_bytes nodes,
                        p_nodes6 = field_bytes nodes6, p_values = vs, p_values6 = vs6,
                        p_want = want_field buf\<rparr>
         | _ \<Rightarrow> None)"

section \<open>What a parsed message fits into\<close>

lemma counted_field_length: "counted_field buf needle limit = Field bs \<Longrightarrow> int (length bs) \<le> limit \<and> bs \<noteq> []"
  by (auto simp: counted_field_def Let_def split: option.splits prod.splits if_splits)

lemma id_field_length: "id_field buf needle = Some nid \<Longrightarrow> length nid = 20"
  by (auto simp: id_field_def split: option.splits if_splits)

lemma values_loop_length:
  "values_loop buf i vs vs6 = Some (ws, ws6) \<Longrightarrow> length vs \<le> 2048 \<Longrightarrow> length vs6 \<le> 2048 \<Longrightarrow>
   length ws \<le> 2048 \<and> length ws6 \<le> 2048"
proof (induction buf i vs vs6 rule: values_loop.induct)
  case (1 buf i vs vs6)
  obtain l q where st: "strtol buf i = (l, q)" by fastforce
  show ?case
  proof (cases "byte_at buf q = 58 \<and> l > 0 \<and> \<not> q + 1 + nat l > length buf")
    case False
    then show ?thesis using "1.prems" st by (subst (asm) values_loop.simps) (auto split: if_splits)
  next
    case True
    then have c: "byte_at buf q = 58 \<and> 0 < l" "\<not> length buf < q + 1 + nat l" by auto
    note IH = "1.IH" [OF refl st [symmetric] c refl refl]
    have u: "values_loop buf i vs vs6 =
      (let v = take (nat l) (drop (q + 1) buf); i' = q + 1 + nat l
       in if l = 6 then values_loop buf i' (if length vs + 6 > 2048 then vs else vs @ v) vs6
          else if l = 18 then values_loop buf i' vs (if length vs6 + 18 > 2048 then vs6 else vs6 @ v)
          else values_loop buf i' vs vs6)"
      using st c by (subst values_loop.simps) simp
    have len: "length (take (nat l) (drop (q + 1) buf)) \<le> nat l" by simp
    consider "l = 6" | "l = 18" | "l \<noteq> 6" "l \<noteq> 18" by blast
    then show ?thesis
    proof cases
      case 1
      then show ?thesis using IH(1) "1.prems" u len by (simp add: Let_def split: if_splits)
    next
      case 2
      then show ?thesis using IH(2) "1.prems" u len by (simp add: Let_def split: if_splits)
    next
      case 3
      then show ?thesis using IH(3) "1.prems" u by (simp add: Let_def)
    qed
  qed
qed

lemma parse_message_bounds:
  assumes "parse_message buf = Some m"
  shows "length (p_id m) = 20" "length (p_info_hash m) = 20" "length (p_target m) = 20"
    "\<And>t. p_tid m = Some t \<Longrightarrow> length t < 16" "length (p_token m) < 128"
    "length (p_nodes m) \<le> 416" "length (p_nodes6 m) \<le> 608"
    "length (p_values m) \<le> 2048" "length (p_values6 m) \<le> 2048"
proof -
  obtain nid ih tg vs vs6 ty where f: "id_field buf ''2:id20:'' = Some nid" "id_field buf ''9:info_hash20:'' = Some ih"
    "id_field buf ''6:target20:'' = Some tg" "values_field buf = Some (vs, vs6)" "message_type buf = Some ty"
    using assms by (auto simp: parse_message_def Let_def split: option.splits)
  have m: "m = \<lparr>p_type = ty, p_tid = (case counted_field buf ''1:t'' 15 of Absent \<Rightarrow> None | g \<Rightarrow> Some (field_bytes g)),
      p_id = nid, p_info_hash = ih, p_target = tg, p_port = port_field buf,
      p_token = field_bytes (counted_field buf ''5:token'' 127), p_nodes = field_bytes (counted_field buf ''5:nodes'' (26 * 16)),
      p_nodes6 = field_bytes (counted_field buf ''6:nodes6'' (38 * 16)), p_values = vs, p_values6 = vs6, p_want = want_field buf\<rparr>"
    using assms unfolding parse_message_def Let_def f by (simp split: if_splits)
  have fb: "int (length (field_bytes (counted_field buf nd lim))) \<le> max 0 lim" for nd lim
    using counted_field_length [of buf nd lim] by (auto simp: field_bytes_def split: field.splits)
  have "length vs \<le> 2048 \<and> length vs6 \<le> 2048"
    using f(4) values_loop_length by (auto simp: values_field_def split: option.splits)
  then show "length (p_values m) \<le> 2048" "length (p_values6 m) \<le> 2048" by (simp_all add: m)
  show "length (p_id m) = 20" "length (p_info_hash m) = 20" "length (p_target m) = 20"
    using f id_field_length by (auto simp: m)
  show "length (p_token m) < 128" "length (p_nodes m) \<le> 416" "length (p_nodes6 m) \<le> 608"
    using fb [of "''5:token''" 127] fb [of "''5:nodes''" 416] fb [of "''6:nodes6''" 608] by (simp_all add: m)
  show "length t < 16" if "p_tid m = Some t" for t
    using that fb [of "''1:t''" 15] by (auto simp: m split: field.splits)
qed

end
