(* ===== verification/Dht_Closest.thy ===== *)
theory Dht_Closest
  imports Dht_Search
begin

text \<open>
  Answers to \<open>find_node\<close> and \<open>get_peers\<close> (\<open>src/routing/dht.c\<close>): the up to eight good nodes
  nearest to an identifier, written as compact node info (26 bytes for IPv4, 38 for IPv6). The
  buffer of such entries is the list of the entries, in order.
\<close>

definition node_info :: "node \<Rightarrow> bytes" where
  "node_info n =
     (if sa_family (nd_ss n) = AF_INET then take 20 (nd_id n) @ sin_addr (nd_ss n) @ sa_port (nd_ss n)
      else take 20 (nd_id n) @ sin6_addr (nd_ss n) @ sa_port (nd_ss n))"

definition insert_closest_node :: "dht_id \<Rightarrow> node \<Rightarrow> bytes list \<Rightarrow> bytes list option" where
  "insert_closest_node nid n nodes =
     (if sa_family (nd_ss n) \<noteq> AF_INET \<and> sa_family (nd_ss n) \<noteq> AF_INET6 then None
      else
        let (found, i) = near_scan (nd_id n) nid (map (take 20) nodes) 0
        in if found then Some nodes
           else if i = 8 then Some nodes
           else Some (shift_in 8 i (node_info n) nodes))"

fun buffer_closest_nodes :: "dht_id \<Rightarrow> node list \<Rightarrow> dht \<Rightarrow> bytes list \<Rightarrow> bytes list option" where
  "buffer_closest_nodes nid [] s nodes = Some nodes"
| "buffer_closest_nodes nid (n # ns) s nodes =
     (if node_good n s then
        (case insert_closest_node nid n nodes of
           None \<Rightarrow> None
         | Some nodes' \<Rightarrow> buffer_closest_nodes nid ns s nodes')
      else buffer_closest_nodes nid ns s nodes)"

text \<open>The bucket of the identifier, the next one and the previous one, for one family.\<close>

definition closest_nodes :: "dht_id \<Rightarrow> int \<Rightarrow> dht \<Rightarrow> bytes list option" where
  "closest_nodes nid af s =
     (case find_bucket nid af s of
        None \<Rightarrow> Some []
      | Some i \<Rightarrow>
          let bs = get_buckets af s;
              r1 = buffer_closest_nodes nid (bk_nodes (bs ! i)) s [];
              r2 = (if Suc i < length bs
                    then Option.bind r1 (buffer_closest_nodes nid (bk_nodes (bs ! Suc i)) s) else r1)
          in case previous_bucket i of
               None \<Rightarrow> r2
             | Some p \<Rightarrow> Option.bind r2 (buffer_closest_nodes nid (bk_nodes (bs ! p)) s))"

definition send_closest_nodes ::
  "bytes \<Rightarrow> bytes \<Rightarrow> dht_id \<Rightarrow> int \<Rightarrow> int \<Rightarrow> storage_t option \<Rightarrow> bytes \<Rightarrow> dht \<Rightarrow> int \<times> dht" where
  "send_closest_nodes sa tid nid want af st token s =
     (let want = (if want < 0 then (if sa_family sa = AF_INET then WANT4 else WANT6) else want)
      in case (if want AND WANT4 \<noteq> 0 then closest_nodes nid AF_INET s else Some [],
               if want AND WANT6 \<noteq> 0 then closest_nodes nid AF_INET6 s else Some []) of
           (Some nodes, Some nodes6) \<Rightarrow>
             send_nodes_peers sa tid (concat nodes) (concat nodes6) af st token s
         | _ \<Rightarrow> (- 1, emit [Abort] s))"

section \<open>The entries are the nearest nodes\<close>

definition info_ok :: "int \<Rightarrow> bytes \<Rightarrow> bool" where
  "info_ok af e = (length e = (if af = AF_INET then 26 else 38))"

definition near_fit :: "dht_id \<Rightarrow> int \<Rightarrow> node \<Rightarrow> bool" where
  "near_fit nid af n = (length nid = 20 \<and> valid_af af \<and> node_ok af n)"

definition closest_insert :: "dht_id \<Rightarrow> node \<Rightarrow> bytes list \<Rightarrow> bytes list" where
  "closest_insert nid n es = the (insert_closest_node nid n es)"

lemma node_info_ok:
  "node_ok af n \<Longrightarrow> valid_af af \<Longrightarrow> info_ok af (node_info n) \<and> take 20 (node_info n) = nd_id n"
  by (auto simp: node_info_def info_ok_def node_ok_def valid_af_def sin_addr_def sin6_addr_def sa_port_def)

lemma insert_closest_defined: "valid_af af \<Longrightarrow> node_ok af n \<Longrightarrow> insert_closest_node nid n es = Some (closest_insert nid n es)"
  by (auto simp: closest_insert_def insert_closest_node_def node_ok_def valid_af_def split_beta Let_def)

lemma closest_insert_cases:
  assumes fit: "near_fit nid af n" and good: "\<forall>e\<in>set es. info_ok af e"
    and ord: "sorted (map (\<lambda>e. xdist (take 20 e) nid) es)" "distinct (map (\<lambda>e. xdist (take 20 e) nid) es)" "length es \<le> 8"
  defines "r \<equiv> closest_insert nid n es"
  shows "(nd_id n \<in> set (map (take 20) es) \<longrightarrow> r = es) \<and>
    (nd_id n \<notin> set (map (take 20) es) \<longrightarrow>
      map (\<lambda>e. xdist (take 20 e) nid) r = take 8 (insort (xdist (nd_id n) nid) (map (\<lambda>e. xdist (take 20 e) nid) es)) \<and>
      set r \<subseteq> insert (node_info n) (set es))"
proof -
  let ?ids = "map (take 20) es" and ?d = "\<lambda>x. xdist x nid"
  have len: "length (nd_id n) = 20" "length nid = 20" using fit by (auto simp: near_fit_def node_ok_def)
  have fam: "sa_family (nd_ss n) = AF_INET \<or> sa_family (nd_ss n) = AF_INET6" using fit by (auto simp: near_fit_def node_ok_def valid_af_def)
  have comp: "map (\<lambda>e. xdist (take 20 e) nid) es = map ?d ?ids" by simp
  have l20: "\<forall>x\<in>set ?ids. length x = 20" using good by (auto simp: info_ok_def split: if_splits)
  obtain f i where scan: "near_scan (nd_id n) nid ?ids 0 = (f, i)" by fastforce
  note S = near_scan_spec [OF len l20 ord(1,2) [unfolded comp], unfolded scan, simplified]
  show ?thesis
  proof (cases "nd_id n \<in> set ?ids")
    case True
    with S have "f" by auto
    then show ?thesis using True fam scan by (auto simp: r_def closest_insert_def insert_closest_node_def)
  next
    case False
    with S have f: "\<not> f" and i: "i \<le> length es" and lt: "\<forall>x\<in>set (take i es). ?d (take 20 x) < ?d (nd_id n)"
      and ge: "i < length es \<longrightarrow> ?d (nd_id n) \<le> ?d (take 20 (es ! i))" by (auto simp: take_map split: if_splits)
    have ins: "insort (?d (nd_id n)) (map (\<lambda>e. ?d (take 20 e)) es) =
        take i (map (\<lambda>e. ?d (take 20 e)) es) @ ?d (nd_id n) # drop i (map (\<lambda>e. ?d (take 20 e)) es)"
      using lt ge i ord(1) by (intro insort_nat_take_drop) (auto simp: take_map)
    show ?thesis
    proof (cases "i = 8")
      case True
      then have "r = es" "length es = 8"
        using f fam scan i ord(3) by (auto simp: r_def closest_insert_def insert_closest_node_def)
      then show ?thesis using False ins True by auto
    next
      case room: False
      then have r: "r = shift_in 8 i (node_info n) es"
        using f fam scan by (auto simp: r_def closest_insert_def insert_closest_node_def)
      have "i < 8" using room i ord(3) by simp
      moreover have "take 20 (node_info n) = nd_id n" using fit node_info_ok by (auto simp: near_fit_def)
      ultimately have "map (\<lambda>e. ?d (take 20 e)) r = take 8 (insort (?d (nd_id n)) (map (\<lambda>e. ?d (take 20 e)) es))"
        unfolding ins r map_shift_in using i ord(3) by (subst shift_in_take) simp_all
      moreover have "set r \<subseteq> insert (node_info n) (set es)" unfolding r by (rule set_shift_in)
      ultimately show ?thesis using False by blast
    qed
  qed
qed

interpretation closest: nearest_insert "\<lambda>e. xdist (take 20 e) nid" "info_ok af"
  "\<lambda>n. xdist (nd_id n) nid" "near_fit nid af" 8 "closest_insert nid" for nid af
proof unfold_locales
  fix n es
  assume fit: "near_fit nid af n" and good: "\<forall>e\<in>set es. info_ok af e"
    and ord: "sorted (map (\<lambda>e. xdist (take 20 e) nid) es)" "distinct (map (\<lambda>e. xdist (take 20 e) nid) es)" "length es \<le> 8"
  note C = closest_insert_cases [OF fit good ord]
  have key: "xdist (nd_id n) nid \<in> set (map (\<lambda>e. xdist (take 20 e) nid) es) \<longleftrightarrow> nd_id n \<in> set (map (take 20) es)"
    using fit good xdist_inject by (auto simp: near_fit_def node_ok_def info_ok_def image_iff split: if_splits)
  have "info_ok af (node_info n)" using fit node_info_ok by (auto simp: near_fit_def)
  then show "\<forall>e\<in>set (closest_insert nid n es). info_ok af e"
    using C good by (cases "nd_id n \<in> set (map (take 20) es)") auto
  show "map (\<lambda>e. xdist (take 20 e) nid) (closest_insert nid n es) = map (\<lambda>e. xdist (take 20 e) nid) es"
    if "xdist (nd_id n) nid \<in> set (map (\<lambda>e. xdist (take 20 e) nid) es)" using that key C by simp
  show "map (\<lambda>e. xdist (take 20 e) nid) (closest_insert nid n es) =
      take 8 (insort (xdist (nd_id n) nid) (map (\<lambda>e. xdist (take 20 e) nid) es))"
    if "xdist (nd_id n) nid \<notin> set (map (\<lambda>e. xdist (take 20 e) nid) es)" using that key C by simp
qed

lemma buffer_closest_fold:
  "valid_af af \<Longrightarrow> \<forall>n\<in>set ns. node_ok af n \<Longrightarrow>
   buffer_closest_nodes nid ns s es = Some (fold (closest_insert nid) (filter (\<lambda>n. node_good n s) ns) es)"
  by (induction ns arbitrary: es) (simp_all add: insert_closest_defined)

text \<open>The nodes an answer draws on: those of the bucket of the identifier and of its neighbours.\<close>

definition neighbourhood :: "dht_id \<Rightarrow> int \<Rightarrow> dht \<Rightarrow> node list" where
  "neighbourhood nid af s =
     (case find_bucket nid af s of
        None \<Rightarrow> []
      | Some i \<Rightarrow>
          let bs = get_buckets af s
          in bk_nodes (bs ! i) @ (if Suc i < length bs then bk_nodes (bs ! Suc i) else []) @
             (if i = 0 then [] else bk_nodes (bs ! (i - 1))))"

lemma neighbourhood_ok:
  assumes "tables_inv s" and "valid_af af"
  shows "\<forall>n\<in>set (neighbourhood nid af s). node_ok af n"
proof -
  have "node_ok af n" if "i < length (get_buckets af s)" "n \<in> set (bk_nodes (get_buckets af s ! i))" for i n
    using bucket_state(1) [OF assms that(1)] that(2) by (auto simp: bucket_ok_def)
  then show ?thesis
    by (cases "find_bucket nid af s")
       (auto simp: neighbourhood_def Let_def split: if_splits dest!: find_bucket_less
         intro: less_imp_diff_less)
qed

lemma closest_nodes_fold:
  assumes "tables_inv s" and "valid_af af"
  shows "closest_nodes nid af s = Some (fold (closest_insert nid) (filter (\<lambda>n. node_good n s) (neighbourhood nid af s)) [])"
proof -
  have ok: "\<forall>n\<in>set (bk_nodes (get_buckets af s ! i)). node_ok af n" if "i < length (get_buckets af s)" for i
    using bucket_state(1) [OF assms that] by (simp add: bucket_ok_def)
  show ?thesis
  proof (cases "find_bucket nid af s")
    case None
    then show ?thesis by (simp add: closest_nodes_def neighbourhood_def)
  next
    case (Some i)
    then have i: "i < length (get_buckets af s)" by (rule find_bucket_less)
    have "buffer_closest_nodes nid (bk_nodes (get_buckets af s ! j)) s es =
      Some (fold (closest_insert nid) (filter (\<lambda>n. node_good n s) (bk_nodes (get_buckets af s ! j))) es)"
      if "j < length (get_buckets af s)" for j es
      using buffer_closest_fold [OF assms(2) ok [OF that]] .
    then show ?thesis
      using Some i by (cases i) (simp_all add: closest_nodes_def neighbourhood_def previous_bucket_def Let_def)
  qed
qed

lemma closest_nodes_nearest:
  assumes "tables_inv s" and "valid_af af" and "length nid = 20"
  obtains es where "closest_nodes nid af s = Some es" and "length es \<le> 8" and "\<forall>e\<in>set es. info_ok af e"
    and "map (\<lambda>e. xdist (take 20 e) nid) es =
      take 8 (sorted_list_of_set ((\<lambda>n. xdist (nd_id n) nid) ` set (filter (\<lambda>n. node_good n s) (neighbourhood nid af s))))"
proof -
  let ?ns = "filter (\<lambda>n. node_good n s) (neighbourhood nid af s)"
  have fit: "\<forall>n\<in>set ?ns. near_fit nid af n" using neighbourhood_ok [OF assms(1,2), of nid] assms by (simp add: near_fit_def)
  have e: "closest.ordered nid af []" by (simp add: closest.ordered_def)
  have "closest.ordered nid af (fold (closest_insert nid) ?ns [])" using fit e by (rule closest.fold_ordered)
  moreover have "map (\<lambda>e. xdist (take 20 e) nid) (fold (closest_insert nid) ?ns []) =
      take 8 (sorted_list_of_set ({} \<union> (\<lambda>n. xdist (nd_id n) nid) ` set ?ns))"
    using fit e by (rule closest.fold_nearest) simp_all
  ultimately show thesis
    using closest_nodes_fold [OF assms(1,2), of nid] by (intro that) (auto simp: closest.ordered_def)
qed

section \<open>Sending an answer\<close>

lemma send_nodes_peers_frame:
  assumes "0 < length sa" and "length sa \<le> SOCKADDR_STORAGE" and "dht_inv_by z s"
  shows "dht_inv_by z (snd (send_nodes_peers sa tid nodes nodes6 af st token s))"
  using assms dht_inv_tstep [OF _ tstep_send]
  by (auto simp: send_nodes_peers_def c_random_def Let_def split: option.splits)

lemma send_closest_nodes_inv:
  assumes "0 < length sa" and "length sa \<le> SOCKADDR_STORAGE" and inv: "dht_inv_by z s"
  shows "dht_inv_by z (snd (send_closest_nodes sa tid nid want af st token s))"
proof -
  have "tables_inv s" using inv by (simp add: dht_inv_by_def)
  then have "closest_nodes nid af' s \<noteq> None" if "valid_af af'" for af' using closest_nodes_fold that by blast
  then obtain a b where "closest_nodes nid AF_INET s = Some a" "closest_nodes nid AF_INET6 s = Some b"
    by (metis valid_af_def option.exhaust)
  then show ?thesis using send_nodes_peers_frame [OF assms] by (auto simp: send_closest_nodes_def Let_def)
qed

end
