(* ===== verification/Dht_Main.thy ===== *)
theory Dht_Main
  imports Dht_Parse Dht_Closest "HOL-Library.Monad_Syntax"
begin

text \<open>
  The entry points of the DHT (\<open>src/routing/dht.c\<close>): start and stop, the node
  statistics and exports, table maintenance, and \<open>dht_periodic\<close>, which handles one
  incoming message and then the timers. Its result is \<open>None\<close> exactly when a call of
  \<open>new_node\<close> in it never returns.
\<close>

section \<open>Start and stop\<close>

definition empty_bucket :: "int \<Rightarrow> bucket" where
  "empty_bucket af =
     \<lparr>bk_af = af, bk_first = replicate 20 0, bk_count = 0, bk_time = 0, bk_nodes = [],
      bk_cached = replicate SOCKADDR_STORAGE 0, bk_cachedlen = 0\<rparr>"

text \<open>One family of \<open>dht_init\<close>: allocate the first bucket and make the socket non-blocking;
  \<open>nonblock\<close> says for which descriptors \<open>set_nonblocking\<close> succeeds. The result is
  \<open>None\<close> for "go on", \<open>Some free\<close> for a failure, with or without the clean-up at \<open>fail\<close>.\<close>

definition init_family :: "int \<Rightarrow> int \<Rightarrow> (int \<Rightarrow> bool) \<Rightarrow> dht \<Rightarrow> bool option \<times> dht" where
  "init_family af sock nonblock s =
     (if sock \<ge> 0 then
        let (ok, s1) = c_alloc s
        in if \<not> ok then (Some False, s1)
           else let s2 = set_buckets af [empty_bucket af] s1
                in if nonblock sock then (None, s2) else (Some True, s2)
      else (None, s))"

definition init_fail :: "bool \<Rightarrow> dht \<Rightarrow> int \<times> dht" where
  "init_fail free s = (- 1, if free then s\<lparr>buckets := [], buckets6 := []\<rparr> else s)"

text \<open>The assignments of \<open>dht_init\<close> between the sockets and the first secret.\<close>

definition init_vars :: "dht_id \<Rightarrow> bytes option \<Rightarrow> int \<Rightarrow> dht \<Rightarrow> dht" where
  "init_vars nid v t s =
     (let s = s\<lparr>myid := take 20 nid\<rparr>;
          s = (case v of
                 Some bs \<Rightarrow> s\<lparr>my_v := bstr ''1:v4:'' @ take 4 bs, have_v := True\<rparr>
               | None \<Rightarrow> s\<lparr>have_v := False\<rparr>);
          s = s\<lparr>now := t, mybucket_grow_time := t, mybucket6_grow_time := t\<rparr>;
          (r1, s) = c_random s;
          s = s\<lparr>confirm_nodes_time := now s + int (r1 mod 3)\<rparr>;
          (r2, s) = c_random s
      in s\<lparr>search_id := of_nat r2, search_time := 0, next_blacklisted := 0,
           token_bucket_time := now s, token_bucket_tokens := MAX_TOKEN_BUCKET_TOKENS,
           secret := replicate 8 0\<rparr>)"

definition init_rest :: "int \<Rightarrow> int \<Rightarrow> dht_id \<Rightarrow> bytes option \<Rightarrow> int \<Rightarrow> dht \<Rightarrow> int \<times> dht" where
  "init_rest sock sock6 nid v t s =
     (let (rc, s) = rotate_secrets (init_vars nid v t s)
      in if rc < 0 then init_fail True s
         else (1, expire_buckets AF_INET6 (expire_buckets AF_INET (s\<lparr>dht_socket := sock, dht_socket6 := sock6\<rparr>))))"

definition dht_init :: "int \<Rightarrow> int \<Rightarrow> dht_id \<Rightarrow> bytes option \<Rightarrow> (int \<Rightarrow> bool) \<Rightarrow> int \<Rightarrow> dht \<Rightarrow> int \<times> dht" where
  "dht_init sock sock6 nid v nonblock t s =
     (if dht_socket s \<ge> 0 \<or> dht_socket6 s \<ge> 0 \<or> buckets s \<noteq> [] \<or> buckets6 s \<noteq> [] then (- 1, s)
      else
        let s0 = s\<lparr>searches := [], numsearches := 0, storage := [], numstorage := 0\<rparr>
        in case init_family AF_INET sock nonblock s0 of
             (Some free, s1) \<Rightarrow> init_fail free s1
           | (None, s1) \<Rightarrow>
               (case init_family AF_INET6 sock6 nonblock s1 of
                  (Some free, s2) \<Rightarrow> init_fail free s2
                | (None, s2) \<Rightarrow> init_rest sock sock6 nid v t s2))"

definition dht_uninit :: "dht \<Rightarrow> int \<times> dht" where
  "dht_uninit s =
     (if dht_socket s < 0 \<and> dht_socket6 s < 0 then (- 1, s)
      else (1, s\<lparr>dht_socket := - 1, dht_socket6 := - 1, buckets := [], buckets6 := [], storage := [], searches := []\<rparr>))"

section \<open>Statistics and exports\<close>

fun count_nodes :: "node list \<Rightarrow> dht \<Rightarrow> int \<times> int \<times> int \<Rightarrow> int \<times> int \<times> int" where
  "count_nodes [] s c = c"
| "count_nodes (n # ns) s (good, dubious, incoming) =
     count_nodes ns s
       (if node_good n s then (good + 1, dubious, if nd_time n > nd_reply_time n then incoming + 1 else incoming)
        else (good, dubious + 1, incoming))"

fun dht_nodes_loop :: "bucket list \<Rightarrow> dht \<Rightarrow> (int \<times> int \<times> int) \<times> int \<Rightarrow> (int \<times> int \<times> int) \<times> int" where
  "dht_nodes_loop [] s r = r"
| "dht_nodes_loop (b # bs) s (c, cached) =
     dht_nodes_loop bs s (count_nodes (bk_nodes b) s c, if sa_family (bk_cached b) > 0 then cached + 1 else cached)"

text \<open>The return value, and the four counters good, dubious, cached, incoming.\<close>

definition dht_nodes :: "int \<Rightarrow> dht \<Rightarrow> int \<times> int \<times> int \<times> int \<times> int" where
  "dht_nodes af s =
     (let ((good, dubious, incoming), cached) = dht_nodes_loop (get_buckets af s) s ((0, 0, 0), 0)
      in (good + dubious, good, dubious, cached, incoming))"

fun take_good :: "node list \<Rightarrow> nat \<Rightarrow> dht \<Rightarrow> bytes list \<Rightarrow> bytes list" where
  "take_good [] num s out = out"
| "take_good (n # ns) num s out =
     (if length out < num then take_good ns num s (if node_good n s then out @ [nd_ss n] else out) else out)"

fun other_buckets :: "nat \<Rightarrow> bucket list \<Rightarrow> nat \<Rightarrow> dht \<Rightarrow> bytes list \<Rightarrow> nat \<Rightarrow> bytes list" where
  "other_buckets 0 bs num s out i = out"
| "other_buckets (Suc m) bs num s out i =
     (if length out < num then
        other_buckets m bs num s
          (if \<not> in_bucket (myid s) bs i then take_good (bk_nodes (bs ! i)) num s out else out) (Suc i)
      else out)"

definition get_nodes_family :: "int \<Rightarrow> nat \<Rightarrow> dht \<Rightarrow> bytes list" where
  "get_nodes_family af num s =
     (case find_bucket (myid s) af s of
        None \<Rightarrow> []
      | Some i \<Rightarrow>
          other_buckets (length (get_buckets af s)) (get_buckets af s) num s
            (take_good (bk_nodes (get_buckets af s ! i)) num s []) 0)"

text \<open>Each address is copied as its \<open>struct sockaddr_in\<close> or \<open>struct sockaddr_in6\<close>: the first 16
  or 28 bytes.\<close>

definition dht_get_nodes :: "nat \<Rightarrow> nat \<Rightarrow> dht \<Rightarrow> bytes list \<times> bytes list" where
  "dht_get_nodes num num6 s =
     (map (take 16) (get_nodes_family AF_INET num s), map (take 28) (get_nodes_family AF_INET6 num6 s))"

definition dht_insert_node :: "dht_id \<Rightarrow> bytes \<Rightarrow> dht \<Rightarrow> (int \<times> dht) option" where
  "dht_insert_node nid sa s =
     (if sa_family sa \<noteq> AF_INET then Some (- 1, s)
      else map_option (\<lambda>(ok, s'). (if ok then 1 else 0, s')) (new_node nid sa 0 s))"

definition dht_ping_node :: "bytes \<Rightarrow> dht \<Rightarrow> int \<times> dht" where
  "dht_ping_node sa s = send_ping sa (make_tid ''pn'' 0) s"

end
