(* ===== verification/Dht_Periodic.thy ===== *)
theory Dht_Periodic
  imports Dht_Main Machine
begin

text \<open>
  \<open>dht_periodic\<close> and the table maintenance of \<open>src/routing/dht.c\<close>: the handlers of the six
  message types, the timers for secrets, expiry, searches and bucket maintenance, and the sleep
  time. \<open>stk\<close> is what the 16 uninitialised bytes of the local \<open>tid\<close> hold.
\<close>

section \<open>Maintenance\<close>

text \<open>The choice of a bucket to ask: this one, the next or the previous.\<close>

definition pick_next :: "bucket list \<Rightarrow> nat \<Rightarrow> dht \<Rightarrow> nat \<times> dht" where
  "pick_next bs i s =
     (if Suc i < length bs then
        if bk_count (bs ! i) = 0 then (Suc i, s)
        else let (r, s1) = c_random s in (if r mod 8 = 0 then Suc i else i, s1)
      else (i, s))"

definition pick_bucket :: "bucket list \<Rightarrow> nat \<Rightarrow> dht \<Rightarrow> nat \<times> dht" where
  "pick_bucket bs i s =
     (let (q, s1) = pick_next bs i s;
          (try_prev, s2) = (if bk_count (bs ! q) = 0 then (True, s1)
                            else let (r, s') = c_random s1 in (r mod 8 = 0, s'))
      in case (if try_prev then previous_bucket i else None) of
           Some p \<Rightarrow> (if bk_count (bs ! p) > 0 then p else q, s2)
         | None \<Rightarrow> (q, s2))"

definition ask_node :: "int \<Rightarrow> nat \<Rightarrow> nat \<Rightarrow> dht_id \<Rightarrow> int \<Rightarrow> dht \<Rightarrow> dht" where
  "ask_node af q j nid want s =
     (let n = bk_nodes (get_buckets af s ! q) ! j;
          s1 = snd (send_find_node (take (nd_sslen n) (nd_ss n)) (make_tid ''fn'' 0) nid want
                      (nd_reply_time n \<ge> now s - 15) s)
      in pinged af q j (Some q) s1)"

definition neighbourhood_maintenance :: "int \<Rightarrow> dht \<Rightarrow> bool \<times> dht" where
  "neighbourhood_maintenance af s =
     (case find_bucket (myid s) af s of
        None \<Rightarrow> (False, s)
      | Some i \<Rightarrow>
          let (r, s1) = c_random s;
              nid = (myid s)[19 := of_nat r];
              (q, s2) = pick_bucket (get_buckets af s) i s1;
              want = (if dht_socket s2 \<ge> 0 \<and> dht_socket6 s2 \<ge> 0 then WANT4 OR WANT6 else - 1);
              (n, s3) = random_node (get_buckets af s2 ! q) s2
          in (True, case n of None \<Rightarrow> s3 | Some j \<Rightarrow> ask_node af q j nid want s3))"

definition want_both :: "int \<Rightarrow> dht_id \<Rightarrow> dht \<Rightarrow> int \<times> dht" where
  "want_both af nid s =
     (if dht_socket s \<ge> 0 \<and> dht_socket6 s \<ge> 0 then
        (let other = (if af = AF_INET then AF_INET6 else AF_INET);
             empty = (case find_bucket nid other s of None \<Rightarrow> False | Some k \<Rightarrow> bk_count (get_buckets other s ! k) < 8)
         in if empty then (WANT4 OR WANT6, s)
            else let (r, s1) = c_random s in (if r mod 37 = 0 then WANT4 OR WANT6 else - 1, s1))
      else (- 1, s))"

fun bucket_maintenance_loop :: "nat \<Rightarrow> nat \<Rightarrow> int \<Rightarrow> dht \<Rightarrow> bool \<times> dht" where
  "bucket_maintenance_loop 0 i af s = (False, s)"
| "bucket_maintenance_loop (Suc m) i af s =
     (let bs = get_buckets af s
      in if bk_time (bs ! i) < now s - 600 then
           let (nid, s1) = bucket_random bs i s;
               (q, s2) = pick_bucket bs i s1;
               (n, s3) = random_node (bs ! q) s2
           in case n of
                None \<Rightarrow> bucket_maintenance_loop m (Suc i) af s3
              | Some j \<Rightarrow> let (want, s4) = want_both af nid s3 in (True, ask_node af q j nid want s4)
         else bucket_maintenance_loop m (Suc i) af s)"

definition bucket_maintenance :: "int \<Rightarrow> dht \<Rightarrow> bool \<times> dht" where
  "bucket_maintenance af s = bucket_maintenance_loop (length (get_buckets af s)) 0 af s"

section \<open>Replies\<close>

definition learn :: "dht_id \<Rightarrow> bytes \<Rightarrow> nat \<Rightarrow> dht \<Rightarrow> dht option" where
  "learn nid sa confirm s = map_option snd (new_node nid sa confirm s)"

definition infos :: "nat \<Rightarrow> bytes \<Rightarrow> bytes list" where
  "infos sz bs = map (\<lambda>i. take sz (drop (sz * i) bs)) [0..<length bs div sz]"

definition info_sockaddr :: "int \<Rightarrow> bytes \<Rightarrow> bytes" where
  "info_sockaddr af ni =
     (if af = AF_INET then mk_sockaddr_in (take 4 (drop 20 ni)) (take 2 (drop 24 ni))
      else mk_sockaddr_in6 (take 16 (drop 20 ni)) (take 2 (drop 36 ni)))"

definition add_to_search :: "nat option \<Rightarrow> dht_id \<Rightarrow> bytes \<Rightarrow> bool \<Rightarrow> bytes option \<Rightarrow> dht \<Rightarrow> dht" where
  "add_to_search sr nid sa replied token s =
     (case sr of
        None \<Rightarrow> s
      | Some k \<Rightarrow> upd_search k (snd (insert_search_node nid sa (searches s ! k) replied token (now s))) s)"

fun learn_infos :: "int \<Rightarrow> nat option \<Rightarrow> bytes list \<Rightarrow> dht \<Rightarrow> dht option" where
  "learn_infos af sr [] s = Some s"
| "learn_infos af sr (ni # nis) s =
     (if id_cmp ni (myid s) = 0 then learn_infos af sr nis s
      else do {
        s1 \<leftarrow> learn (take 20 ni) (info_sockaddr af ni) 0 s;
        let here = (case sr of None \<Rightarrow> False | Some k \<Rightarrow> sr_af (searches s1 ! k) = af);
        learn_infos af sr nis
          (if here then add_to_search sr (take 20 ni) (info_sockaddr af ni) False None s1 else s1)
      })"

definition push_search :: "nat option \<Rightarrow> dht \<Rightarrow> dht" where
  "push_search sr s =
     (case sr of
        None \<Rightarrow> s
      | Some k \<Rightarrow> (case search_send_get_peers (searches s ! k) None s of (_, sr', s') \<Rightarrow> upd_search k sr' s'))"

definition report_values :: "bool \<Rightarrow> nat \<Rightarrow> parsed \<Rightarrow> dht \<Rightarrow> dht" where
  "report_values callback k m s =
     (if callback then
        emit ((if length (p_values m) > 0 then [Callback DHT_EVENT_VALUES (sr_id (searches s ! k)) (p_values m)] else []) @
              (if length (p_values6 m) > 0 then [Callback DHT_EVENT_VALUES6 (sr_id (searches s ! k)) (p_values6 m)] else [])) s
      else s)"

definition nodes_reply :: "bool \<Rightarrow> bytes \<Rightarrow> bytes \<Rightarrow> parsed \<Rightarrow> dht \<Rightarrow> dht option" where
  "nodes_reply callback from tid m s =
     (let gp = tid_match tid ''gp'';
          sr = (case gp of None \<Rightarrow> None | Some ttid \<Rightarrow> find_search ttid (sa_family from) s)
      in do {
        s1 \<leftarrow> (if length (p_nodes m) mod 26 \<noteq> 0 \<or> length (p_nodes6 m) mod 38 \<noteq> 0
               then Some (blacklist_node (p_id m) from s)
               else if gp \<noteq> None \<and> sr = None then learn (p_id m) from 1 s
               else do {
                 s1 \<leftarrow> learn (p_id m) from 2 s;
                 s2 \<leftarrow> learn_infos AF_INET sr (infos 26 (p_nodes m)) s1;
                 s3 \<leftarrow> learn_infos AF_INET6 sr (infos 38 (p_nodes6 m)) s2;
                 Some (push_search sr s3)
               });
        (case sr of
           None \<Rightarrow> Some s1
         | Some k \<Rightarrow> Some (report_values callback k m (add_to_search sr (p_id m) from True (Some (p_token m)) s1)))
      })"

definition ack_search_node :: "dht_id \<Rightarrow> int \<Rightarrow> search \<Rightarrow> search" where
  "ack_search_node nid t sr =
     (case find_index (\<lambda>n. id_cmp (sn_id n) nid = 0) (sr_nodes sr) of
        None \<Rightarrow> sr
      | Some i \<Rightarrow> sr\<lparr>sr_nodes := (sr_nodes sr)[i := (sr_nodes sr ! i)\<lparr>sn_request_time := 0, sn_reply_time := t,
                     sn_acked := True, sn_pinged := 0\<rparr>]\<rparr>)"

definition announce_reply :: "bytes \<Rightarrow> 16 word \<Rightarrow> parsed \<Rightarrow> dht \<Rightarrow> dht option" where
  "announce_reply from ttid m s =
     (case find_search ttid (sa_family from) s of
        None \<Rightarrow> learn (p_id m) from 1 s
      | Some k \<Rightarrow> do {
          s1 \<leftarrow> learn (p_id m) from 2 s;
          Some (push_search (Some k) (upd_search k (ack_search_node (p_id m) (now s1) (searches s1 ! k)) s1))
        })"

definition handle_reply :: "bool \<Rightarrow> bytes \<Rightarrow> bytes \<Rightarrow> parsed \<Rightarrow> dht \<Rightarrow> dht option" where
  "handle_reply callback from tid m s =
     (if length tid \<noteq> 4 then Some (blacklist_node (p_id m) from s)
      else if tid_match tid ''pn'' \<noteq> None then learn (p_id m) from 2 s
      else if tid_match tid ''fn'' \<noteq> None \<or> tid_match tid ''gp'' \<noteq> None then nodes_reply callback from tid m s
      else case tid_match tid ''ap'' of
             Some ttid \<Rightarrow> announce_reply from ttid m s
           | None \<Rightarrow> Some s)"

section \<open>Requests\<close>

definition handle_get_peers :: "bytes \<Rightarrow> bytes \<Rightarrow> parsed \<Rightarrow> dht \<Rightarrow> dht" where
  "handle_get_peers from tid m s =
     (if id_cmp (p_info_hash m) zeroes = 0 then snd (send_error from tid 203 ''Get_peers with no info_hash'' s)
      else case make_token from False s of
             None \<Rightarrow> emit [Abort] s
           | Some token \<Rightarrow>
               (case find_storage (p_info_hash m) s of
                  Some k \<Rightarrow>
                    if st_peers (storage s ! k) \<noteq> [] then
                      snd (send_closest_nodes from tid (p_info_hash m) (p_want m) (sa_family from)
                             (Some (storage s ! k)) token s)
                    else snd (send_closest_nodes from tid (p_info_hash m) (p_want m) 0 None token s)
                | None \<Rightarrow> snd (send_closest_nodes from tid (p_info_hash m) (p_want m) 0 None token s)))"

definition handle_announce_peer :: "bytes \<Rightarrow> bytes \<Rightarrow> parsed \<Rightarrow> dht \<Rightarrow> dht" where
  "handle_announce_peer from tid m s =
     (if id_cmp (p_info_hash m) zeroes = 0 then snd (send_error from tid 203 ''Announce_peer with no info_hash'' s)
      else case token_match (p_token m) from s of
             None \<Rightarrow> emit [Abort] s
           | Some False \<Rightarrow> snd (send_error from tid 203 ''Announce_peer with wrong token'' s)
           | Some True \<Rightarrow>
               if p_port m = 0 then snd (send_error from tid 203 ''Announce_peer with forbidden port number'' s)
               else snd (send_peer_announced from tid (snd (storage_store (p_info_hash m) from (p_port m) s))))"

definition handle_message :: "bool \<Rightarrow> bytes \<Rightarrow> bytes \<Rightarrow> parsed \<Rightarrow> dht \<Rightarrow> dht option" where
  "handle_message callback from stk m s =
     (let tid = (case p_tid m of Some t \<Rightarrow> t | None \<Rightarrow> take 16 stk)
      in case p_type m of
           REPLY \<Rightarrow> handle_reply callback from tid m s
         | PING \<Rightarrow> map_option (\<lambda>s1. snd (send_pong from tid s1)) (learn (p_id m) from 1 s)
         | FIND_NODE \<Rightarrow>
             map_option (\<lambda>s1. snd (send_closest_nodes from tid (p_target m) (p_want m) 0 None [] s1))
               (learn (p_id m) from 1 s)
         | GET_PEERS \<Rightarrow> map_option (handle_get_peers from tid m) (learn (p_id m) from 1 s)
         | ANNOUNCE_PEER \<Rightarrow> map_option (handle_announce_peer from tid m) (learn (p_id m) from 1 s)
         | ERROR \<Rightarrow> Some s)"

text \<open>The message part of \<open>dht_periodic\<close>, up to the label \<open>dontread\<close>: \<open>mem\<close> is the memory at
  \<open>buf\<close>, with the byte behind the message. The inner \<open>None\<close> is the early return of -1 for a
  message that is not NUL-terminated.\<close>

definition dht_receive :: "bool \<Rightarrow> bytes \<Rightarrow> nat \<Rightarrow> bytes \<Rightarrow> bytes \<Rightarrow> dht \<Rightarrow> (bool \<times> dht) option" where
  "dht_receive callback mem buflen from stk s =
     (if buflen = 0 then Some (True, s)
      else if is_martian from then Some (True, s)
      else if length from > SOCKADDR_STORAGE then Some (True, emit [Abort] s)
      else if node_blacklisted from s then Some (True, s)
      else if byte_at mem buflen \<noteq> 0 then Some (False, s)
      else case parse_message (take buflen mem) of
             None \<Rightarrow> Some (True, s)
           | Some m \<Rightarrow>
               if p_type m = ERROR \<or> id_cmp (p_id m) zeroes = 0 then Some (True, s)
               else if id_cmp (p_id m) (myid s) = 0 then Some (True, s)
               else if p_type m \<noteq> REPLY then
                 (let (pass, s1) = token_bucket s
                  in if \<not> pass then Some (True, s1)
                     else map_option (Pair True) (handle_message callback from stk m s1))
               else map_option (Pair True) (handle_message callback from stk m s))"

section \<open>Timers\<close>

definition timer_expire :: "dht \<Rightarrow> dht" where
  "timer_expire s =
     (if now s \<ge> expire_stuff_time s
      then expire_searches (expire_storage (expire_buckets AF_INET6 (expire_buckets AF_INET s)))
      else s)"

definition step_searches :: "bool \<Rightarrow> dht \<Rightarrow> dht" where
  "step_searches callback s =
     fold (\<lambda>k s. let sr = searches s ! k
                 in if \<not> sr_done sr \<and> sr_step_time sr + 5 \<le> now s
                    then (case search_step callback sr s of (sr', s') \<Rightarrow> upd_search k sr' s')
                    else s) [0..<length (searches s)] s"

fun next_search_time :: "search list \<Rightarrow> dht \<Rightarrow> dht" where
  "next_search_time [] s = s"
| "next_search_time (sr # srs) s =
     (if \<not> sr_done sr then
        let (r, s1) = c_random s; tm = sr_step_time sr + 15 + int (r mod 10)
        in next_search_time srs
             (if search_time s1 = 0 \<or> search_time s1 > tm then s1\<lparr>search_time := tm\<rparr> else s1)
      else next_search_time srs s)"

definition timer_search :: "bool \<Rightarrow> dht \<Rightarrow> dht" where
  "timer_search callback s =
     (if search_time s > 0 \<and> now s \<ge> search_time s then
        (let s1 = (step_searches callback s)\<lparr>search_time := 0\<rparr> in next_search_time (searches s1) s1)
      else s)"

definition timer_confirm :: "dht \<Rightarrow> dht" where
  "timer_confirm s =
     (if now s \<ge> confirm_nodes_time s then
        let (soon4, s1) = bucket_maintenance AF_INET s;
            (soon6, s2) = bucket_maintenance AF_INET6 s1;
            soon = (soon4 \<or> soon6);
            (n4, s3) = (if \<not> soon \<and> mybucket_grow_time s2 \<ge> now s2 - 150
                        then neighbourhood_maintenance AF_INET s2 else (False, s2));
            (n6, s4) = (if \<not> soon \<and> mybucket6_grow_time s3 \<ge> now s3 - 150
                        then neighbourhood_maintenance AF_INET6 s3 else (False, s3));
            (r, s5) = c_random s4
        in s5\<lparr>confirm_nodes_time := (if soon \<or> n4 \<or> n6 then now s5 + 5 + int (r mod 20)
                                    else now s5 + 60 + int (r mod 120))\<rparr>
      else s)"

definition sleep_time :: "dht \<Rightarrow> int" where
  "sleep_time s =
     (let t = (if confirm_nodes_time s > now s then confirm_nodes_time s - now s else 0)
      in if search_time s > 0 then
           if search_time s \<le> now s then 0
           else if t > search_time s - now s then search_time s - now s else t
         else t)"

definition dht_timers :: "bool \<Rightarrow> dht \<Rightarrow> dht" where
  "dht_timers callback s =
     (let s1 = (if now s \<ge> rotate_secrets_time s then snd (rotate_secrets s) else s)
      in timer_confirm (timer_search callback (timer_expire s1)))"

text \<open>The result: return value, \<open>*tosleep\<close> if it was set, and the state.\<close>

definition dht_periodic ::
  "bytes \<Rightarrow> nat \<Rightarrow> bytes \<Rightarrow> bool \<Rightarrow> bytes \<Rightarrow> int \<Rightarrow> dht \<Rightarrow> (int \<times> int option \<times> dht) option" where
  "dht_periodic mem buflen from callback stk t s =
     map_option (\<lambda>(go, s1).
        if go then (let s2 = dht_timers callback s1 in (1, Some (sleep_time s2), s2))
        else (- 1, None, s1))
       (dht_receive callback mem buflen from stk (s\<lparr>now := t\<rparr>))"

section \<open>Steps that only draw random numbers\<close>

definition rng_step :: "dht \<Rightarrow> dht \<Rightarrow> bool" where
  "rng_step s s' = (\<exists>f. s' = s\<lparr>rng := f\<rparr>)"

lemma rng_step_refl [simp]: "rng_step s s"
  unfolding rng_step_def by (rule exI [of _ "rng s"]) simp

lemma rng_step_random [simp]: "rng_step s (s\<lparr>rng := f\<rparr>)"
  by (auto simp: rng_step_def)

lemma rng_step_trans: "rng_step s1 s2 \<Longrightarrow> rng_step s2 s3 \<Longrightarrow> rng_step s1 s3"
  unfolding rng_step_def by force

lemma rng_step_inv: "rng_step s s' \<Longrightarrow> dht_inv_by z s' = dht_inv_by z s"
  by (auto simp: rng_step_def)

lemma rng_step_buckets: "rng_step s s' \<Longrightarrow> get_buckets af s' = get_buckets af s"
  by (auto simp: rng_step_def get_buckets_def)

lemma random_tail_rng: "random_tail n s = (bs, s') \<Longrightarrow> rng_step s s'"
proof (induction n arbitrary: s bs s')
  case (Suc n)
  obtain t s2 where t: "random_tail n (s\<lparr>rng := (\<lambda>i. rng s (Suc i))\<rparr>) = (t, s2)" by fastforce
  have "rng_step (s\<lparr>rng := (\<lambda>i. rng s (Suc i))\<rparr>) s2" using Suc.IH [OF t] .
  then have "rng_step s s2" using rng_step_trans rng_step_random by blast
  then show ?case using Suc.prems t by (simp add: c_random_def)
qed simp

lemma bucket_random_rng: "bucket_random bs i s = (nid, s') \<Longrightarrow> rng_step s s'"
proof -
  assume r: "bucket_random bs i s = (nid, s')"
  show ?thesis
  proof (cases "bucket_bit bs i \<ge> 160")
    case True
    then show ?thesis using r by (simp add: bucket_random_def Let_def)
  next
    case False
    obtain t s2 where t: "random_tail (19 - nat (bucket_bit bs i) div 8) (s\<lparr>rng := (\<lambda>i. rng s (Suc i))\<rparr>) = (t, s2)" by fastforce
    have "s' = s2" using r False t by (simp add: bucket_random_def Let_def c_random_def)
    then show ?thesis using random_tail_rng [OF t] rng_step_trans rng_step_random by blast
  qed
qed

lemma pick_next_spec: "pick_next bs i s = (q, s') \<Longrightarrow> i < length bs \<Longrightarrow> q < length bs \<and> rng_step s s'"
  by (auto simp: pick_next_def c_random_def Let_def split: if_splits)

lemma pick_bucket_spec:
  assumes r: "pick_bucket bs i s = (q, s')" and i: "i < length bs"
  shows "q < length bs" and "rng_step s s'"
proof -
  obtain q1 s1 where n: "pick_next bs i s = (q1, s1)" by fastforce
  note N = pick_next_spec [OF n i]
  have "(q = q1 \<or> q = i - 1) \<and> (s' = s1 \<or> s' = s1\<lparr>rng := (\<lambda>i. rng s1 (Suc i))\<rparr>)"
    using r n by (auto simp: pick_bucket_def c_random_def previous_bucket_def Let_def split: if_splits option.splits)
  then show "q < length bs" "rng_step s s'" using N i rng_step_trans rng_step_random by auto
qed

lemma random_node_spec:
  "random_node b s = (r, s') \<Longrightarrow> rng_step s s' \<and> (\<forall>j. r = Some j \<longrightarrow> j < length (bk_nodes b))"
  by (auto simp: random_node_def c_random_def Let_def split: if_splits)

lemma want_both_spec: "want_both af nid s = (w, s') \<Longrightarrow> rng_step s s'"
  by (auto simp: want_both_def c_random_def Let_def split: if_splits)

section \<open>Maintenance keeps the invariant\<close>

lemma ask_node_inv:
  assumes inv: "dht_inv_by z s" and af: "valid_af af" and q: "q < length (get_buckets af s)"
    and j: "j < length (bk_nodes (get_buckets af s ! q))"
  shows "dht_inv_by z (ask_node af q j nid want s)"
proof -
  let ?n = "bk_nodes (get_buckets af s ! q) ! j"
  define s1 where "s1 = snd (send_find_node (take (nd_sslen ?n) (nd_ss ?n)) (make_tid ''fn'' 0) nid want (nd_reply_time ?n \<ge> now s - 15) s)"
  have tab: "tables_inv s" using inv by (simp add: dht_inv_by_def)
  have n: "node_ok af ?n" using bucket_state(1) [OF tab af q] j by (simp add: bucket_ok_def)
  have "tstep s s1" unfolding s1_def send_find_node_def
    using n by (intro tstep_send) (auto simp: node_ok_def SOCKADDR_STORAGE_def)
  moreover have "get_buckets af s1 = get_buckets af s" unfolding s1_def send_find_node_def by (simp add: snd_send_built)
  then have "tstep s1 (pinged af q j (Some q) s1)" using af q j by (intro pinged_tstep) auto
  ultimately show ?thesis
    using inv dht_inv_tstep [OF dht_inv_tstep] by (simp add: ask_node_def Let_def s1_def [symmetric])
qed

lemma neighbourhood_maintenance_inv:
  assumes inv: "dht_inv_by z s" and af: "valid_af af"
  shows "dht_inv_by z (snd (neighbourhood_maintenance af s))"
proof (cases "find_bucket (myid s) af s")
  case None
  then show ?thesis using inv by (simp add: neighbourhood_maintenance_def)
next
  case (Some i)
  then have i: "i < length (get_buckets af s)" by (rule find_bucket_less)
  let ?s1 = "s\<lparr>rng := (\<lambda>i. rng s (Suc i))\<rparr>"
  obtain q s2 where q: "pick_bucket (get_buckets af s) i ?s1 = (q, s2)" by fastforce
  note Q = pick_bucket_spec [OF q i]
  obtain r s3 where r: "random_node (get_buckets af s2 ! q) s2 = (r, s3)" by fastforce
  note R = random_node_spec [OF r]
  have st: "rng_step s s2" "rng_step s s3" using Q R rng_step_trans rng_step_random by blast+
  then have b: "get_buckets af s2 = get_buckets af s" "get_buckets af s3 = get_buckets af s" "dht_inv_by z s3"
    using rng_step_buckets rng_step_inv inv by blast+
  show ?thesis
    using Some q r b R Q af by (auto simp: neighbourhood_maintenance_def c_random_def Let_def split: option.splits
        intro!: ask_node_inv)
qed

lemma bucket_maintenance_loop_inv:
  "dht_inv_by z s \<Longrightarrow> valid_af af \<Longrightarrow> i + m \<le> length (get_buckets af s) \<Longrightarrow> dht_inv_by z (snd (bucket_maintenance_loop m i af s))"
proof (induction m i af s rule: bucket_maintenance_loop.induct)
  case (2 m i af s)
  let ?bs = "get_buckets af s"
  show ?case
  proof (cases "bk_time (?bs ! i) < now s - 600")
    case False
    then show ?thesis using 2 by (simp add: Let_def)
  next
    case True
    obtain nid s1 where n: "bucket_random ?bs i s = (nid, s1)" by fastforce
    obtain q s2 where q: "pick_bucket ?bs i s1 = (q, s2)" by fastforce
    obtain r s3 where r: "random_node (?bs ! q) s2 = (r, s3)" by fastforce
    note Q = pick_bucket_spec [OF q] and R = random_node_spec [OF r]
    have i: "i < length ?bs" using "2.prems"(3) by simp
    have st: "rng_step s s3" using bucket_random_rng [OF n] Q(2) [OF i] R rng_step_trans by blast
    then have b: "get_buckets af s3 = ?bs" and inv3: "dht_inv_by z s3" using rng_step_buckets rng_step_inv "2.prems"(1) by blast+
    show ?thesis
    proof (cases r)
      case None
      then show ?thesis using True n q r "2.IH"(1) [OF refl True n [symmetric] refl q [symmetric] refl r [symmetric] refl None] inv3 b "2.prems"
        by (simp add: Let_def)
    next
      case (Some j)
      obtain w s4 where w: "want_both af nid s3 = (w, s4)" by fastforce
      have "get_buckets af s4 = ?bs" "dht_inv_by z s4"
        using want_both_spec [OF w] rng_step_buckets rng_step_inv b inv3 by metis+
      then have "dht_inv_by z (ask_node af q j nid w s4)" using Q(1) [OF i] R Some "2.prems"(2) by (intro ask_node_inv) auto
      then show ?thesis using True n q r w Some by (simp add: Let_def)
    qed
  qed
qed simp

lemma bucket_maintenance_inv: "dht_inv_by z s \<Longrightarrow> valid_af af \<Longrightarrow> dht_inv_by z (snd (bucket_maintenance af s))"
  by (simp add: bucket_maintenance_def bucket_maintenance_loop_inv)

section \<open>The timers keep the invariant\<close>

lemma expire_buckets_inv:
  assumes inv: "dht_inv_by z s" and af: "valid_af af"
  shows "dht_inv_by z (expire_buckets af s)"
proof -
  let ?s1 = "fold (expire_bucket af) [0..<length (get_buckets af s)] s"
  have f: "rest ?s1 = rest s"
    using fold_expire_bucket [OF af, of "[0..<length (get_buckets af s)]" s] inv by (simp add: dht_inv_by_def)
  have "storage_inv_by (fst z) (expire_buckets af s) \<and> searches_inv_by (snd z) (expire_buckets af s) \<and> blacklist_ok (expire_buckets af s) \<and>
      dht_socket (expire_buckets af s) = dht_socket s \<and> dht_socket6 (expire_buckets af s) = dht_socket6 s"
    using inv rest_fields [OF f] arg_cong [OF f, of dht_socket] arg_cong [OF f, of dht_socket6]
    by (simp add: expire_buckets_def c_random_def Let_def dht_inv_by_def storage_inv_by_def searches_inv_by_def blacklist_ok_def)
  moreover have "mem_fair (expire_buckets af s)"
    using inv expire_buckets_keeps(3) [of s af] af by (simp add: dht_inv_by_def mem_fair_def)
  ultimately show ?thesis using expire_buckets_keeps(1,2) [of s af] inv af by (simp add: dht_inv_by_def)
qed

lemma expire_storage_inv: "dht_inv_by z s \<Longrightarrow> dht_inv_by z (expire_storage s)"
  using expire_storage_spec(1) [of _ s]
  by (auto simp: dht_inv_by_def expire_storage_def tables_inv_def searches_inv_by_def blacklist_ok_def mem_fair_def alive_def
      split: prod.splits)

lemma expire_searches_dht_inv: "dht_inv_by z s \<Longrightarrow> dht_inv_by z (expire_searches s)"
  using expire_searches_inv [of _ s]
  by (auto simp: dht_inv_by_def expire_searches_def tables_inv_def storage_inv_by_def blacklist_ok_def mem_fair_def alive_def
      split: prod.splits)

lemma timer_expire_inv: "dht_inv_by z s \<Longrightarrow> dht_inv_by z (timer_expire s)"
  by (simp add: timer_expire_def expire_searches_dht_inv expire_storage_inv expire_buckets_inv valid_af_def)

lemma rotate_secrets_inv: "dht_inv_by z s \<Longrightarrow> dht_inv_by z (snd (rotate_secrets s))"
  by (simp add: dht_inv_by_def rotate_secrets_frame)
     (simp add: rotate_secrets_def c_random_def dht_random_bytes_def Let_def split_beta searches_inv_by_def
        blacklist_ok_def mem_fair_def)

lemma step_search_inv:
  assumes inv: "dht_inv_by z s" and k: "k < length (searches s)" and r: "search_step callback (searches s ! k) s = (sr', s')"
  shows "dht_inv_by z (upd_search k sr' s')" and "length (searches (upd_search k sr' s')) = length (searches s)"
proof -
  have "search_ok (searches s ! k)" using inv k by (simp add: dht_inv_by_def searches_inv_by_def)
  from search_step_ok [OF this r] have o: "search_ok sr'" "tstep s s'" by simp_all
  then show "dht_inv_by z (upd_search k sr' s')" using inv dht_inv_tstep upd_search_inv by blast
  show "length (searches (upd_search k sr' s')) = length (searches s)"
    using o(2) rest_fields(1) [of s' s] by (simp add: upd_search_def tstep_def)
qed

lemma step_searches_inv:
  assumes "dht_inv_by z s"
  shows "dht_inv_by z (step_searches callback s)"
proof -
  let ?f = "\<lambda>k s. let sr = searches s ! k in if \<not> sr_done sr \<and> sr_step_time sr + 5 \<le> now s
    then (case search_step callback sr s of (sr', s') \<Rightarrow> upd_search k sr' s') else s"
  have "\<forall>k\<in>set ks. k < length (searches s) \<Longrightarrow> dht_inv_by z s \<Longrightarrow> dht_inv_by z (fold ?f ks s)" for ks s
  proof (induction ks arbitrary: s)
    case (Cons k ks)
    have "dht_inv_by z (?f k s) \<and> length (searches (?f k s)) = length (searches s)"
      using Cons.prems step_search_inv [of z s k callback] by (auto simp: Let_def split: prod.splits)
    with Cons show ?case by simp
  qed simp
  then show ?thesis using assms by (simp add: step_searches_def)
qed

lemma next_search_time_inv: "dht_inv_by z s \<Longrightarrow> dht_inv_by z (next_search_time srs s)"
  by (induction srs s rule: next_search_time.induct) (auto simp: c_random_def Let_def)

lemma timer_search_inv: "dht_inv_by z s \<Longrightarrow> dht_inv_by z (timer_search callback s)"
  by (simp add: timer_search_def Let_def next_search_time_inv step_searches_inv)

lemma timer_confirm_inv: "dht_inv_by z s \<Longrightarrow> dht_inv_by z (timer_confirm s)"
proof -
  assume inv: "dht_inv_by z s"
  obtain a s1 where 1: "bucket_maintenance AF_INET s = (a, s1)" by fastforce
  obtain b s2 where 2: "bucket_maintenance AF_INET6 s1 = (b, s2)" by fastforce
  obtain c s3 where 3: "(if \<not> (a \<or> b) \<and> mybucket_grow_time s2 \<ge> now s2 - 150 then neighbourhood_maintenance AF_INET s2 else (False, s2)) = (c, s3)" by fastforce
  obtain d s4 where 4: "(if \<not> (a \<or> b) \<and> mybucket6_grow_time s3 \<ge> now s3 - 150 then neighbourhood_maintenance AF_INET6 s3 else (False, s3)) = (d, s4)" by fastforce
  have v: "valid_af AF_INET" "valid_af AF_INET6" by (simp_all add: valid_af_def)
  have i1: "dht_inv_by z s1" using bucket_maintenance_inv [OF inv v(1)] 1 by simp
  have i2: "dht_inv_by z s2" using bucket_maintenance_inv [OF i1 v(2)] 2 by simp
  have i3: "dht_inv_by z s3" using neighbourhood_maintenance_inv [OF i2 v(1)] i2 3 by (metis snd_conv)
  have i4: "dht_inv_by z s4" using neighbourhood_maintenance_inv [OF i3 v(2)] i3 4 by (metis snd_conv)
  then show ?thesis using inv 1 2 3 4 by (simp add: timer_confirm_def c_random_def Let_def)
qed

lemma dht_timers_inv: "dht_inv_by z s \<Longrightarrow> dht_inv_by z (dht_timers callback s)"
  by (simp add: dht_timers_def Let_def timer_confirm_inv timer_search_inv timer_expire_inv rotate_secrets_inv)

section \<open>Every message is handled and keeps the invariant\<close>

definition peer_ok :: "bytes \<Rightarrow> bool" where
  "peer_ok sa = (addr_ok sa \<and> length sa \<le> SOCKADDR_STORAGE)"

lemma peer_okD: "peer_ok sa \<Longrightarrow> addr_ok sa" "peer_ok sa \<Longrightarrow> length sa \<le> SOCKADDR_STORAGE"
  "peer_ok sa \<Longrightarrow> 0 < length sa" "peer_ok sa \<Longrightarrow> 2 \<le> length sa" "peer_ok sa \<Longrightarrow> valid_af (sa_family sa)"
  by (auto simp: peer_ok_def addr_ok_def)

lemma learn_inv:
  assumes "dht_inv_by z s" and "peer_ok sa" and "length nid = 20"
  obtains s' where "learn nid sa c s = Some s'" and "dht_inv_by z s'" and "rest s' = rest s"
  using new_node_dht_inv [OF assms(1) peer_okD(1,2) [OF assms(2)] assms(3), of c] by (auto simp: learn_def)

text \<open>A pointer to a search stays good.\<close>

definition sr_valid :: "nat option \<Rightarrow> dht \<Rightarrow> bool" where
  "sr_valid sr s = (\<forall>k. sr = Some k \<longrightarrow> k < length (searches s))"

lemma find_search_valid: "sr_valid (find_search t af s) s"
  by (auto simp: sr_valid_def find_search_def find_index_Some)

lemma add_to_search_inv:
  assumes "dht_inv_by z s" and "sr_valid sr s" and "peer_ok sa" and "length nid = 20"
  shows "dht_inv_by z (add_to_search sr nid sa r tok s)" and "sr_valid sr' s \<Longrightarrow> sr_valid sr' (add_to_search sr nid sa r tok s)"
proof -
  have "search_ok (snd (insert_search_node nid sa (searches s ! k) r tok (now s)))" if "sr = Some k" for k
    using assms that by (intro insert_search_node_ok) (auto simp: dht_inv_by_def searches_inv_by_def sr_valid_def peer_okD)
  then show "dht_inv_by z (add_to_search sr nid sa r tok s)"
    using assms(1) upd_search_inv by (auto simp: add_to_search_def split: option.splits)
  show "sr_valid sr' s \<Longrightarrow> sr_valid sr' (add_to_search sr nid sa r tok s)"
    by (auto simp: add_to_search_def sr_valid_def upd_search_def split: option.splits)
qed

lemma push_search_inv:
  assumes "dht_inv_by z s" and "sr_valid sr s"
  shows "dht_inv_by z (push_search sr s)" and "sr_valid sr' s \<Longrightarrow> sr_valid sr' (push_search sr s)"
proof -
  have *: "dht_inv_by z (push_search sr s) \<and> length (searches (push_search sr s)) = length (searches s)"
  proof (cases sr)
    case (Some k)
    obtain b sr1 s1 where r: "search_send_get_peers (searches s ! k) None s = (b, sr1, s1)" by (metis prod_cases3)
    have "search_ok (searches s ! k)" using assms Some by (simp add: dht_inv_by_def searches_inv_by_def sr_valid_def)
    from search_send_get_peers_ok(1,2) [OF this _ r] have o: "search_ok sr1" "tstep s s1" by auto
    then have "dht_inv_by z (upd_search k sr1 s1)" using assms(1) dht_inv_tstep upd_search_inv by blast
    moreover have "searches s1 = searches s" using o(2) rest_fields(1) [of s1 s] by (simp add: tstep_def)
    ultimately show ?thesis using Some r by (simp add: push_search_def upd_search_def)
  qed (simp add: push_search_def assms)
  then show "dht_inv_by z (push_search sr s)" and "sr_valid sr' s \<Longrightarrow> sr_valid sr' (push_search sr s)"
    by (auto simp: sr_valid_def)
qed

lemma length_infos: "ni \<in> set (infos sz bs) \<Longrightarrow> length ni = sz"
proof -
  assume "ni \<in> set (infos sz bs)"
  then obtain i where i: "i < length bs div sz" and ni: "ni = take sz (drop (sz * i) bs)" by (auto simp: infos_def)
  have "sz * i + sz = sz * Suc i" by simp
  also have "\<dots> \<le> sz * (length bs div sz)" using i by (intro mult_le_mono) simp_all
  also have "\<dots> \<le> length bs" by simp
  finally show ?thesis by (simp add: ni)
qed

lemma length_mk:
  "length (mk_sockaddr_in addr port) = 10 + length port + length addr"
  "length (mk_sockaddr_in6 addr port) = 10 + length port + length addr"
  by (simp_all add: mk_sockaddr_in_def mk_sockaddr_in6_def)

lemma info_sockaddr_ok:
  "valid_af af \<Longrightarrow> length ni = (if af = AF_INET then 26 else 38) \<Longrightarrow> peer_ok (info_sockaddr af ni)"
  by (auto simp: info_sockaddr_def peer_ok_def addr_ok_def valid_af_def SOCKADDR_STORAGE_def length_mk)

lemma learn_infos_inv:
  "dht_inv_by z s \<Longrightarrow> valid_af af \<Longrightarrow> sr_valid sr s \<Longrightarrow> sr_valid sr' s \<Longrightarrow> \<forall>ni\<in>set nis. length ni = (if af = AF_INET then 26 else 38) \<Longrightarrow>
   \<exists>s'. learn_infos af sr nis s = Some s' \<and> dht_inv_by z s' \<and> sr_valid sr' s'"
proof (induction nis arbitrary: s)
  case (Cons ni nis)
  show ?case
  proof (cases "id_cmp ni (myid s) = 0")
    case True
    then show ?thesis using Cons by simp
  next
    case False
    have len: "length (take 20 ni) = 20" using Cons.prems(5) by auto
    have p: "peer_ok (info_sockaddr af ni)" using Cons.prems by (intro info_sockaddr_ok) auto
    obtain s1 where s1: "learn (take 20 ni) (info_sockaddr af ni) 0 s = Some s1" "dht_inv_by z s1" "rest s1 = rest s"
      using learn_inv [OF Cons.prems(1) p len] by metis
    define s2 where "s2 = (if (case sr of None \<Rightarrow> False | Some k \<Rightarrow> sr_af (searches s1 ! k) = af)
      then add_to_search sr (take 20 ni) (info_sockaddr af ni) False None s1 else s1)"
    have v1: "sr_valid sr s1" "sr_valid sr' s1" using Cons.prems rest_fields(1) [OF s1(3)] by (simp_all add: sr_valid_def)
    then have s2: "dht_inv_by z s2" "sr_valid sr s2" "sr_valid sr' s2"
      using s1(2) add_to_search_inv [OF s1(2) v1(1) p len] by (auto simp: s2_def)
    have "learn_infos af sr (ni # nis) s = learn_infos af sr nis s2"
      using False s1(1) by (simp add: s2_def Let_def)
    then show ?thesis using Cons.IH [OF s2(1) Cons.prems(2) s2(2,3)] Cons.prems(5) by simp
  qed
qed simp

lemma report_values_inv: "dht_inv_by z s \<Longrightarrow> dht_inv_by z (report_values cb k m s)"
  by (auto simp: report_values_def intro!: dht_inv_tstep [OF _ tstep_emit])

lemma nodes_reply_inv:
  assumes inv: "dht_inv_by z s" and fr: "peer_ok from" and nid: "length (p_id m) = 20"
  shows "\<exists>s'. nodes_reply cb from tid m s = Some s' \<and> dht_inv_by z s'"
proof -
  define gp where "gp = tid_match tid ''gp''"
  define sr where "sr = (case gp of None \<Rightarrow> None | Some ttid \<Rightarrow> find_search ttid (sa_family from) s)"
  have v: "sr_valid sr s" using find_search_valid by (auto simp: sr_def sr_valid_def split: option.splits)
  define part where "part = (if length (p_nodes m) mod 26 \<noteq> 0 \<or> length (p_nodes6 m) mod 38 \<noteq> 0
    then Some (blacklist_node (p_id m) from s)
    else if gp \<noteq> None \<and> sr = None then learn (p_id m) from 1 s
    else do {
      s1 \<leftarrow> learn (p_id m) from 2 s;
      s2 \<leftarrow> learn_infos AF_INET sr (infos 26 (p_nodes m)) s1;
      s3 \<leftarrow> learn_infos AF_INET6 sr (infos 38 (p_nodes6 m)) s2;
      Some (push_search sr s3)
    })"
  have "\<exists>s1. part = Some s1 \<and> dht_inv_by z s1 \<and> sr_valid sr s1"
  proof (cases "length (p_nodes m) mod 26 \<noteq> 0 \<or> length (p_nodes6 m) mod 38 \<noteq> 0")
    case True
    have "length (searches (blacklist_node (p_id m) from s)) = length (searches s)"
      using rest_fields(1) [OF pinged_rest(1)] rest_fields(1) [OF frame_upd_node(2)]
      by (auto simp: blacklist_node_def Let_def split: option.splits)
    then show ?thesis
      using True blacklist_node_inv [OF inv peer_okD(5,2) [OF fr]] v by (auto simp: part_def sr_valid_def)
  next
    case good: False
    show ?thesis
    proof (cases "gp \<noteq> None \<and> sr = None")
      case True
      then show ?thesis using good learn_inv [OF inv fr nid, of 1] by (auto simp: part_def sr_valid_def)
    next
      case False
      obtain s1 where s1: "learn (p_id m) from 2 s = Some s1" "dht_inv_by z s1" "rest s1 = rest s"
        using learn_inv [OF inv fr nid, of 2] by metis
      have v1: "sr_valid sr s1" using v rest_fields(1) [OF s1(3)] by (simp add: sr_valid_def)
      obtain s2 where s2: "learn_infos AF_INET sr (infos 26 (p_nodes m)) s1 = Some s2" "dht_inv_by z s2" "sr_valid sr s2"
        using learn_infos_inv [OF s1(2) _ v1 v1, of AF_INET "infos 26 (p_nodes m)"] length_infos by (auto simp: valid_af_def)
      obtain s3 where s3: "learn_infos AF_INET6 sr (infos 38 (p_nodes6 m)) s2 = Some s3" "dht_inv_by z s3" "sr_valid sr s3"
        using learn_infos_inv [OF s2(2) _ s2(3) s2(3), of AF_INET6 "infos 38 (p_nodes6 m)"] length_infos by (auto simp: valid_af_def)
      have "part = Some (push_search sr s3)" using good False s1(1) s2(1) s3(1) by (auto simp: part_def)
      then show ?thesis using push_search_inv [OF s3(2,3)] s3(3) by blast
    qed
  qed
  then obtain s1 where s1: "part = Some s1" "dht_inv_by z s1" "sr_valid sr s1" by blast
  have "nodes_reply cb from tid m s = Some (case sr of None \<Rightarrow> s1
    | Some k \<Rightarrow> report_values cb k m (add_to_search sr (p_id m) from True (Some (p_token m)) s1))"
    using s1(1) unfolding part_def nodes_reply_def Let_def gp_def [symmetric] sr_def [symmetric] by (simp split: option.splits)
  then show ?thesis
    using s1 report_values_inv add_to_search_inv(1) [OF s1(2,3) fr nid] by (auto split: option.splits)
qed

lemma ack_search_node_ok: "search_ok sr \<Longrightarrow> search_ok (ack_search_node nid t sr)"
  by (auto simp: ack_search_node_def find_index_Some split: option.splits intro!: search_ok_upd)
     (auto simp: search_ok_def sn_ok_def)

lemma announce_reply_inv:
  assumes inv: "dht_inv_by z s" and fr: "peer_ok from" and nid: "length (p_id m) = 20"
  shows "\<exists>s'. announce_reply from ttid m s = Some s' \<and> dht_inv_by z s'"
proof (cases "find_search ttid (sa_family from) s")
  case None
  then show ?thesis using learn_inv [OF inv fr nid, of 1] by (auto simp: announce_reply_def)
next
  case (Some k)
  obtain s1 where s1: "learn (p_id m) from 2 s = Some s1" "dht_inv_by z s1" "rest s1 = rest s"
    using learn_inv [OF inv fr nid, of 2] by metis
  have k: "k < length (searches s1)" using Some find_search_valid [of ttid "sa_family from" s] rest_fields(1) [OF s1(3)]
    by (simp add: sr_valid_def)
  let ?s2 = "upd_search k (ack_search_node (p_id m) (now s1) (searches s1 ! k)) s1"
  have "dht_inv_by z ?s2" using s1(2) k by (intro upd_search_inv ack_search_node_ok) (auto simp: dht_inv_by_def searches_inv_by_def)
  moreover have "sr_valid (Some k) ?s2" using k by (simp add: sr_valid_def upd_search_def)
  ultimately show ?thesis using Some s1(1) push_search_inv(1) by (simp add: announce_reply_def)
qed

lemma handle_reply_inv:
  assumes "dht_inv_by z s" and "peer_ok from" and "length (p_id m) = 20"
  shows "\<exists>s'. handle_reply cb from tid m s = Some s' \<and> dht_inv_by z s'"
proof -
  have l: "\<exists>s'. learn (p_id m) from 2 s = Some s' \<and> dht_inv_by z s'" using learn_inv [OF assms, of 2] by metis
  show ?thesis
    using l nodes_reply_inv [OF assms, of cb tid] announce_reply_inv [OF assms] assms(1)
      blacklist_node_inv [OF assms(1) peer_okD(5,2) [OF assms(2)]]
    by (cases "tid_match tid ''ap''") (simp_all add: handle_reply_def)
qed

text \<open>Storing a peer touches the storage and the allocator only.\<close>

definition store_step :: "dht \<Rightarrow> dht \<Rightarrow> bool" where
  "store_step s s' = (\<exists>x y d. s' = s\<lparr>storage := x, numstorage := y, mem_ok := (\<lambda>k. mem_ok s (k + d))\<rparr>)"

lemma store_stepI: "s' = s\<lparr>storage := x, numstorage := y, mem_ok := (\<lambda>k. mem_ok s (k + d))\<rparr> \<Longrightarrow> store_step s s'"
  unfolding store_step_def by blast

lemma store_step_simps [simp]:
  shows "store_step s s" and "store_step s (s\<lparr>mem_ok := (\<lambda>k. mem_ok s (Suc k))\<rparr>)" and "store_step s (upd_storage k f s)"
    and "store_step s (s\<lparr>mem_ok := (\<lambda>k. mem_ok s (Suc k)), storage := x, numstorage := y\<rparr>)"
proof -
  show "store_step s s" by (rule store_stepI [where x = "storage s" and y = "numstorage s" and d = 0]) simp
  show "store_step s (s\<lparr>mem_ok := (\<lambda>k. mem_ok s (Suc k))\<rparr>)"
    by (rule store_stepI [where x = "storage s" and y = "numstorage s" and d = 1]) simp
  show "store_step s (upd_storage k f s)"
    by (rule store_stepI [where x = "(storage s)[k := f (storage s ! k)]" and y = "numstorage s" and d = 0])
       (simp add: upd_storage_def)
  show "store_step s (s\<lparr>mem_ok := (\<lambda>k. mem_ok s (Suc k)), storage := x, numstorage := y\<rparr>)"
    by (rule store_stepI [where x = x and y = y and d = 1]) simp
qed

lemma store_step_trans: "store_step s1 s2 \<Longrightarrow> store_step s2 s3 \<Longrightarrow> store_step s1 s3"
proof -
  assume "store_step s1 s2" "store_step s2 s3"
  then obtain x y d x' y' d' where e: "s2 = s1\<lparr>storage := x, numstorage := y, mem_ok := (\<lambda>k. mem_ok s1 (k + d))\<rparr>"
    "s3 = s2\<lparr>storage := x', numstorage := y', mem_ok := (\<lambda>k. mem_ok s2 (k + d'))\<rparr>" by (auto simp: store_step_def)
  then have "s3 = s1\<lparr>storage := x', numstorage := y', mem_ok := (\<lambda>k. mem_ok s1 (k + (d' + d)))\<rparr>"
    by (simp add: add.assoc)
  then show ?thesis unfolding store_step_def by blast
qed

lemma store_step_inv: "store_step s s' \<Longrightarrow> dht_inv_by z s \<Longrightarrow> storage_inv_by (fst z) s' \<Longrightarrow> dht_inv_by z s'"
proof -
  assume "store_step s s'" and inv: "dht_inv_by z s" and st: "storage_inv_by (fst z) s'"
  then obtain x y d where s': "s' = s\<lparr>storage := x, numstorage := y, mem_ok := (\<lambda>k. mem_ok s (k + d))\<rparr>"
    by (auto simp: store_step_def)
  have "\<exists>m\<ge>n. mem_ok s (m + d)" for n
  proof -
    obtain m where "m \<ge> n + d" "mem_ok s m" using inv by (auto simp: dht_inv_by_def mem_fair_def)
    then show ?thesis by (intro exI [of _ "m - d"]) simp
  qed
  then have "mem_fair s'" by (simp add: s' mem_fair_def)
  moreover have "tables_inv s'" "searches_inv_by (snd z) s'" "blacklist_ok s'" "alive s'"
    using inv by (simp_all add: s' dht_inv_by_def tables_inv_def searches_inv_by_def blacklist_ok_def alive_def)
  ultimately show ?thesis using st inv by (auto simp: dht_inv_by_def s')
qed

lemma storage_slot_step: "storage_slot nid s = (r, s') \<Longrightarrow> store_step s s'"
  by (auto simp: storage_slot_def c_alloc_def Let_def split: option.splits if_splits)

lemma storage_store_step: "store_step s (snd (storage_store nid sa port s))"
proof (cases "sa_ip sa")
  case None
  then show ?thesis by (simp add: storage_store_def)
next
  case (Some ip)
  obtain r s1 where r: "storage_slot nid s = (r, s1)" by fastforce
  have "store_step s1 (snd (storage_store nid sa port s))"
    using Some r store_step_trans [OF store_step_simps(2) store_step_simps(3)]
    by (auto simp: storage_store_def c_alloc_def Let_def split: option.splits)
  then show ?thesis using storage_slot_step [OF r] store_step_trans by blast
qed

lemma storage_store_dht_inv:
  assumes "dht_inv_by z s" and "length nid = 20"
  shows "dht_inv_by z (snd (storage_store nid sa port s))"
proof -
  have "storage_inv_by (fst z) (snd (storage_store nid sa port s))"
    using storage_store_refines [of _ s nid sa _ port] assms by (cases "sa_ip sa") (auto simp: dht_inv_by_def storage_store_def)
  then show ?thesis using store_step_inv [OF storage_store_step assms(1)] by blast
qed

lemma send_inv: "dht_inv_by z s \<Longrightarrow> peer_ok sa \<Longrightarrow> dht_inv_by z (snd (send_built msg flags sa s))"
  using dht_inv_tstep tstep_send peer_okD by blast

lemma handle_get_peers_inv:
  assumes "dht_inv_by z s" and "peer_ok from"
  shows "dht_inv_by z (handle_get_peers from tid m s)"
proof -
  have "make_token from False s \<noteq> None"
    using peer_okD(5) [OF assms(2)] by (auto simp: make_token_def sa_ip_def valid_af_def)
  then show ?thesis
    using assms send_closest_nodes_inv [OF peer_okD(3,2) [OF assms(2)] assms(1)] send_inv
    by (auto simp: handle_get_peers_def send_error_def split: option.splits)
qed

lemma handle_announce_peer_inv:
  assumes "dht_inv_by z s" and "peer_ok from" and "length (p_info_hash m) = 20"
  shows "dht_inv_by z (handle_announce_peer from tid m s)"
proof -
  have "token_match (p_token m) from s \<noteq> None"
    using peer_okD(5) [OF assms(2)] by (auto simp: token_match_def make_token_def sa_ip_def valid_af_def)
  then show ?thesis
    using assms send_inv storage_store_dht_inv
    by (auto simp: handle_announce_peer_def send_error_def send_peer_announced_def split: option.splits bool.splits)
qed

lemma handle_message_inv:
  assumes inv: "dht_inv_by z s" and fr: "peer_ok from" and m: "parse_message buf = Some m"
  shows "\<exists>s'. handle_message cb from stk m s = Some s' \<and> dht_inv_by z s'"
proof -
  note len = parse_message_bounds(1-3) [OF m]
  obtain s1 where s1: "learn (p_id m) from 1 s = Some s1" "dht_inv_by z s1" using learn_inv [OF inv fr len(1), of 1] by metis
  show ?thesis
  proof (cases "p_type m")
    case REPLY
    then show ?thesis using handle_reply_inv [OF inv fr len(1)] by (simp add: handle_message_def Let_def)
  qed (use s1 inv fr len send_inv send_closest_nodes_inv peer_okD handle_get_peers_inv handle_announce_peer_inv in
      \<open>simp_all add: handle_message_def Let_def send_pong_def\<close>)
qed

lemma token_bucket_inv: "dht_inv_by z s \<Longrightarrow> dht_inv_by z (snd (token_bucket s))"
  by (simp add: token_bucket_def Let_def dht_inv_by_def tables_inv_def storage_inv_by_def searches_inv_by_def blacklist_ok_def
      mem_fair_def alive_def)

lemma dht_receive_inv:
  assumes inv: "dht_inv_by z s" and fr: "buflen = 0 \<or> peer_ok from"
  shows "\<exists>go s'. dht_receive cb mem buflen from stk s = Some (go, s') \<and> dht_inv_by z s'"
proof (cases "\<exists>m. buflen \<noteq> 0 \<and> parse_message (take buflen mem) = Some m")
  case False
  then show ?thesis
  proof (cases "buflen = 0")
    case nz: False
    then have "length from \<le> SOCKADDR_STORAGE" using fr peer_okD(2) by blast
    then show ?thesis using False nz inv by (auto simp: dht_receive_def split: option.splits)
  qed (use inv in \<open>auto simp: dht_receive_def\<close>)
next
  case True
  then obtain m where b: "buflen \<noteq> 0" and m: "parse_message (take buflen mem) = Some m" by blast
  then have p: "peer_ok from" using fr by simp
  obtain pass s1 where t: "token_bucket s = (pass, s1)" by fastforce
  have s1: "dht_inv_by z s1" using token_bucket_inv [OF inv] t by simp
  obtain s2 where s2: "handle_message cb from stk m s1 = Some s2" "dht_inv_by z s2" using handle_message_inv [OF s1 p m] by blast
  obtain s3 where s3: "handle_message cb from stk m s = Some s3" "dht_inv_by z s3" using handle_message_inv [OF inv p m] by blast
  show ?thesis using b m p t s1 s2 s3 inv peer_okD(2) [OF p] by (auto simp: dht_receive_def)
qed

lemma dht_periodic_inv:
  assumes "dht_inv_by z s" and "buflen = 0 \<or> peer_ok from"
  shows "\<exists>rc sl s'. dht_periodic mem buflen from cb stk t s = Some (rc, sl, s') \<and> dht_inv_by z s'"
proof -
  have "dht_inv_by z (s\<lparr>now := t\<rparr>)" using assms(1) by simp
  from dht_receive_inv [OF this assms(2), of cb mem stk] obtain go s1
    where "dht_receive cb mem buflen from stk (s\<lparr>now := t\<rparr>) = Some (go, s1)" and "dht_inv_by z s1" by blast
  then show ?thesis using dht_timers_inv by (cases go) (auto simp: dht_periodic_def Let_def)
qed

section \<open>Start and stop keep the invariant\<close>

lemma empty_bucket_inv: "valid_af af \<Longrightarrow> table_inv af [empty_bucket af]"
proof -
  have "be_val (replicate n 0) = 0" for n by (induction n) simp_all
  then have lo: "blo [empty_bucket af] 0 = 0" by (simp add: blo_def empty_bucket_def)
  have "dyadic 0 id_space" unfolding dyadic_def id_space_def by (intro bexI [of _ 0]) simp_all
  then show ?thesis
    by (simp add: table_inv_def lo bhi_def nodes_within_def bucket_ok_def)
       (simp add: empty_bucket_def sa_family_def byte_at_def)
qed

lemma init_family_inv:
  assumes "dht_inv_by z s" and "valid_af af" and r: "init_family af sock nb s = (r, s')"
  shows "dht_inv_by z s'"
proof -
  have s1: "dht_inv_by z (s\<lparr>mem_ok := (\<lambda>i. mem_ok s (Suc i))\<rparr>)" (is "dht_inv_by z ?s1")
    using assms(1) mem_fair_shift [of ?s1 s] by (auto simp: dht_inv_by_def tables_inv_def storage_inv_by_def searches_inv_by_def blacklist_ok_def alive_def)
  then have "dht_inv_by z (set_buckets af [empty_bucket af] ?s1)"
    using assms(2) set_buckets_inv [OF _ assms(2) empty_bucket_inv]
    by (auto simp: dht_inv_by_def storage_inv_by_def searches_inv_by_def blacklist_ok_def mem_fair_def alive_def set_buckets_def)
  then show ?thesis using r s1 assms(1) by (auto simp: init_family_def c_alloc_def Let_def split: if_splits)
qed

lemma init_fail_inv: "dht_inv_by z s \<Longrightarrow> dht_inv_by z (snd (init_fail fr s))"
  by (simp add: init_fail_def dht_inv_by_def tables_inv_def table_inv_def storage_inv_by_def searches_inv_by_def blacklist_ok_def
      mem_fair_def alive_def)

lemma init_vars_inv: "dht_inv_by z s \<Longrightarrow> length nid = 20 \<Longrightarrow> dht_inv_by z (init_vars nid v t s)"
  by (simp add: init_vars_def c_random_def Let_def dht_inv_by_def tables_inv_def storage_inv_by_def searches_inv_by_def
      blacklist_ok_def mem_fair_def alive_def DHT_MAX_BLACKLISTED_def split: option.splits)

lemma init_rest_inv:
  assumes "dht_inv s" and "length nid = 20"
  shows "dht_inv (snd (init_rest sock sock6 nid v t s))"
proof -
  obtain rc s1 where r: "rotate_secrets (init_vars nid v t s) = (rc, s1)" by fastforce
  have s1: "dht_inv s1" using rotate_secrets_inv [OF init_vars_inv [OF assms, of v t]] r by simp
  then have "dht_inv (s1\<lparr>dht_socket := sock, dht_socket6 := sock6\<rparr>)"
    by (simp add: dht_inv_by_def tables_inv_def storage_inv_by_def searches_inv_by_def blacklist_ok_def mem_fair_def alive_def)
  then show ?thesis using r s1 init_fail_inv expire_buckets_inv by (simp add: init_rest_def valid_af_def)
qed

text \<open>A \<open>dht_init\<close> that does not find the module busy resets the counters.\<close>

lemma dht_init_inv:
  assumes inv: "dht_inv_by z s" and nid: "length nid = 20"
  shows "snd (dht_init sock sock6 nid v nb t s) = s \<or> dht_inv (snd (dht_init sock sock6 nid v nb t s))"
proof -
  let ?s0 = "s\<lparr>searches := [], numsearches := 0, storage := [], numstorage := 0\<rparr>"
  have v: "valid_af AF_INET" "valid_af AF_INET6" by (simp_all add: valid_af_def)
  have s0: "dht_inv ?s0"
    using inv by (simp add: dht_inv_by_def tables_inv_def storage_inv_by_def searches_inv_by_def blacklist_ok_def mem_fair_def alive_def
        DHT_MAX_HASHES_def DHT_MAX_SEARCHES_def)
  obtain r1 s1 where 1: "init_family AF_INET sock nb ?s0 = (r1, s1)" by fastforce
  obtain r2 s2 where 2: "init_family AF_INET6 sock6 nb s1 = (r2, s2)" by fastforce
  have s1: "dht_inv s1" using init_family_inv [OF s0 v(1) 1] .
  have s2: "dht_inv s2" using init_family_inv [OF s1 v(2) 2] .
  show ?thesis
    using s1 s2 1 2 init_fail_inv init_rest_inv nid by (auto simp: dht_init_def Let_def split: option.splits)
qed

text \<open>\<open>dht_uninit\<close> frees the lists and leaves \<open>numstorage\<close> and \<open>numsearches\<close> behind.\<close>

lemma dht_uninit_inv:
  assumes "dht_inv_by z s"
  shows "\<exists>z'. dht_inv_by z' (snd (dht_uninit s))"
proof (cases "dht_socket s < 0 \<and> dht_socket6 s < 0")
  case True
  with assms have "dht_inv_by z (snd (dht_uninit s))" by (simp add: dht_uninit_def)
  then show ?thesis ..
next
  case False
  let ?z = "(length (storage s) + fst z, length (searches s) + snd z)"
  have "dht_inv_by ?z (snd (dht_uninit s))"
    using assms False by (auto simp: dht_uninit_def dht_inv_by_def tables_inv_def table_inv_def storage_inv_by_def searches_inv_by_def
        blacklist_ok_def mem_fair_def alive_def)
  then show ?thesis ..
qed

section \<open>The DHT as a state machine\<close>

text \<open>The static variables before the first \<open>dht_init\<close>.\<close>

definition dht_static :: "dht \<Rightarrow> bool" where
  "dht_static s =
     (dht_socket s = - 1 \<and> dht_socket6 s = - 1 \<and> buckets s = [] \<and> buckets6 s = [] \<and> storage s = [] \<and>
      numstorage s = 0 \<and> searches s = [] \<and> numsearches s = 0 \<and> length (myid s) = 20 \<and>
      blacklist s = replicate DHT_MAX_BLACKLISTED (replicate SOCKADDR_STORAGE 0) \<and> next_blacklisted s = 0 \<and>
      trace s = [] \<and> mem_fair s)"

inductive dht_step :: "dht \<Rightarrow> dht \<Rightarrow> bool" where
  Init: "length nid = 20 \<Longrightarrow> dht_step s (snd (dht_init sock sock6 nid v nb t s))"
| Stop: "dht_step s (snd (dht_uninit s))"
| Periodic: "buflen = 0 \<or> peer_ok from \<Longrightarrow> dht_periodic mem buflen from cb stk t s = Some (rc, sl, s') \<Longrightarrow> dht_step s s'"
| Search: "valid_af af \<Longrightarrow> length nid = 20 \<Longrightarrow> dht_step s (snd (dht_search nid port af cb s))"
| Insert: "peer_ok sa \<Longrightarrow> length nid = 20 \<Longrightarrow> dht_insert_node nid sa s = Some (rc, s') \<Longrightarrow> dht_step s s'"
| Ping: "peer_ok sa \<Longrightarrow> dht_step s (snd (dht_ping_node sa s))"

inductive_cases dht_stepE: "dht_step s s'"

lemma dht_insert_node_inv:
  assumes "dht_inv_by z s" and "peer_ok sa" and "length nid = 20"
  shows "\<exists>rc s'. dht_insert_node nid sa s = Some (rc, s') \<and> dht_inv_by z s'"
  using new_node_dht_inv [OF assms(1) peer_okD(1,2) [OF assms(2)] assms(3), of 0] assms(1)
  by (fastforce simp: dht_insert_node_def)

definition dht_safe :: "dht \<Rightarrow> bool" where
  "dht_safe s = (\<exists>z. dht_inv_by z s)"

interpretation dht_machine: invariant_machine dht_static dht_step dht_safe
proof unfold_locales
  fix s
  assume "dht_static s"
  then have "dht_inv s"
    by (auto simp: dht_static_def dht_inv_by_def tables_inv_def table_inv_def storage_inv_by_def searches_inv_by_def
        blacklist_ok_def alive_def DHT_MAX_HASHES_def DHT_MAX_SEARCHES_def DHT_MAX_BLACKLISTED_def)
  then show "dht_safe s" unfolding dht_safe_def ..
next
  fix s s'
  assume "dht_safe s" and "dht_step s s'"
  then obtain z where inv: "dht_inv_by z s" by (auto simp: dht_safe_def)
  have "\<exists>z'. dht_inv_by z' s'" using \<open>dht_step s s'\<close>
  proof cases
    case (Init nid sock sock6 v nb t)
    then show ?thesis using inv dht_init_inv [OF inv, of nid sock sock6 v nb t] by metis
  next
    case Stop
    then show ?thesis using dht_uninit_inv [OF inv] by simp
  next
    case (Periodic buflen sa mem cb stk t rc sl)
    then show ?thesis using dht_periodic_inv [OF inv, of buflen sa mem cb stk t] by (metis option.inject prod.inject)
  next
    case (Insert sa nid rc)
    then show ?thesis using dht_insert_node_inv [OF inv, of sa nid] by (metis option.inject prod.inject)
  next
    case (Search af nid port cb)
    then show ?thesis using dht_search_inv [OF inv] by blast
  next
    case (Ping sa)
    then have "dht_inv_by z s'" using send_inv [OF inv] by (simp add: dht_ping_node_def send_ping_def)
    then show ?thesis ..
  qed
  then show "dht_safe s'" by (simp add: dht_safe_def)
qed

end
