(* ===== verification/Dht_Security.thy ===== *)
theory Dht_Security
  imports Dht_Periodic
begin

text \<open>
  What a remote peer can and cannot do to this node: which messages change the stored peers, how many
  requests pass the rate limiter, what blacklisting an address achieves; and the two ways found in which
  the code misbehaves when memory allocation fails.
\<close>

section \<open>Who can change the storage\<close>

lemma learn_storage:
  assumes "dht_inv_by z s" and "peer_ok sa" and "length nid = 20" and "learn nid sa c s = Some s'"
  shows "storage s' = storage s" and "searches s' = searches s" and "dht_inv_by z s'"
    and "secret s' = secret s" and "oldsecret s' = oldsecret s" and "sha256 s' = sha256 s"
proof -
  obtain s'' where "learn nid sa c s = Some s''" "dht_inv_by z s''" "rest s'' = rest s" using learn_inv [OF assms(1-3)] by metis
  then show "storage s' = storage s" "searches s' = searches s" "dht_inv_by z s'" "secret s' = secret s"
    "oldsecret s' = oldsecret s" "sha256 s' = sha256 s"
    using assms(4) rest_fields [of s' s] by auto
qed

lemma storage_upd_search [simp]: "storage (upd_search k sr s) = storage s"
  by (simp add: upd_search_def)

lemma storage_emit [simp]: "storage (emit e s) = storage s"
  by (simp add: emit_def)

lemma storage_add_to_search [simp]: "storage (add_to_search sr nid sa r tok s) = storage s"
  by (simp add: add_to_search_def split: option.splits)

lemma push_search_storage:
  assumes "dht_inv_by z s" and "sr_valid sr s"
  shows "storage (push_search sr s) = storage s"
proof (cases sr)
  case (Some k)
  obtain b sr1 s1 where r: "search_send_get_peers (searches s ! k) None s = (b, sr1, s1)" by (metis prod_cases3)
  have "search_ok (searches s ! k)" using assms Some by (simp add: dht_inv_by_def searches_inv_by_def sr_valid_def)
  from search_send_get_peers_ok(2) [OF this _ r] have "rest s1 = rest s" by (simp add: tstep_def)
  then show ?thesis using Some r rest_fields(3) [of s1 s] by (simp add: push_search_def)
qed (simp add: push_search_def)

lemma learn_infos_storage:
  "dht_inv_by z s \<Longrightarrow> valid_af af \<Longrightarrow> sr_valid sr s \<Longrightarrow> \<forall>ni\<in>set nis. length ni = (if af = AF_INET then 26 else 38) \<Longrightarrow>
   learn_infos af sr nis s = Some s' \<Longrightarrow> storage s' = storage s"
proof (induction nis arbitrary: s)
  case (Cons ni nis)
  show ?case
  proof (cases "id_cmp ni (myid s) = 0")
    case True
    then show ?thesis using Cons by simp
  next
    case False
    have len: "length (take 20 ni) = 20" using Cons.prems(4) by auto
    have p: "peer_ok (info_sockaddr af ni)" using Cons.prems by (intro info_sockaddr_ok) auto
    obtain s1 where s1: "learn (take 20 ni) (info_sockaddr af ni) 0 s = Some s1"
      using learn_inv [OF Cons.prems(1) p len] by metis
    note L = learn_storage [OF Cons.prems(1) p len s1]
    define s2 where "s2 = (if (case sr of None \<Rightarrow> False | Some k \<Rightarrow> sr_af (searches s1 ! k) = af)
      then add_to_search sr (take 20 ni) (info_sockaddr af ni) False None s1 else s1)"
    have v: "sr_valid sr s1" using Cons.prems(3) L(2) by (simp add: sr_valid_def)
    then have "dht_inv_by z s2" "sr_valid sr s2" "storage s2 = storage s"
      using L add_to_search_inv [OF L(3) v p len] by (auto simp: s2_def)
    moreover have "learn_infos af sr nis s2 = Some s'" using Cons.prems(5) False s1 by (simp add: s2_def Let_def)
    ultimately show ?thesis using Cons.IH [of s2] Cons.prems(2,4) by simp
  qed
qed simp

lemma blacklist_node_storage [simp]: "storage (blacklist_node nid sa s) = storage s"
  using rest_fields(3) [OF pinged_rest(1)] rest_fields(3) [OF frame_upd_node(2)]
  by (auto simp: blacklist_node_def Let_def split: option.splits)

lemma nodes_reply_storage:
  assumes inv: "dht_inv_by z s" and fr: "peer_ok from" and nid: "length (p_id m) = 20"
    and r: "nodes_reply cb from tid m s = Some s'"
  shows "storage s' = storage s"
proof -
  define gp where "gp = tid_match tid ''gp''"
  define sr where "sr = (case gp of None \<Rightarrow> None | Some ttid \<Rightarrow> find_search ttid (sa_family from) s)"
  have v: "sr_valid sr s" using find_search_valid by (auto simp: sr_def sr_valid_def split: option.splits)
  have fin: "storage (case sr of None \<Rightarrow> s1 | Some k \<Rightarrow> report_values cb k m (add_to_search sr (p_id m) from True (Some (p_token m)) s1)) = storage s1" for s1
    by (simp add: report_values_def split: option.splits)
  show ?thesis
  proof (cases "length (p_nodes m) mod 26 \<noteq> 0 \<or> length (p_nodes6 m) mod 38 \<noteq> 0")
    case True
    then show ?thesis using r fin unfolding nodes_reply_def Let_def gp_def [symmetric] sr_def [symmetric]
      by (auto split: option.splits)
  next
    case good: False
    show ?thesis
    proof (cases "gp \<noteq> None \<and> sr = None")
      case True
      then show ?thesis using r good learn_storage(1) [OF inv fr nid]
        unfolding nodes_reply_def Let_def gp_def [symmetric] sr_def [symmetric] by (auto split: option.splits)
    next
      case False
      obtain s1 where s1: "learn (p_id m) from 2 s = Some s1" using learn_inv [OF inv fr nid] by metis
      note L = learn_storage [OF inv fr nid s1]
      have v1: "sr_valid sr s1" using v L(2) by (simp add: sr_valid_def)
      have l: "\<forall>ni\<in>set (infos 26 (p_nodes m)). length ni = (if AF_INET = AF_INET then 26 else 38)"
        "\<forall>ni\<in>set (infos 38 (p_nodes6 m)). length ni = (if AF_INET6 = AF_INET then 26 else 38)" using length_infos by auto
      have va: "valid_af AF_INET" "valid_af AF_INET6" by (simp_all add: valid_af_def)
      obtain s2 where s2: "learn_infos AF_INET sr (infos 26 (p_nodes m)) s1 = Some s2" "dht_inv_by z s2" "sr_valid sr s2"
        using learn_infos_inv [OF L(3) va(1) v1 v1 l(1)] by blast
      obtain s3 where s3: "learn_infos AF_INET6 sr (infos 38 (p_nodes6 m)) s2 = Some s3" "dht_inv_by z s3" "sr_valid sr s3"
        using learn_infos_inv [OF s2(2) va(2) s2(3) s2(3) l(2)] by blast
      have "storage (push_search sr s3) = storage s"
        using push_search_storage [OF s3(2,3)] learn_infos_storage [OF s2(2) va(2) s2(3) l(2) s3(1)]
          learn_infos_storage [OF L(3) va(1) v1 l(1) s2(1)] L(1) by simp
      then show ?thesis
        using r good False s1 s2(1) s3(1) fin unfolding nodes_reply_def Let_def gp_def [symmetric] sr_def [symmetric]
        by (auto split: option.splits)
    qed
  qed
qed

lemma announce_reply_storage:
  assumes inv: "dht_inv_by z s" and fr: "peer_ok from" and nid: "length (p_id m) = 20"
    and r: "announce_reply from ttid m s = Some s'"
  shows "storage s' = storage s"
proof (cases "find_search ttid (sa_family from) s")
  case None
  then show ?thesis using r learn_storage(1) [OF inv fr nid] by (simp add: announce_reply_def)
next
  case (Some k)
  obtain s1 where s1: "learn (p_id m) from 2 s = Some s1" using learn_inv [OF inv fr nid] by metis
  note L = learn_storage [OF inv fr nid s1]
  let ?s2 = "upd_search k (ack_search_node (p_id m) (now s1) (searches s1 ! k)) s1"
  have k: "k < length (searches s1)" using Some find_search_valid [of ttid "sa_family from" s] L(2) by (simp add: sr_valid_def)
  have "dht_inv_by z ?s2" using L(3) k by (intro upd_search_inv ack_search_node_ok) (auto simp: dht_inv_by_def searches_inv_by_def)
  moreover have "sr_valid (Some k) ?s2" using k by (simp add: sr_valid_def upd_search_def)
  ultimately have "storage (push_search (Some k) ?s2) = storage s" using push_search_storage L(1) by simp
  then show ?thesis using r Some s1 by (simp add: announce_reply_def)
qed

lemma handle_reply_storage:
  assumes "dht_inv_by z s" and "peer_ok from" and "length (p_id m) = 20" and r: "handle_reply cb from tid m s = Some s'"
  shows "storage s' = storage s"
  using r learn_storage(1) [OF assms(1-3)] nodes_reply_storage [OF assms(1-3)] announce_reply_storage [OF assms(1-3)]
  by (auto simp: handle_reply_def split: if_splits option.splits)

lemma send_storage [simp]: "storage (snd (send_built m flags sa s)) = storage s"
  by (simp add: snd_send_built)

lemma send_nodes_peers_storage [simp]: "storage (snd (send_nodes_peers sa tid nodes nodes6 af st token s)) = storage s"
  by (auto simp: send_nodes_peers_def c_random_def Let_def split: option.splits)

lemma send_closest_storage [simp]: "storage (snd (send_closest_nodes sa tid nid want af st token s)) = storage s"
  by (auto simp: send_closest_nodes_def Let_def split: option.splits)

lemma handle_get_peers_storage [simp]: "storage (handle_get_peers from tid m s) = storage s"
  by (auto simp: handle_get_peers_def send_error_def split: option.splits)

lemma handle_announce_peer_storage:
  "storage (handle_announce_peer from tid m s) =
     (if id_cmp (p_info_hash m) zeroes \<noteq> 0 \<and> token_match (p_token m) from s = Some True \<and> p_port m \<noteq> 0
      then storage (snd (storage_store (p_info_hash m) from (p_port m) s)) else storage s)"
  by (auto simp: handle_announce_peer_def send_error_def send_peer_announced_def split: option.splits bool.splits)

lemma token_match_learn:
  assumes "secret s' = secret s" and "oldsecret s' = oldsecret s" and "sha256 s' = sha256 s"
  shows "token_match tok sa s' = token_match tok sa s"
proof -
  have "make_token sa old s' = make_token sa old s" for old using assms by (intro make_token_cong) simp_all
  then show ?thesis unfolding token_match_def by (simp only:)
qed

text \<open>The storage changes only on an \<open>announce_peer\<close> request with a valid token, a hash and a port.\<close>

lemma handle_message_storage:
  assumes inv: "dht_inv_by z s" and fr: "peer_ok from" and m: "parse_message buf = Some m"
    and r: "handle_message cb from stk m s = Some s'" and ch: "storage s' \<noteq> storage s"
  shows "p_type m = ANNOUNCE_PEER" and "token_match (p_token m) from s = Some True" and "p_port m \<noteq> 0"
    and "id_cmp (p_info_hash m) zeroes \<noteq> 0"
proof -
  note nid = parse_message_bounds(1) [OF m]
  obtain s1 where s1: "learn (p_id m) from 1 s = Some s1" using learn_inv [OF inv fr nid] by metis
  note L = learn_storage [OF inv fr nid s1]
  show ty: "p_type m = ANNOUNCE_PEER"
  proof (rule ccontr)
    assume "p_type m \<noteq> ANNOUNCE_PEER"
    then have "storage s' = storage s"
      using r s1 L(1) handle_reply_storage [OF inv fr nid]
      by (cases "p_type m") (auto simp: handle_message_def Let_def send_pong_def)
    with ch show False ..
  qed
  have "s' = handle_announce_peer from (case p_tid m of Some t \<Rightarrow> t | None \<Rightarrow> take 16 stk) m s1"
    using r s1 ty by (simp add: handle_message_def Let_def)
  then show "token_match (p_token m) from s = Some True" "p_port m \<noteq> 0" "id_cmp (p_info_hash m) zeroes \<noteq> 0"
    using ch L(1) token_match_learn [OF L(4-6)] by (auto simp: handle_announce_peer_storage split: if_splits)
qed

section \<open>The rate limiter\<close>

lemma sint_of_int_small: "- (2 ^ 31) \<le> i \<Longrightarrow> i < 2 ^ 31 \<Longrightarrow> sint (of_int i :: 32 word) = i"
  by (simp add: signed_of_int signed_take_bit_int_eq_self)

text \<open>How many of \<open>n\<close> requests that arrive at the same time pass.\<close>

fun burst :: "nat \<Rightarrow> dht \<Rightarrow> nat" where
  "burst 0 s = 0"
| "burst (Suc n) s = (let (pass, s') = token_bucket s in (if pass then 1 else 0) + burst n s')"

lemma burst_bound:
  "0 \<le> token_bucket_tokens s \<Longrightarrow> token_bucket_time s \<le> now s \<Longrightarrow>
   int (burst n s) \<le> token_bucket_tokens s + min MAX_TOKEN_BUCKET_TOKENS (100 * (now s - token_bucket_time s))"
proof (induction n s rule: burst.induct)
  case (1 s)
  then show ?case by (simp add: MAX_TOKEN_BUCKET_TOKENS_def)
next
  case (2 n s)
  obtain pass s' where t: "token_bucket s = (pass, s')" by fastforce
  show ?case
  proof (cases "token_bucket_tokens s = 0")
    case False
    then have "pass" "token_bucket_tokens s' = token_bucket_tokens s - 1" "token_bucket_time s' = token_bucket_time s" "now s' = now s"
      using t by (auto simp: token_bucket_def)
    then show ?thesis using "2.IH" [OF t [symmetric] refl] "2.prems" False t by simp
  next
    case True
    define r where "r = min MAX_TOKEN_BUCKET_TOKENS (100 * (now s - token_bucket_time s))"
    have r: "0 \<le> r" using "2.prems"(2) by (simp add: r_def MAX_TOKEN_BUCKET_TOKENS_def)
    have w: "sint (of_int r :: 32 word) = r"
      using r by (intro sint_of_int_small) (simp_all add: r_def MAX_TOKEN_BUCKET_TOKENS_def)
    have f: "pass = (r \<noteq> 0)" "token_bucket_tokens s' = (if r = 0 then 0 else r - 1)" "token_bucket_time s' = now s" "now s' = now s"
      using t True unfolding token_bucket_def r_def [symmetric] Let_def w by (auto simp: r_def [symmetric] split: if_splits)
    have "int (burst n s') \<le> token_bucket_tokens s'"
      using "2.IH" [OF t [symmetric] refl] f r by (simp add: MAX_TOKEN_BUCKET_TOKENS_def split: if_splits)
    then show ?thesis unfolding r_def [symmetric] using f t True r by (auto split: if_splits)
  qed
qed

text \<open>With the clock set back the balance goes negative and every request passes.\<close>

lemma burst_negative: "token_bucket_tokens s < 0 \<Longrightarrow> burst n s = n"
  by (induction n s rule: burst.induct) (auto simp: token_bucket_def Let_def)

section \<open>Blacklisting\<close>

lemma memcmp_prefix: "memcmp (memcpy b sa) sa (length sa) = 0"
proof -
  have "memcmp_list xs xs = 0" for xs :: bytes by (induction xs) auto
  then show ?thesis by (simp add: memcmp_def)
qed

lemma blacklist_node_blacklists:
  assumes "blacklist_ok s"
  shows "node_blacklisted sa (blacklist_node nid sa s)"
proof -
  define s1 where "s1 = (case find_node nid (sa_family sa) s of None \<Rightarrow> s
    | Some (i, j) \<Rightarrow> pinged (sa_family sa) i j None (upd_node (sa_family sa) i j (\<lambda>n. n\<lparr>nd_pinged := 3\<rparr>) s))"
  have "rest s1 = rest s" by (auto simp: s1_def pinged_rest split: option.splits)
  then have bl: "blacklist s1 = blacklist s" "next_blacklisted s1 = next_blacklisted s" using rest_fields(5,6) by blast+
  have "blacklist (blacklist_node nid sa s) =
      (blacklist s)[next_blacklisted s := memcpy (blacklist s ! next_blacklisted s) sa]"
    by (simp add: blacklist_node_def s1_def [symmetric] bl Let_def)
  moreover have "next_blacklisted s < length (blacklist s)" using assms by (simp add: blacklist_ok_def)
  ultimately have "memcpy (blacklist s ! next_blacklisted s) sa \<in> set (blacklist (blacklist_node nid sa s))"
    by (simp add: set_update_memI)
  then show ?thesis using memcmp_prefix unfolding node_blacklisted_def by blast
qed

section \<open>When memory runs out\<close>

text \<open>A full bucket around our own id, all of whose nodes are good, and an unknown newcomer.\<close>

definition stuck :: "dht_id \<Rightarrow> bytes \<Rightarrow> dht \<Rightarrow> bool" where
  "stuck nid sa s =
     (let af = sa_family sa; bs = get_buckets af s; i = find_idx nid bs
      in bs \<noteq> [] \<and> id_cmp nid (myid s) \<noteq> 0 \<and> \<not> is_martian sa \<and> length sa \<le> SOCKADDR_STORAGE \<and>
         \<not> node_blacklisted sa s \<and> in_bucket (myid s) bs i \<and> bk_count (bs ! i) \<ge> 8 \<and>
         (\<forall>n\<in>set (bk_nodes (bs ! i)). node_good n s \<and> id_cmp (nd_id n) nid \<noteq> 0) \<and>
         bucket_middle bs i \<noteq> None \<and> (\<forall>k. \<not> mem_ok s k))"

text \<open>The state the recursion goes round with.\<close>

definition stuck_next :: "dht_id \<Rightarrow> bytes \<Rightarrow> dht \<Rightarrow> dht" where
  "stuck_next nid sa s =
     (let af = sa_family sa; s2 = grow_time af (in_bucket (myid s) (get_buckets af s) (find_idx nid (get_buckets af s))) s
      in s2\<lparr>mem_ok := (\<lambda>k. mem_ok s2 (Suc k))\<rparr>)"

lemma stuck_next_stuck: "stuck nid sa s \<Longrightarrow> stuck nid sa (stuck_next nid sa s)"
proof -
  assume st: "stuck nid sa s"
  let ?s = "stuck_next nid sa s"
  have f: "get_buckets af ?s = get_buckets af s" "myid ?s = myid s" "now ?s = now s" "blacklist ?s = blacklist s"
    "mem_ok ?s = (\<lambda>k. mem_ok s (Suc k))" for af
    by (simp_all add: stuck_next_def grow_time_def get_buckets_def Let_def)
  have "node_good n ?s = node_good n s" "node_blacklisted sa ?s = node_blacklisted sa s" for n
    by (simp_all add: node_good_def node_blacklisted_def f)
  then show ?thesis using st unfolding stuck_def f Let_def by simp
qed

lemma find_index_never: "\<forall>x\<in>set xs. \<not> P x \<Longrightarrow> find_index P xs = None"
  by (simp add: find_index_None)

lemma stuck_round:
  assumes st: "stuck nid sa s"
  defines "af \<equiv> sa_family sa" and "i \<equiv> find_idx nid (get_buckets (sa_family sa) s)"
  defines "s2 \<equiv> grow_time af (in_bucket (myid s) (get_buckets af s) i) s"
  shows "find_index (\<lambda>n. id_cmp (nd_id n) nid = 0) (bk_nodes (get_buckets af s ! i)) = None"
    and "find_index (\<lambda>n. nd_pinged n \<ge> 3 \<and> nd_pinged_time n < now s - 15) (bk_nodes (get_buckets af s ! i)) = None"
    and "ping_dubious af i s2 = (False, s2)" and "snd (split_bucket af i s2) = stuck_next nid sa s"
proof -
  have good: "\<forall>n\<in>set (bk_nodes (get_buckets af s ! i)). node_good n s \<and> id_cmp (nd_id n) nid \<noteq> 0"
    using st by (simp add: stuck_def af_def i_def Let_def)
  show "find_index (\<lambda>n. id_cmp (nd_id n) nid = 0) (bk_nodes (get_buckets af s ! i)) = None"
    using good by (intro find_index_never) auto
  show "find_index (\<lambda>n. nd_pinged n \<ge> 3 \<and> nd_pinged_time n < now s - 15) (bk_nodes (get_buckets af s ! i)) = None"
    using good by (intro find_index_never) (auto simp: node_good_def)
  have g2: "\<forall>n\<in>set (bk_nodes (get_buckets af s2 ! i)). node_good n s2"
    using good by (simp add: s2_def node_good_def) (simp add: grow_time_def)
  then have "find_index (\<lambda>n. \<not> node_good n s2 \<and> nd_pinged_time n < now s2 - 15) (bk_nodes (get_buckets af s2 ! i)) = None"
    by (intro find_index_never) auto
  then show "ping_dubious af i s2 = (False, s2)" using g2 by (simp add: ping_dubious_def Let_def)
  obtain m where "bucket_middle (get_buckets af s) i = Some m" using st by (auto simp: stuck_def af_def i_def Let_def)
  moreover have "\<not> mem_ok s 0" using st by (simp add: stuck_def Let_def)
  ultimately show "snd (split_bucket af i s2) = stuck_next nid sa s"
    by (simp add: split_bucket_def c_alloc_def s2_def stuck_next_def af_def i_def Let_def)
qed

lemma stuck_never_returns:
  assumes "stuck nid sa s" and "c \<noteq> 2"
  shows "new_node nid sa c s = None"
proof -
  have "stuck nid sa s \<longrightarrow> c \<noteq> 2 \<longrightarrow> False" if "new_node nid sa c s = Some r" for r
  proof (rule new_node.raw_induct [where P = "\<lambda>nid sa c s r. stuck nid sa s \<longrightarrow> c \<noteq> 2 \<longrightarrow> False", OF _ that], intro impI)
    fix f nid sa c s r
    assume IH: "\<And>nid sa c s r. f nid sa c s = Some r \<Longrightarrow> stuck nid sa s \<longrightarrow> c \<noteq> 2 \<longrightarrow> False"
      and body: "(let af = sa_family sa in case find_bucket nid af s of None \<Rightarrow> Some (False, s) | Some i \<Rightarrow>
        if id_cmp nid (myid s) = 0 then Some (False, s) else if is_martian sa then Some (False, s)
        else if length sa > SOCKADDR_STORAGE then Some (False, emit [Abort] s)
        else if node_blacklisted sa s then Some (False, s)
        else let mybucket = in_bucket (myid s) (get_buckets af s) i; s1 = touch_bucket af i c s; ns = bk_nodes (get_buckets af s1 ! i)
          in case find_index (\<lambda>n. id_cmp (nd_id n) nid = 0) ns of
               Some j \<Rightarrow> Some (True, upd_node af i j (refresh_node sa c s) s1)
             | None \<Rightarrow> let s2 = grow_time af mybucket s1
                 in case find_index (\<lambda>n. nd_pinged n \<ge> 3 \<and> nd_pinged_time n < now s - 15) ns of
                      Some j \<Rightarrow> Some (True, upd_node af i j (replace_node nid sa c s) s2)
                    | None \<Rightarrow> if bk_count (get_buckets af s2 ! i) \<ge> 8 then
                        (let (dubious, s3) = ping_dubious af i s2
                         in if split_wanted af i mybucket dubious s3 then f nid sa c (snd (split_bucket af i s3))
                            else Some (False, cache_candidate af i sa c s3))
                        else (let (ok, s3) = c_alloc s2
                              in if \<not> ok then Some (False, s3)
                                 else Some (True, upd_bucket af i (\<lambda>b. b\<lparr>bk_nodes := fresh_node nid sa c s # bk_nodes b,
                                        bk_count := bk_count b + 1\<rparr>) s3))) = Some r"
      and stuck: "stuck nid sa s" and c: "c \<noteq> 2"
    note R = stuck_round [OF stuck]
    have st: "get_buckets (sa_family sa) s \<noteq> []" "id_cmp nid (myid s) \<noteq> 0" "\<not> is_martian sa" "length sa \<le> SOCKADDR_STORAGE"
      "\<not> node_blacklisted sa s" "in_bucket (myid s) (get_buckets (sa_family sa) s) (find_idx nid (get_buckets (sa_family sa) s))"
      "bk_count (get_buckets (sa_family sa) s ! find_idx nid (get_buckets (sa_family sa) s)) \<ge> 8"
      using stuck by (simp_all add: stuck_def Let_def)
    have "f nid sa c (stuck_next nid sa s) = Some r"
      using body st R c by (simp add: find_bucket_def touch_bucket_def split_wanted_def Let_def)
    then show False using IH stuck_next_stuck [OF stuck] c by blast
  qed
  then show ?thesis using assms by (cases "new_node nid sa c s") auto
qed

text \<open>When the second bucket of \<open>dht_init\<close> cannot be allocated, the first one stays behind: every later
  \<open>dht_init\<close> finds the module busy and \<open>dht_uninit\<close> finds it not running.\<close>

lemma dht_init_wedged:
  fixes nid :: dht_id and v :: "bytes option" and t :: int
  assumes "dht_socket s < 0" and "dht_socket6 s < 0" and "buckets s = []" and "buckets6 s = []"
    and "0 \<le> sock" and "0 \<le> sock6" and "nb sock" and "mem_ok s 0" and "\<not> mem_ok s 1"
  defines "s' \<equiv> snd (dht_init sock sock6 nid v nb t s)"
  shows "fst (dht_init sock sock6 nid v nb t s) = - 1" and "dht_init a b nid' v' nb' t' s' = (- 1, s')"
    and "dht_uninit s' = (- 1, s')"
proof -
  have e: "dht_init sock sock6 nid v nb t s = (- 1, s\<lparr>searches := [], numsearches := 0, storage := [], numstorage := 0,
      mem_ok := (\<lambda>i. mem_ok s (i + 2)), buckets := [empty_bucket AF_INET]\<rparr>)"
    using assms by (simp add: dht_init_def init_family_def init_fail_def c_alloc_def set_buckets_def Let_def)
  show "fst (dht_init sock sock6 nid v nb t s) = - 1" by (simp add: e)
  have "buckets s' \<noteq> []" "dht_socket s' < 0" "dht_socket6 s' < 0" unfolding s'_def e using assms(1,2) by simp_all
  then show "dht_init a b nid' v' nb' t' s' = (- 1, s')" "dht_uninit s' = (- 1, s')"
    by (simp_all add: dht_init_def dht_uninit_def)
qed

end
