(* ===== verification/Dht_Theorems.thy ===== *)
theory Dht_Theorems
  imports Dht_Security
begin

text \<open>
  What the DHT of \<open>src/routing/dht.c\<close> guarantees, stated over the definitions of the
  component theories, with an instance of each statement on a concrete state.
\<close>

section \<open>A concrete state\<close>

definition sample_dht :: dht where
  "sample_dht =
     \<lparr>dht_socket = - 1, dht_socket6 = - 1, search_time = 0, confirm_nodes_time = 0, rotate_secrets_time = 0,
      myid = replicate 20 0, have_v = False, my_v = replicate 9 0, secret = replicate 8 0, oldsecret = replicate 8 0,
      buckets = [], buckets6 = [], storage = [], numstorage = 0, searches = [], numsearches = 0, search_id = 0,
      blacklist = replicate DHT_MAX_BLACKLISTED (replicate SOCKADDR_STORAGE 0), next_blacklisted = 0,
      now = 1000, mybucket_grow_time = 0, mybucket6_grow_time = 0, expire_stuff_time = 0,
      token_bucket_time = 0, token_bucket_tokens = 0,
      rng = (\<lambda>i. 7 * i + 3), mem_ok = (\<lambda>_. True), urandom = (\<lambda>_. \<lparr>ur_fd = 5, ur_reads = [], ur_more = of_nat\<rparr>),
      sendto_ret = (\<lambda>_. 0), sha256 = (\<lambda>m. Some (take 32 (m @ replicate 32 0))), trace = []\<rparr>"

definition sample_run :: dht where
  "sample_run = snd (dht_init 3 4 (replicate 20 1) None (\<lambda>_. True) 1000 sample_dht)"

definition sample_addr :: bytes where
  "sample_addr = mk_sockaddr_in [10, 0, 0, 1] [0x1A, 0xE1]"

lemma sample_static: "dht_static sample_dht"
  by (auto simp: dht_static_def sample_dht_def mem_fair_def)

lemma sample_run_steps: "dht_step\<^sup>*\<^sup>* sample_dht sample_run"
  unfolding sample_run_def by (rule r_into_rtranclp, rule dht_step.Init) simp

lemma sample_run_inv: "dht_inv sample_run"
proof -
  have "dht_inv sample_dht"
    by (auto simp: sample_dht_def dht_inv_by_def tables_inv_def table_inv_def storage_inv_by_def searches_inv_by_def
        blacklist_ok_def mem_fair_def alive_def DHT_MAX_HASHES_def DHT_MAX_SEARCHES_def DHT_MAX_BLACKLISTED_def)
  from this dht_init_inv [OF this, of "replicate 20 1" 3 4 None "\<lambda>_. True" 1000] show ?thesis
    by (simp add: sample_run_def) metis
qed

lemma sample_stop_steps: "dht_step\<^sup>*\<^sup>* sample_dht (snd (dht_uninit sample_run))"
  using sample_run_steps dht_step.Stop by (rule rtranclp.rtrancl_into_rtrancl)

lemma sample_peer: "peer_ok sample_addr"
  by (simp add: peer_ok_def addr_ok_def valid_af_def sample_addr_def length_mk SOCKADDR_STORAGE_def)

text \<open>A state with one empty IPv4 bucket over the whole identifier space.\<close>

definition sample_table :: dht where
  "sample_table = sample_dht\<lparr>buckets := [empty_bucket AF_INET], dht_socket := 3\<rparr>"

lemma sample_table_inv: "dht_inv sample_table"
proof -
  have "table_inv AF_INET [empty_bucket AF_INET]" by (rule empty_bucket_inv) (simp add: valid_af_def)
  then show ?thesis
    by (auto simp: sample_table_def sample_dht_def dht_inv_by_def tables_inv_def table_inv_def storage_inv_by_def searches_inv_by_def
        blacklist_ok_def mem_fair_def alive_def DHT_MAX_HASHES_def DHT_MAX_SEARCHES_def DHT_MAX_BLACKLISTED_def)
qed

lemma sample_table_block: "get_buckets AF_INET sample_table = [empty_bucket AF_INET]"
  "blo [empty_bucket AF_INET] 0 = 0" "bhi [empty_bucket AF_INET] 0 = id_space"
proof -
  have "be_val (replicate n 0) = 0" for n by (induction n) simp_all
  then show "blo [empty_bucket AF_INET] 0 = 0" by (simp add: blo_def empty_bucket_def)
qed (simp_all add: get_buckets_def sample_table_def bhi_def)

lemma sample_table_mem: "mem_ok sample_table k"
  by (simp add: sample_table_def sample_dht_def)

section \<open>Safety of the whole DHT\<close>

text \<open>C1. From the static initial state, in which memory may be refused, though not forever, whatever sequence of starts (\<open>dht_init\<close>), stops
  (\<open>dht_uninit\<close>), calls of \<open>dht_periodic\<close> with any message from a well-formed address or none, searches in one of the two families, insertions and pings of nodes with well-formed
  addresses is run, also while the module is stopped: the two routing tables keep their invariant (the buckets partition the
  identifier space, nodes sit in their bucket, at most 8 per bucket), storage and searches stay within
  their bounds, and the process neither calls \<open>abort()\<close> nor dereferences NULL. The counters of hashes and of searches are never behind the lists, and equal to
  their lengths whenever a socket is open; after a stop they are ahead, by what was freed.\<close>

theorem dht_reachable_safe:
  assumes "dht_static s" and "dht_step\<^sup>*\<^sup>* s s'"
  shows "tables_inv s' \<and> (\<exists>lost. storage_inv_by lost s') \<and> (\<exists>lost. searches_inv_by lost s') \<and> blacklist_ok s' \<and> alive s' \<and>
    (dht_socket s' \<ge> 0 \<or> dht_socket6 s' \<ge> 0 \<longrightarrow> storage_inv s' \<and> searches_inv s')"
  using dht_machine.reachable_inv [OF assms] by (auto simp: dht_safe_def dht_inv_by_def)

theorem dht_reachable_safe_witness:
  "dht_static sample_dht \<and> dht_step\<^sup>*\<^sup>* sample_dht sample_run \<and> dht_step\<^sup>*\<^sup>* sample_dht (snd (dht_uninit sample_run)) \<and>
   tables_inv sample_run \<and> alive sample_run \<and> alive (snd (dht_uninit sample_run))"
  using dht_reachable_safe [OF sample_static sample_run_steps] dht_reachable_safe [OF sample_static sample_stop_steps]
    sample_static sample_run_steps sample_stop_steps by simp

text \<open>C2. \<open>dht_periodic\<close> returns on every message whatsoever from a well-formed address, and on a timeout,
  as long as memory allocation does not fail for ever; it leaves a state with the invariant.\<close>

theorem dht_periodic_returns:
  assumes "dht_inv s" and "buflen = 0 \<or> peer_ok from"
  shows "\<exists>rc sl s'. dht_periodic mem buflen from cb stk t s = Some (rc, sl, s') \<and> dht_inv s'"
  using dht_periodic_inv [OF assms] .

theorem dht_periodic_returns_witness:
  "dht_inv sample_run \<and> peer_ok sample_addr \<and>
   (\<exists>rc sl s'. dht_periodic (bstr ''d1:ad2:id20:abcdefghij0123456789e1:q4:ping1:t2:aa1:y1:qe'' @ [0]) 56
      sample_addr True [] 1001 sample_run = Some (rc, sl, s') \<and> dht_inv s')"
  using dht_periodic_returns [OF sample_run_inv disjI2 [OF sample_peer]] sample_run_inv sample_peer by blast

section \<open>The routing table\<close>

text \<open>C3. On well-formed tables, with memory that may be refused but not forever, \<open>new_node\<close> returns for a well-formed address and an identifier of 20 bytes. It keeps the table
  invariant and, outside the buckets, changes nothing but the times of the last growth, the allocations and the packets it
  has asked for; when it reports success, the node can be found in the table. Where memory is refused forever it need not return.\<close>

theorem new_node_returns:
  assumes "tables_inv s" and "mem_fair s" and "addr_ok sa" and "length nid = 20"
  shows "\<exists>ok s'. new_node nid sa confirm s = Some (ok, s') \<and> tables_inv s' \<and> rest s' = rest s \<and>
    (ok \<longrightarrow> find_node nid (sa_family sa) s' \<noteq> None)"
  using new_node_keeps [OF assms, of confirm] by (auto simp: keeps_def)

theorem new_node_returns_witness:
  "tables_inv sample_table \<and> mem_fair sample_table \<and> addr_ok sample_addr \<and>
   (\<exists>ok s'. new_node (replicate 20 5) sample_addr 2 sample_table = Some (ok, s') \<and> tables_inv s')"
  using new_node_returns [of sample_table sample_addr "replicate 20 5" 2] sample_table_inv peer_okD(1) [OF sample_peer]
  by (auto simp: dht_inv_by_def)

text \<open>\<open>find_bucket\<close> finds the one bucket whose range contains the identifier.\<close>

theorem find_bucket_correct:
  assumes "tables_inv s" and "valid_af af" and "length nid = 20" and "get_buckets af s \<noteq> []"
  shows "\<exists>!i. i < length (get_buckets af s) \<and> find_bucket nid af s = Some i \<and>
    blo (get_buckets af s) i \<le> be_val nid \<and> be_val nid < bhi (get_buckets af s) i"
  using find_idx_block [OF tables_invD(1) [OF assms(1,2)] assms(4,3)] assms(4) by (auto simp: find_bucket_def)

theorem find_bucket_correct_witness:
  "tables_inv sample_table \<and> get_buckets AF_INET sample_table \<noteq> [] \<and>
   (\<exists>!i. i < length (get_buckets AF_INET sample_table) \<and> find_bucket (replicate 20 5) AF_INET sample_table = Some i \<and>
     blo (get_buckets AF_INET sample_table) i \<le> be_val (replicate 20 5) \<and>
     be_val (replicate 20 5) < bhi (get_buckets AF_INET sample_table) i)"
  using find_bucket_correct [of sample_table AF_INET "replicate 20 5"] sample_table_inv
  by (simp add: dht_inv_by_def valid_af_def sample_table_block)

text \<open>Splitting a bucket with more than one identifier in range succeeds when memory is available: one
  bucket more, the invariant kept, and the block around every identifier of the bucket halved.\<close>

theorem split_bucket_correct:
  assumes "tables_inv s" and "valid_af af" and "i < length (get_buckets af s)"
    and "1 < bhi (get_buckets af s) i - blo (get_buckets af s) i" and "mem_ok s 0"
  shows "fst (split_bucket af i s) \<and> tables_inv (snd (split_bucket af i s)) \<and>
    length (get_buckets af (snd (split_bucket af i s))) = Suc (length (get_buckets af s)) \<and>
    (\<forall>nid. length nid = 20 \<and> in_bucket nid (get_buckets af s) i \<longrightarrow>
       2 * id_width nid (get_buckets af (snd (split_bucket af i s))) = id_width nid (get_buckets af s))"
  using split_bucket_halves [OF assms] by blast

theorem split_bucket_correct_witness:
  "tables_inv sample_table \<and> mem_ok sample_table 0 \<and> fst (split_bucket AF_INET 0 sample_table) \<and>
   length (get_buckets AF_INET (snd (split_bucket AF_INET 0 sample_table))) = 2"
  using split_bucket_correct [of sample_table AF_INET 0] sample_table_inv
  by (simp add: dht_inv_by_def valid_af_def sample_table_block id_space_def sample_table_mem)

text \<open>Expiry drops exactly the nodes with four or more unanswered pings, and keeps the invariant.\<close>

theorem expire_buckets_correct:
  assumes "tables_inv s" and "valid_af af"
  shows "tables_inv (expire_buckets af s) \<and>
    map bk_nodes (get_buckets af (expire_buckets af s)) =
      map (filter (\<lambda>n. nd_pinged n < 4) \<circ> bk_nodes) (get_buckets af s)"
  using expire_buckets_keeps(1) [OF assms] expire_buckets_nodes by blast

theorem expire_buckets_correct_witness:
  "tables_inv sample_table \<and> map bk_nodes (get_buckets AF_INET (expire_buckets AF_INET sample_table)) = [[]]"
  using expire_buckets_correct [of sample_table AF_INET] sample_table_inv
  by (simp add: dht_inv_by_def valid_af_def sample_table_block empty_bucket_def)

section \<open>Nearest nodes\<close>

text \<open>C11. \<open>xorcmp\<close> compares two identifiers by their XOR distance to a third, and equal distances mean
  equal identifiers.\<close>

theorem xorcmp_metric:
  assumes "length a = 20" and "length b = 20" and "length r = 20"
  shows "xorcmp a b r = sgn (int (xdist a r) - int (xdist b r)) \<and> (xdist a r = xdist b r \<longleftrightarrow> a = b)"
  using xorcmp_xdist [OF assms] xdist_inject [OF assms] by blast

theorem xorcmp_metric_witness:
  "xorcmp (replicate 20 1) (replicate 20 2) (replicate 20 3) =
   sgn (int (xdist (replicate 20 1) (replicate 20 3)) - int (xdist (replicate 20 2) (replicate 20 3)))"
  using xorcmp_metric [of "replicate 20 1" "replicate 20 2" "replicate 20 3"] by simp

text \<open>\<open>common_bits\<close> is the length of the longest common prefix of two identifiers.\<close>

theorem common_bits_correct:
  "common_bits a b \<le> 160 \<and> (\<forall>k < common_bits a b. id_bit a k = id_bit b k) \<and>
   (common_bits a b < 160 \<longrightarrow> id_bit a (common_bits a b) \<noteq> id_bit b (common_bits a b))"
  by (rule common_bits_char)

theorem common_bits_correct_witness: "common_bits [1] [3] = 6 \<and> id_bit [1] 6 \<noteq> id_bit [3] 6"
proof -
  have "common_bits [1] [3] = 6" by code_simp
  then show ?thesis using common_bits_correct [of "[1]" "[3]"] by auto
qed

text \<open>C12. Offering any sequence of candidates to a search, in any order and with repetitions, leaves the
  14 nearest to the target among them and the nodes it had, in order of increasing distance. (The comment on \<open>insert_search_node\<close> says decreasing
  distance: the code stops at the first node that is farther than the candidate, as the theorem has it.)\<close>

theorem search_keeps_nearest:
  assumes "search_ok sr" and "\<forall>c\<in>set cs. cand_ok sr c"
    and "map (\<lambda>n. xdist (sn_id n) (sr_id sr)) (sr_nodes sr) = take SEARCH_NODES (sorted_list_of_set D)" and "finite D"
  shows "map (\<lambda>n. xdist (sn_id n) (sr_id sr))
      (sr_nodes (fold (\<lambda>(nid, sa, r, tok) sr. snd (insert_search_node nid sa sr r tok t)) cs sr)) =
    take SEARCH_NODES (sorted_list_of_set (D \<union> (\<lambda>c. xdist (fst c) (sr_id sr)) ` set cs))"
proof -
  have "sr_nodes (fold (\<lambda>(nid, sa, r, tok) sr. snd (insert_search_node nid sa sr r tok t)) cs sr') =
      fold (sn_insert sr t) cs (sr_nodes sr')" if "sr_id sr' = sr_id sr" "sr_af sr' = sr_af sr" for sr'
    using that
  proof (induction cs arbitrary: sr')
    case (Cons c cs)
    obtain nid sa r tok where c: "c = (nid, sa, r, tok)" by (cases c)
    have "sn_insert sr' t c ns = sn_insert sr t c ns" for ns
      using Cons.prems by (simp add: c sn_insert_def insert_search_node_def Let_def split_beta)
    with Cons show ?case by (simp add: c insert_search_node_frame insert_search_node_nodes)
  qed simp
  moreover have "near.ordered sr (sr_nodes sr)" using assms(1) by (simp add: search_ok_ordered)
  ultimately show ?thesis using near.fold_nearest [OF assms(2) _ assms(4,3)] by simp
qed

definition sample_search :: search where
  "sample_search = \<lparr>sr_tid = 1, sr_af = AF_INET, sr_step_time = 0, sr_id = replicate 20 0, sr_port = 0, sr_done = False, sr_nodes = []\<rparr>"

theorem search_keeps_nearest_witness:
  "search_ok sample_search \<and> cand_ok sample_search (replicate 20 9, sample_addr, False, None) \<and>
   length (sr_nodes (snd (insert_search_node (replicate 20 9) sample_addr sample_search False None 5))) = 1"
proof -
  have ok: "search_ok sample_search" by (simp add: search_ok_def sample_search_def valid_af_def)
  have c: "cand_ok sample_search (replicate 20 9, sample_addr, False, None)"
    using peer_okD(2,4) [OF sample_peer] by (simp add: cand_ok_def sample_search_def sample_addr_def)
  have "map (\<lambda>n. xdist (sn_id n) (sr_id sample_search))
      (sr_nodes (snd (insert_search_node (replicate 20 9) sample_addr sample_search False None 5))) =
      [xdist (replicate 20 9) (sr_id sample_search)]"
    using search_keeps_nearest [of sample_search "[(replicate 20 9, sample_addr, False, None)]" "{}" 5] ok c
    by (simp add: sample_search_def SEARCH_NODES_def)
  then show ?thesis using ok c by (metis length_map length_Cons list.size(3) One_nat_def)
qed

text \<open>C13. The node list of an answer holds the (at most 8) nearest of the good nodes in the bucket of the
  identifier and the two neighbouring buckets, each as a compact entry of the right size.\<close>

theorem closest_nodes_correct:
  assumes "tables_inv s" and "valid_af af" and "length nid = 20"
  shows "\<exists>es. closest_nodes nid af s = Some es \<and> length es \<le> 8 \<and> (\<forall>e\<in>set es. info_ok af e) \<and>
    map (\<lambda>e. xdist (take 20 e) nid) es =
      take 8 (sorted_list_of_set ((\<lambda>n. xdist (nd_id n) nid) ` set (filter (\<lambda>n. node_good n s) (neighbourhood nid af s))))"
  using closest_nodes_nearest [OF assms] by metis

theorem closest_nodes_correct_witness:
  "tables_inv sample_table \<and> (\<exists>es. closest_nodes (replicate 20 5) AF_INET sample_table = Some es \<and> length es \<le> 8)"
  using closest_nodes_correct [of sample_table AF_INET "replicate 20 5"] sample_table_inv
  by (auto simp: dht_inv_by_def valid_af_def)

section \<open>Stored peers and tokens\<close>

text \<open>\<open>storage_store\<close> refines a finite map from info-hash, address and port to the time of the last
  announcement: 1 adds an entry, 0 refreshes one or finds all 2048 places of the hash taken, -1 changes
  nothing; the bounds on hashes and peers are kept.\<close>

theorem storage_store_correct:
  assumes "storage_inv s" and "length nid = 20" and "sa_ip sa = Some ip"
  shows "storage_inv (snd (storage_store nid sa port s)) \<and>
    store_outcome (nid, ip, port) s (fst (storage_store nid sa port s)) (snd (storage_store nid sa port s))"
  using storage_store_refines [OF assms] .

theorem storage_store_correct_witness:
  "storage_inv sample_table \<and> sa_ip sample_addr = Some [10, 0, 0, 1] \<and>
   store_outcome (replicate 20 9, [10, 0, 0, 1], 6881) sample_table
     (fst (storage_store (replicate 20 9) sample_addr 6881 sample_table))
     (snd (storage_store (replicate 20 9) sample_addr 6881 sample_table))"
proof -
  have "sin_addr sample_addr = [10, 0, 0, 1]" by code_simp
  then have "sa_ip sample_addr = Some [10, 0, 0, 1]" by (simp add: sa_ip_def sample_addr_def)
  then show ?thesis using storage_store_correct [of sample_table "replicate 20 9" sample_addr] sample_table_inv
    by (simp add: dht_inv_by_def)
qed

text \<open>Expiry of the storage removes exactly the peers not announced for 32 minutes, and drops the hashes
  that have none left.\<close>

theorem expire_storage_correct:
  assumes "storage_inv s"
  shows "storage_inv (expire_storage s) \<and> (\<forall>st\<in>set (storage (expire_storage s)). st_peers st \<noteq> []) \<and>
    storage_abs (expire_storage s) q =
      (case storage_abs s q of Some u \<Rightarrow> if u < now s - 32 * 60 then None else Some u | None \<Rightarrow> None)"
  using expire_storage_spec(1,3) [OF assms] expire_storage_spec(2) [OF assms, of q] unfolding unexpired_def by blast

definition sample_peers :: dht where
  "sample_peers = sample_table\<lparr>now := 5000, numstorage := 1, storage := [\<lparr>st_id = replicate 20 9, st_maxpeers = 2,
     st_peers = [\<lparr>pr_time = 10, pr_ip = [10, 0, 0, 1], pr_port = 1\<rparr>, \<lparr>pr_time = 4900, pr_ip = [10, 0, 0, 2], pr_port = 2\<rparr>]\<rparr>]\<rparr>"

theorem expire_storage_correct_witness:
  "storage_inv sample_peers \<and> storage_abs (expire_storage sample_peers) (replicate 20 9, [10, 0, 0, 1], 1) = None \<and>
   storage_abs (expire_storage sample_peers) (replicate 20 9, [10, 0, 0, 2], 2) = Some 4900"
proof -
  have i: "storage_inv sample_peers"
    by (simp add: storage_inv_by_def sample_peers_def storage_ok_def DHT_MAX_PEERS_def DHT_MAX_HASHES_def peer_key_def)
  have v: "storage_abs sample_peers (replicate 20 9, [10, 0, 0, 1], 1) = Some 10"
    "storage_abs sample_peers (replicate 20 9, [10, 0, 0, 2], 2) = Some 4900" "now sample_peers = 5000"
    by (simp_all add: storage_abs_def sample_peers_def peer_map_def peer_key_def)
  show ?thesis
    using expire_storage_correct [OF i, of "(replicate 20 9, [10, 0, 0, 1], 1)"]
      expire_storage_correct [OF i, of "(replicate 20 9, [10, 0, 0, 2], 2)"] i v by simp
qed

text \<open>A token handed out to an address is accepted from it now and after the next rotation of the
  secrets, and what \<open>token_match\<close> accepts is exactly the tokens of the current and the previous secret.\<close>

theorem token_round_trip:
  assumes "\<forall>m. map_option length (sha256 s m) = Some 32" and "valid_af (sa_family sa)" and "make_token sa False s = Some tok"
  shows "token_match tok sa s = Some True \<and> token_match tok sa (snd (rotate_secrets s)) = Some True \<and>
    (\<forall>tok'. token_match tok' sa s = Some True \<longleftrightarrow> make_token sa False s = Some tok' \<or> make_token sa True s = Some tok')"
proof -
  let ?r = "snd (rotate_secrets s)"
  have "make_token sa True ?r = make_token sa False s" by (rule make_token_cong) (simp_all add: rotate_secrets_frame)
  moreover have "\<forall>m. map_option length (sha256 ?r m) = Some 32" using assms(1) by (simp add: rotate_secrets_frame)
  ultimately show ?thesis using token_match_iff(1) [OF assms(1,2)] token_match_iff(1) [of ?r sa] assms by simp
qed

theorem token_round_trip_witness:
  "\<exists>tok. make_token sample_addr False sample_table = Some tok \<and> token_match tok sample_addr sample_table = Some True \<and>
     token_match tok sample_addr (snd (rotate_secrets sample_table)) = Some True"
proof -
  have sha: "\<forall>m. map_option length (sha256 sample_table m) = Some 32" by (simp add: sample_table_def sample_dht_def min_def)
  have v: "valid_af (sa_family sample_addr)" using sample_peer by (rule peer_okD)
  then obtain tok where "make_token sample_addr False sample_table = Some tok" by (auto simp: make_token_def sa_ip_def valid_af_def)
  then show ?thesis using token_round_trip [OF sha v] by blast
qed

text \<open>C14. A message changes the stored peers only if it is an \<open>announce_peer\<close> request that carries a token
  made for its sender, a non-zero info-hash and a non-zero port.\<close>

theorem storage_needs_token:
  assumes "dht_inv s" and "peer_ok from" and "parse_message buf = Some m"
    and "handle_message cb from stk m s = Some s'"
  shows "storage s' = storage s \<or>
    p_type m = ANNOUNCE_PEER \<and> token_match (p_token m) from s = Some True \<and> p_port m \<noteq> 0 \<and>
    id_cmp (p_info_hash m) zeroes \<noteq> 0"
  using handle_message_storage [OF assms] by blast

definition sample_ping :: bytes where
  "sample_ping = bstr ''d1:ad2:id20:abcdefghij0123456789e1:q4:ping1:t2:aa1:y1:qe''"

lemma sample_ping_parsed: "map_option p_type (parse_message sample_ping) = Some PING"
  by code_simp

theorem storage_needs_token_witness:
  "\<exists>m s'. parse_message sample_ping = Some m \<and> handle_message True sample_addr [] m sample_run = Some s' \<and>
     storage s' = storage sample_run"
proof -
  obtain m where m: "parse_message sample_ping = Some m" "p_type m = PING" using sample_ping_parsed by auto
  obtain s' where s': "handle_message True sample_addr [] m sample_run = Some s'"
    using handle_message_inv [OF sample_run_inv sample_peer m(1)] by blast
  show ?thesis using storage_needs_token [OF sample_run_inv sample_peer m(1) s'] m s' by auto
qed

section \<open>Hostile peers\<close>

text \<open>C15. Whatever bytes arrive, a message that parses fits the fixed buffers of \<open>dht_periodic\<close>: the
  transaction id 16 bytes, the token 128, the node lists 16 entries, the values 2048 bytes.\<close>

theorem parse_message_fits:
  assumes "parse_message buf = Some m"
  shows "length (p_id m) = 20 \<and> length (p_info_hash m) = 20 \<and> length (p_target m) = 20 \<and>
    (\<forall>t. p_tid m = Some t \<longrightarrow> length t < 16) \<and> length (p_token m) < 128 \<and>
    length (p_nodes m) \<le> 26 * 16 \<and> length (p_nodes6 m) \<le> 38 * 16 \<and>
    length (p_values m) \<le> 2048 \<and> length (p_values6 m) \<le> 2048"
  using parse_message_bounds [OF assms] by simp

theorem parse_message_fits_witness:
  "\<exists>m. parse_message sample_ping = Some m \<and> length (p_id m) = 20 \<and> length (p_nodes m) \<le> 26 * 16"
proof -
  obtain m where m: "parse_message sample_ping = Some m" using sample_ping_parsed by auto
  then show ?thesis using parse_message_fits [OF m] by blast
qed

text \<open>Of any number of requests that arrive at one moment, at most the tokens left plus one refill
  (400, or 100 for each second since the last) pass the rate limiter.\<close>

theorem rate_limit_bound:
  assumes "0 \<le> token_bucket_tokens s" and "token_bucket_time s \<le> now s"
  shows "int (burst n s) \<le> token_bucket_tokens s + min 400 (100 * (now s - token_bucket_time s))"
  using burst_bound [OF assms, of n] by (simp add: MAX_TOKEN_BUCKET_TOKENS_def)

theorem rate_limit_bound_witness: "int (burst 10000 sample_dht) \<le> 400"
  using rate_limit_bound [of sample_dht 10000] by (simp add: sample_dht_def)

text \<open>When the clock is set back behind the last refill and the tokens are used up, the balance goes
  negative and the limiter lets every further request pass (up to 248 days back; then the product no longer fits an \<open>int\<close>).\<close>

theorem rate_limit_clock_back:
  assumes "token_bucket_tokens s = 0" and "now s < token_bucket_time s" and "100 * (token_bucket_time s - now s) \<le> 2 ^ 31"
  shows "burst n s = n"
proof (cases n)
  case (Suc m)
  define r where "r = min MAX_TOKEN_BUCKET_TOKENS (100 * (now s - token_bucket_time s))"
  have r: "r < 0" "- (2 ^ 31) \<le> r" using assms by (auto simp: r_def MAX_TOKEN_BUCKET_TOKENS_def)
  have w: "sint (of_int r :: 32 word) = r"
    using r by (intro sint_of_int_small) simp_all
  have "fst (token_bucket s)" "token_bucket_tokens (snd (token_bucket s)) < 0"
    using assms r unfolding token_bucket_def r_def [symmetric] Let_def w by auto
  then show ?thesis using Suc burst_negative by (simp add: split_beta Let_def)
qed simp

theorem rate_limit_clock_back_witness: "burst 10000 (sample_dht\<lparr>token_bucket_time := 2000\<rparr>) = 10000"
  using rate_limit_clock_back [of "sample_dht\<lparr>token_bucket_time := 2000\<rparr>" 10000] by (simp add: sample_dht_def)

text \<open>Once an address is blacklisted, its packets are dropped without any effect and nothing is sent
  to it.\<close>

theorem blacklisted_is_ignored:
  assumes "blacklist_ok s" and "length sa \<le> SOCKADDR_STORAGE" and "0 < length sa"
  shows "dht_receive cb mem n sa stk (blacklist_node nid sa s) = Some (True, blacklist_node nid sa s) \<and>
    snd (dht_send buf flags sa (blacklist_node nid sa s)) = blacklist_node nid sa s"
  using blacklist_node_blacklists [OF assms(1), of sa nid] assms(2,3) by (simp add: dht_receive_def dht_send_def)

theorem blacklisted_is_ignored_witness:
  "dht_receive True sample_ping 56 sample_addr [] (blacklist_node (replicate 20 5) sample_addr sample_run) =
     Some (True, blacklist_node (replicate 20 5) sample_addr sample_run)"
  using blacklisted_is_ignored [of sample_run sample_addr True sample_ping 56 "[]" "replicate 20 5"] sample_run_inv peer_okD(2,3) [OF sample_peer]
  by (simp add: dht_inv_by_def)

section \<open>Allocation failures\<close>

text \<open>C16. A newcomer to the full bucket of good nodes around our own id makes \<open>new_node\<close> recurse for ever
  when the new bucket cannot be allocated: the failure of \<open>split_bucket\<close> is not checked.\<close>

theorem new_node_livelock:
  assumes "stuck nid sa s" and "confirm \<noteq> 2"
  shows "new_node nid sa confirm s = None"
  using stuck_never_returns [OF assms] .

definition sample_stuck :: dht where
  "sample_stuck = sample_dht\<lparr>mem_ok := (\<lambda>_. False), buckets := [(empty_bucket AF_INET)\<lparr>bk_count := 8,
     bk_nodes := map (\<lambda>k. \<lparr>nd_id = replicate 20 (of_nat k), nd_ss = memcpy (replicate 128 0) sample_addr, nd_sslen = 16,
       nd_time = 1000, nd_reply_time = 1000, nd_pinged_time = 0, nd_pinged = 0\<rparr>) [1..<9]\<rparr>]\<rparr>"

lemma sample_stuck_ok: "stuck (replicate 20 100) sample_addr sample_stuck"
proof -
  have b: "get_buckets AF_INET sample_stuck = buckets sample_stuck" by (simp add: get_buckets_def)
  have f: "sa_family sample_addr = AF_INET" by (simp add: sample_addr_def)
  have "\<forall>k. \<not> mem_ok sample_stuck k" by (simp add: sample_stuck_def)
  moreover have "let bs = buckets sample_stuck; i = find_idx (replicate 20 100) bs
      in bs \<noteq> [] \<and> id_cmp (replicate 20 100) (myid sample_stuck) \<noteq> 0 \<and> \<not> is_martian sample_addr \<and>
         length sample_addr \<le> SOCKADDR_STORAGE \<and> \<not> node_blacklisted sample_addr sample_stuck \<and>
         in_bucket (myid sample_stuck) bs i \<and> bk_count (bs ! i) \<ge> 8 \<and>
         (\<forall>n\<in>set (bk_nodes (bs ! i)). node_good n sample_stuck \<and> id_cmp (nd_id n) (replicate 20 100) \<noteq> 0) \<and>
         \<not> Option.is_none (bucket_middle bs i)"
    by code_simp
  ultimately show ?thesis unfolding stuck_def f Let_def b Option.is_none_def by blast
qed

theorem new_node_livelock_witness: "new_node (replicate 20 100) sample_addr 1 sample_stuck = None"
  using new_node_livelock [OF sample_stuck_ok, of 1] by simp

text \<open>If the IPv6 bucket cannot be allocated, \<open>dht_init\<close> fails but leaves the IPv4 bucket behind; from
  then on every \<open>dht_init\<close> fails as busy and \<open>dht_uninit\<close> as not running.\<close>

theorem dht_init_wedges:
  assumes "dht_socket s < 0" and "dht_socket6 s < 0" and "buckets s = []" and "buckets6 s = []"
    and "0 \<le> sock" and "0 \<le> sock6" and "nb sock" and "mem_ok s 0" and "\<not> mem_ok s 1"
  shows "fst (dht_init sock sock6 nid v nb t s) = - 1 \<and>
    (let s' = snd (dht_init sock sock6 nid v nb t s)
     in dht_init a b nid' v' nb' t' s' = (- 1, s') \<and> dht_uninit s' = (- 1, s'))"
  using dht_init_wedged [where s = s and sock = sock and ?sock6.0 = sock6 and nb = nb, OF assms] unfolding Let_def by blast

theorem dht_init_wedges_witness:
  "let s = sample_dht\<lparr>mem_ok := (\<lambda>k. k = 0)\<rparr>; s' = snd (dht_init 3 4 (replicate 20 1) None (\<lambda>_. True) 1000 s)
   in dht_init 3 4 (replicate 20 1) None (\<lambda>_. True) 1001 s' = (- 1, s')"
  using dht_init_wedges [of "sample_dht\<lparr>mem_ok := (\<lambda>k. k = 0)\<rparr>" 3 4 "\<lambda>_. True" "replicate 20 1" None 1000
      3 4 "replicate 20 1" None "\<lambda>_. True" 1001]
  by (simp add: Let_def sample_dht_def)

end
