(* ===== verification/Stream_V2.thy ===== *)
theory Stream_V2
  imports Prelude "HOL-Library.Monad_Syntax"
begin

text \<open>
  The stream interface of the second-generation stack (\<open>src/v2/include/libp2p/net/tcp.h\<close>):
  a \<open>struct Libp2pV2Stream\<close> is a context and three function pointers, here a record of
  three functions on a context of type \<open>'s\<close>. Every operation returns an option: \<open>None\<close>
  means that the call does not return. A read that returns gives \<open>None\<close> for a negative
  result and the bytes otherwise; a write gives its \<open>ssize_t\<close>.

  The contract of a stream is the locale \<open>v2_duplex\<close>: the client sees the bytes of
  the peer in order and without gaps, and the peer those written. The loops that the clients
  share are proved here once, against the contract.
\<close>

record 's v2stream =
  v2_read :: "'s \<Rightarrow> nat \<Rightarrow> (bytes option \<times> 's) option"
  v2_write :: "'s \<Rightarrow> bytes \<Rightarrow> (int \<times> 's) option"
  v2_close :: "'s \<Rightarrow> 's"

text \<open>The loop that reads exactly \<open>n\<close> bytes, as \<open>yamux_read_full\<close> and the body of
  \<open>read_length_prefixed_msg\<close> have it.\<close>

function read_loop :: "'s v2stream \<Rightarrow> nat \<Rightarrow> bytes \<Rightarrow> 's \<Rightarrow> (bytes option \<times> 's) option" where
  "read_loop io n acc st =
     (if n = 0 then Some (Some acc, st)
      else case v2_read io st n of
             None \<Rightarrow> None
           | Some (None, st1) \<Rightarrow> Some (None, st1)
           | Some (Some bs, st1) \<Rightarrow>
               if bs = [] then Some (None, st1)
               else read_loop io (n - length bs) (acc @ bs) st1)"
  by pat_completeness auto
termination
  by (relation "measure (\<lambda>(io, n, acc, st). n)") (auto simp: neq_Nil_conv)

declare read_loop.simps [simp del]

lemma read_loop_0 [simp]: "read_loop io 0 acc st = Some (Some acc, st)"
  by (simp add: read_loop.simps)

section \<open>The contract\<close>

text \<open>A stream in a healthy state (\<open>ready\<close>) hands out the peer's bytes (\<open>avail\<close>) in order,
  as much as it likes at a time, and takes what there is room for.\<close>

locale v2_live =
  fixes io :: "'s v2stream" and avail sent :: "'s \<Rightarrow> bytes"
    and ready :: "'s \<Rightarrow> bool" and room :: "'s \<Rightarrow> nat \<Rightarrow> bool"
  assumes read_live: "ready s \<Longrightarrow> 0 < n \<Longrightarrow> avail s \<noteq> [] \<Longrightarrow>
      \<exists>bs s'. v2_read io s n = Some (Some bs, s') \<and> bs \<noteq> [] \<and> length bs \<le> n \<and> avail s = bs @ avail s' \<and>
        sent s' = sent s \<and> ready s' \<and> (\<forall>k. room s k \<longrightarrow> room s' k)"
    and write_live: "ready s \<Longrightarrow> room s n \<Longrightarrow> 0 < length b \<Longrightarrow> length b \<le> n \<Longrightarrow>
      \<exists>s'. v2_write io s b = Some (int (length b), s') \<and> sent s' = sent s @ b \<and> avail s' = avail s \<and>
        ready s' \<and> room s' (n - length b)"
begin

lemma read_loop_live:
  "ready s \<Longrightarrow> n \<le> length (avail s) \<Longrightarrow>
   \<exists>s'. read_loop io n acc s = Some (Some (acc @ take n (avail s)), s') \<and> avail s' = drop n (avail s) \<and>
     sent s' = sent s \<and> ready s' \<and> (\<forall>k. room s k \<longrightarrow> room s' k)"
proof (induction n arbitrary: acc s rule: less_induct)
  case (less n)
  show ?case
  proof (cases "n = 0")
    case False
    then have "avail s \<noteq> []" using less.prems(2) by auto
    then obtain bs s1 where rd: "v2_read io s n = Some (Some bs, s1)" "bs \<noteq> []" "ready s1" "\<forall>k. room s k \<longrightarrow> room s1 k"
      and ok: "length bs \<le> n \<and> avail s = bs @ avail s1 \<and> sent s1 = sent s"
      using read_live [OF less.prems(1)] False by blast
    have n: "n - length bs < n" "n - length bs \<le> length (avail s1)" using rd(2) False ok less.prems(2) by auto
    from less.IH [OF n(1) rd(3) n(2), of "acc @ bs"] obtain s' where
      "read_loop io (n - length bs) (acc @ bs) s1 = Some (Some (acc @ bs @ take (n - length bs) (avail s1)), s')"
      "avail s' = drop (n - length bs) (avail s1)" "sent s' = sent s1" "ready s'" "\<forall>k. room s1 k \<longrightarrow> room s' k"
      by auto
    then show ?thesis using rd ok False by (intro exI [of _ s']) (simp add: read_loop.simps [of io n])
  qed (use less.prems in simp)
qed

end

text \<open>A stream that in every state, healthy or not, never reorders, repeats or invents bytes, and that returns
  from every call.\<close>

locale v2_duplex = v2_live io avail sent ready room
  for io :: "'s v2stream" and avail sent :: "'s \<Rightarrow> bytes" and ready :: "'s \<Rightarrow> bool" and room :: "'s \<Rightarrow> nat \<Rightarrow> bool" +
  assumes read_ok: "v2_read io s n = Some (Some bs, s') \<Longrightarrow>
      length bs \<le> n \<and> avail s = bs @ avail s' \<and> sent s' = sent s"
    and write_ok: "v2_write io s b = Some (int (length b), s') \<Longrightarrow> sent s' = sent s @ b"
    and write_avail: "v2_write io s b = Some (r, s') \<Longrightarrow> avail s' = avail s"
    and read_avail: "v2_read io s n = Some (res, s') \<Longrightarrow> length (avail s') \<le> length (avail s)"
    and read_total: "v2_read io s n \<noteq> None"
    and write_total: "v2_write io s b \<noteq> None"
begin

lemma read_loop_ok:
  "read_loop io n acc s = Some (Some bs, s') \<Longrightarrow>
   \<exists>cs. bs = acc @ cs \<and> length cs = n \<and> avail s = cs @ avail s' \<and> sent s' = sent s"
proof (induction n arbitrary: acc s rule: less_induct)
  case (less n)
  show ?case
  proof (cases "n = 0")
    case False
    then obtain ds s1 where rd: "v2_read io s n = Some (Some ds, s1)" and ne: "ds \<noteq> []"
      and rest: "read_loop io (n - length ds) (acc @ ds) s1 = Some (Some bs, s')"
      using less.prems by (auto simp: read_loop.simps [of _ n] split: option.splits prod.splits if_splits)
    obtain cs where "bs = (acc @ ds) @ cs" "length cs = n - length ds" "avail s1 = cs @ avail s'" "sent s' = sent s1"
      using less.IH [OF _ rest] ne False by auto
    then show ?thesis using read_ok [OF rd] by (intro exI [of _ "ds @ cs"]) simp
  qed (use less.prems in auto)
qed

lemma read_loop_total: "\<exists>r s'. read_loop io n acc s = Some (r, s') \<and> length (avail s') \<le> length (avail s)"
proof (induction n arbitrary: acc s rule: less_induct)
  case (less n)
  show ?case
  proof (cases "n = 0")
    case False
    obtain r s1 where rd: "v2_read io s n = Some (r, s1)" "length (avail s1) \<le> length (avail s)"
      using read_total read_avail by fastforce
    show ?thesis
    proof (cases "r = None \<or> r = Some []")
      case True
      then show ?thesis using rd False by (auto simp: read_loop.simps [of io n])
    next
      case bs: False
      then obtain bs where "r = Some bs" "bs \<noteq> []" by auto
      then show ?thesis using rd False less.IH [of "n - length bs" "acc @ bs" s1]
        by (auto simp: read_loop.simps [of io n] intro: le_trans)
    qed
  qed simp
qed

end

section \<open>Streams that take small writes whole\<close>

text \<open>What the layers above need of a stream below: every write of a size that \<open>fits\<close> is taken whole, and a
  frame header of twelve bytes fits.\<close>

locale v2_packet = v2_live io avail sent ready "\<lambda>_. fits"
  for io :: "'s v2stream" and avail sent :: "'s \<Rightarrow> bytes" and ready :: "'s \<Rightarrow> bool" and fits :: "nat \<Rightarrow> bool" +
  assumes fits_mono: "fits n \<Longrightarrow> m \<le> n \<Longrightarrow> fits m" and fits_small: "fits 12"
begin

text \<open>The stream works, has \<open>a\<close> left to read and \<open>w\<close> written.\<close>

definition at_wire :: "'s \<Rightarrow> bytes \<Rightarrow> bytes \<Rightarrow> bool" where
  "at_wire st a w \<longleftrightarrow> ready st \<and> avail st = a \<and> sent st = w"

lemma at_wire_write:
  assumes "at_wire st a w" and "b \<noteq> []" and "fits (length b)"
  shows "\<exists>st'. v2_write io st b = Some (int (length b), st') \<and> at_wire st' a (w @ b)"
  using write_live [of st "length b" b] assms by (auto simp: at_wire_def)

lemma at_wire_read_loop:
  assumes "at_wire st (bs @ a) w"
  shows "\<exists>st'. read_loop io (length bs) [] st = Some (Some bs, st') \<and> at_wire st' a w"
  using read_loop_live [of st "length bs" "[]"] assms by (auto simp: at_wire_def)

end

text \<open>A stream that never splits a two-byte frame header between two reads.\<close>

locale v2_framed = v2_packet io avail sent ready fits
  for io :: "'s v2stream" and avail sent :: "'s \<Rightarrow> bytes" and ready :: "'s \<Rightarrow> bool" and fits :: "nat \<Rightarrow> bool" +
  assumes read_two: "ready s \<Longrightarrow> 2 \<le> length (avail s) \<Longrightarrow> v2_read io s 2 = Some (Some bs, s') \<Longrightarrow> length bs = 2"
begin

lemma at_wire_read_two:
  assumes "at_wire st (b1 # b2 # a) w"
  shows "\<exists>st'. v2_read io st 2 = Some (Some [b1, b2], st') \<and> at_wire st' a w"
proof -
  have st: "ready st" "avail st = b1 # b2 # a" "sent st = w" using assms by (auto simp: at_wire_def)
  then obtain bs st' where rd: "v2_read io st 2 = Some (Some bs, st')" "avail st = bs @ avail st'" "sent st' = sent st" "ready st'"
    using read_live [of st 2] by auto
  have "2 \<le> length (avail st)" using st(2) by simp
  then have "length bs = 2" using read_two [OF st(1) _ rd(1)] by blast
  then have "bs = [b1, b2]" using rd(2) st(2) by (auto simp: length_Suc_conv numeral_2_eq_2)
  then show ?thesis using rd st by (auto simp: at_wire_def)
qed

end

end
