(* ===== verification/Tcp_V2.thy ===== *)
theory Tcp_V2
  imports Stream_V2
begin

text \<open>
  The TCP stream of \<open>src/v2/src/net/tcp_dial.c\<close>: one provider of the stream contract.

  The kernel's side of a connected socket is data: the bytes the peer has sent, how
  much each \<open>recv\<close> hands out (at least one byte when there is any, or an error), and how
  each \<open>send\<close> ends: after some number of interruptions (\<open>EINTR\<close>) it fails or takes at least one
  byte, which is what a blocking socket does. \<open>sk_rx\<close> is all that the peer sends before it closes its end, so a
  \<open>recv\<close> behind it reports end of file; a peer that stays silent, on which \<open>recv\<close> blocks for ever, is not a state of this socket.
\<close>

record tcp_sock =
  sk_fd :: int
  sk_rx :: bytes
  sk_recv :: "nat \<Rightarrow> nat option"
  sk_tx :: bytes
  sk_send :: "nat \<Rightarrow> nat \<times> nat option"

datatype send_result = Interrupted | Failed | Accepted nat

definition sock_recv :: "tcp_sock \<Rightarrow> nat \<Rightarrow> bytes option \<times> tcp_sock" where
  "sock_recv sk n =
     (let sk1 = sk\<lparr>sk_recv := (\<lambda>k. sk_recv sk (Suc k))\<rparr>
      in case sk_recv sk 0 of
           None \<Rightarrow> (None, sk1)
         | Some m \<Rightarrow> let k = min n (Suc m)
                     in (Some (take k (sk_rx sk)), sk1\<lparr>sk_rx := drop k (sk_rx sk)\<rparr>))"

definition sock_send :: "tcp_sock \<Rightarrow> bytes \<Rightarrow> send_result \<times> tcp_sock" where
  "sock_send sk buf =
     (let (i, r) = sk_send sk 0; sk1 = sk\<lparr>sk_send := (\<lambda>k. sk_send sk (Suc k))\<rparr>
      in if 0 < i then (Interrupted, sk\<lparr>sk_send := (sk_send sk)(0 := (i - 1, r))\<rparr>)
         else case r of
                None \<Rightarrow> (Failed, sk1)
              | Some m \<Rightarrow> let k = min (length buf) (Suc m)
                          in (Accepted k, sk1\<lparr>sk_tx := sk_tx sk @ take k buf\<rparr>))"

definition tcp_stream_read :: "tcp_sock \<Rightarrow> nat \<Rightarrow> (bytes option \<times> tcp_sock) option" where
  "tcp_stream_read sk n = Some (if sk_fd sk < 0 then (None, sk) else sock_recv sk n)"

function tcp_write_loop :: "bytes \<Rightarrow> nat \<Rightarrow> tcp_sock \<Rightarrow> int \<times> tcp_sock" where
  "tcp_write_loop buf tot sk =
     (if tot < length buf then
        case sock_send sk (drop tot buf) of
          (Interrupted, sk1) \<Rightarrow> tcp_write_loop buf tot sk1
        | (Failed, sk1) \<Rightarrow> (- 1, sk1)
        | (Accepted k, sk1) \<Rightarrow> tcp_write_loop buf (tot + k) sk1
      else (int tot, sk))"
  by pat_completeness auto
termination
  by (relation "measures [\<lambda>(buf, tot, sk). length buf - tot, \<lambda>(buf, tot, sk). fst (sk_send sk 0)]")
    (auto simp: sock_send_def Let_def split: prod.splits if_splits option.splits)

declare tcp_write_loop.simps [simp del]

definition tcp_stream_write :: "tcp_sock \<Rightarrow> bytes \<Rightarrow> (int \<times> tcp_sock) option" where
  "tcp_stream_write sk buf = Some (if sk_fd sk < 0 then (- 1, sk) else tcp_write_loop buf 0 sk)"

definition tcp_stream_close :: "tcp_sock \<Rightarrow> tcp_sock" where
  "tcp_stream_close sk = (if sk_fd sk \<ge> 0 then sk\<lparr>sk_fd := - 1\<rparr> else sk)"

definition tcp_stream :: "tcp_sock v2stream" where
  "tcp_stream = \<lparr>v2_read = tcp_stream_read, v2_write = tcp_stream_write, v2_close = tcp_stream_close\<rparr>"

text \<open>\<open>libp2p_net_tcp_wrap_fd\<close>: the descriptor, and whether the two allocations succeed.\<close>

definition libp2p_net_tcp_wrap_fd :: "int \<Rightarrow> bool \<Rightarrow> bool \<Rightarrow> tcp_sock \<Rightarrow> (tcp_sock v2stream \<times> tcp_sock) option" where
  "libp2p_net_tcp_wrap_fd fd mem1 mem2 sk =
     (if fd < 0 then None
      else if \<not> mem1 then None
      else if \<not> mem2 then None
      else Some (tcp_stream, sk\<lparr>sk_fd := fd\<rparr>))"

section \<open>TCP keeps the stream contract\<close>

lemma tcp_write_loop_ok:
  assumes "tot \<le> length buf"
  shows "\<exists>r sk'. tcp_write_loop buf tot sk = (r, sk') \<and> sk_rx sk' = sk_rx sk \<and> sk_recv sk' = sk_recv sk \<and>
    sk_fd sk' = sk_fd sk \<and> (r = int (length buf) \<longrightarrow> sk_tx sk' = sk_tx sk @ drop tot buf)"
  using assms
proof (induction buf tot sk rule: tcp_write_loop.induct)
  case (1 buf tot sk)
  obtain res sk1 where s: "sock_send sk (drop tot buf) = (res, sk1)" by (cases "sock_send sk (drop tot buf)")
  have fr: "sk_rx sk1 = sk_rx sk" "sk_recv sk1 = sk_recv sk" "sk_fd sk1 = sk_fd sk"
    using s by (auto simp: sock_send_def Let_def split: prod.splits if_splits option.splits)
  show ?case
  proof (cases "tot < length buf")
    case True
    show ?thesis
    proof (cases res)
      case Interrupted
      moreover from this have "sk_tx sk1 = sk_tx sk"
        using s by (auto simp: sock_send_def Let_def split: prod.splits if_splits option.splits)
      ultimately show ?thesis using "1.IH"(1) [OF True] "1.prems" s fr True by (simp add: tcp_write_loop.simps [of buf tot])
    next
      case Failed
      then show ?thesis using s fr True by (simp add: tcp_write_loop.simps [of buf tot])
    next
      case (Accepted k)
      then have k: "sk_tx sk1 = sk_tx sk @ take k (drop tot buf)" "tot + k \<le> length buf"
        using s True by (auto simp: sock_send_def Let_def split: prod.splits if_splits option.splits)
      then have "take k (drop tot buf) @ drop (tot + k) buf = drop tot buf"
        by (metis append_take_drop_id drop_drop add.commute)
      with k Accepted show ?thesis using "1.IH"(2) [OF True] s fr True
        by (auto simp: tcp_write_loop.simps [of buf tot])
    qed
  qed (use "1.prems" in \<open>simp add: tcp_write_loop.simps [of buf]\<close>)
qed

definition tcp_ready :: "tcp_sock \<Rightarrow> bool" where
  "tcp_ready sk \<longleftrightarrow> 0 \<le> sk_fd sk \<and> (\<forall>k. sk_recv sk k \<noteq> None) \<and> (\<forall>k. snd (sk_send sk k) \<noteq> None)"

lemma tcp_write_loop_live:
  assumes "tcp_ready sk" and "tot \<le> length buf"
  shows "\<exists>sk'. tcp_write_loop buf tot sk = (int (length buf), sk') \<and> tcp_ready sk'"
  using assms
proof (induction buf tot sk rule: tcp_write_loop.induct)
  case (1 buf tot sk)
  obtain res sk1 where s: "sock_send sk (drop tot buf) = (res, sk1)" by (cases "sock_send sk (drop tot buf)")
  show ?case
  proof (cases "tot < length buf")
    case True
    obtain i m where "sk_send sk 0 = (i, Some m)" using "1.prems"(1) by (metis tcp_ready_def prod.collapse option.exhaust)
    then have r: "tcp_ready sk1" "res \<noteq> Failed" "\<And>k. res = Accepted k \<Longrightarrow> tot + k \<le> length buf"
      using s "1.prems"(1) True
      by (auto simp: tcp_ready_def sock_send_def Let_def split: prod.splits if_splits option.splits)
    show ?thesis
    proof (cases res)
      case Interrupted
      then show ?thesis using "1.IH"(1) [OF True] "1.prems" s r True by (simp add: tcp_write_loop.simps [of buf tot])
    next
      case (Accepted k)
      then show ?thesis using "1.IH"(2) [OF True] "1.prems" s r True by (simp add: tcp_write_loop.simps [of buf tot])
    qed (use r in simp)
  qed (use "1.prems" in \<open>simp add: tcp_write_loop.simps [of buf]\<close>)
qed

lemma tcp_read_shape:
  "v2_read tcp_stream sk n = Some (Some bs, sk') \<Longrightarrow> length bs \<le> n \<and> sk_rx sk = bs @ sk_rx sk' \<and> sk_tx sk' = sk_tx sk"
  by (auto simp: tcp_stream_def tcp_stream_read_def sock_recv_def Let_def split: if_splits option.splits)

lemma tcp_write_shape:
  "v2_write tcp_stream sk b = Some (r, sk') \<Longrightarrow> sk_rx sk' = sk_rx sk \<and> (r = int (length b) \<longrightarrow> sk_tx sk' = sk_tx sk @ b)"
  using tcp_write_loop_ok [of 0 b sk] by (auto simp: tcp_stream_def tcp_stream_write_def split: if_splits)

interpretation tcp: v2_duplex tcp_stream sk_rx sk_tx tcp_ready "\<lambda>_ _. True"
proof unfold_locales
  fix sk and n :: nat
  assume sk: "tcp_ready sk" "0 < n" "sk_rx sk \<noteq> []"
  obtain m where m: "sk_recv sk 0 = Some m" using sk(1) by (auto simp: tcp_ready_def)
  obtain bs sk' where rd: "v2_read tcp_stream sk n = Some (Some bs, sk')" "bs \<noteq> []" "tcp_ready sk'"
    using sk m by (simp add: tcp_stream_def tcp_stream_read_def sock_recv_def tcp_ready_def Let_def)
  with tcp_read_shape [OF rd(1)] show "\<exists>bs sk'. v2_read tcp_stream sk n = Some (Some bs, sk') \<and> bs \<noteq> [] \<and> length bs \<le> n \<and>
      sk_rx sk = bs @ sk_rx sk' \<and> sk_tx sk' = sk_tx sk \<and> tcp_ready sk' \<and> (\<forall>k. True \<longrightarrow> True)" by blast
next
  fix sk and b :: bytes and n :: nat
  assume "tcp_ready sk"
  then obtain sk' where w: "v2_write tcp_stream sk b = Some (int (length b), sk')" "tcp_ready sk'"
    using tcp_write_loop_live [of sk 0 b] by (auto simp: tcp_stream_def tcp_stream_write_def tcp_ready_def)
  with tcp_write_shape [OF w(1)] show "\<exists>sk'. v2_write tcp_stream sk b = Some (int (length b), sk') \<and> sk_tx sk' = sk_tx sk @ b \<and>
      sk_rx sk' = sk_rx sk \<and> tcp_ready sk' \<and> True" by blast
next
  fix sk n r sk'
  assume "v2_read tcp_stream sk n = Some (r, sk')"
  then show "length (sk_rx sk') \<le> length (sk_rx sk)"
    by (auto simp: tcp_stream_def tcp_stream_read_def sock_recv_def Let_def split: if_splits option.splits)
next
  show "v2_read tcp_stream sk n \<noteq> None" "v2_write tcp_stream sk b \<noteq> None" for sk n b
    by (simp_all add: tcp_stream_def tcp_stream_read_def tcp_stream_write_def)
qed (auto dest: tcp_read_shape tcp_write_shape)

interpretation tcp: v2_packet tcp_stream sk_rx sk_tx tcp_ready "\<lambda>_. True"
  by unfold_locales simp_all

text \<open>A socket on which no \<open>recv\<close> stops after a single byte. TCP gives no such promise; the two-byte headers of
  the Noise frames rely on it.\<close>

definition tcp_unsplit :: "tcp_sock \<Rightarrow> bool" where
  "tcp_unsplit sk \<longleftrightarrow> tcp_ready sk \<and> (\<forall>k. sk_recv sk k \<noteq> Some 0)"

lemma tcp_write_loop_recv: "tcp_write_loop buf tot sk = (r, sk') \<Longrightarrow> tot \<le> length buf \<Longrightarrow> sk_recv sk' = sk_recv sk"
  using tcp_write_loop_ok [of tot buf sk] by auto

interpretation tcpu: v2_framed tcp_stream sk_rx sk_tx tcp_unsplit "\<lambda>_. True"
proof unfold_locales
  fix sk and n :: nat
  assume sk: "tcp_unsplit sk" "0 < n" "sk_rx sk \<noteq> []"
  then obtain bs sk' where rd: "v2_read tcp_stream sk n = Some (Some bs, sk')" "bs \<noteq> []" "length bs \<le> n"
      "sk_rx sk = bs @ sk_rx sk'" "sk_tx sk' = sk_tx sk" "tcp_ready sk'"
    using tcp.read_live [of sk n] by (auto simp: tcp_unsplit_def)
  moreover have "\<forall>k. sk_recv sk' k \<noteq> Some 0" using rd(1) sk(1)
    by (auto simp: tcp_stream_def tcp_stream_read_def sock_recv_def tcp_unsplit_def Let_def split: if_splits option.splits)
  ultimately show "\<exists>bs sk'. v2_read tcp_stream sk n = Some (Some bs, sk') \<and> bs \<noteq> [] \<and> length bs \<le> n \<and>
      sk_rx sk = bs @ sk_rx sk' \<and> sk_tx sk' = sk_tx sk \<and> tcp_unsplit sk' \<and> (\<forall>k. True \<longrightarrow> True)" by (auto simp: tcp_unsplit_def)
next
  fix sk and b :: bytes and n :: nat
  assume sk: "tcp_unsplit sk" "0 < length b" "length b \<le> n"
  then obtain sk' where w: "v2_write tcp_stream sk b = Some (int (length b), sk')" "sk_tx sk' = sk_tx sk @ b" "sk_rx sk' = sk_rx sk" "tcp_ready sk'"
    using tcp.write_live [of sk b n] by (auto simp: tcp_unsplit_def)
  have "sk_recv sk' = sk_recv sk" using w(1) tcp_write_loop_recv [of b 0 sk]
    by (auto simp: tcp_stream_def tcp_stream_write_def split: if_splits)
  then show "\<exists>sk'. v2_write tcp_stream sk b = Some (int (length b), sk') \<and> sk_tx sk' = sk_tx sk @ b \<and> sk_rx sk' = sk_rx sk \<and>
      tcp_unsplit sk' \<and> True" using w sk(1) by (auto simp: tcp_unsplit_def)
next
  fix sk bs sk'
  assume sk: "tcp_unsplit sk" "2 \<le> length (sk_rx sk)" "v2_read tcp_stream sk 2 = Some (Some bs, sk')"
  then obtain m where "sk_recv sk 0 = Some m" "m \<noteq> 0" by (metis tcp_unsplit_def tcp_ready_def option.exhaust)
  then have "sk_recv sk 0 = Some m" "2 \<le> Suc m" by simp_all
  with sk(2,3) show "length bs = 2"
    by (auto simp: tcp_stream_def tcp_stream_read_def sock_recv_def Let_def split: if_splits)
qed simp_all

end
