(* ===== verification/Multistream_V2.thy ===== *)
theory Multistream_V2
  imports Tcp_V2
begin

text \<open>
  Protocol negotiation (\<open>src/v2/src/conn/multistream.c\<close>) over any stream: messages with a
  varint length prefix, the dialer's \<open>connect\<close> and \<open>negotiate\<close>, the listener's \<open>accept\<close>.

  A C string is the list of its bytes; \<open>cstr\<close> cuts a buffer at its first NUL, as
  \<open>strlen\<close>, \<open>strcmp\<close> and \<open>%s\<close> do. \<open>mem\<close> says whether the allocation in
  \<open>write_length_prefixed_msg\<close> succeeds. The length read is a \<open>size_t\<close>, 64 bits; shifting
  it by 64 or more is undefined in C and taken here as the x86 shift, by the count modulo 64.
\<close>

definition cstr :: "bytes \<Rightarrow> bytes" where
  "cstr bs = takeWhile (\<lambda>b. b \<noteq> 0) bs"

definition MULTISTREAM_MSG_HEADER :: bytes where
  "MULTISTREAM_MSG_HEADER = bstr ''/multistream/1.0.0'' @ [10]"

function varint_header :: "nat \<Rightarrow> bytes" where
  "varint_header temp =
     (let b = of_nat (temp mod 128) AND 0x7F; temp' = temp div 128
      in if temp' > 0 then (b OR 0x80) # varint_header temp' else [b])"
  by pat_completeness auto
termination by (relation "measure id") auto

declare varint_header.simps [simp del]

definition write_length_prefixed_msg :: "'s v2stream \<Rightarrow> bool \<Rightarrow> bytes \<Rightarrow> 's \<Rightarrow> (bool \<times> 's) option" where
  "write_length_prefixed_msg io mem msg st =
     (let m = cstr msg; combined = varint_header (length m) @ m
      in if \<not> mem then Some (False, st)
         else do {
           (n, st1) \<leftarrow> v2_write io st combined;
           Some (\<not> (n \<le> 0 \<or> n \<noteq> int (length combined)), st1)
         })"

partial_function (option) read_varint ::
    "'s v2stream \<Rightarrow> 64 word \<Rightarrow> nat \<Rightarrow> 's \<Rightarrow> (64 word option \<times> 's) option" where
  "read_varint io msg_len shift st =
     (case v2_read io st 1 of
        None \<Rightarrow> None
      | Some (None, st1) \<Rightarrow> Some (None, st1)
      | Some (Some [], st1) \<Rightarrow> Some (None, st1)
      | Some (Some (b # bs), st1) \<Rightarrow>
          let msg_len' = msg_len OR push_bit (shift mod 64) (ucast (b AND 0x7F))
          in if b AND 0x80 \<noteq> 0 then read_varint io msg_len' (shift + 7) st1
             else Some (Some msg_len', st1))"

definition read_length_prefixed_msg :: "'s v2stream \<Rightarrow> nat \<Rightarrow> 's \<Rightarrow> (bytes option \<times> 's) option" where
  "read_length_prefixed_msg io max_len st =
     (if max_len = 0 then Some (None, st)
      else do {
        (r, st1) \<leftarrow> read_varint io 0 0 st;
        case r of
          None \<Rightarrow> Some (None, st1)
        | Some msg_len \<Rightarrow>
            if unat msg_len \<ge> max_len then Some (None, st1)
            else read_loop io (unat msg_len) [] st1
      })"

definition libp2p_net_multistream_read_protocol :: "'s v2stream \<Rightarrow> nat \<Rightarrow> 's \<Rightarrow> (bytes option \<times> 's) option" where
  "libp2p_net_multistream_read_protocol io max_len st = read_length_prefixed_msg io max_len st"

definition libp2p_net_multistream_write_protocol :: "'s v2stream \<Rightarrow> bool \<Rightarrow> bytes \<Rightarrow> 's \<Rightarrow> (bool \<times> 's) option" where
  "libp2p_net_multistream_write_protocol io mem protocol st = write_length_prefixed_msg io mem protocol st"

definition libp2p_v2_net_multistream_connect :: "'s v2stream \<Rightarrow> bool \<Rightarrow> 's \<Rightarrow> (bool \<times> 's) option" where
  "libp2p_v2_net_multistream_connect io mem st =
     do {
       (ok, st1) \<leftarrow> write_length_prefixed_msg io mem MULTISTREAM_MSG_HEADER st;
       if \<not> ok then Some (False, st1)
       else do {
         (r, st2) \<leftarrow> read_length_prefixed_msg io 256 st1;
         case r of
           None \<Rightarrow> Some (False, st2)
         | Some response \<Rightarrow> Some (cstr response = cstr MULTISTREAM_MSG_HEADER, st2)
       }
     }"

text \<open>\<open>snprintf(buf, 256, "%s\n", s)\<close>: at most 255 bytes are kept.\<close>

definition with_newline :: "bytes \<Rightarrow> bytes" where
  "with_newline s = take 255 (cstr s @ [10])"

definition libp2p_net_multistream_negotiate_protocol ::
    "'s v2stream \<Rightarrow> bool \<Rightarrow> bytes option \<Rightarrow> 's \<Rightarrow> (bool \<times> 's) option" where
  "libp2p_net_multistream_negotiate_protocol io mem protocol_id st =
     (case protocol_id of
        None \<Rightarrow> Some (False, st)
      | Some pid \<Rightarrow>
          let formatted_proto = with_newline pid
          in do {
            (ok, st1) \<leftarrow> write_length_prefixed_msg io mem formatted_proto st;
            if \<not> ok then Some (False, st1)
            else do {
              (r, st2) \<leftarrow> read_length_prefixed_msg io 256 st1;
              case r of
                None \<Rightarrow> Some (False, st2)
              | Some response \<Rightarrow> Some (cstr response = cstr formatted_proto, st2)
            }
          })"

definition trim_newline :: "bytes \<Rightarrow> bytes" where
  "trim_newline msg = (let m = cstr msg in if m \<noteq> [] \<and> last m = 10 then butlast m else m)"

definition accept_proposal ::
    "'s v2stream \<Rightarrow> bool \<Rightarrow> bytes option \<Rightarrow> 's \<Rightarrow> (bool \<times> 's) option" where
  "accept_proposal io mem expected_protocol st =
     do {
       (r, st1) \<leftarrow> read_length_prefixed_msg io 256 st;
       case r of
         None \<Rightarrow> Some (False, st1)
       | Some proposal \<Rightarrow>
           let msg = trim_newline proposal
           in if (case expected_protocol of None \<Rightarrow> False | Some e \<Rightarrow> msg \<noteq> cstr e) then
                do {
                  (_, st2) \<leftarrow> write_length_prefixed_msg io mem (bstr ''na'' @ [10]) st1;
                  Some (False, st2)
                }
              else write_length_prefixed_msg io mem (with_newline msg) st1
     }"

definition libp2p_net_multistream_accept ::
    "'s v2stream \<Rightarrow> bool \<Rightarrow> bool \<Rightarrow> bytes option \<Rightarrow> 's \<Rightarrow> (bool \<times> 's) option" where
  "libp2p_net_multistream_accept io mem1 mem2 expected_protocol st =
     do {
       (r, st1) \<leftarrow> read_length_prefixed_msg io 256 st;
       case r of
         None \<Rightarrow> Some (False, st1)
       | Some msg \<Rightarrow>
           if cstr msg \<noteq> cstr MULTISTREAM_MSG_HEADER then Some (False, st1)
           else do {
             (ok, st2) \<leftarrow> write_length_prefixed_msg io mem1 MULTISTREAM_MSG_HEADER st1;
             if \<not> ok then Some (False, st2)
             else accept_proposal io mem2 expected_protocol st2
           }
     }"

section \<open>The framing\<close>

text \<open>The bytes of one message on the wire.\<close>

definition frame :: "bytes \<Rightarrow> bytes" where
  "frame m = varint_header (length m) @ m"

lemma varint_header_length: "n < 128 ^ Suc k \<Longrightarrow> length (varint_header n) \<le> Suc k"
proof (induction k arbitrary: n)
  case 0
  then show ?case by (simp add: varint_header.simps [of n])
next
  case (Suc k)
  have "n div 128 < 128 ^ Suc k" using Suc.prems by (simp add: less_mult_imp_div_less mult.commute)
  then show ?case using Suc.IH [of "n div 128"] by (simp add: varint_header.simps [of n] Let_def)
qed

lemma varint_header_ne [simp]: "varint_header n \<noteq> []"
  by (simp add: varint_header.simps [of n] Let_def)

lemma or_push_split:
  fixes l :: "64 word"
  assumes "x < 128"
  shows "(l OR push_bit s (of_nat x)) OR push_bit (s + 7) (of_nat y) = l OR push_bit s (of_nat (x + 128 * y))"
proof -
  have x: "take_bit 7 x = x" using assms by (simp add: take_bit_eq_mod)
  have "x AND push_bit 7 y = 0"
    by (subst x [symmetric]) (auto simp: bit_eq_iff bit_simps)
  then have "x + push_bit 7 y = x OR push_bit 7 y" by (rule disjunctive_add_eq_or)
  moreover have "push_bit 7 y = 128 * y" by (simp add: push_bit_eq_mult)
  ultimately have "(of_nat (x + 128 * y) :: 64 word) = of_nat x OR push_bit 7 (of_nat y)"
    by (metis of_nat_or_eq of_nat_push_bit)
  then show ?thesis by (simp add: or.assoc add.commute)
qed

lemma cstr_id [simp]: "0 \<notin> set m \<Longrightarrow> cstr m = m"
  by (auto simp: cstr_def takeWhile_eq_all_conv)

lemma cstr_no_nul [simp]: "0 \<notin> set (cstr m)"
  by (auto simp: cstr_def dest: set_takeWhileD)

lemma header_no_nul [simp]: "0 \<notin> set MULTISTREAM_MSG_HEADER"
  by code_simp

lemma header_short [simp]: "length MULTISTREAM_MSG_HEADER = 19"
  by code_simp

lemma na_no_nul [simp]: "0 \<notin> set (bstr ''na'' @ [10])"
  by code_simp

lemma with_newline_short [simp]: "0 \<notin> set p \<Longrightarrow> length p \<le> 254 \<Longrightarrow> with_newline p = p @ [10]"
  by (simp add: with_newline_def)

lemma trim_newline_snoc [simp]: "0 \<notin> set p \<Longrightarrow> trim_newline (p @ [10]) = p"
  by (simp add: trim_newline_def)

text \<open>What the listener answers to a proposal.\<close>

definition answer :: "bytes option \<Rightarrow> bytes \<Rightarrow> bytes" where
  "answer expected proposal =
     (if expected = None \<or> expected = Some (trim_newline proposal) then with_newline (trim_newline proposal)
      else bstr ''na'' @ [10])"

lemma answer_cstr [simp]: "cstr (answer e q) = answer e q"
proof -
  have "0 \<notin> set (with_newline (trim_newline q))"
    by (auto simp: with_newline_def dest: in_set_takeD)
  then show ?thesis using cstr_id [OF na_no_nul] by (simp add: answer_def)
qed

text \<open>The two shapes of a varint byte.\<close>

lemma varint_byte:
  assumes "x < 128"
  shows "ucast ((of_nat x AND 0x7F :: byte) AND 0x7F) = (of_nat x :: 64 word)"
    and "(of_nat x AND 0x7F :: byte) AND 0x80 = 0"
    and "ucast (((of_nat x AND 0x7F) OR 0x80 :: byte) AND 0x7F) = (of_nat x :: 64 word)"
    and "((of_nat x AND 0x7F) OR 0x80 :: byte) AND 0x80 \<noteq> 0"
proof -
  have "\<forall>x\<in>set [0..<128]. ucast ((of_nat x AND 0x7F :: byte) AND 0x7F) = (of_nat x :: 64 word) \<and>
      (of_nat x AND 0x7F :: byte) AND 0x80 = 0 \<and>
      ucast (((of_nat x AND 0x7F) OR 0x80 :: byte) AND 0x7F) = (of_nat x :: 64 word) \<and>
      ((of_nat x AND 0x7F) OR 0x80 :: byte) AND 0x80 \<noteq> 0"
    by code_simp
  moreover have "x \<in> set [0..<128]" using assms by simp
  ultimately show "ucast ((of_nat x AND 0x7F :: byte) AND 0x7F) = (of_nat x :: 64 word)"
    "(of_nat x AND 0x7F :: byte) AND 0x80 = 0"
    "ucast (((of_nat x AND 0x7F) OR 0x80 :: byte) AND 0x7F) = (of_nat x :: 64 word)"
    "((of_nat x AND 0x7F) OR 0x80 :: byte) AND 0x80 \<noteq> 0" by blast+
qed

context v2_live
begin

lemma read_byte:
  assumes "ready s" and "avail s = b # rest"
  shows "\<exists>s'. v2_read io s 1 = Some (Some [b], s') \<and> avail s' = rest \<and> sent s' = sent s \<and> ready s' \<and>
    (\<forall>k. room s k \<longrightarrow> room s' k)"
proof -
  obtain bs s1 where rd: "v2_read io s 1 = Some (Some bs, s1)" "bs \<noteq> []" "ready s1" "\<forall>k. room s k \<longrightarrow> room s1 k"
    "length bs \<le> 1" "avail s = bs @ avail s1" "sent s1 = sent s"
    using read_live [OF assms(1), of 1] assms(2) by auto
  with assms(2) have "bs = [b]" "avail s1 = rest" by (auto simp: length_Suc_conv le_Suc_eq)
  with rd show ?thesis by blast
qed

lemma read_varint_live:
  assumes "ready s" and "avail s = varint_header n @ rest" and "sh \<le> 63" and "n < 2 ^ (64 - sh)"
  shows "\<exists>s'. read_varint io l sh s = Some (Some (l OR push_bit sh (of_nat n)), s') \<and> avail s' = rest \<and>
    sent s' = sent s \<and> ready s' \<and> (\<forall>k. room s k \<longrightarrow> room s' k)"
  using assms
proof (induction n arbitrary: l sh s rule: less_induct)
  case (less n)
  let ?x = "n mod 128"
  have x: "?x < 128" by simp
  have n: "n = ?x + 128 * (n div 128)" by simp
  show ?case
  proof (cases "n div 128 > 0")
    case False
    then have v: "varint_header n = [of_nat ?x AND 0x7F]" by (simp add: varint_header.simps [of n])
    obtain s1 where s1: "v2_read io s 1 = Some (Some [of_nat ?x AND 0x7F], s1)" "avail s1 = rest" "sent s1 = sent s"
      "ready s1" "\<forall>k. room s k \<longrightarrow> room s1 k"
      using read_byte [OF less.prems(1), of "of_nat ?x AND 0x7F" rest] less.prems(2) v by auto
    have "?x = n" using False n by linarith
    then have "read_varint io l sh s = Some (Some (l OR push_bit sh (of_nat n)), s1)"
      using less.prems(3) s1(1) varint_byte(1,2) [OF x] by (simp add: read_varint.simps [of io l])
    with s1 show ?thesis by blast
  next
    case True
    let ?b = "(of_nat ?x AND 0x7F) OR 0x80 :: byte"
    from True have v: "varint_header n = ?b # varint_header (n div 128)" by (simp add: varint_header.simps [of n] Let_def)
    obtain s1 where s1: "v2_read io s 1 = Some (Some [?b], s1)" "avail s1 = varint_header (n div 128) @ rest" "sent s1 = sent s"
      "ready s1" "\<forall>k. room s k \<longrightarrow> room s1 k"
      using read_byte [OF less.prems(1), of ?b "varint_header (n div 128) @ rest"] less.prems(2) v by auto
    have "7 < 64 - sh"
    proof (rule ccontr)
      assume "\<not> 7 < 64 - sh"
      then have "(2::nat) ^ (64 - sh) \<le> 2 ^ 7" by (intro power_increasing) simp_all
      then show False using less.prems(4) True by simp
    qed
    then have sh: "sh + 7 \<le> 63" "64 - sh = 64 - (sh + 7) + 7" by simp_all
    have "n div 128 < 2 ^ (64 - (sh + 7))"
      using less.prems(4) unfolding sh(2) power_add by (simp add: less_mult_imp_div_less)
    moreover have "n div 128 < n" using True by (intro div_less_dividend) auto
    ultimately obtain s' where s': "read_varint io (l OR push_bit sh (of_nat ?x)) (sh + 7) s1 =
        Some (Some ((l OR push_bit sh (of_nat ?x)) OR push_bit (sh + 7) (of_nat (n div 128))), s')"
      "avail s' = rest" "sent s' = sent s1" "ready s'" "\<forall>k. room s1 k \<longrightarrow> room s' k"
      using less.IH [OF _ s1(4,2) sh(1), of "l OR push_bit sh (of_nat ?x)"] by blast
    have "read_varint io l sh s = read_varint io (l OR push_bit sh (of_nat ?x)) (sh + 7) s1"
      using less.prems(3) s1(1) varint_byte(3,4) [OF x] by (simp add: read_varint.simps [of io l])
    then have "read_varint io l sh s = Some (Some (l OR push_bit sh (of_nat n)), s')"
      using s'(1) or_push_split [OF x, of l sh "n div 128"] n by simp
    with s' s1 show ?thesis by metis
  qed
qed

lemma read_msg_live:
  assumes "ready s" and "avail s = frame m @ rest" and "length m < max_len" and "max_len \<le> 2 ^ 64"
  shows "\<exists>s'. read_length_prefixed_msg io max_len s = Some (Some m, s') \<and> avail s' = rest \<and> sent s' = sent s \<and>
    ready s' \<and> (\<forall>k. room s k \<longrightarrow> room s' k)"
proof -
  have "length m < 2 ^ 64" using assms(3,4) by simp
  then obtain s1 where s1: "read_varint io 0 0 s = Some (Some (of_nat (length m)), s1)" "avail s1 = m @ rest"
    "sent s1 = sent s" "ready s1" "\<forall>k. room s k \<longrightarrow> room s1 k"
    using read_varint_live [OF assms(1), of "length m" "m @ rest" 0 0] assms(2) by (auto simp: frame_def)
  have u: "unat (of_nat (length m) :: 64 word) = length m" using \<open>length m < 2 ^ 64\<close> by (simp add: unat_of_nat)
  obtain s' where "read_loop io (length m) [] s1 = Some (Some m, s')" "avail s' = rest" "sent s' = sent s1" "ready s'"
    "\<forall>k. room s1 k \<longrightarrow> room s' k"
    using read_loop_live [OF s1(4), of "length m" "[]"] s1(2) by auto
  then show ?thesis using s1 u assms(3) by (auto simp: read_length_prefixed_msg_def)
qed

lemma write_msg_live:
  assumes "ready s" and "room s n" and "length (frame (cstr m)) \<le> n"
  shows "\<exists>s'. write_length_prefixed_msg io True m s = Some (True, s') \<and> avail s' = avail s \<and>
    sent s' = sent s @ frame (cstr m) \<and> ready s' \<and> room s' (n - length (frame (cstr m)))"
proof -
  have pos: "0 < length (frame (cstr m))" by (simp add: frame_def)
  then obtain s' where s': "v2_write io s (frame (cstr m)) = Some (int (length (frame (cstr m))), s')" "ready s'"
    "room s' (n - length (frame (cstr m)))" "sent s' = sent s @ frame (cstr m)" "avail s' = avail s"
    using write_live [OF assms(1,2) _ assms(3)] by blast
  moreover have "\<not> int (length (frame (cstr m))) \<le> 0" using pos by linarith
  ultimately show ?thesis unfolding write_length_prefixed_msg_def Let_def frame_def [symmetric] by simp
qed

section \<open>Negotiation\<close>

lemma connect_live:
  assumes "ready s" and "room s n" and "length (frame MULTISTREAM_MSG_HEADER) \<le> n"
    and "avail s = frame m @ rest" and "length m < 256"
  shows "\<exists>s'. libp2p_v2_net_multistream_connect io True s = Some (cstr m = MULTISTREAM_MSG_HEADER, s') \<and>
    avail s' = rest \<and> sent s' = sent s @ frame MULTISTREAM_MSG_HEADER \<and> ready s' \<and>
    room s' (n - length (frame MULTISTREAM_MSG_HEADER))"
proof -
  obtain s1 where s1: "write_length_prefixed_msg io True MULTISTREAM_MSG_HEADER s = Some (True, s1)" "avail s1 = avail s"
    "sent s1 = sent s @ frame MULTISTREAM_MSG_HEADER" "ready s1" "room s1 (n - length (frame MULTISTREAM_MSG_HEADER))"
    using write_msg_live [OF assms(1,2), of MULTISTREAM_MSG_HEADER] assms(3) by auto
  obtain s2 where "read_length_prefixed_msg io 256 s1 = Some (Some m, s2)" "avail s2 = rest" "sent s2 = sent s1" "ready s2"
    "room s2 (n - length (frame MULTISTREAM_MSG_HEADER))"
    using read_msg_live [OF s1(4), of m rest 256] s1(2,5) assms(4,5) by auto
  then show ?thesis using s1 by (simp add: libp2p_v2_net_multistream_connect_def)
qed

lemma negotiate_live:
  assumes "ready s" and "room s n" and "0 \<notin> set p" and "length p \<le> 254" and "length (frame (p @ [10])) \<le> n"
    and "avail s = frame m @ rest" and "length m < 256"
  shows "\<exists>s'. libp2p_net_multistream_negotiate_protocol io True (Some p) s = Some (cstr m = p @ [10], s') \<and>
    avail s' = rest \<and> sent s' = sent s @ frame (p @ [10]) \<and> ready s' \<and> room s' (n - length (frame (p @ [10])))"
proof -
  obtain s1 where s1: "write_length_prefixed_msg io True (p @ [10]) s = Some (True, s1)" "avail s1 = avail s"
    "sent s1 = sent s @ frame (p @ [10])" "ready s1" "room s1 (n - length (frame (p @ [10])))"
    using write_msg_live [OF assms(1,2), of "p @ [10]"] assms(3,5) by auto
  obtain s2 where "read_length_prefixed_msg io 256 s1 = Some (Some m, s2)" "avail s2 = rest" "sent s2 = sent s1" "ready s2"
    "room s2 (n - length (frame (p @ [10])))"
    using read_msg_live [OF s1(4), of m rest 256] s1(2,5) assms(6,7) by auto
  then show ?thesis using s1 assms(3,4) by (simp add: libp2p_net_multistream_negotiate_protocol_def)
qed

lemma accept_proposal_live:
  assumes "ready s" and "room s n" and "length (frame (answer e m)) \<le> n"
    and "\<forall>x. e = Some x \<longrightarrow> 0 \<notin> set x" and "avail s = frame m @ rest" and "length m < 256"
  shows "\<exists>s'. accept_proposal io True e s = Some (e = None \<or> e = Some (trim_newline m), s') \<and>
    avail s' = rest \<and> sent s' = sent s @ frame (answer e m) \<and> ready s' \<and> room s' (n - length (frame (answer e m)))"
proof -
  obtain s1 where s1: "read_length_prefixed_msg io 256 s = Some (Some m, s1)" "avail s1 = rest" "sent s1 = sent s" "ready s1"
    "room s1 n" using read_msg_live [OF assms(1,5,6)] assms(2) by auto
  obtain s2 where "write_length_prefixed_msg io True (answer e m) s1 = Some (True, s2)" "avail s2 = avail s1"
    "sent s2 = sent s1 @ frame (answer e m)" "ready s2" "room s2 (n - length (frame (answer e m)))"
    using write_msg_live [OF s1(4,5), of "answer e m"] assms(3) by auto
  then show ?thesis using s1 assms(4) by (cases e) (auto simp: accept_proposal_def answer_def Let_def split: if_splits)
qed

lemma accept_live:
  assumes "ready s" and "room s n" and "\<forall>x. e = Some x \<longrightarrow> 0 \<notin> set x"
    and "avail s = frame MULTISTREAM_MSG_HEADER @ frame m @ rest" and "length m < 256"
    and "length (frame MULTISTREAM_MSG_HEADER) + length (frame (answer e m)) \<le> n"
  shows "\<exists>s'. libp2p_net_multistream_accept io True True e s = Some (e = None \<or> e = Some (trim_newline m), s') \<and>
    avail s' = rest \<and> sent s' = sent s @ frame MULTISTREAM_MSG_HEADER @ frame (answer e m)"
proof -
  obtain s1 where s1: "read_length_prefixed_msg io 256 s = Some (Some MULTISTREAM_MSG_HEADER, s1)" "avail s1 = frame m @ rest"
    "sent s1 = sent s" "ready s1" "room s1 n" using read_msg_live [OF assms(1,4), of 256] assms(2) by auto
  obtain s2 where s2: "write_length_prefixed_msg io True MULTISTREAM_MSG_HEADER s1 = Some (True, s2)" "avail s2 = avail s1"
    "sent s2 = sent s1 @ frame MULTISTREAM_MSG_HEADER" "ready s2" "room s2 (n - length (frame MULTISTREAM_MSG_HEADER))"
    using write_msg_live [OF s1(4,5), of MULTISTREAM_MSG_HEADER] assms(6) by auto
  have "length (frame (answer e m)) \<le> n - length (frame MULTISTREAM_MSG_HEADER)" using assms(6) by linarith
  from accept_proposal_live [OF s2(4,5) this assms(3) _ assms(5), of rest] s1 s2 show ?thesis
    by (auto simp: libp2p_net_multistream_accept_def)
qed

end

section \<open>Over a stream in any state\<close>

context v2_duplex
begin

text \<open>What a successful read or write says, without any assumption on the stream's health.\<close>

lemma read_varint_ok:
  assumes "read_varint io l sh s = Some (Some v, s')"
  shows "\<exists>h. avail s = h @ avail s' \<and> sent s' = sent s"
proof -
  let ?P = "\<lambda>i l sh s y. i = io \<longrightarrow> fst y \<noteq> None \<longrightarrow> (\<exists>h. avail s = h @ avail (snd y) \<and> sent (snd y) = sent s)"
  have "?P io l sh s (Some v, s')"
  proof (rule read_varint.raw_induct [OF _ assms, of ?P])
    fix rv i l sh s y
    assume IH: "\<And>i l sh s y. rv i l sh s = Some y \<Longrightarrow> ?P i l sh s y"
      and eq: "(case v2_read i s 1 of None \<Rightarrow> None | Some (None, st1) \<Rightarrow> Some (None, st1)
        | Some (Some [], st1) \<Rightarrow> Some (None, st1)
        | Some (Some (b # bs), st1) \<Rightarrow>
            let l' = l OR push_bit (sh mod 64) (ucast (b AND 0x7F))
            in if b AND 0x80 \<noteq> 0 then rv i l' (sh + 7) st1 else Some (Some l', st1)) = Some y"
    show "?P i l sh s y"
    proof (intro impI)
      assume i: "i = io" and y: "fst y \<noteq> None"
      obtain b bs s1 where rd: "v2_read io s 1 = Some (Some (b # bs), s1)"
        using eq y i by (auto split: option.splits prod.splits list.splits)
      have "\<exists>h. avail s1 = h @ avail (snd y) \<and> sent (snd y) = sent s1"
        using eq y i rd IH [of io _ "sh + 7" s1 y] by (auto simp: Let_def split: if_splits)
      then show "\<exists>h. avail s = h @ avail (snd y) \<and> sent (snd y) = sent s"
        using read_ok [OF rd] by (metis append.assoc)
    qed
  qed
  then show ?thesis by simp
qed

lemma read_msg_ok:
  assumes "read_length_prefixed_msg io max_len s = Some (Some m, s')"
  shows "length m < max_len \<and> sent s' = sent s \<and> (\<exists>h. avail s = h @ m @ avail s')"
proof -
  obtain v s1 where v: "read_varint io 0 0 s = Some (Some v, s1)" "unat v < max_len"
    "read_loop io (unat v) [] s1 = Some (Some m, s')"
    using assms by (auto simp: read_length_prefixed_msg_def bind_eq_Some_conv split: if_splits option.splits prod.splits)
  show ?thesis using read_varint_ok [OF v(1)] read_loop_ok [OF v(3)] v(2) by auto
qed

lemma write_msg_ok:
  assumes "write_length_prefixed_msg io mem m s = Some (True, s')"
  shows "sent s' = sent s @ frame (cstr m) \<and> avail s' = avail s"
proof -
  have "v2_write io s (frame (cstr m)) = Some (int (length (frame (cstr m))), s')"
    using assms unfolding write_length_prefixed_msg_def Let_def frame_def [symmetric]
    by (auto simp: bind_eq_Some_conv split: if_splits)
  then show ?thesis using write_ok write_avail by blast
qed

text \<open>An accepted negotiation, whatever the peer does: two messages were read, the header and a proposal of the
  expected protocol, and they were echoed.\<close>

lemma accept_ok:
  assumes "libp2p_net_multistream_accept io mem1 mem2 (Some e) s = Some (True, s')"
  shows "\<exists>h1 m1 h2 m2. avail s = h1 @ m1 @ h2 @ m2 @ avail s' \<and> cstr m1 = MULTISTREAM_MSG_HEADER \<and>
    trim_newline m2 = cstr e \<and> length m2 < 256 \<and>
    sent s' = sent s @ frame MULTISTREAM_MSG_HEADER @ frame (with_newline (cstr e))"
proof -
  obtain m1 s1 s2 where 1: "read_length_prefixed_msg io 256 s = Some (Some m1, s1)" "cstr m1 = MULTISTREAM_MSG_HEADER"
    "write_length_prefixed_msg io mem1 MULTISTREAM_MSG_HEADER s1 = Some (True, s2)"
    and acc: "accept_proposal io mem2 (Some e) s2 = Some (True, s')"
    using assms by (auto simp: libp2p_net_multistream_accept_def bind_eq_Some_conv split: option.splits if_splits)
  obtain m2 s3 where 2: "read_length_prefixed_msg io 256 s2 = Some (Some m2, s3)" "trim_newline m2 = cstr e"
    "write_length_prefixed_msg io mem2 (with_newline (cstr e)) s3 = Some (True, s')"
    using acc by (auto simp: accept_proposal_def bind_eq_Some_conv Let_def split: option.splits if_splits)
  have "cstr (with_newline (cstr e)) = with_newline (cstr e)"
    by (rule cstr_id) (auto simp: with_newline_def dest: in_set_takeD)
  with read_msg_ok [OF 1(1)] write_msg_ok [OF 1(3)] read_msg_ok [OF 2(1)] write_msg_ok [OF 2(3)] 1(2) 2(2)
  show ?thesis by (auto simp del: append_assoc simp: append_assoc [symmetric]) (metis append.assoc)
qed

end

end
