(* ===== verification/External.thy ===== *)
theory External
  imports Prelude
begin

text \<open>
  The libraries the second-generation stack calls, as one record of functions: those the repository does not contain
  (OpenSSL: HMAC, SHA-256, ChaCha20-Poly1305, X25519, Ed25519; the protobuf and varint encoders and the multihash
  constructor, whose submodules are empty) and mbedtls, which is third-party code vendored under \<open>thirdparty/mbedtls\<close>
  and kept as a parameter too (RSA signatures on a hash; the length of a parsed public key). Nothing is assumed of them here: a property that relies on one states what it needs by one of the
  predicates below, each the documented behaviour of that library.

  A function that can fail gives an option. A decoder sees the bytes from its argument pointer to the end of the
  buffer, and the length the caller claims, which is an unsigned 64-bit subtraction in the sources and may be wrong.
  A failing encoder leaves its output and its count alone. \<open>stack_junk\<close> is what an uninitialised
  buffer holds.
\<close>

text \<open>What a C function can do besides not returning: return a value, report failure, or do what C does not define.\<close>

datatype 'a outcome = Returns 'a | Fails | Undefined

record ext_lib =
  hmac_sha256 :: "bytes \<Rightarrow> bytes \<Rightarrow> bytes option"
  sha256 :: "bytes \<Rightarrow> bytes"
  aead_seal :: "bytes \<Rightarrow> bytes \<Rightarrow> bytes \<Rightarrow> bytes \<Rightarrow> bytes option"
  aead_open :: "bytes \<Rightarrow> bytes \<Rightarrow> bytes \<Rightarrow> bytes \<Rightarrow> bytes option"
  x25519_derive :: "bytes \<Rightarrow> bytes \<Rightarrow> bytes option"
  ed25519_verify :: "bytes \<Rightarrow> bytes \<Rightarrow> bytes \<Rightarrow> bool"
  rsa_pkcs1_sign :: "bytes \<Rightarrow> bytes \<Rightarrow> bytes option"
  rsa_parse_public :: "bytes \<Rightarrow> nat option"
  rsa_pkcs1_verify :: "bytes \<Rightarrow> bytes \<Rightarrow> bytes \<Rightarrow> bool"
  protobuf_encode_varint :: "nat \<Rightarrow> 64 word \<Rightarrow> nat \<Rightarrow> bytes option"
  protobuf_encode_length_delimited :: "nat \<Rightarrow> bytes \<Rightarrow> nat \<Rightarrow> bytes option"
  protobuf_encode_string :: "nat \<Rightarrow> bytes \<Rightarrow> nat \<Rightarrow> bytes option"
  protobuf_decode_field_and_type :: "bytes \<Rightarrow> 64 word \<Rightarrow> (int \<times> nat \<times> nat) option"
  protobuf_decode_varint :: "bytes \<Rightarrow> 64 word \<Rightarrow> (64 word \<times> nat) option"
  protobuf_decode_length_delimited :: "bytes \<Rightarrow> 64 word \<Rightarrow> (bytes \<times> nat) option"
  protobuf_decode_string :: "bytes \<Rightarrow> 64 word \<Rightarrow> bytes option \<times> nat"
  varint_decode :: "bytes \<Rightarrow> 64 word \<times> nat"
  varint_encode :: "64 word \<Rightarrow> bytes"
  mh_new_sha2_256 :: "bytes \<Rightarrow> bytes option"
  stack_junk :: bytes

definition WIRETYPE_LENGTH_DELIMITED :: nat where "WIRETYPE_LENGTH_DELIMITED = 2"

text \<open>The length a caller claims of what is left of a buffer.\<close>

lemma unat_left: "p \<le> n \<Longrightarrow> n < 2 ^ 64 \<Longrightarrow> unat (of_nat n - of_nat p :: 64 word) = n - p"
  by (simp add: unat_sub word_le_nat_alt unat_of_nat)

lemma unat_claim: "n < 2 ^ 64 \<Longrightarrow> unat (of_nat n :: 64 word) = n"
  by (simp add: unat_of_nat)

section \<open>What the libraries document\<close>

text \<open>ChaCha20-Poly1305 with a 32-byte key, a 12-byte nonce and a 16-byte tag.\<close>

definition aead_ok :: "ext_lib \<Rightarrow> bool" where
  "aead_ok L \<longleftrightarrow> (\<forall>key nonce ad p. length key = 32 \<longrightarrow> length nonce = 12 \<longrightarrow> length p \<le> 65535 \<longrightarrow>
     (\<exists>c. aead_seal L key nonce ad p = Some c \<and> length c = length p + 16 \<and> aead_open L key nonce ad c = Some p))"

text \<open>SHA-256 and HMAC-SHA-256 give 32 bytes.\<close>

definition hash_ok :: "ext_lib \<Rightarrow> bool" where
  "hash_ok L \<longleftrightarrow> (\<forall>m. length (sha256 L m) = 32) \<and> (\<forall>k m. \<exists>d. hmac_sha256 L k m = Some d \<and> length d = 32)"

text \<open>The two sides of a Diffie-Hellman exchange compute the same secret.\<close>

definition dh_agrees :: "ext_lib \<Rightarrow> bytes \<times> bytes \<Rightarrow> bytes \<times> bytes \<Rightarrow> bool" where
  "dh_agrees L a b \<longleftrightarrow> length (snd a) = 32 \<and> length (snd b) = 32 \<and>
     (\<exists>x. x25519_derive L (fst a) (snd b) = Some x \<and> x25519_derive L (fst b) (snd a) = Some x)"

text \<open>A length-delimited field is a tag, the length as a varint, and the data; both decoders read them back in front
  of anything, if the length claimed of the buffer covers what they read.\<close>

definition field_ok :: "ext_lib \<Rightarrow> nat \<Rightarrow> bytes \<Rightarrow> nat \<Rightarrow> bytes \<Rightarrow> bytes \<Rightarrow> bool" where
  "field_ok L fld d cap hdr len \<longleftrightarrow> hdr \<noteq> [] \<and> len \<noteq> [] \<and>
     (length (hdr @ len @ d) \<le> cap \<longrightarrow> protobuf_encode_length_delimited L fld d cap = Some (hdr @ len @ d)) \<and>
     (length (hdr @ len @ d) > cap \<longrightarrow> protobuf_encode_length_delimited L fld d cap = None) \<and>
     (\<forall>r n. length hdr \<le> unat n \<longrightarrow> protobuf_decode_field_and_type L (hdr @ len @ r) n = Some (int fld, WIRETYPE_LENGTH_DELIMITED, length hdr)) \<and>
     (\<forall>r. varint_decode L (len @ r) = (of_nat (length d), length len))"

definition protobuf_ok :: "ext_lib \<Rightarrow> bool" where
  "protobuf_ok L \<longleftrightarrow> (\<forall>fld d cap. 0 < fld \<longrightarrow> fld < 16 \<longrightarrow> length d < 65536 \<longrightarrow> (\<exists>hdr len. length hdr + length len \<le> 4 \<and> field_ok L fld d cap hdr len))"

text \<open>An encoder does not write past the buffer it is given.\<close>

definition encoder_bounded :: "ext_lib \<Rightarrow> bool" where
  "encoder_bounded L \<longleftrightarrow> (\<forall>fld d cap b. protobuf_encode_length_delimited L fld d cap = Some b \<longrightarrow> length b \<le> cap)"

text \<open>An RSA key pair: what the private key signs, as long as the modulus, the public key verifies.\<close>

definition rsa_pair :: "ext_lib \<Rightarrow> bytes \<Rightarrow> bytes \<Rightarrow> bool" where
  "rsa_pair L priv pub \<longleftrightarrow> (\<exists>n. 0 < n \<and> n \<le> 512 \<and> rsa_parse_public L pub = Some n \<and>
     (\<forall>h. \<exists>sig. rsa_pkcs1_sign L priv h = Some sig \<and> length sig = n \<and> rsa_pkcs1_verify L pub h sig))"

text \<open>The key type, a small varint in front of anything, and the data field are read back, if the length claimed covers them.\<close>

definition key_fields_ok :: "ext_lib \<Rightarrow> 64 word \<Rightarrow> bytes \<Rightarrow> bool" where
  "key_fields_ok L t d \<longleftrightarrow> length d < 2 ^ 31 \<and> (\<exists>h1 v h2 b. h1 \<noteq> [] \<and> h2 \<noteq> [] \<and> length (h1 @ v @ h2) \<le> 11 \<and> length (b) \<le> length d + 11 \<and>
     (\<forall>cap \<ge> 22. protobuf_encode_varint L 1 t cap = Some (h1 @ v)) \<and>
     (\<forall>cap \<ge> length (h2 @ b). protobuf_encode_length_delimited L 2 d cap = Some (h2 @ b)) \<and>
     (\<forall>r n. length h1 \<le> unat n \<longrightarrow> protobuf_decode_field_and_type L (h1 @ v @ r) n = Some (1, 0, length h1)) \<and>
     (\<forall>r n. length v \<le> unat n \<longrightarrow> protobuf_decode_varint L (v @ r) n = Some (t, length v)) \<and>
     (\<forall>r n. length h2 \<le> unat n \<longrightarrow> protobuf_decode_field_and_type L (h2 @ b @ r) n = Some (2, WIRETYPE_LENGTH_DELIMITED, length h2)) \<and>
     (\<forall>r n. length b \<le> unat n \<longrightarrow> protobuf_decode_length_delimited L (b @ r) n = Some (d, length b)))"

end
