(* ===== verification/Base58.thy ===== *)
theory Base58
  imports Prelude
begin

text \<open>
  Base 58 of \<open>src/crypto/encoding/base58.c\<close>. A string is its bytes before the NUL. \<open>None\<close> is a call with undefined behaviour:
  a read outside the table of digits, a write before the buffer, or a write through a pointer that the code has
  overwritten. The sizes computed with \<open>log2\<close> are not modelled.
\<close>

definition b58digits_ordered :: bytes where
  "b58digits_ordered = bstr ''123456789ABCDEFGHJKLMNPQRSTUVWXYZabcdefghijkmnopqrstuvwxyz''"

definition b58digits_map :: "int list" where
  "b58digits_map =
    [-1,-1,-1,-1,-1,-1,-1,-1, -1,-1,-1,-1,-1,-1,-1,-1,
     -1,-1,-1,-1,-1,-1,-1,-1, -1,-1,-1,-1,-1,-1,-1,-1,
     -1,-1,-1,-1,-1,-1,-1,-1, -1,-1,-1,-1,-1,-1,-1,-1,
     -1, 0, 1, 2, 3, 4, 5, 6,  7, 8,-1,-1,-1,-1,-1,-1,
     -1, 9,10,11,12,13,14,15, 16,-1,17,18,19,20,21,-1,
     22,23,24,25,26,27,28,29, 30,31,32,-1,-1,-1,-1,-1,
     -1,33,34,35,36,37,38,39, 40,41,42,43,-1,44,45,46,
     47,48,49,50,51,52,53,54, 55,56,57,-1,-1,-1,-1,-1]"

section \<open>Decoding\<close>

text \<open>The loop over the leading zeros looks at the table before the test for bytes outside it.\<close>

fun leading_zeros :: "bytes \<Rightarrow> (nat \<times> bytes) option" where
  "leading_zeros [] = Some (0, [])"
| "leading_zeros (c # cs) =
     (if unat c \<ge> length b58digits_map then None
      else if b58digits_map ! unat c = 0 then map_option (\<lambda>(n, rest). (Suc n, rest)) (leading_zeros cs)
      else Some (0, c # cs))"

text \<open>Multiply the number by 58 and add a digit, from the last word to the first; with the carry left over.\<close>

fun mul58 :: "32 word list \<Rightarrow> 32 word \<Rightarrow> 32 word list \<times> 32 word" where
  "mul58 [] c = ([], c)"
| "mul58 (x # outi) c =
     (let (outi1, c1) = mul58 outi c; t = ucast x * 58 + ucast c1 :: 64 word
      in (ucast (t AND 0xffffffff) # outi1, ucast (drop_bit 32 (t AND 0x3f00000000))))"

definition first_word :: "32 word list \<Rightarrow> 32 word" where
  "first_word outi = (case outi of [] \<Rightarrow> 0 | w # _ \<Rightarrow> w)"

fun decode_loop :: "32 word \<Rightarrow> bytes \<Rightarrow> 32 word list \<Rightarrow> 32 word list option" where
  "decode_loop zeromask [] outi = Some outi"
| "decode_loop zeromask (b # bs) outi =
     (if b AND 0x80 \<noteq> 0 then None
      else if b58digits_map ! unat b = - 1 then None
      else let (outi1, c) = mul58 outi (of_int (b58digits_map ! unat b))
           in if c \<noteq> 0 then None
              else if first_word outi1 AND zeromask \<noteq> 0 then None
              else decode_loop zeromask bs outi1)"

definition word_bytes :: "32 word \<Rightarrow> bytes" where
  "word_bytes w = [ucast (drop_bit 24 w), ucast (drop_bit 16 w), ucast (drop_bit 8 w), ucast w]"

definition words_out :: "nat \<Rightarrow> 32 word list \<Rightarrow> bytes" where
  "words_out bytesleft outi =
     (if bytesleft > 0 then drop (4 - bytesleft) (word_bytes (first_word outi)) @ concat (map word_bytes (tl outi))
      else concat (map word_bytes outi))"

text \<open>The result: \<open>None\<close> for failure, else the buffer of size \<open>binsz\<close> and the canonical size.\<close>

definition libp2p_crypto_encoding_base58_decode :: "bytes \<Rightarrow> nat \<Rightarrow> (bytes \<times> nat) option option" where
  "libp2p_crypto_encoding_base58_decode b58 binsz =
     (let outisz = (binsz + 3) div 4;
          bytesleft = binsz mod 4;
          zeromask = (if bytesleft > 0 then push_bit (bytesleft * 8) (- 1) else 0)
      in case leading_zeros b58 of
           None \<Rightarrow> None
         | Some (zerocount, rest) \<Rightarrow>
             (case decode_loop zeromask rest (replicate outisz 0) of
                None \<Rightarrow> Some None
              | Some outi \<Rightarrow>
                  let bin = words_out bytesleft outi
                  in Some (Some (bin, binsz - length (takeWhile (\<lambda>b. b = 0) bin) + zerocount))))"

section \<open>Encoding\<close>

text \<open>The loop over the places of the buffer for one byte.\<close>

function encode_byte :: "int \<Rightarrow> int \<Rightarrow> int \<Rightarrow> bytes \<Rightarrow> (int \<times> bytes) option" where
  "encode_byte carry j high buf =
     (if j > high \<or> carry \<noteq> 0 then
        if j < 0 then None
        else let carry1 = carry + 256 * int (unat (buf ! nat j))
             in encode_byte (carry1 div 58) (j - 1) high (buf[nat j := of_int (carry1 mod 58)])
      else Some (j, buf))"
  by pat_completeness auto
termination by (relation "measure (\<lambda>(carry, j, high, buf). nat (j + 1))") auto

declare encode_byte.simps [simp del]

fun encode_loop :: "bytes \<Rightarrow> int \<Rightarrow> bytes \<Rightarrow> bytes option" where
  "encode_loop [] high buf = Some buf"
| "encode_loop (b # bin) high buf =
     (case encode_byte (int (unat b)) (int (length buf) - 1) high buf of
        None \<Rightarrow> None
      | Some (j, buf1) \<Rightarrow> encode_loop bin j buf1)"

text \<open>The result: the string, or \<open>None\<close> for a buffer that is too small; and the size it sets.\<close>

definition libp2p_crypto_encoding_base58_encode :: "bytes \<Rightarrow> nat \<Rightarrow> (bytes option \<times> nat) option" where
  "libp2p_crypto_encoding_base58_encode bin base58_size =
     (let zcount = length (takeWhile (\<lambda>b. b = 0) bin);
          size = (length bin - zcount) * 138 div 100 + 1
      in case encode_loop (drop zcount bin) (int size - 1) (replicate size 0) of
           None \<Rightarrow> None
         | Some buf \<Rightarrow>
             let digits = dropWhile (\<lambda>d. d = 0) buf
             in if base58_size \<le> zcount + length digits then Some (None, zcount + length digits + 1)
                else if zcount > 0 then None
                else Some (Some (map (\<lambda>d. b58digits_ordered ! unat d) digits), length digits + 1))"

section \<open>Numbers in a base\<close>

fun dval :: "nat \<Rightarrow> nat list \<Rightarrow> nat" where
  "dval b [] = 0"
| "dval b (d # ds) = d * b ^ length ds + dval b ds"

lemma dval_append: "dval b (xs @ ys) = dval b xs * b ^ length ys + dval b ys"
  by (induction xs) (simp_all add: algebra_simps power_add)

lemma dval_zeros: "(\<forall>d \<in> set ds. d = 0) \<Longrightarrow> dval b ds = 0"
  by (induction ds) simp_all

lemma be_val_dval: "be_val bs = dval 256 (map unat bs)"
  by (induction bs) simp_all

lemma dval_less: "(\<forall>d \<in> set ds. d < b) \<Longrightarrow> dval b ds < b ^ length ds"
proof (induction ds)
  case (Cons d ds)
  then have "d * b ^ length ds + dval b ds < Suc d * b ^ length ds" by simp
  also have "\<dots> \<le> b * b ^ length ds" using Cons.prems by (intro mult_right_mono) auto
  finally show ?case by simp
qed simp

section \<open>What encoding computes\<close>

abbreviation val58 :: "bytes \<Rightarrow> nat" where "val58 buf \<equiv> dval 58 (map unat buf)"

definition digits_ok :: "bytes \<Rightarrow> bool" where
  "digits_ok buf \<longleftrightarrow> (\<forall>d \<in> set buf. unat d < 58)"

lemma unat_digit: "unat (of_int (c mod 58) :: byte) = nat (c mod 58)"
proof -
  have "c mod 58 = int (nat (c mod 58))" "nat (c mod 58) < 58" by (simp_all add: nat_less_iff)
  then have "(of_int (c mod 58) :: byte) = of_nat (nat (c mod 58))" by (metis of_int_of_nat_eq)
  then show ?thesis using \<open>nat (c mod 58) < 58\<close> by (simp only: unat_of_nat) simp
qed

lemma encode_byte_ok:
  assumes "digits_ok buf" and "- 1 \<le> j" and "j < int (length buf)" and "- 1 \<le> high" and "0 \<le> carry"
    and "\<And>i. int i \<le> high \<Longrightarrow> int i \<le> j \<Longrightarrow> buf ! i = 0"
    and "val58 (take (nat (j + 1)) buf) * 256 + nat carry < 58 ^ nat (j + 1)"
  shows "\<exists>j' buf'. encode_byte carry j high buf = Some (j', buf') \<and> digits_ok buf' \<and> length buf' = length buf \<and>
    - 1 \<le> j' \<and> j' \<le> j \<and> (\<forall>i. int i \<le> j' \<longrightarrow> buf' ! i = 0) \<and> drop (nat (j + 1)) buf' = drop (nat (j + 1)) buf \<and>
    val58 (take (nat (j + 1)) buf') = val58 (take (nat (j + 1)) buf) * 256 + nat carry"
  using assms
proof (induction carry j high buf rule: encode_byte.induct)
  case (1 carry j high buf)
  show ?case
  proof (cases "j > high \<or> carry \<noteq> 0")
    case False
    have "\<forall>d \<in> set (map unat (take (nat (j + 1)) buf)). d = 0"
      using False "1.prems"(6) by (auto simp: in_set_conv_nth)
    then have "val58 (take (nat (j + 1)) buf) = 0" by (rule dval_zeros)
    then show ?thesis using False "1.prems"
      by (intro exI [of _ j] exI [of _ buf]) (simp add: encode_byte.simps [of 0])
  next
    case True
    have j: "0 \<le> j" using True "1.prems"(2,4,5,7) by (cases "j = - 1") auto
    define n where "n = nat j"
    have n: "j = int n" "nat (j + 1) = Suc n" "n < length buf" using j "1.prems"(3) by (simp_all add: n_def)
    define c1 where "c1 = carry + 256 * int (unat (buf ! n))"
    define buf1 where "buf1 = buf[n := of_int (c1 mod 58)]"
    have c1: "0 \<le> c1" using "1.prems"(5) by (simp add: c1_def)
    have t: "take (Suc n) xs = take n xs @ [xs ! n]" if "length xs = length buf" for xs :: bytes using n(3) that by (simp add: take_Suc_conv_app_nth)
    have b1: "take n buf1 = take n buf" "buf1 ! n = of_int (c1 mod 58)" "length buf1 = length buf" "drop (Suc n) buf1 = drop (Suc n) buf"
      using n(3) by (simp_all add: buf1_def)
    have v: "val58 (take (Suc n) xs) = val58 (take n xs) * 58 + unat (xs ! n)" if "length xs = length buf" for xs :: bytes
      using t [OF that] by (simp add: dval_append)
    have split: "nat c1 = nat (c1 div 58) * 58 + nat (c1 mod 58)"
      using c1 by (simp add: nat_div_distrib nat_mod_distrib)
    have nc: "nat c1 = nat carry + 256 * unat (buf ! n)" using "1.prems"(5) by (simp add: c1_def nat_add_distrib nat_mult_distrib)
    have tot: "val58 (take (Suc n) buf) * 256 + nat carry = 58 * (val58 (take n buf) * 256 + nat (c1 div 58)) + nat (c1 mod 58)"
      using v [of buf] split nc by simp
    have ok: "digits_ok buf1" using "1.prems"(1) c1 set_update_subset_insert [of buf n "of_int (c1 mod 58)"]
      by (auto simp: digits_ok_def buf1_def unat_digit)
    have bound: "val58 (take (nat (j - 1 + 1)) buf1) * 256 + nat (c1 div 58) < 58 ^ nat (j - 1 + 1)"
      using tot "1.prems"(7) n b1(1) by simp
    have zero: "buf1 ! i = 0" if "int i \<le> high" "int i \<le> j - 1" for i
      using "1.prems"(6) [of i] that n by (simp add: buf1_def)
    have nj: "\<not> j < 0" "- 1 \<le> j - 1" "j - 1 < int (length buf1)" "0 \<le> c1 div 58" "nat (j - 1 + 1) = n"
      using j b1(3) "1.prems"(3) c1 n by (simp_all add: pos_imp_zdiv_nonneg_iff)
    have c1': "c1 = carry + 256 * int (unat (buf ! nat j))" and b1': "buf1 = buf[nat j := of_int (c1 mod 58)]"
      by (simp_all add: c1_def buf1_def n_def)
    from "1.IH" [OF True nj(1) c1', folded b1', OF ok nj(2,3) "1.prems"(4) nj(4) zero bound, unfolded nj(5)]
    obtain j' buf' where r: "encode_byte (c1 div 58) (j - 1) high buf1 = Some (j', buf')" "digits_ok buf'" "length buf' = length buf1"
      "- 1 \<le> j'" "j' \<le> j - 1" "\<forall>i. int i \<le> j' \<longrightarrow> buf' ! i = 0" "drop n buf' = drop n buf1"
      "val58 (take n buf') = val58 (take n buf1) * 256 + nat (c1 div 58)" by blast
    have "buf' ! n = buf1 ! n" "drop (Suc n) buf' = drop (Suc n) buf1"
      using r(3,7) n(3) b1(3) by (metis Cons_nth_drop_Suc list.inject)+
    moreover have "unat (buf1 ! n) = nat (c1 mod 58)" using b1(2) c1 unat_digit by simp
    ultimately have "val58 (take (Suc n) buf') = val58 (take (Suc n) buf) * 256 + nat carry" "drop (Suc n) buf' = drop (Suc n) buf"
      using v [of buf'] r(3,8) b1 tot by simp_all
    moreover have "encode_byte carry j high buf = Some (j', buf')"
      using r(1) True j unfolding encode_byte.simps [of carry] by (simp add: c1_def buf1_def n_def)
    ultimately show ?thesis using r b1(3) n(2) by auto
  qed
qed

lemma encode_loop_ok:
  "digits_ok buf \<Longrightarrow> - 1 \<le> high \<Longrightarrow> high < int (length buf) \<Longrightarrow> (\<And>i. int i \<le> high \<Longrightarrow> buf ! i = 0) \<Longrightarrow>
   val58 buf * 256 ^ length bin + be_val bin < 58 ^ length buf \<Longrightarrow>
   \<exists>buf'. encode_loop bin high buf = Some buf' \<and> digits_ok buf' \<and> length buf' = length buf \<and>
     val58 buf' = val58 buf * 256 ^ length bin + be_val bin"
proof (induction bin arbitrary: high buf)
  case (Cons b bin)
  let ?n = "int (length buf) - 1"
  have n: "nat (?n + 1) = length buf" by simp
  have "(val58 buf * 256 + unat b) * 1 \<le> (val58 buf * 256 + unat b) * 256 ^ length bin" by (intro mult_left_mono) simp_all
  also have "\<dots> < 58 ^ length buf" using Cons.prems(5) by (simp add: algebra_simps)
  finally have "val58 buf * 256 + unat b < 58 ^ length buf" by simp
  then have "val58 (take (nat (?n + 1)) buf) * 256 + nat (int (unat b)) < 58 ^ nat (?n + 1)" by simp
  from encode_byte_ok [OF Cons.prems(1) _ _ Cons.prems(2) _ Cons.prems(4) this]
  obtain j buf' where r: "encode_byte (int (unat b)) ?n high buf = Some (j, buf')" "digits_ok buf'" "length buf' = length buf"
    "- 1 \<le> j" "j \<le> ?n" "\<forall>i. int i \<le> j \<longrightarrow> buf' ! i = 0" "val58 buf' = val58 buf * 256 + unat b"
    unfolding n using Cons.prems(3) by auto
  have "val58 buf' * 256 ^ length bin + be_val bin < 58 ^ length buf'"
    using Cons.prems(5) r(3,7) by (simp add: algebra_simps)
  from Cons.IH [OF r(2,4) _ _ this] r obtain buf'' where "encode_loop bin j buf' = Some buf''" "digits_ok buf''"
    "length buf'' = length buf" "val58 buf'' = val58 buf' * 256 ^ length bin + be_val bin" by auto
  then show ?case using r(1,7) by (auto simp: algebra_simps)
qed simp

text \<open>The factor 138/100 leaves enough room.\<close>

lemma size_bound: "(256 :: nat) ^ n \<le> 58 ^ (n * 138 div 100 + 1)"
proof -
  let ?m = "n * 138 div 100 + 1"
  have "(256 :: nat) ^ 100 \<le> 58 ^ 138" by simp
  then have "((256 :: nat) ^ 100) ^ n \<le> (58 ^ 138) ^ n" by (rule power_mono) simp
  also have "\<dots> = 58 ^ (138 * n)" by (simp only: power_mult)
  also have "\<dots> \<le> 58 ^ (?m * 100)" by (rule power_increasing) simp_all
  also have "\<dots> = (58 ^ ?m) ^ 100" by (simp only: power_mult)
  finally have "((256 :: nat) ^ n) ^ 100 \<le> (58 ^ ?m) ^ 100" by (simp only: power_mult [symmetric] mult.commute)
  then show ?thesis by (rule power_le_imp_le_base [of _ 99, simplified]) simp
qed

section \<open>What decoding computes\<close>

fun val32 :: "32 word list \<Rightarrow> nat" where
  "val32 [] = 0"
| "val32 (w # ws) = unat w * 256 ^ (4 * length ws) + val32 ws"

lemma mul58_word:
  fixes x c :: "32 word"
  assumes "unat c < 58"
  defines "t \<equiv> ucast x * 58 + ucast c :: 64 word"
  shows "unat (ucast (t AND 0xffffffff) :: 32 word) = (unat x * 58 + unat c) mod 2 ^ 32"
    and "unat (ucast (drop_bit 32 (t AND 0x3f00000000)) :: 32 word) = (unat x * 58 + unat c) div 2 ^ 32"
proof -
  have x: "unat x < 2 ^ 32" using unsigned_less [of x] by simp
  then have less: "unat x * 58 + unat c < 2 ^ 32 * 58" using assms(1) by linarith
  have "unat (ucast x * 58 :: 64 word) = unat x * 58" using x by (simp add: unat_word_ariths unsigned_ucast_eq take_bit_nat_eq_self)
  then have t: "unat t = unat x * 58 + unat c"
    using less assms(1) by (simp add: t_def unat_word_ariths unsigned_ucast_eq take_bit_nat_eq_self)
  have m: "(0xffffffff :: 64 word) = mask 32" by (simp add: mask_numeral)
  show "unat (ucast (t AND 0xffffffff) :: 32 word) = (unat x * 58 + unat c) mod 2 ^ 32"
    unfolding m take_bit_eq_mask [symmetric] unsigned_ucast_eq unsigned_take_bit_eq t by (simp add: take_bit_eq_mod)
  have m': "(0x3f00000000 :: 64 word) = push_bit 32 (mask 6)" by (simp add: mask_numeral)
  have "drop_bit 32 (t AND 0x3f00000000) = take_bit 6 (drop_bit 32 t)"
    unfolding m' by (rule bit_eqI) (auto simp: bit_simps)
  moreover have "unat (drop_bit 32 t) = (unat x * 58 + unat c) div 2 ^ 32"
    unfolding unsigned_drop_bit_eq t using less by (simp add: take_bit_nat_eq_self drop_bit_eq_div)
  moreover have "(unat x * 58 + unat c) div 2 ^ 32 < 58" using less by (simp add: less_mult_imp_div_less)
  ultimately show "unat (ucast (drop_bit 32 (t AND 0x3f00000000)) :: 32 word) = (unat x * 58 + unat c) div 2 ^ 32"
    by (simp add: unsigned_ucast_eq unsigned_take_bit_eq take_bit_nat_eq_self)
qed

lemma mul58_ok:
  "mul58 xs c = (ys, c') \<Longrightarrow> unat c < 58 \<Longrightarrow>
   length ys = length xs \<and> val32 ys + unat c' * 256 ^ (4 * length xs) = val32 xs * 58 + unat c \<and> unat c' < 58"
proof (induction xs arbitrary: ys c')
  case (Cons x xs)
  obtain zs c1 where m: "mul58 xs c = (zs, c1)" by fastforce
  from Cons.IH [OF m Cons.prems(2)] have ih: "length zs = length xs"
    "val32 zs + unat c1 * 256 ^ (4 * length xs) = val32 xs * 58 + unat c" "unat c1 < 58" by simp_all
  define T where "T = unat x * 58 + unat c1"
  have r: "ys = ucast ((ucast x * 58 + ucast c1 :: 64 word) AND 0xffffffff) # zs"
    "c' = ucast (drop_bit 32 ((ucast x * 58 + ucast c1 :: 64 word) AND 0x3f00000000))" using Cons.prems(1) m by (auto simp: Let_def)
  have w: "unat (hd ys) = T mod 2 ^ 32" "unat c' = T div 2 ^ 32" using mul58_word [OF ih(3), of x] r by (simp_all add: T_def)
  define B M where "B = (256 :: nat) ^ (4 * length xs)" and "M = (2 ^ 32 :: nat)"
  have "val32 ys = T mod M * B + val32 zs" using w(1) r(1) ih(1) by (simp add: B_def M_def)
  moreover have "unat c' * 256 ^ (4 * length (x # xs)) = M * (T div M) * B" using w(2) by (simp add: B_def M_def power_add)
  moreover have "T mod M * B + M * (T div M) * B = T * B" by (simp only: distrib_right [symmetric] mod_mult_div_eq)
  ultimately have "val32 ys + unat c' * 256 ^ (4 * length (x # xs)) = T * 256 ^ (4 * length xs) + val32 zs"
    unfolding B_def [symmetric] by linarith
  also have "\<dots> = val32 (x # xs) * 58 + unat c" using ih(2) by (simp add: T_def algebra_simps)
  finally have "val32 ys + unat c' * 256 ^ (4 * length (x # xs)) = val32 (x # xs) * 58 + unat c" .
  moreover have "unat x < 2 ^ 32" using unsigned_less [of x] by simp
  then have "T < 58 * 2 ^ 32" using ih(3) unfolding T_def by linarith
  then have "unat c' < 58" unfolding w(2) by (rule less_mult_imp_div_less)
  ultimately show ?case using r(1) ih(1) by simp
qed simp

text \<open>After a step the number fits the buffer exactly if the two tests of the code pass.\<close>

lemma mask_test: "w AND push_bit n (- 1) = 0 \<longleftrightarrow> unat (w :: 32 word) < 2 ^ n"
proof -
  have "w AND push_bit n (- 1) = 0 \<longleftrightarrow> take_bit n w = w"
    unfolding push_bit_minus_one_eq_not_mask take_bit_eq_mask by (auto simp: bit_eq_iff bit_simps)
  also have "\<dots> \<longleftrightarrow> take_bit n (unat w) = unat w" by (metis unsigned_take_bit_eq unsigned_word_eqI)
  also have "\<dots> \<longleftrightarrow> unat w < 2 ^ n" by (simp add: take_bit_nat_eq_self_iff)
  finally show ?thesis .
qed

definition b58_mask :: "nat \<Rightarrow> 32 word" where
  "b58_mask binsz = (if binsz mod 4 > 0 then push_bit (binsz mod 4 * 8) (- 1) else 0)"


lemma unat32_less: "unat (w :: 32 word) < 2 ^ 32"
  using unsigned_less [of w] by simp

lemma val32_less: "val32 ws < 256 ^ (4 * length ws)"
proof (induction ws)
  case (Cons w ws)
  have "unat w * 256 ^ (4 * length ws) + val32 ws < Suc (unat w) * 256 ^ (4 * length ws)" using Cons by simp
  also have "\<dots> \<le> 2 ^ 32 * 256 ^ (4 * length ws)" using unat32_less [of w] by (intro mult_right_mono) simp_all
  finally show ?case by (simp add: power_add)
qed simp

lemma words_needed: "(n + 3) div 4 = n div 4 + (if n mod 4 = 0 then 0 else 1 :: nat)"
proof -
  have "n mod 4 < 4" by simp
  then consider "n mod 4 = 0" | "n mod 4 = 1" | "n mod 4 = 2" | "n mod 4 = 3" by linarith
  moreover have "(n + 3) div 4 = (4 * (n div 4) + (n mod 4 + 3)) div 4" by simp
  ultimately show ?thesis by cases simp_all
qed

lemma fits_test:
  assumes "length ys = (binsz + 3) div 4"
  shows "first_word ys AND b58_mask binsz = 0 \<longleftrightarrow> val32 ys < 256 ^ binsz"
proof (cases "binsz mod 4 = 0")
  case True
  then have "4 * length ys = binsz" using assms mult_div_mod_eq [of 4 binsz] by (simp add: words_needed)
  then show ?thesis using val32_less [of ys] True by (simp add: b58_mask_def)
next
  case False
  then obtain w ws where ys: "ys = w # ws" using assms by (cases ys) auto
  have b: "binsz = binsz mod 4 + 4 * length ws" using False assms mult_div_mod_eq [of 4 binsz] by (simp add: ys words_needed)
  define B where "B = (256 :: nat) ^ (4 * length ws)"
  have v: "val32 ys = unat w * B + val32 ws" "val32 ws < B" using val32_less [of ws] by (simp_all add: ys B_def)
  have "unat w < 256 ^ (binsz mod 4) \<longleftrightarrow> unat w * B + val32 ws < 256 ^ (binsz mod 4) * B"
  proof
    assume "unat w < 256 ^ (binsz mod 4)"
    then have "Suc (unat w) * B \<le> 256 ^ (binsz mod 4) * B" by (intro mult_right_mono) simp_all
    then show "unat w * B + val32 ws < 256 ^ (binsz mod 4) * B" using v(2) by simp
  next
    assume "unat w * B + val32 ws < 256 ^ (binsz mod 4) * B"
    then have "unat w * B < 256 ^ (binsz mod 4) * B" by linarith
    then show "unat w < 256 ^ (binsz mod 4)" by simp
  qed
  also have "256 ^ (binsz mod 4) * B = 256 ^ binsz" unfolding B_def by (metis b power_add)
  finally have e: "unat w < 256 ^ (binsz mod 4) \<longleftrightarrow> val32 ys < 256 ^ binsz" unfolding v(1) .
  have "first_word ys AND b58_mask binsz = 0 \<longleftrightarrow> unat w < 256 ^ (binsz mod 4)"
    unfolding pow256 using False mask_test [of w "binsz mod 4 * 8"] by (simp add: b58_mask_def first_word_def ys mult.commute)
  then show ?thesis unfolding e .
qed

lemma step_test:
  assumes "mul58 xs c = (ys, c')" and "unat c < 58" and "length xs = (binsz + 3) div 4" and "binsz \<le> 4 * length xs"
  shows "c' = 0 \<and> first_word ys AND b58_mask binsz = 0 \<longleftrightarrow> val32 xs * 58 + unat c < 256 ^ binsz"
    and "c' = 0 \<Longrightarrow> val32 ys = val32 xs * 58 + unat c" and "length ys = length xs"
proof -
  note m = mul58_ok [OF assms(1,2)]
  show l: "length ys = length xs" using m by simp
  show "c' = 0 \<Longrightarrow> val32 ys = val32 xs * 58 + unat c" using m by simp
  show "c' = 0 \<and> first_word ys AND b58_mask binsz = 0 \<longleftrightarrow> val32 xs * 58 + unat c < 256 ^ binsz"
  proof (cases "c' = 0")
    case True
    then show ?thesis using m fits_test [of ys binsz] assms(3) l by simp
  next
    case False
    then have "1 * 256 ^ (4 * length xs) \<le> unat c' * 256 ^ (4 * length xs)"
      by (intro mult_right_mono) (simp_all add: Suc_le_eq unat_gt_0)
    moreover have "(256 :: nat) ^ binsz \<le> 256 ^ (4 * length xs)" using assms(4) by (intro power_increasing) simp_all
    ultimately show ?thesis using False m by linarith
  qed
qed

section \<open>Digits\<close>

definition valid58 :: "byte \<Rightarrow> bool" where
  "valid58 b \<longleftrightarrow> unat b < 128 \<and> b58digits_map ! unat b \<noteq> - 1"

definition digit58 :: "byte \<Rightarrow> nat" where
  "digit58 b = nat (b58digits_map ! unat b)"

lemma length_map [simp]: "length b58digits_map = 128"
  by (simp add: b58digits_map_def)

lemma map_range: "list_all (\<lambda>d. - 1 \<le> d \<and> d < 58) b58digits_map"
  by (simp add: b58digits_map_def)

lemma valid58_digit: "valid58 b \<Longrightarrow> b58digits_map ! unat b = int (digit58 b) \<and> digit58 b < 58"
  using map_range by (fastforce simp: valid58_def digit58_def list_all_length)

lemma high_bit: "b AND 0x80 = 0 \<longleftrightarrow> unat (b :: byte) < 128"
proof -
  have "unat b div 128 < 2" using unat_byte_less [of b] by (intro less_mult_imp_div_less) simp
  then have d: "even (unat b div 128) \<longleftrightarrow> unat b < 128" by (auto simp: less_2_cases_iff div_eq_0_iff)
  have "b AND 0x80 = 0 \<longleftrightarrow> \<not> bit b 7" using and_exp_eq_0_iff_not_bit [of b 7] by simp
  also have "bit b 7 \<longleftrightarrow> bit (unat b) 7" by (simp add: bit_unsigned_iff)
  also have "\<not> bit (unat b) 7 \<longleftrightarrow> even (unat b div 128)" by (simp add: bit_iff_odd)
  finally show ?thesis unfolding d .
qed

lemma decode_loop_ok:
  assumes "\<forall>b \<in> set bs. valid58 b" and "length outi = (binsz + 3) div 4" and "val32 outi < 256 ^ binsz"
  defines "v \<equiv> val32 outi * 58 ^ length bs + dval 58 (map digit58 bs)"
  shows "if v < 256 ^ binsz
    then \<exists>outi'. decode_loop (b58_mask binsz) bs outi = Some outi' \<and> length outi' = length outi \<and> val32 outi' = v
    else decode_loop (b58_mask binsz) bs outi = None"
  using assms(1-3) unfolding v_def
proof (induction bs arbitrary: outi)
  case (Cons b bs)
  have d: "b58digits_map ! unat b = int (digit58 b)" "digit58 b < 58" and hi: "b AND 0x80 = 0"
    using valid58_digit [of b] Cons.prems(1) by (auto simp: high_bit valid58_def)
  define c where "c = (of_int (b58digits_map ! unat b) :: 32 word)"
  have c: "unat c = digit58 b" using d by (simp add: c_def unat_of_nat)
  obtain ys c' where m: "mul58 outi c = (ys, c')" by fastforce
  have "binsz \<le> 4 * length outi" using Cons.prems(2) by simp
  note st = step_test [OF m _ Cons.prems(2) this]
  let ?w = "val32 outi * 58 + digit58 b"
  have un: "decode_loop (b58_mask binsz) (b # bs) outi =
      (if c' = 0 \<and> first_word ys AND b58_mask binsz = 0 then decode_loop (b58_mask binsz) bs ys else None)"
    using m d(1) hi by (simp add: c_def)
  have tot: "val32 outi * 58 ^ length (b # bs) + dval 58 (map digit58 (b # bs)) = ?w * 58 ^ length bs + dval 58 (map digit58 bs)"
    by (simp add: algebra_simps)
  show ?case
  proof (cases "?w < 256 ^ binsz")
    case True
    then have ok: "c' = 0 \<and> first_word ys AND b58_mask binsz = 0" and ys: "val32 ys = ?w" "length ys = length outi"
      using st c d(2) by simp_all
    have "val32 ys < 256 ^ binsz" "length ys = (binsz + 3) div 4" using ys True Cons.prems(2) by simp_all
    from Cons.IH [OF _ this(2,1)] Cons.prems(1) show ?thesis unfolding tot un ys using ok by simp
  next
    case False
    then have "\<not> (c' = 0 \<and> first_word ys AND b58_mask binsz = 0)" using st(1) c d(2) by simp
    moreover have "256 ^ binsz \<le> ?w" "?w \<le> ?w * 58 ^ length bs" using False by simp_all
    then have "\<not> ?w * 58 ^ length bs + dval 58 (map digit58 bs) < 256 ^ binsz" by (meson le_trans not_less trans_le_add1)
    ultimately show ?thesis unfolding tot un by auto
  qed
qed simp

lemma be_val_words: "be_val (concat (map word_bytes ws)) = val32 ws" "length (concat (map word_bytes ws)) = 4 * length ws"
proof (induction ws)
  case (Cons w ws)
  { case 1
    have "be_val (concat (map word_bytes (w # ws))) = be_val (word_bytes w) * 256 ^ (4 * length ws) + val32 ws"
      using Cons by (simp add: be_val_append del: be_val.simps)
    also have "be_val (word_bytes w) = unat w" unfolding word_bytes_def by (rule be_val_word32)
    finally show ?case by simp }
  { case 2
    show ?case using Cons by (simp add: word_bytes_def) }
qed simp_all

lemma words_out_ok:
  assumes "length ws = (binsz + 3) div 4" and "val32 ws < 256 ^ binsz"
  shows "length (words_out (binsz mod 4) ws) = binsz" and "be_val (words_out (binsz mod 4) ws) = val32 ws"
proof -
  let ?out = "words_out (binsz mod 4) ws" and ?all = "concat (map word_bytes ws)"
  have "length ?out = binsz \<and> be_val ?out = val32 ws"
  proof (cases "binsz mod 4 = 0")
    case True
    then have "4 * length ws = binsz" using assms(1) mult_div_mod_eq [of 4 binsz] by (simp add: words_needed)
    then show ?thesis using True by (simp add: words_out_def be_val_words)
  next
    case False
    then obtain u us where ws: "ws = u # us" using assms(1) by (cases ws) auto
    define k where "k = 4 - binsz mod 4"
    have "length ws = Suc (binsz div 4)" using False assms(1) by (simp add: words_needed)
    then have k: "k \<le> 4" "k + binsz = 4 * length ws"
      using mult_div_mod_eq [of 4 binsz] mod_less_divisor [of 4 binsz] unfolding k_def by linarith+
    have "length (word_bytes u) = 4" by (simp add: word_bytes_def)
    then have out: "?out = drop k ?all" using False k(1) by (simp add: words_out_def ws first_word_def flip: k_def)
    have len: "length ?out = binsz" using k be_val_words(2) [of ws] by (simp add: out)
    have "be_val ?all = be_val (take k ?all) * 256 ^ binsz + be_val ?out"
      using be_val_append [of "take k ?all" ?out] len unfolding out by simp
    moreover from this have "be_val (take k ?all) * 256 ^ binsz < 1 * 256 ^ binsz"
      using assms(2) len be_val_words(1) [of ws] by linarith
    then have "be_val (take k ?all) = 0" by simp
    ultimately show ?thesis using len be_val_words(1) [of ws] by simp
  qed
  then show "length ?out = binsz" and "be_val ?out = val32 ws" by simp_all
qed

end
