(* ===== verification/Peer_Id.thy ===== *)
theory Peer_Id
  imports External Base58
begin

text \<open>
  Public keys and peer ids: \<open>src/crypto/key.c\<close> and \<open>src/crypto/peerutils.c\<close>. A \<open>struct PublicKey\<close> is a
  record; its \<open>type\<close> is the 32-bit enum, of which the protobuf decoder writes 64 bits, the upper half into
  the padding. \<open>mem\<close> says whether an allocation succeeds. Decoding may not end when the field decoder consumes
  nothing, so it is a partial function.
\<close>

record public_key =
  pk_type :: "32 word"
  pk_data :: bytes

definition KEYTYPE_RSA :: "32 word" where "KEYTYPE_RSA = 0"
definition KEYTYPE_ED25519 :: "32 word" where "KEYTYPE_ED25519 = 1"
definition KEYTYPE_INVALID :: "32 word" where "KEYTYPE_INVALID = 2"

definition libp2p_crypto_public_key_new :: public_key where
  "libp2p_crypto_public_key_new = \<lparr>pk_type = KEYTYPE_INVALID, pk_data = []\<rparr>"

definition libp2p_crypto_public_key_protobuf_encode_size :: "public_key \<Rightarrow> nat" where
  "libp2p_crypto_public_key_protobuf_encode_size k = 11 + 11 + length (pk_data k)"

text \<open>The return value and the bytes written; the result of the first encoder is overwritten before it is read.\<close>

definition libp2p_crypto_public_key_protobuf_encode :: "ext_lib \<Rightarrow> public_key \<Rightarrow> nat \<Rightarrow> bool \<times> bytes" where
  "libp2p_crypto_public_key_protobuf_encode L k max_buffer_length =
     (let b1 = (case protobuf_encode_varint L 1 (ucast (pk_type k)) max_buffer_length of None \<Rightarrow> [] | Some b \<Rightarrow> b)
      in case protobuf_encode_length_delimited L 2 (pk_data k) (max_buffer_length - length b1) of
           None \<Rightarrow> (False, b1)
         | Some b2 \<Rightarrow> (True, b1 @ b2))"

partial_function (option) public_key_decode_loop ::
    "ext_lib \<Rightarrow> bytes \<Rightarrow> nat \<Rightarrow> public_key \<Rightarrow> public_key option option" where
  "public_key_decode_loop L buffer pos out =
     (if pos < length buffer then
        case protobuf_decode_field_and_type L (drop pos buffer) (of_nat (length buffer)) of
          None \<Rightarrow> Some None
        | Some (field_no, field_type, bytes_read) \<Rightarrow>
            let pos1 = pos + bytes_read; rest = drop pos1 buffer; left = of_nat (length buffer) - of_nat pos1
            in if field_no = 1 then
                 case protobuf_decode_varint L rest left of
                   None \<Rightarrow> Some None
                 | Some (t, n) \<Rightarrow> public_key_decode_loop L buffer (pos1 + n) (out\<lparr>pk_type := ucast t\<rparr>)
               else if field_no = 2 then
                 case protobuf_decode_length_delimited L rest left of
                   None \<Rightarrow> Some None
                 | Some (d, n) \<Rightarrow> public_key_decode_loop L buffer (pos1 + n) (out\<lparr>pk_data := d\<rparr>)
               else public_key_decode_loop L buffer pos1 out
      else Some (Some out))"

definition libp2p_crypto_public_key_protobuf_decode :: "ext_lib \<Rightarrow> bool \<Rightarrow> bytes \<Rightarrow> public_key option option" where
  "libp2p_crypto_public_key_protobuf_decode L mem buffer =
     (if \<not> mem then Some None else public_key_decode_loop L buffer 0 libp2p_crypto_public_key_new)"

text \<open>\<open>PrettyID\<close>: a multihash in a zeroed buffer of \<open>rezbuflen\<close> bytes, its length taken with \<open>strlen\<close>, in base
  58. The outer option is the one of the encoder, a write through a wild pointer.\<close>

definition PrettyID :: "ext_lib \<Rightarrow> nat \<Rightarrow> bytes \<Rightarrow> (bytes option \<times> nat) option" where
  "PrettyID L rezbuflen id_buf =
     (case mh_new_sha2_256 L id_buf of
        None \<Rightarrow> Some (None, rezbuflen)
      | Some mh \<Rightarrow>
          let temp_buffer = memcpy (replicate rezbuflen 0) mh
          in libp2p_crypto_encoding_base58_encode (takeWhile (\<lambda>b. b \<noteq> 0) temp_buffer) rezbuflen)"

definition libp2p_crypto_public_key_to_peer_id :: "ext_lib \<Rightarrow> bool \<Rightarrow> public_key \<Rightarrow> bytes option option" where
  "libp2p_crypto_public_key_to_peer_id L mem k =
     (let protobuf = snd (libp2p_crypto_public_key_protobuf_encode L k (libp2p_crypto_public_key_protobuf_encode_size k))
      in case PrettyID L 100 (sha256 L protobuf) of
           None \<Rightarrow> None
         | Some (None, _) \<Rightarrow> Some None
         | Some (Some b58, final_id_size) \<Rightarrow> Some (if \<not> mem then None else Some b58))"

end
