(* ===== verification/Peerstore_V2.thy ===== *)
theory Peerstore_V2
  imports Prelude Machine
begin

text \<open>
  Addresses and the peer store of the second-generation stack: \<open>src/v2/src/net/multiaddr.c\<close> and
  \<open>src/v2/src/peer/peerstore.c\<close>.

  A C string is the list of its bytes, without the NUL. The peers live in a heap, since the store holds pointers to them
  that its clients keep and change; the linked lists of entries and of addresses are lists. Each allocation is an
  argument that says whether it succeeds, a new peer gets the address \<open>fresh\<close>. What is freed is not tracked.
\<close>

section \<open>Addresses\<close>

datatype v2_family = V2_AF_INET | V2_AF_INET6

record multi_address =
  raw_string :: bytes
  ma_ip :: "bytes option"
  ma_port :: "16 word"
  ma_family :: v2_family

text \<open>\<open>strtok(buffer, "/")\<close> until it gives \<open>NULL\<close>: the pieces between slashes that are not empty.\<close>

fun strtok_all :: "bytes \<Rightarrow> bytes \<Rightarrow> bytes list" where
  "strtok_all acc [] = (if acc = [] then [] else [rev acc])"
| "strtok_all acc (c # cs) =
     (if c = 47 then (if acc = [] then [] else [rev acc]) @ strtok_all [] cs else strtok_all (c # acc) cs)"

text \<open>\<open>atoi\<close>, as the C library has it: blanks, a sign, digits; \<open>strtol\<close> stops at the ends of \<open>long\<close> and the result is cut
  to an \<open>int\<close>.\<close>

definition digits_val :: "bytes \<Rightarrow> nat" where
  "digits_val ds = foldl (\<lambda>n d. n * 10 + (unat d - 48)) 0 (takeWhile (\<lambda>d. 48 \<le> d \<and> d \<le> 57) ds)"

definition atoi :: "bytes \<Rightarrow> 32 word" where
  "atoi s =
     (let s1 = dropWhile (\<lambda>c. c = 32 \<or> 9 \<le> c \<and> c \<le> 13) s
      in case s1 of
           [] \<Rightarrow> 0
         | c # cs \<Rightarrow>
             if c = 45 then of_int (max (- (2 ^ 63)) (- int (digits_val cs)))
             else of_int (min (2 ^ 63 - 1) (int (digits_val (if c = 43 then cs else s1)))))"

fun multiaddr_tokens :: "bytes list \<Rightarrow> multi_address \<Rightarrow> multi_address" where
  "multiaddr_tokens [] ma = ma"
| "multiaddr_tokens [token] ma = ma"
| "multiaddr_tokens (token # v # ts) ma =
     (if token = bstr ''ip4'' then multiaddr_tokens ts (ma\<lparr>ma_ip := Some v, ma_family := V2_AF_INET\<rparr>)
      else if token = bstr ''ip6'' then multiaddr_tokens ts (ma\<lparr>ma_ip := Some v, ma_family := V2_AF_INET6\<rparr>)
      else if token = bstr ''tcp'' then multiaddr_tokens ts (ma\<lparr>ma_port := ucast (atoi v)\<rparr>)
      else multiaddr_tokens (v # ts) ma)"

definition libp2p_multiaddr_new_from_string :: "bool \<Rightarrow> bytes \<Rightarrow> multi_address option" where
  "libp2p_multiaddr_new_from_string mem str =
     (if str = [] \<or> hd str \<noteq> 47 then None
      else if \<not> mem then None
      else let ma = multiaddr_tokens (strtok_all [] (take 255 str)) \<lparr>raw_string = str, ma_ip = None, ma_port = 0, ma_family = V2_AF_INET\<rparr>
           in if ma_ip ma = None \<or> ma_port ma = 0 then None else Some ma)"

section \<open>The peer store\<close>

text \<open>\<open>addr_head\<close> holds the items of the linked list of addresses and \<open>addr_end\<close> the pointer behind the last of them: 0, the null pointer,
  for a list that ends.\<close>

record v2_peer =
  peer_id :: "bytes option"
  addr_head :: "multi_address list"
  addr_end :: nat

record peerstore =
  ps_local_peer_id :: "bytes option"
  ps_head :: "nat option list"
  ps_public_key :: bytes
  ps_listen_addrs :: "bytes list"

type_synonym peer_heap = "nat \<rightharpoonup> v2_peer"

definition libp2p_v2_peerstore_new :: "bool \<Rightarrow> bytes option \<Rightarrow> peerstore option" where
  "libp2p_v2_peerstore_new mem local_peer_id =
     (if mem then Some \<lparr>ps_local_peer_id = local_peer_id, ps_head = [], ps_public_key = [], ps_listen_addrs = []\<rparr> else None)"

text \<open>The test of the two walks: an entry with a peer that has this id.\<close>

definition entry_id :: "peer_heap \<Rightarrow> nat option \<Rightarrow> bytes option" where
  "entry_id hp e = Option.bind e (\<lambda>a. Option.bind (hp a) peer_id)"

definition libp2p_v2_peerstore_add_peer :: "bool \<Rightarrow> peer_heap \<Rightarrow> nat option \<Rightarrow> peerstore \<Rightarrow> bool \<times> peerstore" where
  "libp2p_v2_peerstore_add_peer mem hp peer ps =
     (case peer of
        None \<Rightarrow> (False, ps)
      | Some p \<Rightarrow>
          case find_index (\<lambda>e. entry_id hp e \<noteq> None \<and> entry_id hp e = entry_id hp (Some p)) (ps_head ps) of
            Some i \<Rightarrow> (True, ps\<lparr>ps_head := (ps_head ps)[i := Some p]\<rparr>)
          | None \<Rightarrow> if \<not> mem then (False, ps) else (True, ps\<lparr>ps_head := Some p # ps_head ps\<rparr>))"

definition libp2p_v2_peerstore_get_peer :: "peer_heap \<Rightarrow> bytes option \<Rightarrow> peerstore \<Rightarrow> nat option" where
  "libp2p_v2_peerstore_get_peer hp pid ps =
     (case pid of
        None \<Rightarrow> None
      | Some i \<Rightarrow> case find_index (\<lambda>e. entry_id hp e = Some i) (ps_head ps) of None \<Rightarrow> None | Some k \<Rightarrow> ps_head ps ! k)"

text \<open>The allocations of \<open>add_address\<close>: the peer, the copy of its id, the entry of \<open>add_peer\<close>, the address node.\<close>

record addr_mem =
  am_peer :: bool
  am_id :: bool
  am_entry :: bool
  am_node :: bool

definition libp2p_v2_peerstore_add_address ::
    "addr_mem \<Rightarrow> nat \<Rightarrow> bytes option \<Rightarrow> multi_address option \<Rightarrow> peer_heap \<times> peerstore \<Rightarrow> bool \<times> peer_heap \<times> peerstore" where
  "libp2p_v2_peerstore_add_address mem fresh pid ma = (\<lambda>(hp, ps).
     case (pid, ma) of
       (Some i, Some a) \<Rightarrow>
         (case libp2p_v2_peerstore_get_peer hp pid ps of
            None \<Rightarrow>
              if \<not> am_peer mem then (False, hp, ps)
              else let hp1 = hp(fresh \<mapsto> \<lparr>peer_id = (if am_id mem then Some i else None), addr_head = [], addr_end = 0\<rparr>);
                       ps1 = snd (libp2p_v2_peerstore_add_peer (am_entry mem) hp1 (Some fresh) ps)
                   in if \<not> am_node mem then (False, hp1, ps1)
                      else (True, hp1(fresh := map_option (\<lambda>p. p\<lparr>addr_head := a # addr_head p\<rparr>) (hp1 fresh)), ps1)
          | Some p \<Rightarrow>
              if \<not> am_node mem then (False, hp, ps)
              else (True, hp(p := map_option (\<lambda>q. q\<lparr>addr_head := a # addr_head q\<rparr>) (hp p)), ps))
     | _ \<Rightarrow> (False, hp, ps))"

section \<open>Laws\<close>

definition ps_ids :: "peer_heap \<Rightarrow> peerstore \<Rightarrow> bytes list" where
  "ps_ids hp ps = List.map_filter (entry_id hp) (ps_head ps)"

text \<open>Every entry points to a peer, and no two entries have the same id.\<close>

definition ps_wf :: "peer_heap \<Rightarrow> peerstore \<Rightarrow> bool" where
  "ps_wf hp ps \<longleftrightarrow> (\<forall>e \<in> set (ps_head ps). \<exists>a \<in> dom hp. e = Some a) \<and> distinct (ps_ids hp ps)"

text \<open>The store as a finite map from ids to peers: the association list of its entries, those without an id left out.\<close>

definition ps_entry :: "peer_heap \<Rightarrow> nat option \<Rightarrow> (bytes \<times> v2_peer) option" where
  "ps_entry hp e = Option.bind e (\<lambda>a. Option.bind (hp a) (\<lambda>p. map_option (\<lambda>i. (i, p)) (peer_id p)))"

definition ps_map :: "peer_heap \<Rightarrow> peerstore \<Rightarrow> bytes \<rightharpoonup> v2_peer" where
  "ps_map hp ps = map_of (List.map_filter (ps_entry hp) (ps_head ps))"

lemma in_ps_ids: "i \<in> set (ps_ids hp ps) \<longleftrightarrow> (\<exists>e \<in> set (ps_head ps). entry_id hp e = Some i)"
  by (auto simp: ps_ids_def List.map_filter_def image_iff)

lemma ps_ids_Cons: "ps_ids hp (ps\<lparr>ps_head := e # es\<rparr>) = (case entry_id hp e of None \<Rightarrow> [] | Some i \<Rightarrow> [i]) @ ps_ids hp (ps\<lparr>ps_head := es\<rparr>)"
  by (simp add: ps_ids_def List.map_filter_def split: option.split)

lemma map_filter_update:
  "i < length xs \<Longrightarrow> f (xs ! i) = f y \<Longrightarrow> List.map_filter f (xs[i := y]) = List.map_filter f xs"
proof (induction xs arbitrary: i)
  case (Cons x xs)
  then show ?case by (cases i) (simp_all add: List.map_filter_simps split: option.split)
qed simp

text \<open>Looking an id up in a list of entries: the first that has it.\<close>

lemma get_peer_walk:
  "libp2p_v2_peerstore_get_peer hp (Some i) ps = Option.bind (find (\<lambda>e. entry_id hp e = Some i) (ps_head ps)) id"
proof -
  have "(case find_index P xs of None \<Rightarrow> None | Some k \<Rightarrow> xs ! k) = Option.bind (find P xs) id" for P and xs :: "nat option list"
    by (induction xs) (auto split: option.splits)
  then show ?thesis by (simp add: libp2p_v2_peerstore_get_peer_def)
qed

lemma ps_map_get: "ps_map hp ps = (\<lambda>i. Option.bind (libp2p_v2_peerstore_get_peer hp (Some i) ps) hp)"
proof
  fix i
  have "map_of (List.map_filter (ps_entry hp) es) i = Option.bind (Option.bind (find (\<lambda>e. entry_id hp e = Some i) es) id) hp" for es
    by (induction es) (auto simp: List.map_filter_simps ps_entry_def entry_id_def split: option.splits bind_splits)
  then show "ps_map hp ps i = Option.bind (libp2p_v2_peerstore_get_peer hp (Some i) ps) hp" by (simp add: ps_map_def get_peer_walk)
qed

lemma get_peer_None: "libp2p_v2_peerstore_get_peer hp (Some i) ps = None \<longleftrightarrow> i \<notin> set (ps_ids hp ps)"
proof (cases "find (\<lambda>e. entry_id hp e = Some i) (ps_head ps)")
  case None
  then have "\<forall>e \<in> set (ps_head ps). entry_id hp e \<noteq> Some i" by (auto simp: find_None_iff)
  then show ?thesis using None by (simp add: get_peer_walk in_ps_ids)
next
  case (Some e)
  then have "entry_id hp e = Some i" "e \<in> set (ps_head ps)" by (auto simp: find_Some_iff)
  then show ?thesis using Some by (auto simp: get_peer_walk in_ps_ids entry_id_def)
qed

lemma get_peer_Some:
  assumes "libp2p_v2_peerstore_get_peer hp (Some i) ps = Some a"
  shows "Some a \<in> set (ps_head ps)" "\<exists>p. hp a = Some p \<and> peer_id p = Some i"
proof -
  obtain k where k: "find_index (\<lambda>e. entry_id hp e = Some i) (ps_head ps) = Some k" "ps_head ps ! k = Some a"
    using assms by (auto simp: libp2p_v2_peerstore_get_peer_def split: option.splits)
  then have "k < length (ps_head ps)" "entry_id hp (Some a) = Some i" by (auto simp: find_index_Some)
  then show "Some a \<in> set (ps_head ps)" "\<exists>p. hp a = Some p \<and> peer_id p = Some i"
    using k(2) nth_mem [of k "ps_head ps"] by (auto simp: entry_id_def bind_eq_Some_conv)
qed

lemma ps_map_None: "ps_map hp ps i = None \<longleftrightarrow> libp2p_v2_peerstore_get_peer hp (Some i) ps = None"
  using get_peer_Some(2) [of hp i ps] by (cases "libp2p_v2_peerstore_get_peer hp (Some i) ps") (auto simp: ps_map_get)

lemma find_update:
  "i < length xs \<Longrightarrow> (\<forall>k < i. \<not> P (xs ! k)) \<Longrightarrow> P y \<Longrightarrow> find P (xs[i := y]) = Some y"
proof (induction xs arbitrary: i)
  case (Cons x xs)
  show ?case
  proof (cases i)
    case (Suc j)
    then have "\<not> P x" "\<forall>k < j. \<not> P (xs ! k)" using Cons.prems(2) by (auto dest: spec [of _ 0] spec [of _ "Suc _"])
    then show ?thesis using Cons Suc by simp
  qed (use Cons.prems in simp)
qed simp

lemma find_update_other: "i < length xs \<Longrightarrow> \<not> P (xs ! i) \<Longrightarrow> \<not> P y \<Longrightarrow> find P (xs[i := y]) = find P xs"
proof (induction xs arbitrary: i)
  case (Cons x xs)
  then show ?case by (cases i) auto
qed simp

text \<open>Adding a peer.\<close>

lemma add_peer_wf:
  assumes "ps_wf hp ps" and "a \<in> dom hp" and "libp2p_v2_peerstore_add_peer mem hp (Some a) ps = (ok, ps')"
  shows "ps_wf hp ps'"
proof (cases "find_index (\<lambda>e. entry_id hp e \<noteq> None \<and> entry_id hp e = entry_id hp (Some a)) (ps_head ps)")
  case None
  then have "ps' = ps \<or> ps' = ps\<lparr>ps_head := Some a # ps_head ps\<rparr>"
    using assms(3) by (auto simp: libp2p_v2_peerstore_add_peer_def split: if_splits)
  moreover have "\<forall>i. entry_id hp (Some a) = Some i \<longrightarrow> i \<notin> set (ps_ids hp ps)" using None by (auto simp: find_index_None in_ps_ids)
  ultimately show ?thesis using assms(1,2) by (auto simp: ps_wf_def ps_ids_Cons split: option.split)
next
  case (Some i)
  then have "ps' = ps\<lparr>ps_head := (ps_head ps)[i := Some a]\<rparr>" using assms(3) by (simp add: libp2p_v2_peerstore_add_peer_def)
  moreover have "i < length (ps_head ps)" "entry_id hp (ps_head ps ! i) = entry_id hp (Some a)" using Some by (auto simp: find_index_Some)
  ultimately show ?thesis using assms(1,2)
    by (auto simp: ps_wf_def ps_ids_def map_filter_update dest!: set_update_subset_insert [THEN subsetD])
qed

lemma add_peer_map:
  assumes "hp a = Some p" and "peer_id p = Some i" and "libp2p_v2_peerstore_add_peer mem hp (Some a) ps = (True, ps')"
  shows "ps_map hp ps' = (ps_map hp ps)(i \<mapsto> p)"
proof -
  have id: "entry_id hp (Some a) = Some i" using assms(1,2) by (simp add: entry_id_def)
  show ?thesis
  proof (cases "find_index (\<lambda>e. entry_id hp e \<noteq> None \<and> entry_id hp e = entry_id hp (Some a)) (ps_head ps)")
    case None
    then have "ps' = ps\<lparr>ps_head := Some a # ps_head ps\<rparr>"
      using assms(3) by (auto simp: libp2p_v2_peerstore_add_peer_def split: if_splits)
    then show ?thesis using id assms(1) by (auto simp: ps_map_get get_peer_walk fun_eq_iff)
  next
    case (Some k)
    then have k: "k < length (ps_head ps)" "entry_id hp (ps_head ps ! k) = Some i" "\<forall>m < k. entry_id hp (ps_head ps ! m) \<noteq> Some i"
      using id by (auto simp: find_index_Some)
    have ps': "ps' = ps\<lparr>ps_head := (ps_head ps)[k := Some a]\<rparr>" using Some assms(3) by (simp add: libp2p_v2_peerstore_add_peer_def)
    have "find (\<lambda>e. entry_id hp e = Some i) ((ps_head ps)[k := Some a]) = Some (Some a)" using k id by (intro find_update) auto
    moreover have "find (\<lambda>e. entry_id hp e = Some j) ((ps_head ps)[k := Some a]) = find (\<lambda>e. entry_id hp e = Some j) (ps_head ps)" if "j \<noteq> i" for j
      using k id that by (intro find_update_other) auto
    ultimately show ?thesis using ps' assms(1) by (auto simp: ps_map_get get_peer_walk fun_eq_iff)
  qed
qed

text \<open>Changing the heap: a peer nobody points to, or the addresses of a peer.\<close>

lemma entry_id_fresh: "e = Some a \<Longrightarrow> a \<noteq> b \<Longrightarrow> entry_id (hp(b := q)) e = entry_id hp e"
  by (simp add: entry_id_def)

lemma entry_id_addrs: "entry_id (hp(b := map_option (\<lambda>p. p\<lparr>addr_head := f p\<rparr>) (hp b))) e = entry_id hp e"
  by (cases e) (auto simp: entry_id_def map_option_case split: option.split)

lemma ps_wf_addrs: "ps_wf (hp(b := map_option (\<lambda>p. p\<lparr>addr_head := f p\<rparr>) (hp b))) ps = ps_wf hp ps"
proof -
  have "dom (hp(b := map_option (\<lambda>p. p\<lparr>addr_head := f p\<rparr>) (hp b))) = dom hp" by (auto simp: dom_def split: if_splits)
  then show ?thesis by (simp add: ps_wf_def ps_ids_def entry_id_addrs [abs_def])
qed

lemma get_peer_addrs:
  "libp2p_v2_peerstore_get_peer (hp(b := map_option (\<lambda>p. p\<lparr>addr_head := f p\<rparr>) (hp b))) i ps = libp2p_v2_peerstore_get_peer hp i ps"
  unfolding libp2p_v2_peerstore_get_peer_def entry_id_addrs ..

lemma entries_fresh:
  assumes "ps_wf hp ps" and "b \<notin> dom hp"
  shows "map (entry_id (hp(b \<mapsto> q))) (ps_head ps) = map (entry_id hp) (ps_head ps)"
proof (rule map_cong [OF refl])
  fix e
  assume "e \<in> set (ps_head ps)"
  then obtain a where "e = Some a" "a \<in> dom hp" using assms(1) unfolding ps_wf_def by blast
  then show "entry_id (hp(b \<mapsto> q)) e = entry_id hp e" using assms(2) entry_id_fresh [of e a b hp "Some q"] by auto
qed

lemma find_cong_map: "map f xs = map g xs \<Longrightarrow> find (\<lambda>x. f x = y) xs = find (\<lambda>x. g x = y) xs"
  by (induction xs) auto

lemma map_filter_cong_map: "map f xs = map g xs \<Longrightarrow> List.map_filter f xs = List.map_filter g xs"
  by (induction xs) (auto simp: List.map_filter_simps split: option.splits)

lemma ps_fresh:
  assumes "ps_wf hp ps" and "b \<notin> dom hp"
  shows "ps_wf (hp(b \<mapsto> q)) ps" and "libp2p_v2_peerstore_get_peer (hp(b \<mapsto> q)) (Some i) ps = libp2p_v2_peerstore_get_peer hp (Some i) ps"
proof -
  note e = entries_fresh [OF assms, of q]
  show "ps_wf (hp(b \<mapsto> q)) ps" using assms(1) map_filter_cong_map [OF e] by (auto simp: ps_wf_def ps_ids_def)
  show "libp2p_v2_peerstore_get_peer (hp(b \<mapsto> q)) (Some i) ps = libp2p_v2_peerstore_get_peer hp (Some i) ps"
    by (simp add: get_peer_walk find_cong_map [OF e])
qed

lemma add_address_wf:
  assumes "ps_wf hp ps" and "fresh \<notin> dom hp" and "libp2p_v2_peerstore_add_address mem fresh pid ma (hp, ps) = (ok, hp', ps')"
  shows "ps_wf hp' ps'"
proof (cases "(pid = None \<or> ma = None) \<or> libp2p_v2_peerstore_get_peer hp pid ps \<noteq> None \<or> \<not> am_peer mem")
  case True
  then have "ps' = ps \<and> (hp' = hp \<or> (\<exists>b f. hp' = hp(b := map_option (\<lambda>p. p\<lparr>addr_head := f p\<rparr>) (hp b))))"
    using assms(3) by (auto simp: libp2p_v2_peerstore_add_address_def split: option.splits if_splits)
  then show ?thesis using assms(1) ps_wf_addrs by auto
next
  case False
  then obtain i a where p: "pid = Some i" "ma = Some a" "libp2p_v2_peerstore_get_peer hp (Some i) ps = None" "am_peer mem" by auto
  let ?q = "\<lparr>peer_id = (if am_id mem then Some i else None), addr_head = [], addr_end = 0\<rparr>"
  let ?hp = "hp(fresh \<mapsto> ?q)"
  let ?ps = "snd (libp2p_v2_peerstore_add_peer (am_entry mem) ?hp (Some fresh) ps)"
  have w: "ps_wf ?hp ?ps" using add_peer_wf [OF ps_fresh(1) [OF assms(1,2)]] by (metis domIff fun_upd_same option.distinct(1) prod.collapse)
  have "?ps = ps' \<and> (?hp = hp' \<or> hp' = ?hp(fresh := map_option (\<lambda>p. p\<lparr>addr_head := a # addr_head p\<rparr>) (?hp fresh)))"
    using assms(3) p unfolding libp2p_v2_peerstore_add_address_def Let_def by (auto split: if_splits)
  then show ?thesis
  proof (elim conjE disjE)
    assume "?ps = ps'" "?hp = hp'"
    then show ?thesis using w by simp
  next
    assume "?ps = ps'" "hp' = ?hp(fresh := map_option (\<lambda>p. p\<lparr>addr_head := a # addr_head p\<rparr>) (?hp fresh))"
    then show ?thesis using w ps_wf_addrs [of ?hp fresh "\<lambda>p. a # addr_head p" ps'] by simp
  qed
qed

lemma add_address_map:
  assumes "ps_wf hp ps" and "fresh \<notin> dom hp" and "libp2p_v2_peerstore_add_address mem fresh (Some i) (Some a) (hp, ps) = (True, hp', ps')"
    and "am_id mem" and "am_entry mem" and new: "ps_map hp ps i = None"
  shows "ps_map hp' ps' = (ps_map hp ps)(i \<mapsto> \<lparr>peer_id = Some i, addr_head = [a], addr_end = 0\<rparr>)"
proof -
  have None: "libp2p_v2_peerstore_get_peer hp (Some i) ps = None"
    using new by (simp add: ps_map_None)
  let ?q = "\<lparr>peer_id = Some i, addr_head = [], addr_end = 0\<rparr>"
  let ?hp = "hp(fresh \<mapsto> ?q)"
  have "i \<notin> set (ps_ids ?hp ps)" using None get_peer_None ps_fresh(2) [OF assms(1,2)] by metis
  then have "find_index (\<lambda>e. entry_id ?hp e \<noteq> None \<and> entry_id ?hp e = entry_id ?hp (Some fresh)) (ps_head ps) = None"
    by (auto simp: find_index_None in_ps_ids entry_id_def [of _ "Some fresh"])
  then have add: "libp2p_v2_peerstore_add_peer True ?hp (Some fresh) ps = (True, ps\<lparr>ps_head := Some fresh # ps_head ps\<rparr>)"
    by (simp add: libp2p_v2_peerstore_add_peer_def)
  have m: "ps_map ?hp (ps\<lparr>ps_head := Some fresh # ps_head ps\<rparr>) = (ps_map ?hp ps)(i \<mapsto> ?q)"
    by (rule add_peer_map [OF _ _ add]) simp_all
  have hp': "hp' = ?hp(fresh := map_option (\<lambda>p. p\<lparr>addr_head := a # addr_head p\<rparr>) (?hp fresh))" "ps' = ps\<lparr>ps_head := Some fresh # ps_head ps\<rparr>"
    using assms(3-5) None add by (simp_all add: libp2p_v2_peerstore_add_address_def Let_def split: if_splits)
  have g: "libp2p_v2_peerstore_get_peer hp' (Some j) ps' = libp2p_v2_peerstore_get_peer ?hp (Some j) ps'" for j
    unfolding hp'(1) by (rule get_peer_addrs)
  show ?thesis
  proof (rule ext)
    fix j
    show "ps_map hp' ps' j = ((ps_map hp ps)(i \<mapsto> \<lparr>peer_id = Some i, addr_head = [a], addr_end = 0\<rparr>)) j"
    proof (cases "j = i")
      case True
      have "libp2p_v2_peerstore_get_peer ?hp (Some i) ps' = Some fresh" by (simp add: hp'(2) get_peer_walk entry_id_def)
      then show ?thesis using True None g [of i] hp'(1) by (simp add: ps_map_get)
    next
      case False
      have "libp2p_v2_peerstore_get_peer ?hp (Some j) ps' = libp2p_v2_peerstore_get_peer hp (Some j) ps"
        using False ps_fresh(2) [OF assms(1,2)] by (simp add: hp'(2) get_peer_walk entry_id_def)
      moreover have "libp2p_v2_peerstore_get_peer hp (Some j) ps \<noteq> Some fresh" using get_peer_Some(2) assms(2) by fastforce
      ultimately show ?thesis using False g [of j] hp'(1)
        by (cases "libp2p_v2_peerstore_get_peer hp (Some j) ps") (auto simp: ps_map_get)
    qed
  qed
qed

lemma add_address_known:
  assumes "ps_wf hp ps" and "fresh \<notin> dom hp" and "libp2p_v2_peerstore_add_address mem fresh (Some i) (Some a) (hp, ps) = (True, hp', ps')"
    and "ps_map hp ps i = Some p"
  shows "ps_map hp' ps' = (ps_map hp ps)(i \<mapsto> p\<lparr>addr_head := a # addr_head p\<rparr>)"
proof -
  obtain b where Some: "libp2p_v2_peerstore_get_peer hp (Some i) ps = Some b" and pb: "hp b = Some p"
    using assms(4) by (auto simp: ps_map_get bind_eq_Some_conv)
  then have p: "hp b = Some p" "peer_id p = Some i" using get_peer_Some(2) [OF Some] by auto
  have hp': "hp' = hp(b := map_option (\<lambda>p. p\<lparr>addr_head := a # addr_head p\<rparr>) (hp b))" "ps' = ps"
    using assms(3) Some by (auto simp: libp2p_v2_peerstore_add_address_def split: if_splits)
  have g: "libp2p_v2_peerstore_get_peer hp' (Some j) ps = libp2p_v2_peerstore_get_peer hp (Some j) ps" for j
    unfolding hp'(1) by (rule get_peer_addrs)
  have "libp2p_v2_peerstore_get_peer hp (Some j) ps \<noteq> Some b" if "j \<noteq> i" for j using get_peer_Some(2) p that by fastforce
  moreover have "Option.bind r hp' = Option.bind r hp" if "r \<noteq> Some b" for r using that hp'(1) by (cases r) auto
  ultimately have "ps_map hp' ps j = ps_map hp ps j" if "j \<noteq> i" for j using that g by (simp add: ps_map_get)
  moreover have "ps_map hp' ps i = Some (p\<lparr>addr_head := a # addr_head p\<rparr>)" "ps_map hp ps i = Some p"
    using Some p hp'(1) g [of i] by (simp_all add: ps_map_get)
  ultimately show ?thesis using hp'(2) by (auto simp: fun_eq_iff)
qed

text \<open>Without memory for the copy of the id or for the entry, the new peer is lost and the call still succeeds.\<close>

lemma add_address_lost:
  assumes "ps_wf hp ps" and "fresh \<notin> dom hp" and "libp2p_v2_peerstore_add_address mem fresh (Some i) (Some a) (hp, ps) = (True, hp', ps')"
    and "\<not> (am_id mem \<and> am_entry mem)" and "ps_map hp ps i = None"
  shows "ps_map hp' ps' = ps_map hp ps"
proof -
  have none: "libp2p_v2_peerstore_get_peer hp (Some i) ps = None"
    using assms(5) by (simp add: ps_map_None)
  let ?hp = "hp(fresh \<mapsto> \<lparr>peer_id = (if am_id mem then Some i else None), addr_head = [], addr_end = 0\<rparr>)"
  let ?ps = "snd (libp2p_v2_peerstore_add_peer (am_entry mem) ?hp (Some fresh) ps)"
  have r: "ps' = ?ps" "\<exists>q. hp' = hp(fresh \<mapsto> q) \<and> peer_id q = (if am_id mem then Some i else None)"
    using assms(3) none by (auto simp: libp2p_v2_peerstore_add_address_def Let_def split: if_splits)
  have old: "List.map_filter (ps_entry hp') (ps_head ps) = List.map_filter (ps_entry hp) (ps_head ps)"
  proof (rule map_filter_cong_map, rule map_cong [OF refl])
    fix e assume "e \<in> set (ps_head ps)"
    then obtain b where "e = Some b" "b \<in> dom hp" using assms(1) unfolding ps_wf_def by blast
    moreover from this have "b \<noteq> fresh" using assms(2) by blast
    ultimately show "ps_entry hp' e = ps_entry hp e" using r(2) by (auto simp: ps_entry_def)
  qed
  have "i \<notin> set (ps_ids ?hp ps)" using none get_peer_None ps_fresh(2) [OF assms(1,2)] by metis
  then have "find_index (\<lambda>e. entry_id ?hp e \<noteq> None \<and> entry_id ?hp e = entry_id ?hp (Some fresh)) (ps_head ps) = None"
    by (auto simp: find_index_None in_ps_ids entry_id_def [of _ "Some fresh"])
  then have "ps_head ?ps = (if am_entry mem then Some fresh # ps_head ps else ps_head ps)"
    by (simp add: libp2p_v2_peerstore_add_peer_def)
  then show ?thesis using r assms(4) old
    by (auto simp: ps_map_def ps_entry_def [of _ "Some fresh"] List.map_filter_simps split: if_splits)
qed

end
