(* ===== verification/Identify_V2.thy ===== *)
theory Identify_V2
  imports Multistream_V2 Peer_Id Peerstore_V2
begin

text \<open>
  The identify protocol: \<open>src/v2/src/identify/identify_v2.c\<close> and \<open>identify_v2_ipfs.c\<close>, over any stream of the interface.

  A string that the protobuf library hands out is the list of the bytes of the field; in memory a zero follows and, behind
  the allocation, whatever is there (\<open>im_behind\<close>). Pointers the callers pass are not null. What is freed is not tracked.
\<close>

definition IDENTIFY_PROTOCOL_VERSION :: bytes where "IDENTIFY_PROTOCOL_VERSION = bstr ''ipfs/0.1.0''"
definition IDENTIFY_AGENT_VERSION :: bytes where "IDENTIFY_AGENT_VERSION = bstr ''c-ipfs/0.1.0''"

record identify_info =
  info_public_key :: "bytes option"
  info_public_key_len :: nat
  info_listen_addrs :: "bytes list"
  info_protocols :: "bytes list"
  info_observed_addr :: "bytes option"
  info_observed_addr_len :: nat
  info_protocol_version :: "bytes option"
  info_agent_version :: "bytes option"

text \<open>\<open>calloc\<close>.\<close>

definition libp2p_identify_info_new :: "bool \<Rightarrow> identify_info option" where
  "libp2p_identify_info_new mem =
     (if mem then Some \<lparr>info_public_key = None, info_public_key_len = 0, info_listen_addrs = [], info_protocols = [],
        info_observed_addr = None, info_observed_addr_len = 0, info_protocol_version = None, info_agent_version = None\<rparr>
      else None)"

text \<open>\<open>add_string_to_array\<close>: without memory the array stays as it was.\<close>

definition add_string_to_array :: "bool \<Rightarrow> bytes \<Rightarrow> bytes list \<Rightarrow> bytes list" where
  "add_string_to_array mem item array = (if mem then array @ [item] else array)"

section \<open>Loops over the stream\<close>

text \<open>\<open>identify_read_full\<close> is \<open>read_loop\<close>.\<close>

definition identify_read_full :: "'s v2stream \<Rightarrow> nat \<Rightarrow> 's \<Rightarrow> (bytes option \<times> 's) option" where
  "identify_read_full io len = read_loop io len []"

text \<open>The bytes of the length, one at a time, at most \<open>k\<close> of them.\<close>

fun identify_prefix :: "'s v2stream \<Rightarrow> nat \<Rightarrow> bytes \<Rightarrow> 's \<Rightarrow> (bytes option \<times> 's) option" where
  "identify_prefix io 0 prefix st = Some (None, st)"
| "identify_prefix io (Suc k) prefix st =
     (case v2_read io st 1 of
        None \<Rightarrow> None
      | Some (Some (b # _), st1) \<Rightarrow>
          if b AND 0x80 = 0 then Some (Some (prefix @ [b]), st1) else identify_prefix io k (prefix @ [b]) st1
      | Some (_, st1) \<Rightarrow> Some (None, st1))"

definition identify_read_varint_length :: "ext_lib \<Rightarrow> 's v2stream \<Rightarrow> 's \<Rightarrow> (64 word option \<times> 's) option" where
  "identify_read_varint_length L io st =
     do {
       (p, st1) \<leftarrow> identify_prefix io 16 [] st;
       case p of
         None \<Rightarrow> Some (None, st1)
       | Some prefix \<Rightarrow>
           let (val, n) = varint_decode L prefix
           in Some (if n \<noteq> length prefix then None else Some val, st1)
     }"

function identify_write_all :: "'s v2stream \<Rightarrow> bytes \<Rightarrow> 's \<Rightarrow> (bool \<times> 's) option" where
  "identify_write_all io buf st =
     (if buf = [] then Some (True, st)
      else case v2_write io st buf of
             None \<Rightarrow> None
           | Some (ret, st1) \<Rightarrow> if ret \<le> 0 then Some (False, st1) else identify_write_all io (drop (nat ret) buf) st1)"
  by pat_completeness auto
termination by (relation "measure (\<lambda>(io, buf, st). length buf)") auto

declare identify_write_all.simps [simp del]

section \<open>Sending\<close>

text \<open>The fields in their order, each an encoder that gets the room left in the buffer.\<close>

definition identify_fields :: "ext_lib \<Rightarrow> peerstore \<Rightarrow> (nat \<Rightarrow> bytes option) list" where
  "identify_fields L ps =
     [protobuf_encode_string L 5 IDENTIFY_PROTOCOL_VERSION, protobuf_encode_string L 6 IDENTIFY_AGENT_VERSION] @
     (if ps_public_key ps = [] then [] else [protobuf_encode_length_delimited L 1 (ps_public_key ps)]) @
     map (protobuf_encode_length_delimited L 2) (ps_listen_addrs ps)"

fun encode_all :: "(nat \<Rightarrow> bytes option) list \<Rightarrow> bytes \<Rightarrow> bytes option" where
  "encode_all [] buf = Some buf"
| "encode_all (e # es) buf = (case e (4096 - length buf) of None \<Rightarrow> None | Some b \<Rightarrow> encode_all es (buf @ b))"

definition libp2p_identify_send_response :: "ext_lib \<Rightarrow> 's v2stream \<Rightarrow> peerstore \<Rightarrow> 's \<Rightarrow> (bool \<times> 's) option" where
  "libp2p_identify_send_response L io ps st =
     (case encode_all (identify_fields L ps) [] of
        None \<Rightarrow> Some (False, st)
      | Some buf \<Rightarrow>
          do {
            (ok, st1) \<leftarrow> identify_write_all io (varint_encode L (of_nat (length buf))) st;
            if \<not> ok then Some (False, st1) else identify_write_all io buf st1
          })"

text \<open>The allocations of \<open>libp2p_identify_send_response_ipfs\<close>: the store, the encoded key, the array of addresses and each of its
  copies. The array is used without a test. A copy that failed is a null pointer, on which \<open>strlen\<close> is called when the fields
  before it fit the buffer.\<close>

record ipfs_mem =
  jm_store :: bool
  jm_key :: bool
  jm_array :: bool
  jm_copy :: "nat \<Rightarrow> bool"

definition libp2p_identify_send_response_ipfs ::
    "ext_lib \<Rightarrow> ipfs_mem \<Rightarrow> 's v2stream \<Rightarrow> bytes option \<Rightarrow> bytes \<Rightarrow> bytes option list \<Rightarrow> 's \<Rightarrow> (bool \<times> 's) outcome option" where
  "libp2p_identify_send_response_ipfs L m io pid public_key_der listen_addrs st =
     (case libp2p_v2_peerstore_new (jm_store m) pid of
        None \<Rightarrow> Some (Returns (False, st))
      | Some v2_ps \<Rightarrow>
          let pubkey = \<lparr>pk_type = KEYTYPE_RSA, pk_data = public_key_der\<rparr>;
              key = (if public_key_der = [] \<or> \<not> jm_key m then []
                     else case libp2p_crypto_public_key_protobuf_encode L pubkey (libp2p_crypto_public_key_protobuf_encode_size pubkey) of
                            (True, b) \<Rightarrow> b | (False, _) \<Rightarrow> []);
              addrs = List.map_filter id listen_addrs;
              copied = length (takeWhile (jm_copy m) [0..<length addrs]);
              ps = v2_ps\<lparr>ps_public_key := key, ps_listen_addrs := take copied addrs\<rparr>
          in if addrs \<noteq> [] \<and> \<not> jm_array m then Some Undefined
             else if copied < length addrs then
               (if encode_all (identify_fields L ps) [] = None then Some (Returns (False, st)) else Some Undefined)
             else map_option Returns (libp2p_identify_send_response L io ps st))"

section \<open>Receiving\<close>

text \<open>One field: whether it could be decoded, by how much the position moves, and what is known. A field that is not known is
  skipped only if it has a length.\<close>

definition identify_field :: "ext_lib \<Rightarrow> bool \<Rightarrow> bytes \<Rightarrow> 64 word \<Rightarrow> int \<Rightarrow> nat \<Rightarrow> identify_info \<Rightarrow> bool \<times> nat \<times> identify_info" where
  "identify_field L mem rest left field_no field_type info =
     (if field_no \<in> {1..6} then
        (case protobuf_decode_string L rest left of
           (None, str_len) \<Rightarrow> (False, str_len, info)
         | (Some str_val, str_len) \<Rightarrow> (True, str_len,
             if field_no = 1 then info\<lparr>info_public_key := Some str_val, info_public_key_len := str_len\<rparr>
             else if field_no = 2 then info\<lparr>info_listen_addrs := add_string_to_array mem str_val (info_listen_addrs info)\<rparr>
             else if field_no = 3 then info\<lparr>info_protocols := add_string_to_array mem str_val (info_protocols info)\<rparr>
             else if field_no = 4 then info\<lparr>info_observed_addr := Some str_val, info_observed_addr_len := str_len\<rparr>
             else if field_no = 5 then info\<lparr>info_protocol_version := Some str_val\<rparr>
             else info\<lparr>info_agent_version := Some str_val\<rparr>))
      else if field_type = WIRETYPE_LENGTH_DELIMITED then (True, snd (protobuf_decode_string L rest left), info)
      else (True, 0, info))"

text \<open>The loop over the fields; \<open>grow pos\<close> says whether an array can grow at this position. The length is passed to the field
  decoder as an \<open>int\<close>.\<close>

partial_function (option) identify_loop ::
    "ext_lib \<Rightarrow> (nat \<Rightarrow> bool) \<Rightarrow> bytes \<Rightarrow> nat \<Rightarrow> nat \<Rightarrow> identify_info \<Rightarrow> (bool \<times> identify_info) option" where
  "identify_loop L grow buf msg_len pos info =
     (if pos < msg_len then
        case protobuf_decode_field_and_type L (drop pos buf) (scast (of_nat (msg_len - pos) :: 32 word)) of
          None \<Rightarrow> Some (False, info)
        | Some (field_no, field_type, field_bytes) \<Rightarrow>
            let pos1 = pos + field_bytes;
                (ok, n, info1) = identify_field L (grow pos1) (drop pos1 buf) (of_nat msg_len - of_nat pos1) field_no field_type info
            in if ok then identify_loop L grow buf msg_len (pos1 + n) info1 else Some (False, info1)
      else Some (True, info))"

text \<open>The allocations of \<open>libp2p_identify_receive\<close> and the memory behind a string.\<close>

record identify_mem =
  im_buf :: bool
  im_info :: bool
  im_grow :: "nat \<Rightarrow> bool"
  im_key :: bool
  im_id :: bool
  im_addr :: "nat \<Rightarrow> bool"
  im_node :: "nat \<Rightarrow> bool"
  im_behind :: "nat \<Rightarrow> byte"

text \<open>The first \<open>n\<close> bytes in memory at a string.\<close>

definition string_memory :: "identify_mem \<Rightarrow> bytes \<Rightarrow> nat \<Rightarrow> bytes" where
  "string_memory m s n = take n (s @ 0 # map (im_behind m) [0..<n])"

definition identify_set_id :: "ext_lib \<Rightarrow> identify_mem \<Rightarrow> bytes \<Rightarrow> v2_peer \<Rightarrow> v2_peer outcome option" where
  "identify_set_id L m key peer =
     (case libp2p_crypto_public_key_protobuf_decode L (im_key m) key of
        None \<Rightarrow> None
      | Some None \<Rightarrow> Some (Returns peer)
      | Some (Some pubkey) \<Rightarrow>
          case libp2p_crypto_public_key_to_peer_id L (im_id m) pubkey of
            None \<Rightarrow> Some Undefined
          | Some None \<Rightarrow> Some (Returns peer)
          | Some (Some pid) \<Rightarrow> Some (Returns (peer\<lparr>peer_id := Some pid\<rparr>)))"

fun identify_addrs :: "identify_mem \<Rightarrow> nat \<Rightarrow> bytes list \<Rightarrow> v2_peer \<Rightarrow> v2_peer" where
  "identify_addrs m i [] peer = peer"
| "identify_addrs m i (a # as) peer =
     identify_addrs m (Suc i) as
       (case libp2p_multiaddr_new_from_string (im_addr m i) (cstr a) of
          None \<Rightarrow> peer
        | Some ma \<Rightarrow> if im_node m i then peer\<lparr>addr_head := ma # addr_head peer\<rparr> else peer)"

definition identify_populate :: "ext_lib \<Rightarrow> identify_mem \<Rightarrow> identify_info \<Rightarrow> v2_peer \<Rightarrow> v2_peer outcome option" where
  "identify_populate L m info peer =
     (case info_public_key info of
        None \<Rightarrow> Some (Returns peer)
      | Some key \<Rightarrow>
          if info_public_key_len info = 0 then Some (Returns peer)
          else map_option (map_outcome (identify_addrs m 0 (info_listen_addrs info)))
                 (identify_set_id L m (string_memory m key (info_public_key_len info)) peer))"

definition libp2p_identify_receive ::
    "ext_lib \<Rightarrow> identify_mem \<Rightarrow> 's v2stream \<Rightarrow> v2_peer \<Rightarrow> 's \<Rightarrow> ((bool \<times> v2_peer) outcome \<times> 's) option" where
  "libp2p_identify_receive L m io peer st =
     do {
       (len, st1) \<leftarrow> identify_read_varint_length L io st;
       let msg_len = (case len of None \<Rightarrow> 0 | Some w \<Rightarrow> unat w);
       if msg_len = 0 then Some (Returns (False, peer), st1)
       else if msg_len > 4096 \<and> \<not> im_buf m then Some (Returns (False, peer), st1)
       else do {
         (body, st2) \<leftarrow> identify_read_full io msg_len st1;
         case (body, libp2p_identify_info_new (im_info m)) of
           (Some b, Some info) \<Rightarrow>
             do {
               (success, info1) \<leftarrow> identify_loop L (im_grow m) (b @ drop msg_len (take 4096 (stack_junk L))) msg_len 0 info;
               if \<not> success then Some (Returns (False, peer), st2)
               else do {
                 r \<leftarrow> identify_populate L m info1 peer;
                 Some (map_outcome (Pair True) r, st2)
               }
             }
         | _ \<Rightarrow> Some (Returns (False, peer), st2)
       }
     }"

end
