(* ===== verification/Yamux_V2.thy ===== *)
theory Yamux_V2
  imports Tcp_V2
begin

text \<open>
  The stream multiplexer of \<open>src/v2/src/conn/yamux.c\<close> over any stream of the interface
  of \<open>Stream_V2\<close>.

  A session holds the context of the stream below (\<open>ys_stream\<close>), an open stream is a
  \<open>yamux_ctx\<close>; the operations take both and return both, since every stream of a session
  reads and writes the one stream below. \<open>None\<close> is a call that does not return, as in
  \<open>Stream_V2\<close>. \<open>ys_mem\<close> says which of the coming allocations succeed. Logging has no effect.
\<close>

section \<open>Constants and structs\<close>

definition YAMUX_VERSION :: byte where "YAMUX_VERSION = 0"
definition YAMUX_TYPE_DATA :: byte where "YAMUX_TYPE_DATA = 0"
definition YAMUX_TYPE_WINDOW_UPDATE :: byte where "YAMUX_TYPE_WINDOW_UPDATE = 1"
definition YAMUX_TYPE_PING :: byte where "YAMUX_TYPE_PING = 2"
definition YAMUX_TYPE_GO_AWAY :: byte where "YAMUX_TYPE_GO_AWAY = 3"
definition YAMUX_FLAG_SYN :: "16 word" where "YAMUX_FLAG_SYN = 1"
definition YAMUX_FLAG_ACK :: "16 word" where "YAMUX_FLAG_ACK = 2"
definition YAMUX_FLAG_FIN :: "16 word" where "YAMUX_FLAG_FIN = 4"
definition YAMUX_INITIAL_WINDOW_SIZE :: "32 word" where "YAMUX_INITIAL_WINDOW_SIZE = 256 * 1024"
definition YAMUX_WINDOW_UPDATE_THRESHOLD :: "32 word" where
  "YAMUX_WINDOW_UPDATE_THRESHOLD = YAMUX_INITIAL_WINDOW_SIZE div 2"
definition YAMUX_MAX_PAYLOAD :: nat where "YAMUX_MAX_PAYLOAD = 65535"

record yamux_header =
  hd_version :: byte
  hd_type :: byte
  hd_flags :: "16 word"
  hd_stream_id :: "32 word"
  hd_length :: "32 word"

record yamux_pending =
  pi_stream_id :: "32 word"
  pi_data :: bytes

record 's yamux_session =
  ys_stream :: 's
  ys_attached :: bool
  next_stream_id :: "32 word"
  is_server :: bool
  ys_closed :: bool
  ping_seq :: "32 word"
  pending_inbound :: "yamux_pending list"
  ys_mem :: "nat \<Rightarrow> bool"

record yamux_ctx =
  cx_stream_id :: "32 word"
  send_window :: "32 word"
  recv_window :: "32 word"
  syn_ack_received :: bool
  cx_closed :: bool
  read_buffer :: "bytes option"
  read_buffer_len :: nat
  read_buffer_pos :: nat

definition has_flag :: "yamux_header \<Rightarrow> 16 word \<Rightarrow> bool" where
  "has_flag hdr fl \<longleftrightarrow> hd_flags hdr AND fl \<noteq> 0"

text \<open>\<open>malloc\<close>, \<open>calloc\<close> and \<open>realloc\<close>.\<close>

definition ys_alloc :: "'s yamux_session \<Rightarrow> bool \<times> 's yamux_session" where
  "ys_alloc ss = (ys_mem ss 0, ss\<lparr>ys_mem := (\<lambda>k. ys_mem ss (Suc k))\<rparr>)"

section \<open>Frames\<close>

definition net16 :: "16 word \<Rightarrow> bytes" where
  "net16 w = [ucast (drop_bit 8 w), ucast w]"

definition net32 :: "32 word \<Rightarrow> bytes" where
  "net32 w = [ucast (drop_bit 24 w), ucast (drop_bit 16 w), ucast (drop_bit 8 w), ucast w]"

definition host16 :: "bytes \<Rightarrow> 16 word" where
  "host16 bs = of_nat (be_val bs)"

definition host32 :: "bytes \<Rightarrow> 32 word" where
  "host32 bs = of_nat (be_val bs)"

definition encode_header :: "yamux_header \<Rightarrow> bytes" where
  "encode_header h =
     [hd_version h, hd_type h] @ net16 (hd_flags h) @ net32 (hd_stream_id h) @ net32 (hd_length h)"

definition decode_header :: "bytes \<Rightarrow> yamux_header" where
  "decode_header bs =
     \<lparr>hd_version = byte_at bs 0, hd_type = byte_at bs 1, hd_flags = host16 (take 2 (drop 2 bs)),
      hd_stream_id = host32 (take 4 (drop 4 bs)), hd_length = host32 (take 4 (drop 8 bs))\<rparr>"

definition yamux_read_full :: "'s v2stream \<Rightarrow> nat \<Rightarrow> 's yamux_session \<Rightarrow> (bytes option \<times> 's yamux_session) option" where
  "yamux_read_full io n ss =
     do {
       (r, st) \<leftarrow> read_loop io n [] (ys_stream ss);
       Some (r, ss\<lparr>ys_stream := st\<rparr>)
     }"

definition yamux_send_header ::
    "'s v2stream \<Rightarrow> byte \<Rightarrow> 16 word \<Rightarrow> 32 word \<Rightarrow> 32 word \<Rightarrow> 's yamux_session \<Rightarrow> (bool \<times> 's yamux_session) option" where
  "yamux_send_header io ty fl sid len ss =
     do {
       (r, st) \<leftarrow> v2_write io (ys_stream ss) (encode_header
         \<lparr>hd_version = YAMUX_VERSION, hd_type = ty, hd_flags = fl, hd_stream_id = sid, hd_length = len\<rparr>);
       Some (r = 12, ss\<lparr>ys_stream := st\<rparr>)
     }"

definition yamux_read_header :: "'s v2stream \<Rightarrow> 's yamux_session \<Rightarrow> (yamux_header option \<times> 's yamux_session) option" where
  "yamux_read_header io ss =
     do {
       (r, ss1) \<leftarrow> yamux_read_full io 12 ss;
       Some (map_option decode_header r, ss1)
     }"

definition yamux_send_ping_response :: "'s v2stream \<Rightarrow> 32 word \<Rightarrow> 's yamux_session \<Rightarrow> (bool \<times> 's yamux_session) option" where
  "yamux_send_ping_response io val ss = yamux_send_header io YAMUX_TYPE_PING YAMUX_FLAG_ACK 0 val ss"

section \<open>Pending inbound streams and control frames\<close>

definition yamux_pending_add :: "32 word \<Rightarrow> 's yamux_session \<Rightarrow> bool \<times> 's yamux_session" where
  "yamux_pending_add sid ss =
     (let (ok, ss1) = ys_alloc ss
      in if \<not> ok then (False, ss1)
         else (True, ss1\<lparr>pending_inbound := \<lparr>pi_stream_id = sid, pi_data = []\<rparr> # pending_inbound ss1\<rparr>))"

definition pending_index :: "32 word \<Rightarrow> 's yamux_session \<Rightarrow> nat option" where
  "pending_index sid ss = find_index (\<lambda>p. pi_stream_id p = sid) (pending_inbound ss)"

definition yamux_pending_exists :: "32 word \<Rightarrow> 's yamux_session \<Rightarrow> bool" where
  "yamux_pending_exists sid ss \<longleftrightarrow> pending_index sid ss \<noteq> None"

definition pending_append :: "nat \<Rightarrow> bytes \<Rightarrow> 's yamux_session \<Rightarrow> 's yamux_session" where
  "pending_append i bs ss =
     ss\<lparr>pending_inbound := (pending_inbound ss)[i := (pending_inbound ss ! i)\<lparr>pi_data := pi_data (pending_inbound ss ! i) @ bs\<rparr>]\<rparr>"

definition yamux_handle_control_frame ::
    "'s v2stream \<Rightarrow> yamux_header \<Rightarrow> 's yamux_session \<Rightarrow> (bool \<times> 's yamux_session) option" where
  "yamux_handle_control_frame io hdr ss =
     (if hd_type hdr = YAMUX_TYPE_PING then
        if has_flag hdr YAMUX_FLAG_ACK then Some (True, ss)
        else yamux_send_ping_response io (hd_length hdr) ss
      else if hd_type hdr = YAMUX_TYPE_GO_AWAY then
        Some (False, ss\<lparr>ys_closed := True,
                        ys_stream := (if ys_attached ss then v2_close io (ys_stream ss) else ys_stream ss)\<rparr>)
      else Some (True, ss))"

function yamux_discard_payload :: "'s v2stream \<Rightarrow> nat \<Rightarrow> 's yamux_session \<Rightarrow> (bool \<times> 's yamux_session) option" where
  "yamux_discard_payload io remaining ss =
     (if remaining > 0 then
        let chunk = (if remaining > 1024 then 1024 else remaining)
        in case yamux_read_full io chunk ss of
             None \<Rightarrow> None
           | Some (None, ss1) \<Rightarrow> Some (False, ss1)
           | Some (Some _, ss1) \<Rightarrow> yamux_discard_payload io (remaining - chunk) ss1
      else Some (True, ss))"
  by pat_completeness auto
termination by (relation "measure (\<lambda>(io, remaining, ss). remaining)") (auto split: if_splits)

declare yamux_discard_payload.simps [simp del]

section \<open>The stream operations\<close>

definition yamux_stream_write ::
    "'s v2stream \<Rightarrow> bytes \<Rightarrow> yamux_ctx \<Rightarrow> 's yamux_session \<Rightarrow> (int \<times> yamux_ctx \<times> 's yamux_session) option" where
  "yamux_stream_write io buf cx ss =
     (let c1 = min (length buf) YAMUX_MAX_PAYLOAD; count = min c1 (unat (send_window cx))
      in if ys_closed ss \<or> cx_closed cx then Some (- 1, cx, ss)
         else if count = 0 then Some (- 1, cx, ss)
         else do {
           (ok, ss1) \<leftarrow> yamux_send_header io YAMUX_TYPE_DATA 0 (cx_stream_id cx) (of_nat count) ss;
           if \<not> ok then Some (- 1, cx, ss1)
           else do {
             (ret, st) \<leftarrow> v2_write io (ys_stream ss1) (take count buf);
             let ss2 = ss1\<lparr>ys_stream := st\<rparr>;
             if ret \<noteq> int count then Some (- 1, cx, ss2)
             else Some (int count, cx\<lparr>send_window := send_window cx - of_nat count\<rparr>, ss2)
           }
         })"

text \<open>One turn of the loop of \<open>yamux_stream_read\<close> ends the call or goes on.\<close>

datatype read_step = Return "bytes option" | Continue

text \<open>Payload for another stream: kept if that stream waits to be accepted, else dropped. A failed
  \<open>realloc\<close> or read goes on to drop \<open>length\<close> bytes.\<close>

definition yamux_other_data ::
    "'s v2stream \<Rightarrow> yamux_header \<Rightarrow> 's yamux_session \<Rightarrow> (bool \<times> 's yamux_session) option" where
  "yamux_other_data io hdr ss =
     (case (if unat (hd_length hdr) > 0 then pending_index (hd_stream_id hdr) ss else None) of
        None \<Rightarrow> yamux_discard_payload io (unat (hd_length hdr)) ss
      | Some i \<Rightarrow> do {
          (_, ss1) \<leftarrow> yamux_send_header io YAMUX_TYPE_WINDOW_UPDATE 0 (hd_stream_id hdr) (hd_length hdr) ss;
          let (tmp, ss2) = ys_alloc ss1;
          if tmp then do {
            (r, ss3) \<leftarrow> yamux_read_full io (unat (hd_length hdr)) ss2;
            case r of
              Some bs \<Rightarrow> Some (True, pending_append i bs ss3)
            | None \<Rightarrow> yamux_discard_payload io (unat (hd_length hdr)) ss3
          }
          else yamux_discard_payload io (unat (hd_length hdr)) ss2
        })"

definition credit_used :: "32 word \<Rightarrow> 32 word \<Rightarrow> 32 word" where
  "credit_used w n = (if w \<ge> n then w - n else 0)"

text \<open>A non-empty DATA frame for this stream: the payload goes to the read buffer, the window is
  replenished once half of it is used.\<close>

definition yamux_own_data ::
    "'s v2stream \<Rightarrow> nat \<Rightarrow> yamux_header \<Rightarrow> yamux_ctx \<Rightarrow> 's yamux_session \<Rightarrow>
     (read_step \<times> yamux_ctx \<times> 's yamux_session) option" where
  "yamux_own_data io count hdr cx ss =
     (let payload_len = hd_length hdr; (mem, ss1) = ys_alloc ss
      in if \<not> mem then Some (Return None, cx\<lparr>read_buffer := None\<rparr>, ss1)
         else do {
           (r, ss2) \<leftarrow> yamux_read_full io (unat payload_len) ss1;
           case r of
             None \<Rightarrow> Some (Return None, cx\<lparr>read_buffer := Some []\<rparr>, ss2)
           | Some bs \<Rightarrow>
               let w = credit_used (recv_window cx) payload_len;
                   increment = YAMUX_INITIAL_WINDOW_SIZE - w
               in do {
                 (upd, ss3) \<leftarrow> (if increment \<ge> YAMUX_WINDOW_UPDATE_THRESHOLD
                                then yamux_send_header io YAMUX_TYPE_WINDOW_UPDATE 0 (cx_stream_id cx) increment ss2
                                else Some (False, ss2));
                 let to_copy = (if count < unat payload_len then count else unat payload_len);
                 Some (Return (Some (take to_copy bs)),
                   cx\<lparr>read_buffer := Some bs, read_buffer_len := unat payload_len, read_buffer_pos := to_copy,
                      recv_window := (if upd then w + increment else w),
                      cx_closed := (cx_closed cx \<or> has_flag hdr YAMUX_FLAG_FIN)\<rparr>, ss3)
               }
         })"

definition yamux_window_update :: "yamux_header \<Rightarrow> yamux_ctx \<Rightarrow> yamux_ctx" where
  "yamux_window_update hdr cx =
     (if hd_stream_id hdr = cx_stream_id cx
      then cx\<lparr>send_window := send_window cx + hd_length hdr,
             syn_ack_received := (syn_ack_received cx \<or> has_flag hdr YAMUX_FLAG_ACK)\<rparr>
      else cx)"

definition go_on :: "yamux_ctx \<Rightarrow> (bool \<times> 's yamux_session) option \<Rightarrow> (read_step \<times> yamux_ctx \<times> 's yamux_session) option" where
  "go_on cx r = do { (ok, ss) \<leftarrow> r; Some (if ok then Continue else Return None, cx, ss) }"

definition yamux_read_frame ::
    "'s v2stream \<Rightarrow> nat \<Rightarrow> yamux_header \<Rightarrow> yamux_ctx \<Rightarrow> 's yamux_session \<Rightarrow>
     (read_step \<times> yamux_ctx \<times> 's yamux_session) option" where
  "yamux_read_frame io count hdr cx ss =
     (if hd_version hdr \<noteq> YAMUX_VERSION then Some (Return None, cx, ss)
      else if hd_type hdr = YAMUX_TYPE_PING \<or> hd_type hdr = YAMUX_TYPE_GO_AWAY then
        go_on cx (yamux_handle_control_frame io hdr ss)
      else if hd_type hdr = YAMUX_TYPE_WINDOW_UPDATE then Some (Continue, yamux_window_update hdr cx, ss)
      else if hd_type hdr \<noteq> YAMUX_TYPE_DATA then go_on cx (yamux_discard_payload io (unat (hd_length hdr)) ss)
      else if hd_stream_id hdr \<noteq> cx_stream_id cx then go_on cx (yamux_other_data io hdr ss)
      else if hd_length hdr = 0 then
        if has_flag hdr YAMUX_FLAG_FIN then Some (Return (Some []), cx\<lparr>cx_closed := True\<rparr>, ss)
        else Some (Continue, cx, ss)
      else yamux_own_data io count hdr cx ss)"

definition buffered :: "yamux_ctx \<Rightarrow> bytes" where
  "buffered cx = (case read_buffer cx of
      None \<Rightarrow> []
    | Some bs \<Rightarrow> drop (read_buffer_pos cx) (take (read_buffer_len cx) bs))"

definition yamux_read_step ::
    "'s v2stream \<Rightarrow> nat \<Rightarrow> yamux_ctx \<Rightarrow> 's yamux_session \<Rightarrow> (read_step \<times> yamux_ctx \<times> 's yamux_session) option" where
  "yamux_read_step io count cx ss =
     (if ys_closed ss \<or> cx_closed cx then Some (Return None, cx, ss)
      else if read_buffer cx \<noteq> None \<and> read_buffer_pos cx < read_buffer_len cx then
        let avail = read_buffer_len cx - read_buffer_pos cx; to_copy = (if count < avail then count else avail)
        in Some (Return (Some (take to_copy (buffered cx))), cx\<lparr>read_buffer_pos := read_buffer_pos cx + to_copy\<rparr>, ss)
      else do {
        (h, ss1) \<leftarrow> yamux_read_header io ss;
        case h of
          None \<Rightarrow> Some (Return None, cx, ss1)
        | Some hdr \<Rightarrow> yamux_read_frame io count hdr cx ss1
      })"

partial_function (option) yamux_stream_read ::
    "'s v2stream \<Rightarrow> nat \<Rightarrow> yamux_ctx \<Rightarrow> 's yamux_session \<Rightarrow> (bytes option \<times> yamux_ctx \<times> 's yamux_session) option" where
  "yamux_stream_read io count cx ss =
     (case yamux_read_step io count cx ss of
        None \<Rightarrow> None
      | Some (Return r, cx1, ss1) \<Rightarrow> Some (r, cx1, ss1)
      | Some (Continue, cx1, ss1) \<Rightarrow> yamux_stream_read io count cx1 ss1)"

definition yamux_stream_close :: "'s v2stream \<Rightarrow> yamux_ctx \<Rightarrow> 's yamux_session \<Rightarrow> 's yamux_session option" where
  "yamux_stream_close io cx ss =
     (if \<not> cx_closed cx \<and> \<not> ys_closed ss \<and> ys_attached ss then
        map_option snd (yamux_send_header io YAMUX_TYPE_DATA YAMUX_FLAG_FIN (cx_stream_id cx) 0 ss)
      else Some ss)"

section \<open>The session operations\<close>

definition libp2p_yamux_session_new :: "'s \<Rightarrow> bool \<Rightarrow> bool \<Rightarrow> (nat \<Rightarrow> bool) \<Rightarrow> 's yamux_session option" where
  "libp2p_yamux_session_new st server mem allocs =
     (if mem then
        Some \<lparr>ys_stream = st, ys_attached = True, next_stream_id = (if server then 2 else 1), is_server = server,
              ys_closed = False, ping_seq = 1, pending_inbound = [], ys_mem = allocs\<rparr>
      else None)"

partial_function (option) yamux_wait_for_syn ::
    "'s v2stream \<Rightarrow> 's yamux_session \<Rightarrow> (yamux_header option \<times> 's yamux_session) option" where
  "yamux_wait_for_syn io ss =
     (case yamux_read_header io ss of
        None \<Rightarrow> None
      | Some (None, ss1) \<Rightarrow> Some (None, ss1)
      | Some (Some hdr, ss1) \<Rightarrow>
          if hd_type hdr = YAMUX_TYPE_PING \<or> hd_type hdr = YAMUX_TYPE_GO_AWAY then
            case yamux_handle_control_frame io hdr ss1 of
              None \<Rightarrow> None
            | Some (ok, ss2) \<Rightarrow> if ok then yamux_wait_for_syn io ss2 else Some (None, ss2)
          else if (hd_type hdr = YAMUX_TYPE_WINDOW_UPDATE \<or> hd_type hdr = YAMUX_TYPE_DATA) \<and>
                  has_flag hdr YAMUX_FLAG_SYN then Some (Some hdr, ss1)
          else case yamux_discard_payload io (unat (hd_length hdr)) ss1 of
                 None \<Rightarrow> None
               | Some (ok, ss2) \<Rightarrow> if ok then yamux_wait_for_syn io ss2 else Some (None, ss2))"

definition new_ctx :: "32 word \<Rightarrow> bool \<Rightarrow> yamux_ctx" where
  "new_ctx sid acked =
     \<lparr>cx_stream_id = sid, send_window = YAMUX_INITIAL_WINDOW_SIZE, recv_window = YAMUX_INITIAL_WINDOW_SIZE,
      syn_ack_received = acked, cx_closed = False, read_buffer = None, read_buffer_len = 0, read_buffer_pos = 0\<rparr>"

text \<open>A SYN for another stream that arrives while one is being opened: it is acknowledged and queued, with
  the payload of a DATA frame. Failures are not reported.\<close>

definition yamux_open_inbound :: "'s v2stream \<Rightarrow> yamux_header \<Rightarrow> 's yamux_session \<Rightarrow> 's yamux_session option" where
  "yamux_open_inbound io hdr ss =
     (if yamux_pending_exists (hd_stream_id hdr) ss then Some ss
      else do {
        (_, ss1) \<leftarrow> yamux_send_header io YAMUX_TYPE_WINDOW_UPDATE YAMUX_FLAG_ACK (hd_stream_id hdr) 0 ss;
        let (pending, ss2) = yamux_pending_add (hd_stream_id hdr) ss1;
        if pending \<and> hd_type hdr = YAMUX_TYPE_DATA \<and> hd_length hdr > 0 then
          let (tmp, ss3) = ys_alloc ss2
          in if tmp then do {
               (r, ss4) \<leftarrow> yamux_read_full io (unat (hd_length hdr)) ss3;
               Some (case r of Some bs \<Rightarrow> pending_append 0 bs ss4 | None \<Rightarrow> ss4)
             }
             else Some ss3
        else Some ss2
      })"

text \<open>DATA for a queued stream while another is being opened.\<close>

definition yamux_open_data ::
    "'s v2stream \<Rightarrow> nat \<Rightarrow> yamux_header \<Rightarrow> 's yamux_session \<Rightarrow> (bool \<times> 's yamux_session) option" where
  "yamux_open_data io i hdr ss =
     (if hd_length hdr > 0 then
        let (tmp, ss1) = ys_alloc ss
        in if tmp then do {
             (r, ss2) \<leftarrow> yamux_read_full io (unat (hd_length hdr)) ss1;
             Some (True, case r of Some bs \<Rightarrow> pending_append i bs ss2 | None \<Rightarrow> ss2)
           }
           else yamux_discard_payload io (unat (hd_length hdr)) ss1
      else Some (True, ss))"

definition yamux_open_frame ::
    "'s v2stream \<Rightarrow> yamux_header \<Rightarrow> yamux_ctx \<Rightarrow> 's yamux_session \<Rightarrow> (bool \<times> bool \<times> yamux_ctx \<times> 's yamux_session) option" where
  "yamux_open_frame io hdr cx ss =
     (if hd_type hdr = YAMUX_TYPE_PING \<or> hd_type hdr = YAMUX_TYPE_GO_AWAY then
        do { (ok, ss1) \<leftarrow> yamux_handle_control_frame io hdr ss; Some (ok, False, cx, ss1) }
      else if hd_type hdr = YAMUX_TYPE_WINDOW_UPDATE \<and> hd_stream_id hdr = cx_stream_id cx then
        Some (True, has_flag hdr YAMUX_FLAG_ACK, cx\<lparr>send_window := send_window cx + hd_length hdr\<rparr>, ss)
      else if (hd_type hdr = YAMUX_TYPE_WINDOW_UPDATE \<or> hd_type hdr = YAMUX_TYPE_DATA) \<and> has_flag hdr YAMUX_FLAG_SYN then
        do { ss1 \<leftarrow> yamux_open_inbound io hdr ss; Some (True, False, cx, ss1) }
      else case (if hd_type hdr = YAMUX_TYPE_DATA then pending_index (hd_stream_id hdr) ss else None) of
             Some i \<Rightarrow> do { (ok, ss1) \<leftarrow> yamux_open_data io i hdr ss; Some (ok, False, cx, ss1) }
           | None \<Rightarrow> do { (ok, ss1) \<leftarrow> yamux_discard_payload io (unat (hd_length hdr)) ss; Some (ok, False, cx, ss1) })"

partial_function (option) yamux_open_loop ::
    "'s v2stream \<Rightarrow> yamux_ctx \<Rightarrow> 's yamux_session \<Rightarrow> (yamux_ctx option \<times> 's yamux_session) option" where
  "yamux_open_loop io cx ss =
     (case yamux_read_header io ss of
        None \<Rightarrow> None
      | Some (None, ss1) \<Rightarrow> Some (None, ss1)
      | Some (Some hdr, ss1) \<Rightarrow>
          (case yamux_open_frame io hdr cx ss1 of
             None \<Rightarrow> None
           | Some (ok, ack_seen, cx2, ss2) \<Rightarrow>
               if \<not> ok then Some (None, ss2)
               else if ack_seen then Some (Some (cx2\<lparr>syn_ack_received := True\<rparr>), ss2)
               else yamux_open_loop io cx2 ss2))"

definition libp2p_yamux_stream_open ::
    "'s v2stream \<Rightarrow> 's yamux_session \<Rightarrow> (yamux_ctx option \<times> 's yamux_session) option" where
  "libp2p_yamux_stream_open io ss =
     (if ys_closed ss then Some (None, ss)
      else let (mem, ss1) = ys_alloc ss
           in if \<not> mem then Some (None, ss1)
              else let cx = new_ctx (next_stream_id ss1) False;
                       ss2 = ss1\<lparr>next_stream_id := next_stream_id ss1 + 2\<rparr>;
                       (mem', ss3) = ys_alloc ss2
                   in if \<not> mem' then Some (None, ss3)
                      else do {
                        (ok, ss4) \<leftarrow> yamux_send_header io YAMUX_TYPE_WINDOW_UPDATE YAMUX_FLAG_SYN (cx_stream_id cx) 0 ss3;
                        if \<not> ok then Some (None, ss4) else yamux_open_loop io cx ss4
                      })"

text \<open>The stream to accept: the head of the queue with its data, or the next SYN on the wire.\<close>

definition yamux_accept_ctx ::
    "'s v2stream \<Rightarrow> 's yamux_session \<Rightarrow> (yamux_ctx option \<times> 's yamux_session) option" where
  "yamux_accept_ctx io ss =
     (case pending_inbound ss of
        p # ps \<Rightarrow>
          let cx = new_ctx (pi_stream_id p) True
          in Some (Some (if pi_data p \<noteq> [] then cx\<lparr>read_buffer := Some (pi_data p), read_buffer_len := length (pi_data p)\<rparr> else cx),
                   ss\<lparr>pending_inbound := ps\<rparr>)
      | [] \<Rightarrow> do {
          (h, ss1) \<leftarrow> yamux_wait_for_syn io ss;
          case h of
            None \<Rightarrow> Some (None, ss1)
          | Some hdr \<Rightarrow>
              let cx = new_ctx (hd_stream_id hdr) True
              in if hd_type hdr = YAMUX_TYPE_DATA \<and> hd_length hdr > 0 then
                   let (mem, ss2) = ys_alloc ss1
                   in if \<not> mem then Some (None, ss2)
                      else do {
                        (r, ss3) \<leftarrow> yamux_read_full io (unat (hd_length hdr)) ss2;
                        Some (map_option (\<lambda>bs. cx\<lparr>read_buffer := Some bs, read_buffer_len := unat (hd_length hdr)\<rparr>) r, ss3)
                      }
                 else Some (Some cx, ss1)
        })"

definition libp2p_yamux_stream_accept ::
    "'s v2stream \<Rightarrow> 's yamux_session \<Rightarrow> (yamux_ctx option \<times> 's yamux_session) option" where
  "libp2p_yamux_stream_accept io ss =
     (if ys_closed ss then Some (None, ss)
      else let (mem, ss1) = ys_alloc ss
           in if \<not> mem then Some (None, ss1)
              else do {
                (c, ss2) \<leftarrow> yamux_accept_ctx io ss1;
                case c of
                  None \<Rightarrow> Some (None, ss2)
                | Some cx \<Rightarrow>
                    let (mem', ss3) = ys_alloc ss2
                    in if \<not> mem' then Some (None, ss3)
                       else do {
                         (ok, ss4) \<leftarrow> yamux_send_header io YAMUX_TYPE_WINDOW_UPDATE YAMUX_FLAG_ACK (cx_stream_id cx) 0 ss3;
                         if ok then Some (Some cx, ss4)
                         else do { ss5 \<leftarrow> yamux_stream_close io cx ss4; Some (None, ss5) }
                       }
              })"

partial_function (option) yamux_ping_loop ::
    "'s v2stream \<Rightarrow> 32 word \<Rightarrow> 's yamux_session \<Rightarrow> (bool \<times> 's yamux_session) option" where
  "yamux_ping_loop io val ss =
     (case yamux_read_header io ss of
        None \<Rightarrow> None
      | Some (None, ss1) \<Rightarrow> Some (False, ss1)
      | Some (Some hdr, ss1) \<Rightarrow>
          if hd_type hdr = YAMUX_TYPE_PING \<and> has_flag hdr YAMUX_FLAG_ACK \<and> hd_length hdr = val then Some (True, ss1)
          else (case yamux_handle_control_frame io hdr ss1 of
                  None \<Rightarrow> None
                | Some (ok, ss2) \<Rightarrow>
                    if \<not> ok then Some (False, ss2)
                    else (case yamux_discard_payload io (unat (hd_length hdr)) ss2 of
                            None \<Rightarrow> None
                          | Some (ok', ss3) \<Rightarrow> if \<not> ok' then Some (False, ss3) else yamux_ping_loop io val ss3)))"

definition libp2p_yamux_session_ping :: "'s v2stream \<Rightarrow> 's yamux_session \<Rightarrow> (bool \<times> 's yamux_session) option" where
  "libp2p_yamux_session_ping io ss =
     (if ys_closed ss then Some (False, ss)
      else let val = ping_seq ss; ss1 = ss\<lparr>ping_seq := ping_seq ss + 1\<rparr>
           in do {
             (ok, ss2) \<leftarrow> yamux_send_header io YAMUX_TYPE_PING 0 0 val ss1;
             if \<not> ok then Some (False, ss2) else yamux_ping_loop io val ss2
           })"

definition libp2p_yamux_session_goaway :: "'s v2stream \<Rightarrow> 32 word \<Rightarrow> 's yamux_session \<Rightarrow> 's yamux_session option" where
  "libp2p_yamux_session_goaway io code ss =
     (if ys_closed ss then Some ss
      else do {
        (_, ss1) \<leftarrow> yamux_send_header io YAMUX_TYPE_GO_AWAY 0 0 code ss;
        Some (if ys_attached ss1
              then ss1\<lparr>ys_closed := True, ys_stream := v2_close io (ys_stream ss1), ys_attached := False\<rparr>
              else ss1\<lparr>ys_closed := True\<rparr>)
      })"

text \<open>What is left of a freed session is the stream below.\<close>

definition libp2p_yamux_session_free :: "'s v2stream \<Rightarrow> 's yamux_session \<Rightarrow> 's" where
  "libp2p_yamux_session_free io ss =
     (if ys_attached ss \<and> \<not> ys_closed ss then v2_close io (ys_stream ss) else ys_stream ss)"

end
