(* ===== verification/Yamux_Laws.thy ===== *)
theory Yamux_Laws
  imports Yamux_V2
begin

text \<open>
  The multiplexer against the stream contract: headers survive the wire, and what
  \<open>yamux_stream_read\<close> makes of a sequence of frames.
\<close>

section \<open>Headers on the wire\<close>

lemma length_net [simp]: "length (net16 w) = 2" "length (net32 v) = 4"
  by (simp_all add: net16_def net32_def)

lemma length_encode_header [simp]: "length (encode_header h) = 12"
  by (simp add: encode_header_def)

lemma host16_net16 [simp]: "host16 (net16 w) = w"
proof -
  have u: "unat w < 65536" using unsigned_less [of w] by simp
  have "be_val (net16 w) = unat w div 256 mod 256 * 256 + unat w mod 256"
    using unat_byte_of [of 8 w] unat_byte_of [of 0 w] by (simp add: net16_def)
  also have "\<dots> = unat w" using u by (simp add: div_mult_mod_eq)
  finally show ?thesis by (simp add: host16_def)
qed

lemma host32_net32 [simp]: "host32 (net32 w) = w"
  by (simp only: host32_def net32_def be_val_word32) simp

lemma decode_encode_header [simp]: "decode_header (encode_header h) = h"
proof -
  obtain a b c d where n: "net32 (hd_stream_id h) = [a, b, c, d]" by (simp add: net32_def)
  obtain x y where m: "net16 (hd_flags h) = [x, y]" by (simp add: net16_def)
  have "host16 [x, y] = hd_flags h" "host32 [a, b, c, d] = hd_stream_id h" using m n host16_net16 host32_net32 by metis+
  then show ?thesis by (simp add: decode_header_def encode_header_def m n byte_at_def)
qed

section \<open>Frames and what reading does with them\<close>

type_synonym yframe = "yamux_header \<times> bytes"

definition wire :: "yframe \<Rightarrow> bytes" where
  "wire f = encode_header (fst f) @ snd f"

text \<open>A frame as a peer may send it: DATA carries \<open>length\<close> bytes, the other known types none.\<close>

definition wf_frame :: "yframe \<Rightarrow> bool" where
  "wf_frame f \<longleftrightarrow> hd_version (fst f) = YAMUX_VERSION \<and>
     (if hd_type (fst f) \<in> {YAMUX_TYPE_WINDOW_UPDATE, YAMUX_TYPE_PING, YAMUX_TYPE_GO_AWAY} then snd f = []
      else length (snd f) = unat (hd_length (fst f)))"

definition is_data :: "yframe \<Rightarrow> 32 word \<Rightarrow> bool" where
  "is_data f sid \<longleftrightarrow> hd_type (fst f) = YAMUX_TYPE_DATA \<and> hd_stream_id (fst f) = sid"

text \<open>The frames a reader of stream \<open>sid\<close> passes over.\<close>

definition passed :: "32 word \<Rightarrow> yframe \<Rightarrow> bool" where
  "passed sid f \<longleftrightarrow> wf_frame f \<and> hd_type (fst f) \<noteq> YAMUX_TYPE_GO_AWAY \<and>
     (is_data f sid \<longrightarrow> snd f = [] \<and> \<not> has_flag (fst f) YAMUX_FLAG_FIN)"

text \<open>The answer to a frame: pings are answered, data for a queued stream is credited.\<close>

definition reply :: "32 word \<Rightarrow> 32 word set \<Rightarrow> yframe \<Rightarrow> bytes" where
  "reply sid queued f =
     (if hd_type (fst f) = YAMUX_TYPE_PING \<and> \<not> has_flag (fst f) YAMUX_FLAG_ACK then
        encode_header \<lparr>hd_version = YAMUX_VERSION, hd_type = YAMUX_TYPE_PING, hd_flags = YAMUX_FLAG_ACK,
          hd_stream_id = 0, hd_length = hd_length (fst f)\<rparr>
      else if hd_type (fst f) = YAMUX_TYPE_DATA \<and> hd_stream_id (fst f) \<noteq> sid \<and> hd_stream_id (fst f) \<in> queued \<and> snd f \<noteq> [] then
        encode_header \<lparr>hd_version = YAMUX_VERSION, hd_type = YAMUX_TYPE_WINDOW_UPDATE, hd_flags = 0,
          hd_stream_id = hd_stream_id (fst f), hd_length = hd_length (fst f)\<rparr>
      else [])"

definition pass_ctx :: "yframe \<Rightarrow> yamux_ctx \<Rightarrow> yamux_ctx" where
  "pass_ctx f cx = (if hd_type (fst f) = YAMUX_TYPE_WINDOW_UPDATE then yamux_window_update (fst f) cx else cx)"

text \<open>Data for a queued stream is appended to its queue.\<close>

definition enqueue :: "32 word \<Rightarrow> yframe \<Rightarrow> yamux_pending \<Rightarrow> yamux_pending" where
  "enqueue sid f p = (if is_data f (pi_stream_id p) \<and> pi_stream_id p \<noteq> sid then p\<lparr>pi_data := pi_data p @ snd f\<rparr> else p)"

definition drained :: "yamux_ctx \<Rightarrow> bool" where
  "drained cx \<longleftrightarrow> \<not> (read_buffer cx \<noteq> None \<and> read_buffer_pos cx < read_buffer_len cx)"

text \<open>The stream and the credit sent after \<open>n\<close> bytes of a DATA frame are handed out.\<close>

definition grant_due :: "yamux_header \<Rightarrow> yamux_ctx \<Rightarrow> bool" where
  "grant_due hdr cx \<longleftrightarrow>
     YAMUX_INITIAL_WINDOW_SIZE - credit_used (recv_window cx) (hd_length hdr) \<ge> YAMUX_WINDOW_UPDATE_THRESHOLD"

definition own_ctx :: "nat \<Rightarrow> yamux_header \<Rightarrow> bytes \<Rightarrow> yamux_ctx \<Rightarrow> yamux_ctx" where
  "own_ctx n hdr pl cx =
     cx\<lparr>read_buffer := Some pl, read_buffer_len := length pl, read_buffer_pos := min n (length pl),
       recv_window := (if grant_due hdr cx then YAMUX_INITIAL_WINDOW_SIZE else credit_used (recv_window cx) (hd_length hdr)),
       cx_closed := (cx_closed cx \<or> has_flag hdr YAMUX_FLAG_FIN)\<rparr>"

definition credit :: "yamux_header \<Rightarrow> yamux_ctx \<Rightarrow> bytes" where
  "credit hdr cx =
     (if grant_due hdr cx then
        encode_header \<lparr>hd_version = YAMUX_VERSION, hd_type = YAMUX_TYPE_WINDOW_UPDATE, hd_flags = 0, hd_stream_id = cx_stream_id cx,
          hd_length = YAMUX_INITIAL_WINDOW_SIZE - credit_used (recv_window cx) (hd_length hdr)\<rparr>
      else [])"

lemmas frame_types = YAMUX_TYPE_DATA_def YAMUX_TYPE_WINDOW_UPDATE_def YAMUX_TYPE_PING_def YAMUX_TYPE_GO_AWAY_def

lemma enqueue_id [simp]: "pi_stream_id (enqueue sid f p) = pi_stream_id p"
  by (simp add: enqueue_def)

lemma pass_ctx_fields [simp]:
  "cx_stream_id (pass_ctx f cx) = cx_stream_id cx" "cx_closed (pass_ctx f cx) = cx_closed cx"
  "read_buffer (pass_ctx f cx) = read_buffer cx" "read_buffer_len (pass_ctx f cx) = read_buffer_len cx"
  "read_buffer_pos (pass_ctx f cx) = read_buffer_pos cx" "recv_window (pass_ctx f cx) = recv_window cx"
  by (simp_all add: pass_ctx_def yamux_window_update_def)

lemma fold_pass_ctx_fields [simp]:
  "cx_stream_id (fold pass_ctx fs cx) = cx_stream_id cx" "cx_closed (fold pass_ctx fs cx) = cx_closed cx"
  "read_buffer (fold pass_ctx fs cx) = read_buffer cx" "read_buffer_len (fold pass_ctx fs cx) = read_buffer_len cx"
  "read_buffer_pos (fold pass_ctx fs cx) = read_buffer_pos cx" "recv_window (fold pass_ctx fs cx) = recv_window cx"
  by (induction fs arbitrary: cx) simp_all

lemma pending_append_map:
  assumes "distinct (map pi_stream_id (pending_inbound ss))" and "pending_index sid ss = Some i"
  shows "pending_append i bs ss =
    ss\<lparr>pending_inbound := map (\<lambda>p. if pi_stream_id p = sid then p\<lparr>pi_data := pi_data p @ bs\<rparr> else p) (pending_inbound ss)\<rparr>"
proof -
  let ?ps = "pending_inbound ss"
  have i: "i < length ?ps" "pi_stream_id (?ps ! i) = sid" using assms(2) by (auto simp: pending_index_def find_index_Some)
  have "?ps[i := (?ps ! i)\<lparr>pi_data := pi_data (?ps ! i) @ bs\<rparr>] =
      map (\<lambda>p. if pi_stream_id p = sid then p\<lparr>pi_data := pi_data p @ bs\<rparr> else p) ?ps"
  proof (rule nth_equalityI)
    fix k assume "k < length (?ps[i := (?ps ! i)\<lparr>pi_data := pi_data (?ps ! i) @ bs\<rparr>])"
    then have k: "k < length ?ps" by simp
    then have "k = i \<longleftrightarrow> pi_stream_id (?ps ! k) = sid"
      using i assms(1) by (auto simp: distinct_conv_nth)
    then show "?ps[i := (?ps ! i)\<lparr>pi_data := pi_data (?ps ! i) @ bs\<rparr>] ! k =
        map (\<lambda>p. if pi_stream_id p = sid then p\<lparr>pi_data := pi_data p @ bs\<rparr> else p) ?ps ! k"
      using k i by (auto simp: nth_list_update)
  qed simp
  then show ?thesis by (simp add: pending_append_def)
qed

lemma pending_index_None: "pending_index sid ss = None \<longleftrightarrow> sid \<notin> pi_stream_id ` set (pending_inbound ss)"
  by (auto simp: pending_index_def find_index_None)

section \<open>Sessions over a healthy stream\<close>

context v2_packet
begin

lemma send_header_live:
  assumes "at_wire (ys_stream ss) a w"
  shows "\<exists>st. yamux_send_header io ty fl sid len ss = Some (True, ss\<lparr>ys_stream := st\<rparr>) \<and>
    at_wire st a (w @ encode_header \<lparr>hd_version = YAMUX_VERSION, hd_type = ty, hd_flags = fl, hd_stream_id = sid, hd_length = len\<rparr>)"
proof -
  let ?h = "\<lparr>hd_version = YAMUX_VERSION, hd_type = ty, hd_flags = fl, hd_stream_id = sid, hd_length = len\<rparr>"
  have "encode_header ?h \<noteq> []" by (simp add: encode_header_def)
  from at_wire_write [OF assms this] fits_small show ?thesis by (auto simp: yamux_send_header_def)
qed

lemma read_full_live:
  assumes "at_wire (ys_stream ss) (bs @ a) w" and "length bs = n"
  shows "\<exists>st. yamux_read_full io n ss = Some (Some bs, ss\<lparr>ys_stream := st\<rparr>) \<and> at_wire st a w"
  using read_loop_live [of "ys_stream ss" n "[]"] assms by (auto simp: at_wire_def yamux_read_full_def)

lemma read_header_live:
  assumes "at_wire (ys_stream ss) (encode_header h @ a) w"
  shows "\<exists>st. yamux_read_header io ss = Some (Some h, ss\<lparr>ys_stream := st\<rparr>) \<and> at_wire st a w"
  using read_full_live [OF assms, of 12] by (auto simp: yamux_read_header_def)

lemma discard_live:
  assumes "at_wire (ys_stream ss) (bs @ a) w"
  shows "\<exists>st. yamux_discard_payload io (length bs) ss = Some (True, ss\<lparr>ys_stream := st\<rparr>) \<and> at_wire st a w"
  using assms
proof (induction "length bs" arbitrary: bs ss rule: less_induct)
  case less
  show ?case
  proof (cases "bs = []")
    case True
    then show ?thesis using less.prems
      by (intro exI [of _ "ys_stream ss"]) (simp add: yamux_discard_payload.simps)
  next
    case False
    define c where "c = (if length bs > 1024 then 1024 else length bs)"
    have c: "0 < c" "c \<le> length bs" "length bs - c < length bs" using False by (auto simp: c_def)
    have "at_wire (ys_stream ss) (take c bs @ drop c bs @ a) w"
      using less.prems by (simp flip: append_assoc)
    from read_full_live [OF this, of c] c obtain st1 where st1: "yamux_read_full io c ss = Some (Some (take c bs), ss\<lparr>ys_stream := st1\<rparr>)"
      "at_wire st1 (drop c bs @ a) w" by auto
    obtain st2 where "yamux_discard_payload io (length bs - c) (ss\<lparr>ys_stream := st1\<rparr>) = Some (True, ss\<lparr>ys_stream := st2\<rparr>)" "at_wire st2 a w"
      using less.hyps [of "drop c bs" "ss\<lparr>ys_stream := st1\<rparr>"] c st1(2) by auto
    then show ?thesis using st1 False by (auto simp: yamux_discard_payload.simps [of io "length bs"] Let_def simp flip: c_def)
  qed
qed

text \<open>Passing over one frame.\<close>

definition healthy :: "'s yamux_session \<Rightarrow> bytes \<Rightarrow> bytes \<Rightarrow> bool" where
  "healthy ss a w \<longleftrightarrow> at_wire (ys_stream ss) a w \<and> \<not> ys_closed ss \<and> (\<forall>k. ys_mem ss k) \<and>
     distinct (map pi_stream_id (pending_inbound ss))"

abbreviation queue_ids :: "'s yamux_session \<Rightarrow> 32 word set" where
  "queue_ids ss \<equiv> pi_stream_id ` set (pending_inbound ss)"

lemma other_data_live:
  assumes "healthy ss (pl @ a) w" and "wf_frame (hdr, pl)" and "hd_type hdr = YAMUX_TYPE_DATA" and "hd_stream_id hdr \<noteq> sid"
  shows "\<exists>ss'. yamux_other_data io hdr ss = Some (True, ss') \<and> healthy ss' a (w @ reply sid (queue_ids ss) (hdr, pl)) \<and>
    pending_inbound ss' = map (enqueue sid (hdr, pl)) (pending_inbound ss)"
proof -
  note H = assms(1) [unfolded healthy_def]
  have len: "length pl = unat (hd_length hdr)"
    using assms(2,3) by (auto simp: wf_frame_def YAMUX_TYPE_DATA_def YAMUX_TYPE_WINDOW_UPDATE_def YAMUX_TYPE_PING_def YAMUX_TYPE_GO_AWAY_def)
  have ping: "hd_type hdr \<noteq> YAMUX_TYPE_PING" using assms(3) by (simp add: YAMUX_TYPE_DATA_def YAMUX_TYPE_PING_def)
  show ?thesis
  proof (cases "pl \<noteq> [] \<and> hd_stream_id hdr \<in> queue_ids ss")
    case False
    obtain st where st: "yamux_discard_payload io (length pl) ss = Some (True, ss\<lparr>ys_stream := st\<rparr>)" "at_wire st a w"
      using discard_live H by blast
    have "(if unat (hd_length hdr) > 0 then pending_index (hd_stream_id hdr) ss else None) = None"
      using False len by (auto simp: pending_index_None)
    then have "yamux_other_data io hdr ss = Some (True, ss\<lparr>ys_stream := st\<rparr>)" using st(1) len by (simp add: yamux_other_data_def)
    moreover have "map (enqueue sid (hdr, pl)) (pending_inbound ss) = pending_inbound ss"
      using False by (auto intro!: map_idI simp: enqueue_def is_data_def image_iff)
    moreover have "reply sid (queue_ids ss) (hdr, pl) = []" using False ping by (auto simp: reply_def)
    ultimately show ?thesis using st(2) H by (auto simp: healthy_def)
  next
    case True
    then obtain i where i: "pending_index (hd_stream_id hdr) ss = Some i" using pending_index_None by fastforce
    have "0 < unat (hd_length hdr)" using True len by (metis length_greater_0_conv)
    with i have e: "(if unat (hd_length hdr) > 0 then pending_index (hd_stream_id hdr) ss else None) = Some i" by simp
    let ?w = "w @ reply sid (queue_ids ss) (hdr, pl)"
    have "reply sid (queue_ids ss) (hdr, pl) = encode_header \<lparr>hd_version = YAMUX_VERSION, hd_type = YAMUX_TYPE_WINDOW_UPDATE,
        hd_flags = 0, hd_stream_id = hd_stream_id hdr, hd_length = hd_length hdr\<rparr>"
      using True assms(3,4) ping by (simp add: reply_def)
    then obtain st1 where st1: "yamux_send_header io YAMUX_TYPE_WINDOW_UPDATE 0 (hd_stream_id hdr) (hd_length hdr) ss =
        Some (True, ss\<lparr>ys_stream := st1\<rparr>)" "at_wire st1 (pl @ a) ?w"
      using send_header_live [of ss "pl @ a" w YAMUX_TYPE_WINDOW_UPDATE 0 "hd_stream_id hdr" "hd_length hdr"] H by auto
    let ?ss2 = "ss\<lparr>ys_stream := st1, ys_mem := (\<lambda>k. ys_mem ss (Suc k))\<rparr>"
    obtain st2 where st2: "yamux_read_full io (unat (hd_length hdr)) ?ss2 = Some (Some pl, ?ss2\<lparr>ys_stream := st2\<rparr>)" "at_wire st2 a ?w"
      using read_full_live [of ?ss2 pl a ?w] st1(2) len by auto
    let ?ss3 = "?ss2\<lparr>ys_stream := st2\<rparr>"
    have "yamux_other_data io hdr ss = Some (True, pending_append i pl ?ss3)"
      using st1(1) st2(1) H unfolding yamux_other_data_def e by (simp add: ys_alloc_def)
    moreover have "pending_append i pl ?ss3 = ?ss3\<lparr>pending_inbound := map (enqueue sid (hdr, pl)) (pending_inbound ss)\<rparr>"
      using pending_append_map [of ?ss3 "hd_stream_id hdr" i pl] i H assms(3,4)
      by (auto simp: pending_index_def enqueue_def is_data_def intro!: arg_cong [where f = "\<lambda>x. ss\<lparr>ys_stream := _, pending_inbound := x, ys_mem := _\<rparr>"])
    ultimately show ?thesis using st2(2) H by (auto simp: healthy_def comp_def)
  qed
qed

lemma read_frame_passes:
  assumes "healthy ss (pl @ a) w" and "passed (cx_stream_id cx) (hdr, pl)"
  shows "\<exists>ss'. yamux_read_frame io n hdr cx ss = Some (Continue, pass_ctx (hdr, pl) cx, ss') \<and>
    healthy ss' a (w @ reply (cx_stream_id cx) (queue_ids ss) (hdr, pl)) \<and>
    pending_inbound ss' = map (enqueue (cx_stream_id cx) (hdr, pl)) (pending_inbound ss)"
proof -
  have wf: "wf_frame (hdr, pl)" "hd_version hdr = YAMUX_VERSION" "hd_type hdr \<noteq> YAMUX_TYPE_GO_AWAY"
    using assms(2) by (auto simp: passed_def wf_frame_def)
  have idle: "map (enqueue (cx_stream_id cx) (hdr, pl)) (pending_inbound ss) = pending_inbound ss"
    if "hd_type hdr \<noteq> YAMUX_TYPE_DATA \<or> pl = []"
    using that by (intro map_idI) (auto simp: enqueue_def is_data_def)
  consider (ping) "hd_type hdr = YAMUX_TYPE_PING" | (upd) "hd_type hdr = YAMUX_TYPE_WINDOW_UPDATE"
    | (unknown) "hd_type hdr \<notin> {YAMUX_TYPE_PING, YAMUX_TYPE_WINDOW_UPDATE, YAMUX_TYPE_DATA, YAMUX_TYPE_GO_AWAY}"
    | (other) "hd_type hdr = YAMUX_TYPE_DATA" "hd_stream_id hdr \<noteq> cx_stream_id cx"
    | (own) "hd_type hdr = YAMUX_TYPE_DATA" "hd_stream_id hdr = cx_stream_id cx" using wf(3) by blast
  then show ?thesis
  proof cases
    case ping
    then have pl: "pl = []" and t: "hd_type hdr \<noteq> YAMUX_TYPE_DATA" using wf(1) by (auto simp: wf_frame_def frame_types)
    obtain st where st: "yamux_send_header io YAMUX_TYPE_PING YAMUX_FLAG_ACK 0 (hd_length hdr) ss = Some (True, ss\<lparr>ys_stream := st\<rparr>)"
      "at_wire st a (w @ encode_header \<lparr>hd_version = YAMUX_VERSION, hd_type = YAMUX_TYPE_PING, hd_flags = YAMUX_FLAG_ACK,
         hd_stream_id = 0, hd_length = hd_length hdr\<rparr>)"
      using send_header_live [of ss a w YAMUX_TYPE_PING YAMUX_FLAG_ACK 0 "hd_length hdr"] assms(1) pl by (auto simp: healthy_def)
    show ?thesis
    proof (cases "has_flag hdr YAMUX_FLAG_ACK")
      case True
      then show ?thesis using assms(1) ping pl t wf(2) idle
        by (intro exI [of _ ss]) (simp add: yamux_read_frame_def yamux_handle_control_frame_def go_on_def reply_def pass_ctx_def frame_types)
    next
      case False
      then show ?thesis using assms(1) st ping pl t wf(2) idle
        by (intro exI [of _ "ss\<lparr>ys_stream := st\<rparr>"]) (simp add: yamux_read_frame_def yamux_handle_control_frame_def
            yamux_send_ping_response_def go_on_def reply_def pass_ctx_def healthy_def, simp add: frame_types)
    qed
  next
    case upd
    then have "pl = []" "hd_type hdr \<noteq> YAMUX_TYPE_DATA" using wf(1) by (auto simp: wf_frame_def frame_types)
    then show ?thesis using assms(1) upd wf(2) idle
      by (intro exI [of _ ss]) (simp add: yamux_read_frame_def reply_def pass_ctx_def frame_types)
  next
    case unknown
    then have "length pl = unat (hd_length hdr)" using wf(1) by (auto simp: wf_frame_def)
    then obtain st where "yamux_discard_payload io (unat (hd_length hdr)) ss = Some (True, ss\<lparr>ys_stream := st\<rparr>)" "at_wire st a w"
      using discard_live [of ss pl a w] assms(1) by (auto simp: healthy_def)
    then show ?thesis using assms(1) unknown wf(2) idle
      by (intro exI [of _ "ss\<lparr>ys_stream := st\<rparr>"]) (simp add: yamux_read_frame_def go_on_def reply_def pass_ctx_def healthy_def)
  next
    case other
    then show ?thesis using other_data_live [OF assms(1) wf(1) other] wf(2)
      by (auto simp: yamux_read_frame_def go_on_def pass_ctx_def frame_types)
  next
    case own
    then have "pl = []" "\<not> has_flag hdr YAMUX_FLAG_FIN" "length pl = unat (hd_length hdr)"
      using assms(2) wf(1) by (auto simp: passed_def is_data_def wf_frame_def frame_types)
    then show ?thesis using assms(1) own wf(2) idle
      by (intro exI [of _ ss]) (simp add: yamux_read_frame_def reply_def pass_ctx_def frame_types unat_eq_zero)
  qed
qed

lemma read_step_frame:
  assumes "healthy ss (wire (hdr, pl) @ a) w" and "\<not> cx_closed cx" and "drained cx"
  shows "\<exists>ss1. yamux_read_step io n cx ss = yamux_read_frame io n hdr cx ss1 \<and> healthy ss1 (pl @ a) w \<and>
    pending_inbound ss1 = pending_inbound ss"
proof -
  obtain st where "yamux_read_header io ss = Some (Some hdr, ss\<lparr>ys_stream := st\<rparr>)" "at_wire st (pl @ a) w"
    using read_header_live [of ss hdr "pl @ a" w] assms(1) by (auto simp: healthy_def wire_def)
  then show ?thesis using assms
    by (intro exI [of _ "ss\<lparr>ys_stream := st\<rparr>"]) (auto simp: yamux_read_step_def drained_def healthy_def)
qed

lemma pass_frame:
  assumes "healthy ss (wire f @ a) w" and "passed (cx_stream_id cx) f" and "\<not> cx_closed cx" and "drained cx"
  shows "\<exists>ss'. yamux_stream_read io n cx ss = yamux_stream_read io n (pass_ctx f cx) ss' \<and>
    healthy ss' a (w @ reply (cx_stream_id cx) (queue_ids ss) f) \<and>
    pending_inbound ss' = map (enqueue (cx_stream_id cx) f) (pending_inbound ss)"
proof -
  obtain hdr pl where f: "f = (hdr, pl)" by (cases f)
  obtain ss1 where 1: "yamux_read_step io n cx ss = yamux_read_frame io n hdr cx ss1" "healthy ss1 (pl @ a) w"
    "pending_inbound ss1 = pending_inbound ss" using read_step_frame [OF _ assms(3,4)] assms(1) unfolding f by blast
  obtain ss' where "yamux_read_frame io n hdr cx ss1 = Some (Continue, pass_ctx f cx, ss')"
    "healthy ss' a (w @ reply (cx_stream_id cx) (queue_ids ss1) f)"
    "pending_inbound ss' = map (enqueue (cx_stream_id cx) f) (pending_inbound ss1)"
    using read_frame_passes [OF 1(2)] assms(2) unfolding f by blast
  then show ?thesis using 1 by (intro exI [of _ ss']) (simp add: yamux_stream_read.simps [of io n cx ss])
qed

text \<open>Passing over any number of frames.\<close>

lemma pass_frames:
  assumes "healthy ss (concat (map wire fs) @ a) w" and "\<forall>f\<in>set fs. passed (cx_stream_id cx) f" and "\<not> cx_closed cx" and "drained cx"
  shows "\<exists>ss'. yamux_stream_read io n cx ss = yamux_stream_read io n (fold pass_ctx fs cx) ss' \<and>
    healthy ss' a (w @ concat (map (reply (cx_stream_id cx) (queue_ids ss)) fs)) \<and>
    pending_inbound ss' = map (fold (enqueue (cx_stream_id cx)) fs) (pending_inbound ss)"
  using assms
proof (induction fs arbitrary: ss cx w)
  case Nil
  then show ?case by (intro exI [of _ ss]) simp
next
  case (Cons f fs)
  obtain s1 where s1: "yamux_stream_read io n cx ss = yamux_stream_read io n (pass_ctx f cx) s1"
    "healthy s1 (concat (map wire fs) @ a) (w @ reply (cx_stream_id cx) (queue_ids ss) f)"
    "pending_inbound s1 = map (enqueue (cx_stream_id cx) f) (pending_inbound ss)"
    using pass_frame [of ss f "concat (map wire fs) @ a" w cx n] Cons.prems by auto
  have q: "queue_ids s1 = queue_ids ss" using s1(3) by (auto simp: image_iff)
  have "drained (pass_ctx f cx)" using Cons.prems(4) by (simp add: drained_def)
  with Cons.IH [OF s1(2), of "pass_ctx f cx"] Cons.prems q s1 show ?case by auto
qed

text \<open>The first frame with data for the stream ends the call.\<close>

lemma own_data_live:
  assumes "healthy ss (pl @ a) w" and "length pl = unat (hd_length hdr)"
  shows "\<exists>ss'. yamux_own_data io n hdr cx ss = Some (Return (Some (take n pl)), own_ctx n hdr pl cx, ss') \<and>
    healthy ss' a (w @ credit hdr cx) \<and> pending_inbound ss' = pending_inbound ss"
proof -
  let ?ss1 = "ss\<lparr>ys_mem := (\<lambda>k. ys_mem ss (Suc k))\<rparr>"
  let ?inc = "YAMUX_INITIAL_WINDOW_SIZE - credit_used (recv_window cx) (hd_length hdr)"
  have al: "ys_alloc ss = (True, ?ss1)" using assms(1) by (simp add: ys_alloc_def healthy_def)
  obtain st where st: "yamux_read_full io (unat (hd_length hdr)) ?ss1 = Some (Some pl, ?ss1\<lparr>ys_stream := st\<rparr>)" "at_wire st a w"
    using read_full_live [of ?ss1 pl a w] assms by (auto simp: healthy_def)
  let ?ss2 = "?ss1\<lparr>ys_stream := st\<rparr>"
  obtain st' where st': "yamux_send_header io YAMUX_TYPE_WINDOW_UPDATE 0 (cx_stream_id cx) ?inc ?ss2 = Some (True, ?ss2\<lparr>ys_stream := st'\<rparr>)"
    "at_wire st' a (w @ encode_header \<lparr>hd_version = YAMUX_VERSION, hd_type = YAMUX_TYPE_WINDOW_UPDATE, hd_flags = 0,
       hd_stream_id = cx_stream_id cx, hd_length = ?inc\<rparr>)"
    using send_header_live [of ?ss2 a w YAMUX_TYPE_WINDOW_UPDATE 0 "cx_stream_id cx" ?inc] st(2) by auto
  have m: "take (if n < unat (hd_length hdr) then n else unat (hd_length hdr)) pl = take n pl" using assms(2) by simp
  show ?thesis
  proof (cases "?inc \<ge> YAMUX_WINDOW_UPDATE_THRESHOLD")
    case True
    then show ?thesis using st st' assms m
      by (intro exI [of _ "?ss2\<lparr>ys_stream := st'\<rparr>"]) (auto simp: yamux_own_data_def al own_ctx_def credit_def grant_due_def Let_def healthy_def min_def)
  next
    case False
    then show ?thesis using st assms m
      by (intro exI [of _ ?ss2]) (auto simp: yamux_own_data_def al own_ctx_def credit_def grant_due_def Let_def healthy_def min_def)
  qed
qed

lemma read_delivers:
  assumes "healthy ss (concat (map wire fs) @ wire (hdr, pl) @ a) w" and "\<forall>f\<in>set fs. passed (cx_stream_id cx) f"
    and "\<not> cx_closed cx" and "drained cx" and "wf_frame (hdr, pl)" and "is_data (hdr, pl) (cx_stream_id cx)" and "pl \<noteq> []"
  shows "\<exists>ss'. yamux_stream_read io n cx ss = Some (Some (take n pl), own_ctx n hdr pl (fold pass_ctx fs cx), ss') \<and>
    healthy ss' a (w @ concat (map (reply (cx_stream_id cx) (queue_ids ss)) fs) @ credit hdr cx) \<and>
    pending_inbound ss' = map (fold (enqueue (cx_stream_id cx)) fs) (pending_inbound ss)"
proof -
  let ?cx = "fold pass_ctx fs cx"
  let ?w = "w @ concat (map (reply (cx_stream_id cx) (queue_ids ss)) fs)"
  obtain s1 where s1: "yamux_stream_read io n cx ss = yamux_stream_read io n ?cx s1" "healthy s1 (wire (hdr, pl) @ a) ?w"
    "pending_inbound s1 = map (fold (enqueue (cx_stream_id cx)) fs) (pending_inbound ss)"
    using pass_frames [OF assms(1-4)] by blast
  have "\<not> cx_closed ?cx" "drained ?cx" using assms(3,4) by (simp_all add: drained_def)
  then obtain s2 where s2: "yamux_read_step io n ?cx s1 = yamux_read_frame io n hdr ?cx s2" "healthy s2 (pl @ a) ?w"
    "pending_inbound s2 = pending_inbound s1" using read_step_frame [OF s1(2)] by blast
  have len: "length pl = unat (hd_length hdr)" "hd_length hdr \<noteq> 0"
    using assms(5-7) by (auto simp: wf_frame_def is_data_def frame_types)
  obtain s3 where s3: "yamux_own_data io n hdr ?cx s2 = Some (Return (Some (take n pl)), own_ctx n hdr pl ?cx, s3)"
    "healthy s3 a (?w @ credit hdr ?cx)" "pending_inbound s3 = pending_inbound s2"
    using own_data_live [OF s2(2) len(1)] by blast
  have "yamux_read_frame io n hdr ?cx s2 = yamux_own_data io n hdr ?cx s2"
    using assms(5,6) len(2) by (auto simp: yamux_read_frame_def wf_frame_def is_data_def frame_types)
  moreover have "credit hdr ?cx = credit hdr cx" by (simp add: credit_def grant_due_def)
  ultimately show ?thesis using s1 s2 s3 by (simp add: yamux_stream_read.simps [of io n ?cx s1])
qed

lemma stream_write_live:
  assumes "at_wire (ys_stream ss) a w" and "\<not> ys_closed ss" and "\<not> cx_closed cx"
    and "0 < length b" and "length b \<le> YAMUX_MAX_PAYLOAD" and "length b \<le> unat (send_window cx)" and "fits (length b)"
  shows "\<exists>st. yamux_stream_write io b cx ss =
      Some (int (length b), cx\<lparr>send_window := send_window cx - of_nat (length b)\<rparr>, ss\<lparr>ys_stream := st\<rparr>) \<and>
    at_wire st a (w @ wire (\<lparr>hd_version = YAMUX_VERSION, hd_type = YAMUX_TYPE_DATA, hd_flags = 0,
      hd_stream_id = cx_stream_id cx, hd_length = of_nat (length b)\<rparr>, b))"
proof -
  obtain st1 where st1: "yamux_send_header io YAMUX_TYPE_DATA 0 (cx_stream_id cx) (of_nat (length b)) ss = Some (True, ss\<lparr>ys_stream := st1\<rparr>)"
    "at_wire st1 a (w @ encode_header \<lparr>hd_version = YAMUX_VERSION, hd_type = YAMUX_TYPE_DATA, hd_flags = 0,
      hd_stream_id = cx_stream_id cx, hd_length = of_nat (length b)\<rparr>)"
    using send_header_live [OF assms(1)] by blast
  have "b \<noteq> []" using assms(4) by auto
  from at_wire_write [OF st1(2) this assms(7)] obtain st2 where "v2_write io st1 b = Some (int (length b), st2)"
    "at_wire st2 a ((w @ encode_header \<lparr>hd_version = YAMUX_VERSION, hd_type = YAMUX_TYPE_DATA, hd_flags = 0,
      hd_stream_id = cx_stream_id cx, hd_length = of_nat (length b)\<rparr>) @ b)" by blast
  then show ?thesis using st1(1) assms(2-6) by (auto simp: yamux_stream_write_def wire_def min_def Let_def)
qed

end

end
