(* ===== verification/Yamux_Stream.thy ===== *)
theory Yamux_Stream
  imports Yamux_Laws Multistream_V2
begin

text \<open>
  A yamux stream is again a stream: \<open>libp2p_yamux_stream_open\<close> and \<open>libp2p_yamux_stream_accept\<close>
  fill a \<open>struct Libp2pV2Stream\<close> with the operations of \<open>yamux.c\<close>. This theory proves the
  stream contract for it over any stream that keeps the contract, so that whatever is proved
  of a client of streams (protocol negotiation, for one) holds over yamux.
\<close>

definition yamux_io :: "'s v2stream \<Rightarrow> (yamux_ctx \<times> 's yamux_session) v2stream" where
  "yamux_io io =
     \<lparr>v2_read = (\<lambda>(cx, ss) n. map_option (\<lambda>(r, cx, ss). (r, cx, ss)) (yamux_stream_read io n cx ss)),
      v2_write = (\<lambda>(cx, ss) b. map_option (\<lambda>(r, cx, ss). (r, cx, ss)) (yamux_stream_write io b cx ss)),
      v2_close = (\<lambda>(cx, ss). (cx\<lparr>cx_closed := True\<rparr>, case yamux_stream_close io cx ss of None \<Rightarrow> ss | Some ss' \<Rightarrow> ss'))\<rparr>"

section \<open>The frames in a sequence of bytes\<close>

definition payload_len :: "yamux_header \<Rightarrow> nat" where
  "payload_len h = (if hd_type h \<in> {YAMUX_TYPE_WINDOW_UPDATE, YAMUX_TYPE_PING, YAMUX_TYPE_GO_AWAY} then 0 else unat (hd_length h))"

function frames_of :: "bytes \<Rightarrow> yframe list" where
  "frames_of bs =
     (let h = decode_header (take 12 bs)
      in if length bs < 12 + payload_len h then []
         else (h, take (payload_len h) (drop 12 bs)) # frames_of (drop (12 + payload_len h) bs))"
  by pat_completeness auto
termination by (relation "measure length") auto

declare frames_of.simps [simp del]

lemma wf_frame_payload: "wf_frame f \<Longrightarrow> length (snd f) = payload_len (fst f)"
  by (auto simp: wf_frame_def payload_len_def split: if_splits)

lemma frames_of_wire:
  assumes "wf_frame f"
  shows "frames_of (wire f @ bs) = f # frames_of bs"
proof -
  obtain h pl where f: "f = (h, pl)" by (cases f)
  then have "length pl = payload_len h" using wf_frame_payload [OF assms] by simp
  then show ?thesis by (simp add: f wire_def frames_of.simps [of "encode_header h @ pl @ bs"])
qed

lemma frames_of_Nil [simp]: "frames_of [] = []"
  by (simp add: frames_of.simps)

lemma frames_of_wires [simp]: "\<forall>f\<in>set fs. wf_frame f \<Longrightarrow> frames_of (concat (map wire fs)) = fs"
  by (induction fs) (simp_all add: frames_of_wire)

definition data_in :: "32 word \<Rightarrow> yframe list \<Rightarrow> bytes" where
  "data_in sid fs = concat (map snd (filter (\<lambda>f. is_data f sid) fs))"

lemma data_in_simps [simp]: "data_in sid [] = []" "data_in sid (fs @ gs) = data_in sid fs @ data_in sid gs"
  "data_in sid (f # fs) = (if is_data f sid then snd f else []) @ data_in sid fs"
  by (simp_all add: data_in_def)

text \<open>What the peer of a stream has sent and what was sent to it.\<close>

definition y_avail :: "('s \<Rightarrow> bytes) \<Rightarrow> yamux_ctx \<times> 's yamux_session \<Rightarrow> bytes" where
  "y_avail avail = (\<lambda>(cx, ss). buffered cx @ data_in (cx_stream_id cx) (frames_of (avail (ys_stream ss))))"

definition y_sent :: "('s \<Rightarrow> bytes) \<Rightarrow> yamux_ctx \<times> 's yamux_session \<Rightarrow> bytes" where
  "y_sent sent = (\<lambda>(cx, ss). data_in (cx_stream_id cx) (frames_of (sent (ys_stream ss))))"

definition y_room :: "(nat \<Rightarrow> bool) \<Rightarrow> yamux_ctx \<times> 's yamux_session \<Rightarrow> nat \<Rightarrow> bool" where
  "y_room fits = (\<lambda>(cx, ss) n. n \<le> unat (send_window cx) \<and> n \<le> YAMUX_MAX_PAYLOAD \<and> fits n)"

text \<open>The credit that frames grant to a stream.\<close>

definition granted :: "32 word \<Rightarrow> yframe list \<Rightarrow> nat" where
  "granted sid fs = (\<Sum>f\<leftarrow>fs. if hd_type (fst f) = YAMUX_TYPE_WINDOW_UPDATE \<and> hd_stream_id (fst f) = sid then unat (hd_length (fst f)) else 0)"

lemma granted_simps [simp]: "granted sid [] = 0" "granted sid (fs @ gs) = granted sid fs + granted sid gs"
  "granted sid (f # fs) =
     (if hd_type (fst f) = YAMUX_TYPE_WINDOW_UPDATE \<and> hd_stream_id (fst f) = sid then unat (hd_length (fst f)) else 0) + granted sid fs"
  by (simp_all add: granted_def)

text \<open>A peer that keeps the stream open and never lets the window overflow.\<close>

definition kind_peer :: "yamux_ctx \<Rightarrow> yframe list \<Rightarrow> bool" where
  "kind_peer cx fs \<longleftrightarrow> (\<forall>f\<in>set fs. wf_frame f \<and> hd_type (fst f) \<noteq> YAMUX_TYPE_GO_AWAY \<and>
       (is_data f (cx_stream_id cx) \<longrightarrow> \<not> has_flag (fst f) YAMUX_FLAG_FIN)) \<and>
     unat (send_window cx) + granted (cx_stream_id cx) fs < 2 ^ 32"

text \<open>The buffer fields agree.\<close>

definition buffer_ok :: "yamux_ctx \<Rightarrow> bool" where
  "buffer_ok cx \<longleftrightarrow> (\<forall>bs. read_buffer cx = Some bs \<longrightarrow> read_buffer_len cx = length bs \<and> read_buffer_pos cx \<le> length bs)"

lemma buffered_drained: "buffer_ok cx \<Longrightarrow> buffered cx = [] \<longleftrightarrow> drained cx"
  by (auto simp: buffer_ok_def buffered_def drained_def split: option.splits)

text \<open>Bytes that carry no data.\<close>

definition control_bytes :: "bytes \<Rightarrow> bool" where
  "control_bytes w \<longleftrightarrow> (\<exists>rs. w = concat (map wire rs) \<and> (\<forall>f\<in>set rs. wf_frame f \<and> hd_type (fst f) \<noteq> YAMUX_TYPE_DATA))"

lemma control_bytes_Nil [simp]: "control_bytes []"
  by (auto simp: control_bytes_def intro: exI [of _ "[]"])

lemma control_bytes_append: "control_bytes u \<Longrightarrow> control_bytes v \<Longrightarrow> control_bytes (u @ v)"
  unfolding control_bytes_def by (elim exE conjE, rule_tac x = "rs @ rsa" in exI) auto

lemma control_bytes_concat: "\<forall>w\<in>set ws. control_bytes w \<Longrightarrow> control_bytes (concat ws)"
  by (induction ws) (simp_all add: control_bytes_append)

lemma control_bytes_header:
  assumes "hd_type h \<in> {YAMUX_TYPE_WINDOW_UPDATE, YAMUX_TYPE_PING}" and "hd_version h = YAMUX_VERSION"
  shows "control_bytes (encode_header h)"
  unfolding control_bytes_def using assms
  by (intro exI [of _ "[(h, [])]"]) (auto simp: wire_def wf_frame_def frame_types)

lemma control_bytes_reply: "control_bytes (reply sid q f)"
  by (simp add: reply_def control_bytes_header)

lemma control_bytes_credit: "control_bytes (credit hdr cx)"
  by (simp add: credit_def control_bytes_header)

text \<open>The bytes written so far are whole frames.\<close>

definition framed :: "bytes \<Rightarrow> bool" where
  "framed w \<longleftrightarrow> (\<exists>gs. w = concat (map wire gs) \<and> (\<forall>f\<in>set gs. wf_frame f))"

lemma framed_control:
  assumes "framed w" and "control_bytes u"
  shows "framed (w @ u) \<and> data_in sid (frames_of (w @ u)) = data_in sid (frames_of w)"
proof -
  obtain gs rs where w: "w = concat (map wire gs)" "\<forall>f\<in>set gs. wf_frame f"
    and u: "u = concat (map wire rs)" "\<forall>f\<in>set rs. wf_frame f \<and> hd_type (fst f) \<noteq> YAMUX_TYPE_DATA"
    using assms by (auto simp: framed_def control_bytes_def)
  have e: "w @ u = concat (map wire (gs @ rs))" using w u by simp
  have all: "\<forall>f\<in>set (gs @ rs). wf_frame f" using w u by auto
  have "data_in sid rs = []" using u(2) by (auto simp: data_in_def is_data_def filter_empty_conv)
  then have "data_in sid (frames_of (w @ u)) = data_in sid (frames_of w)"
    unfolding e frames_of_wires [OF all] by (simp add: w)
  then show ?thesis using e all unfolding framed_def by blast
qed

lemma framed_data:
  assumes "framed w" and "wf_frame f" and "is_data f sid"
  shows "framed (w @ wire f) \<and> data_in sid (frames_of (w @ wire f)) = data_in sid (frames_of w) @ snd f"
proof -
  obtain gs where w: "w = concat (map wire gs)" "\<forall>f\<in>set gs. wf_frame f" using assms(1) by (auto simp: framed_def)
  have e: "w @ wire f = concat (map wire (gs @ [f]))" using w by simp
  have all: "\<forall>g\<in>set (gs @ [f]). wf_frame g" using w assms(2) by auto
  have "data_in sid (frames_of (w @ wire f)) = data_in sid (frames_of w) @ snd f"
    unfolding e frames_of_wires [OF all] using assms(3) by (simp add: w)
  then show ?thesis using e all unfolding framed_def by blast
qed

lemma pass_window:
  "unat (send_window cx) + granted (cx_stream_id cx) fs < 2 ^ 32 \<Longrightarrow>
   unat (send_window (fold pass_ctx fs cx)) = unat (send_window cx) + granted (cx_stream_id cx) fs"
proof (induction fs arbitrary: cx)
  case (Cons f fs)
  have "unat (send_window (pass_ctx f cx)) = unat (send_window cx) + granted (cx_stream_id cx) [f]"
    using Cons.prems by (auto simp: pass_ctx_def yamux_window_update_def unat_word_ariths(1) split: if_splits)
  then show ?case using Cons.IH [of "pass_ctx f cx"] Cons.prems by simp
qed simp

lemma kind_peer_rest:
  assumes "kind_peer cx (fs @ gs)" and "cx_stream_id cx' = cx_stream_id cx"
    and "send_window cx' = send_window (fold pass_ctx fs cx)"
  shows "kind_peer cx' gs \<and> unat (send_window cx) \<le> unat (send_window cx')"
  using assms pass_window [of cx fs] by (auto simp: kind_peer_def)

text \<open>Where the next data for a stream is.\<close>

lemma data_in_split:
  assumes "data_in sid fs \<noteq> []"
  shows "\<exists>gs f hs. fs = gs @ f # hs \<and> data_in sid gs = [] \<and> is_data f sid \<and> snd f \<noteq> []"
proof -
  have "\<exists>f\<in>set fs. is_data f sid \<and> snd f \<noteq> []" using assms by (auto simp: data_in_def)
  then obtain gs f hs where "fs = gs @ f # hs" "is_data f sid \<and> snd f \<noteq> []" "\<forall>g\<in>set gs. \<not> (is_data g sid \<and> snd g \<noteq> [])"
    using split_list_first_propE [of fs "\<lambda>f. is_data f sid \<and> snd f \<noteq> []"] by metis
  then show ?thesis by (intro exI [of _ gs] exI [of _ f] exI [of _ hs]) (auto simp: data_in_def)
qed

context v2_packet
begin

definition y_ready :: "yamux_ctx \<times> 's yamux_session \<Rightarrow> bool" where
  "y_ready = (\<lambda>(cx, ss). \<exists>fs w. healthy ss (concat (map wire fs)) w \<and> kind_peer cx fs \<and> framed w \<and> \<not> cx_closed cx \<and> buffer_ok cx)"

lemma healthy_wire: "healthy ss a w \<Longrightarrow> avail (ys_stream ss) = a \<and> sent (ys_stream ss) = w \<and> \<not> ys_closed ss"
  by (simp add: healthy_def at_wire_def)

lemma y_read_buffer:
  assumes "y_ready (cx, ss)" and "0 < n" and "buffered cx \<noteq> []"
  shows "\<exists>cx'. yamux_stream_read io n cx ss = Some (Some (take n (buffered cx)), cx', ss) \<and>
    buffered cx' = drop n (buffered cx) \<and> y_ready (cx', ss) \<and> cx_stream_id cx' = cx_stream_id cx \<and> send_window cx' = send_window cx"
proof -
  have ok: "buffer_ok cx" "\<not> cx_closed cx" "\<not> ys_closed ss" using assms(1) healthy_wire by (auto simp: y_ready_def)
  then obtain bs where bs: "read_buffer cx = Some bs" "read_buffer_len cx = length bs" "read_buffer_pos cx < length bs"
    using assms(3) by (auto simp: buffer_ok_def buffered_def split: option.splits)
  define k where "k = (if n < length bs - read_buffer_pos cx then n else length bs - read_buffer_pos cx)"
  let ?cx = "cx\<lparr>read_buffer_pos := read_buffer_pos cx + k\<rparr>"
  have b: "buffered cx = drop (read_buffer_pos cx) bs" using bs by (simp add: buffered_def)
  have k: "take k (buffered cx) = take n (buffered cx)" "drop k (buffered cx) = drop n (buffered cx)" by (auto simp: k_def b)
  have "yamux_read_step io n cx ss = Some (Return (Some (take k (buffered cx))), ?cx, ss)"
    using ok bs by (simp add: yamux_read_step_def k_def Let_def)
  then have "yamux_stream_read io n cx ss = Some (Some (take n (buffered cx)), ?cx, ss)"
    using k by (simp add: yamux_stream_read.simps [of io n cx])
  moreover have "buffered ?cx = drop n (buffered cx)" using k(2) bs b by (simp add: buffered_def add.commute)
  moreover have "y_ready (?cx, ss)"
  proof -
    have "buffer_ok ?cx" "kind_peer ?cx fs = kind_peer cx fs" for fs using bs by (auto simp: buffer_ok_def kind_peer_def k_def)
    then show ?thesis using assms(1) by (auto simp: y_ready_def)
  qed
  ultimately show ?thesis by (intro exI [of _ ?cx]) simp
qed

lemma y_read_wire:
  assumes "y_ready (cx, ss)" and "buffered cx = []" and "data_in (cx_stream_id cx) (frames_of (avail (ys_stream ss))) \<noteq> []"
  shows "\<exists>pl cx' ss' fs. yamux_stream_read io n cx ss = Some (Some (take n pl), cx', ss') \<and> pl \<noteq> [] \<and>
    buffered cx' = drop n pl \<and> frames_of (avail (ys_stream ss')) = fs \<and>
    data_in (cx_stream_id cx) (frames_of (avail (ys_stream ss))) = pl @ data_in (cx_stream_id cx) fs \<and>
    data_in (cx_stream_id cx) (frames_of (sent (ys_stream ss'))) = data_in (cx_stream_id cx) (frames_of (sent (ys_stream ss))) \<and>
    y_ready (cx', ss') \<and> cx_stream_id cx' = cx_stream_id cx \<and> unat (send_window cx) \<le> unat (send_window cx')"
proof -
  obtain all w where R: "healthy ss (concat (map wire all)) w" "kind_peer cx all" "framed w" "\<not> cx_closed cx" "buffer_ok cx"
    using assms(1) by (auto simp: y_ready_def)
  have wf: "\<forall>f\<in>set all. wf_frame f" using R(2) by (simp add: kind_peer_def)
  have fr: "frames_of (avail (ys_stream ss)) = all" using healthy_wire [OF R(1)] wf by simp
  obtain gs f hs where sp: "all = gs @ f # hs" "data_in (cx_stream_id cx) gs = []" "is_data f (cx_stream_id cx)" "snd f \<noteq> []"
    using data_in_split [of "cx_stream_id cx" all] assms(3) fr by auto
  obtain hdr pl where f: "f = (hdr, pl)" by (cases f)
  have pass: "\<forall>g\<in>set gs. passed (cx_stream_id cx) g" using R(2) sp(1,2) by (auto simp: passed_def kind_peer_def data_in_def)
  have "healthy ss (concat (map wire gs) @ wire (hdr, pl) @ concat (map wire hs)) w" using R(1) sp(1) f by simp
  moreover have "wf_frame (hdr, pl)" "is_data (hdr, pl) (cx_stream_id cx)" "pl \<noteq> []" using wf sp f by auto
  moreover have "drained cx" using buffered_drained R(5) assms(2) by blast
  ultimately obtain ss' where rd: "yamux_stream_read io n cx ss = Some (Some (take n pl), own_ctx n hdr pl (fold pass_ctx gs cx), ss')"
    "healthy ss' (concat (map wire hs)) (w @ concat (map (reply (cx_stream_id cx) (queue_ids ss)) gs) @ credit hdr cx)"
    using read_delivers [OF _ pass R(4)] by blast
  let ?cx = "own_ctx n hdr pl (fold pass_ctx gs cx)" and ?u = "concat (map (reply (cx_stream_id cx) (queue_ids ss)) gs) @ credit hdr cx"
  have u: "control_bytes ?u"
    by (intro control_bytes_append control_bytes_concat control_bytes_credit) (auto intro: control_bytes_reply)
  have fin: "\<not> has_flag hdr YAMUX_FLAG_FIN" using R(2) sp(1,3) f by (auto simp: kind_peer_def)
  have kp: "kind_peer ?cx hs \<and> unat (send_window cx) \<le> unat (send_window ?cx)"
  proof (rule kind_peer_rest [of cx "gs @ [f]"])
    have "hd_type (fst f) \<noteq> YAMUX_TYPE_WINDOW_UPDATE" using sp(3) by (auto simp: is_data_def frame_types)
    then show "send_window ?cx = send_window (fold pass_ctx (gs @ [f]) cx)" by (simp add: own_ctx_def pass_ctx_def)
  qed (use R(2) sp(1) in \<open>simp_all add: own_ctx_def\<close>)
  have b: "buffered ?cx = drop n pl" "buffer_ok ?cx" by (simp_all add: own_ctx_def buffered_def buffer_ok_def min_def)
  have c: "cx_stream_id ?cx = cx_stream_id cx" "\<not> cx_closed ?cx" using fin R(4) by (simp_all add: own_ctx_def)
  have "y_ready (?cx, ss')" using rd(2) kp framed_control [OF R(3) u] b(2) c(2) by (auto simp: y_ready_def)
  moreover have "frames_of (avail (ys_stream ss')) = hs" using healthy_wire [OF rd(2)] wf sp(1) by simp
  moreover have "data_in (cx_stream_id cx) (frames_of (sent (ys_stream ss'))) = data_in (cx_stream_id cx) (frames_of (sent (ys_stream ss)))"
    using healthy_wire [OF rd(2)] healthy_wire [OF R(1)] framed_control [OF R(3) u] by simp
  ultimately show ?thesis using rd(1) b(1) c(1) kp sp f fr by auto
qed

lemma y_write:
  assumes "y_ready (cx, ss)" and "y_room fits (cx, ss) n" and "0 < length b" and "length b \<le> n"
  shows "\<exists>cx' ss'. yamux_stream_write io b cx ss = Some (int (length b), cx', ss') \<and>
    y_sent sent (cx', ss') = y_sent sent (cx, ss) @ b \<and> y_avail avail (cx', ss') = y_avail avail (cx, ss) \<and>
    y_ready (cx', ss') \<and> y_room fits (cx', ss') (n - length b)"
proof -
  obtain fs w where R: "healthy ss (concat (map wire fs)) w" "kind_peer cx fs" "framed w" "\<not> cx_closed cx" "buffer_ok cx"
    using assms(1) by (auto simp: y_ready_def)
  have n: "length b \<le> YAMUX_MAX_PAYLOAD" "length b \<le> unat (send_window cx)" "fits (length b)"
    using assms(2,4) fits_mono by (auto simp: y_room_def)
  let ?h = "\<lparr>hd_version = YAMUX_VERSION, hd_type = YAMUX_TYPE_DATA, hd_flags = 0, hd_stream_id = cx_stream_id cx,
    hd_length = of_nat (length b)\<rparr>"
  let ?cx = "cx\<lparr>send_window := send_window cx - of_nat (length b)\<rparr>"
  obtain st where st: "yamux_stream_write io b cx ss = Some (int (length b), ?cx, ss\<lparr>ys_stream := st\<rparr>)"
    "at_wire st (concat (map wire fs)) (w @ wire (?h, b))"
    using stream_write_live [of ss "concat (map wire fs)" w cx b] R n assms(3) by (auto simp: healthy_def)
  have len: "unat (of_nat (length b) :: 32 word) = length b" using n(1) by (simp add: unat_of_nat YAMUX_MAX_PAYLOAD_def)
  then have wf: "wf_frame (?h, b)" "is_data (?h, b) (cx_stream_id cx)" by (auto simp: wf_frame_def is_data_def frame_types)
  have "(of_nat (length b) :: 32 word) \<le> send_window cx" using n(2) len by (simp add: word_le_nat_alt)
  then have win: "unat (send_window ?cx) = unat (send_window cx) - length b" using len by (simp add: unat_sub)
  have h: "healthy (ss\<lparr>ys_stream := st\<rparr>) (concat (map wire fs)) (w @ wire (?h, b))" using R(1) st(2) by (simp add: healthy_def)
  have "y_ready (?cx, ss\<lparr>ys_stream := st\<rparr>)"
    unfolding y_ready_def prod.case
    by (intro exI [of _ fs] exI [of _ "w @ wire (?h, b)"] conjI h) (use R win framed_data [OF R(3) wf] in \<open>auto simp: kind_peer_def buffer_ok_def\<close>)
  moreover have "y_sent sent (?cx, ss\<lparr>ys_stream := st\<rparr>) = y_sent sent (cx, ss) @ b"
    using healthy_wire [OF h] healthy_wire [OF R(1)] framed_data [OF R(3) wf] by (simp add: y_sent_def)
  moreover have "y_avail avail (?cx, ss\<lparr>ys_stream := st\<rparr>) = y_avail avail (cx, ss)"
    using healthy_wire [OF h] healthy_wire [OF R(1)] by (simp add: y_avail_def buffered_def split: option.split)
  moreover have "y_room fits (?cx, ss\<lparr>ys_stream := st\<rparr>) (n - length b)" using assms(2) win fits_mono [of n "n - length b"] by (auto simp: y_room_def)
  ultimately show ?thesis using st(1) by blast
qed

theorem yamux_stream_contract: "v2_live (yamux_io io) (y_avail avail) (y_sent sent) y_ready (y_room fits)"
proof (rule v2_live.intro)
  fix s :: "yamux_ctx \<times> 's yamux_session" and n :: nat
  assume r: "y_ready s" and n: "0 < n" and a: "y_avail avail s \<noteq> []"
  obtain cx ss where s: "s = (cx, ss)" by (cases s)
  show "\<exists>bs s'. v2_read (yamux_io io) s n = Some (Some bs, s') \<and> bs \<noteq> [] \<and> length bs \<le> n \<and>
      y_avail avail s = bs @ y_avail avail s' \<and> y_sent sent s' = y_sent sent s \<and> y_ready s' \<and> (\<forall>k. y_room fits s k \<longrightarrow> y_room fits s' k)"
  proof (cases "buffered cx = []")
    case False
    obtain cx' where "yamux_stream_read io n cx ss = Some (Some (take n (buffered cx)), cx', ss)" "buffered cx' = drop n (buffered cx)"
      "y_ready (cx', ss)" "cx_stream_id cx' = cx_stream_id cx" "send_window cx' = send_window cx"
      using y_read_buffer [OF r [unfolded s] n False] by blast
    then show ?thesis using n False
      by (intro exI [of _ "take n (buffered cx)"] exI [of _ "(cx', ss)"]) (simp add: s yamux_io_def y_avail_def y_sent_def y_room_def)
  next
    case True
    with a have "data_in (cx_stream_id cx) (frames_of (avail (ys_stream ss))) \<noteq> []" by (simp add: s y_avail_def)
    from y_read_wire [OF r [unfolded s] True this, of n] obtain pl cx' ss' where
      "yamux_stream_read io n cx ss = Some (Some (take n pl), cx', ss')" "pl \<noteq> []" "buffered cx' = drop n pl"
      "data_in (cx_stream_id cx) (frames_of (avail (ys_stream ss))) = pl @ data_in (cx_stream_id cx) (frames_of (avail (ys_stream ss')))"
      "data_in (cx_stream_id cx) (frames_of (sent (ys_stream ss'))) = data_in (cx_stream_id cx) (frames_of (sent (ys_stream ss)))"
      "y_ready (cx', ss')" "cx_stream_id cx' = cx_stream_id cx" "unat (send_window cx) \<le> unat (send_window cx')" by blast
    then show ?thesis using n True
      by (intro exI [of _ "take n pl"] exI [of _ "(cx', ss')"]) (auto simp: s yamux_io_def y_avail_def y_sent_def y_room_def)
  qed
next
  fix s :: "yamux_ctx \<times> 's yamux_session" and n and b :: bytes
  assume "y_ready s" "y_room fits s n" "0 < length b" "length b \<le> n"
  then show "\<exists>s'. v2_write (yamux_io io) s b = Some (int (length b), s') \<and> y_sent sent s' = y_sent sent s @ b \<and>
      y_avail avail s' = y_avail avail s \<and> y_ready s' \<and> y_room fits s' (n - length b)"
    using y_write [of "fst s" "snd s" n b] by (auto simp: yamux_io_def split_beta)
qed

end

interpretation yam: v2_live "yamux_io tcp_stream" "y_avail sk_rx" "y_sent sk_tx" tcp.y_ready "y_room (\<lambda>_. True)"
  by (rule tcp.yamux_stream_contract)

end
