(* ===== verification/Noise_V2.thy ===== *)
theory Noise_V2
  imports Peer_Id Stream_V2
begin

text \<open>
  The Noise secure channel of \<open>src/v2/src/conn/noise.c\<close>: key derivation, the encrypted stream with its buffer and
  counters, the identity payload, and the two sides of the handshake, over any stream and any cryptographic
  library.

  \<open>noise_stream_read\<close> and \<open>noise_stream_write\<close> hold the mutex from the first to the last line, so each is one
  transition of the context. The buffers of the handshake are lists of the bytes in use; a size test of the code is a
  test here. Key generation is an argument, the result of \<open>noise_x25519_generate\<close>, as are the outcomes of the two
  allocations. The outer option of a result is \<open>None\<close> when the call does not return; inside, a result is a value,
  a failure (\<open>return NULL\<close>), or undefined behaviour: a slice outside its buffer.
\<close>

definition NOISE_TAGLEN :: nat where "NOISE_TAGLEN = 16"
definition NOISE_KEYLEN :: nat where "NOISE_KEYLEN = 32"
definition NOISE_NONCE_LEN :: nat where "NOISE_NONCE_LEN = 12"
definition NOISE_HASHLEN :: nat where "NOISE_HASHLEN = 32"
definition NOISE_DHLEN :: nat where "NOISE_DHLEN = 32"

record 's noise_ctx =
  raw_stream :: 's
  read_key :: bytes
  write_key :: bytes
  read_nonce :: "64 word"
  write_nonce :: "64 word"
  nz_buf :: bytes
  nz_len :: nat
  nz_pos :: nat

section \<open>Key derivation and encryption\<close>

text \<open>\<open>noise_hkdf\<close>: the outputs are the two halves of one buffer, whose contents before the call are \<open>out\<close>;
  the return value and the buffer afterwards. Both callers ask for the second output.\<close>

definition noise_hkdf :: "ext_lib \<Rightarrow> bytes \<Rightarrow> bytes \<Rightarrow> bytes \<Rightarrow> bool \<times> bytes" where
  "noise_hkdf L salt ikm out =
     (case hmac_sha256 L salt ikm of
        None \<Rightarrow> (False, out)
      | Some prk \<Rightarrow>
          case hmac_sha256 L prk [1] of
            None \<Rightarrow> (False, out)
          | Some okm1 \<Rightarrow>
              case hmac_sha256 L prk (take NOISE_HASHLEN okm1 @ [2]) of
                None \<Rightarrow> (False, memcpy out okm1)
              | Some okm2 \<Rightarrow> (True, okm1 @ okm2))"

text \<open>The nonce: four zero bytes and the counter in little-endian order.\<close>

definition nonce_bytes :: "64 word \<Rightarrow> bytes" where
  "nonce_bytes n = replicate 4 0 @ map (\<lambda>i. ucast (drop_bit (i * 8) n AND 0xFF)) [0..<8]"

definition noise_encrypt :: "ext_lib \<Rightarrow> bytes \<Rightarrow> 64 word \<Rightarrow> bytes \<Rightarrow> bytes \<Rightarrow> bytes option" where
  "noise_encrypt L key nonce ad plaintext = aead_seal L key (nonce_bytes nonce) ad plaintext"

definition noise_decrypt :: "ext_lib \<Rightarrow> bytes \<Rightarrow> 64 word \<Rightarrow> bytes \<Rightarrow> bytes \<Rightarrow> bytes option" where
  "noise_decrypt L key nonce ad ciphertext =
     (if length ciphertext < NOISE_TAGLEN then None else aead_open L key (nonce_bytes nonce) ad ciphertext)"

section \<open>The encrypted stream\<close>

definition frame_header :: "nat \<Rightarrow> bytes" where
  "frame_header n = [of_nat (n div 256), of_nat n]"

definition header_len :: "bytes \<Rightarrow> nat" where
  "header_len hdr = unat (byte_at hdr 0) * 256 + unat (byte_at hdr 1)"

definition noise_serve :: "nat \<Rightarrow> 's noise_ctx \<Rightarrow> bytes \<times> 's noise_ctx" where
  "noise_serve count c =
     (let to_copy = min count (nz_len c - nz_pos c); out = take to_copy (drop (nz_pos c) (nz_buf c)); pos = nz_pos c + to_copy
      in (out, if pos = nz_len c then c\<lparr>nz_pos := 0, nz_len := 0\<rparr> else c\<lparr>nz_pos := pos\<rparr>))"

definition noise_stream_read :: "ext_lib \<Rightarrow> 's v2stream \<Rightarrow> bool \<Rightarrow> 's noise_ctx \<Rightarrow> nat \<Rightarrow> (bytes option \<times> 's noise_ctx) option" where
  "noise_stream_read L io mem c count =
     (if nz_pos c < nz_len c then (let (out, c1) = noise_serve count c in Some (Some out, c1))
      else do {
        (r, s1) \<leftarrow> v2_read io (raw_stream c) 2;
        case r of
          None \<Rightarrow> Some (None, c\<lparr>raw_stream := s1\<rparr>)
        | Some hdr \<Rightarrow>
            if length hdr \<noteq> 2 then Some (None, c\<lparr>raw_stream := s1\<rparr>)
            else let frame_len = header_len hdr
                 in if frame_len > 65535 \<or> frame_len < NOISE_TAGLEN \<or> \<not> mem then Some (None, c\<lparr>raw_stream := s1\<rparr>)
                    else do {
                      (b, s2) \<leftarrow> read_loop io frame_len [] s1;
                      case b of
                        None \<Rightarrow> Some (None, c\<lparr>raw_stream := s2\<rparr>)
                      | Some cipher_buf \<Rightarrow>
                          if frame_len - NOISE_TAGLEN > 65536 then Some (None, c\<lparr>raw_stream := s2\<rparr>)
                          else case noise_decrypt L (read_key c) (read_nonce c) [] cipher_buf of
                                 None \<Rightarrow> Some (None, c\<lparr>raw_stream := s2\<rparr>)
                               | Some p \<Rightarrow>
                                   let (out, c1) = noise_serve count (c\<lparr>raw_stream := s2, read_nonce := read_nonce c + 1,
                                         nz_buf := memcpy (nz_buf c) p, nz_len := frame_len - NOISE_TAGLEN, nz_pos := 0\<rparr>)
                                   in Some (Some out, c1)
                    }
      })"

definition noise_stream_write :: "ext_lib \<Rightarrow> 's v2stream \<Rightarrow> 's noise_ctx \<Rightarrow> bytes \<Rightarrow> (int \<times> 's noise_ctx) option" where
  "noise_stream_write L io c buf =
     (let count = min (length buf) (65535 - NOISE_TAGLEN)
      in case noise_encrypt L (write_key c) (write_nonce c) [] (take count buf) of
           None \<Rightarrow> Some (- 1, c)
         | Some ciphertext \<Rightarrow>
             let frame_len = count + NOISE_TAGLEN
             in do {
               (n, s1) \<leftarrow> v2_write io (raw_stream c) (frame_header frame_len);
               if n \<noteq> 2 then Some (- 1, c\<lparr>raw_stream := s1\<rparr>)
               else do {
                 (m, s2) \<leftarrow> v2_write io s1 (take frame_len ciphertext);
                 if m = int frame_len then Some (int count, c\<lparr>raw_stream := s2, write_nonce := write_nonce c + 1\<rparr>)
                 else Some (- 1, c\<lparr>raw_stream := s2\<rparr>)
               }
             })"

definition noise_stream_close :: "'s v2stream \<Rightarrow> 's noise_ctx \<Rightarrow> 's noise_ctx" where
  "noise_stream_close io c = c\<lparr>raw_stream := v2_close io (raw_stream c)\<rparr>"

text \<open>The channel as a stream; \<open>mem\<close> says whether the buffers of its frames can be allocated.\<close>

definition noise_io :: "ext_lib \<Rightarrow> bool \<Rightarrow> 's v2stream \<Rightarrow> 's noise_ctx v2stream" where
  "noise_io L mem io = \<lparr>v2_read = noise_stream_read L io mem, v2_write = noise_stream_write L io, v2_close = noise_stream_close io\<rparr>"

section \<open>The handshake: hashes, keys, frames\<close>

text \<open>The variables \<open>h\<close>, \<open>ck\<close>, \<open>temp_k\<close> and \<open>nonce\<close> of a handshake.\<close>

record noise_sym =
  sy_h :: bytes
  sy_ck :: bytes
  sy_k :: bytes
  sy_n :: "64 word"

definition noise_mix_hash :: "ext_lib \<Rightarrow> bytes \<Rightarrow> noise_sym \<Rightarrow> noise_sym" where
  "noise_mix_hash L d y = y\<lparr>sy_h := sha256 L (sy_h y @ d)\<rparr>"

definition noise_mix_key :: "ext_lib \<Rightarrow> bytes \<Rightarrow> noise_sym \<Rightarrow> noise_sym" where
  "noise_mix_key L ikm y =
     (let temp = snd (noise_hkdf L (sy_ck y) ikm (stack_junk L))
      in y\<lparr>sy_ck := take NOISE_HASHLEN temp, sy_k := take NOISE_HASHLEN (drop NOISE_HASHLEN temp), sy_n := 0\<rparr>)"

definition noise_protocol_name :: bytes where
  "noise_protocol_name = bstr ''Noise_XX_25519_ChaChaPoly_SHA256''"

definition noise_sym_init :: "ext_lib \<Rightarrow> noise_sym" where
  "noise_sym_init L =
     (let h = (if length noise_protocol_name \<le> NOISE_HASHLEN then memcpy (replicate NOISE_HASHLEN 0) noise_protocol_name
               else sha256 L noise_protocol_name)
      in noise_mix_hash L [] \<lparr>sy_h = h, sy_ck = h, sy_k = replicate NOISE_HASHLEN 0, sy_n = 0\<rparr>)"

text \<open>One encrypted token of a message: encrypt or decrypt under \<open>h\<close>, count, and hash the ciphertext.\<close>

definition sym_encrypt :: "ext_lib \<Rightarrow> bytes \<Rightarrow> noise_sym \<Rightarrow> (bytes \<times> noise_sym) option" where
  "sym_encrypt L p y =
     do {
       c \<leftarrow> noise_encrypt L (sy_k y) (sy_n y) (sy_h y) p;
       Some (c, noise_mix_hash L c (y\<lparr>sy_n := sy_n y + 1\<rparr>))
     }"

definition sym_decrypt :: "ext_lib \<Rightarrow> bytes \<Rightarrow> noise_sym \<Rightarrow> (bytes \<times> noise_sym) option" where
  "sym_decrypt L c y =
     do {
       p \<leftarrow> noise_decrypt L (sy_k y) (sy_n y) (sy_h y) c;
       Some (p, noise_mix_hash L c (y\<lparr>sy_n := sy_n y + 1\<rparr>))
     }"

definition noise_write_frame :: "'s v2stream \<Rightarrow> bytes \<Rightarrow> 's \<Rightarrow> (bool \<times> 's) option" where
  "noise_write_frame io data st =
     do {
       (n, st1) \<leftarrow> v2_write io st (frame_header (length data));
       if n \<noteq> 2 then Some (False, st1)
       else do {
         (m, st2) \<leftarrow> v2_write io st1 data;
         Some (m = int (length data), st2)
       }
     }"

definition noise_read_frame :: "'s v2stream \<Rightarrow> nat \<Rightarrow> 's \<Rightarrow> (bytes option \<times> 's) option" where
  "noise_read_frame io max_len st =
     do {
       (r, st1) \<leftarrow> v2_read io st 2;
       case r of
         None \<Rightarrow> Some (None, st1)
       | Some hdr \<Rightarrow>
           if length hdr \<noteq> 2 \<or> header_len hdr > max_len then Some (None, st1)
           else read_loop io (header_len hdr) [] st1
     }"

section \<open>The handshake: identities\<close>

record 'k noise_callbacks =
  get_identity_key :: "('k \<Rightarrow> bytes option) option"
  cb_sign :: "('k \<Rightarrow> bytes \<Rightarrow> bytes option) option"
  cb_verify :: "(bytes \<Rightarrow> bytes \<Rightarrow> bytes \<Rightarrow> bool outcome option) option"

record noise_peer =
  np_id :: "bytes option"
  np_id_size :: nat

text \<open>The environment of one handshake: the two generated key pairs (private, public), the allocations of the
  peer id, of the context and of the stream.\<close>

record noise_env =
  ev_ephemeral :: "(bytes \<times> bytes) option"
  ev_static :: "(bytes \<times> bytes) option"
  ev_id_mem :: bool
  ev_ctx_mem :: bool
  ev_stream_mem :: bool

definition noise_payload_encode :: "ext_lib \<Rightarrow> bytes \<Rightarrow> bytes \<Rightarrow> nat \<Rightarrow> bytes option" where
  "noise_payload_encode L identity_key identity_sig max_out =
     do {
       b1 \<leftarrow> (if identity_key = [] then Some [] else protobuf_encode_length_delimited L 1 identity_key max_out);
       b2 \<leftarrow> (if identity_sig = [] then Some [] else protobuf_encode_length_delimited L 2 identity_sig (max_out - length b1));
       Some (b1 @ b2)
     }"

text \<open>A pointer into the payload is its offset; the lengths are the 64-bit numbers that were read, and so are the sums
  of the size test and of \<open>pos\<close>.\<close>

partial_function (option) noise_payload_decode ::
    "ext_lib \<Rightarrow> bytes \<Rightarrow> 64 word \<Rightarrow> (64 word \<times> 64 word) option \<Rightarrow> (64 word \<times> 64 word) option \<Rightarrow>
     ((64 word \<times> 64 word) option \<times> (64 word \<times> 64 word) option) option option" where
  "noise_payload_decode L inp pos out_key out_sig =
     (if unat pos < length inp then
        case protobuf_decode_field_and_type L (drop (unat pos) inp) (of_nat (length inp) - pos) of
          None \<Rightarrow> Some None
        | Some (field_no, field_type, hdr_bytes) \<Rightarrow>
            if field_type \<noteq> WIRETYPE_LENGTH_DELIMITED then Some None
            else let pos1 = pos + of_nat hdr_bytes; (data_len, varint_len) = varint_decode L (drop (unat pos1) inp);
                     start = pos1 + of_nat varint_len; pos2 = start + data_len
                 in if varint_len = 0 \<or> unat pos2 > length inp then Some None
                    else noise_payload_decode L inp pos2
                           (if field_no = 1 then Some (start, data_len) else out_key)
                           (if field_no = 2 then Some (start, data_len) else out_sig)
      else Some (Some (out_key, out_sig)))"

definition payload_slice :: "bytes \<Rightarrow> 64 word \<times> 64 word \<Rightarrow> bytes option" where
  "payload_slice p = (\<lambda>(off, len). if unat off + unat len \<le> length p then Some (take (unat len) (drop (unat off) p)) else None)"

definition noise_peer_id_from_identity_key :: "ext_lib \<Rightarrow> noise_env \<Rightarrow> bytes \<Rightarrow> noise_peer \<Rightarrow> (bool \<times> noise_peer) outcome option" where
  "noise_peer_id_from_identity_key L ev id_key peer =
     (if id_key = [] then Some (Returns (False, peer))
      else case libp2p_crypto_public_key_protobuf_decode L (ev_id_mem ev) id_key of
             None \<Rightarrow> None
           | Some None \<Rightarrow> Some (Returns (False, peer))
           | Some (Some pubkey) \<Rightarrow>
               case libp2p_crypto_public_key_to_peer_id L (ev_id_mem ev) pubkey of
                 None \<Rightarrow> Some Undefined
               | Some None \<Rightarrow> Some (Returns (False, peer))
               | Some (Some peer_id) \<Rightarrow> Some (Returns (True, peer\<lparr>np_id := Some peer_id, np_id_size := length peer_id\<rparr>)))"

definition noise_check_identity ::
    "ext_lib \<Rightarrow> noise_env \<Rightarrow> 'k noise_callbacks option \<Rightarrow> bytes \<Rightarrow> bytes \<Rightarrow> noise_peer option \<Rightarrow> noise_peer option outcome option" where
  "noise_check_identity L ev callbacks remote_s_public remote_payload peer =
     (case Option.bind callbacks cb_verify of
        None \<Rightarrow> Some (Returns peer)
      | Some verify \<Rightarrow>
          case noise_payload_decode L remote_payload 0 None None of
            None \<Rightarrow> None
          | Some (Some (Some k, Some g)) \<Rightarrow>
              (case (payload_slice remote_payload k, payload_slice remote_payload g) of
                 (Some r_id_key, Some r_id_sig) \<Rightarrow>
                   (case verify r_id_key remote_s_public r_id_sig of
                      None \<Rightarrow> None
                    | Some (Returns False) \<Rightarrow> Some Fails
                    | Some (Returns True) \<Rightarrow>
                        (case peer of
                           None \<Rightarrow> Some (Returns None)
                         | Some pr \<Rightarrow>
                             case noise_peer_id_from_identity_key L ev r_id_key pr of
                               None \<Rightarrow> None
                             | Some (Returns (_, pr')) \<Rightarrow> Some (Returns (Some pr'))
                             | Some _ \<Rightarrow> Some Undefined)
                    | Some _ \<Rightarrow> Some Undefined)
               | _ \<Rightarrow> Some Undefined)
          | Some _ \<Rightarrow> Some (Returns peer))"

text \<open>The encrypted payload of the other side, the rest of its message.\<close>

definition noise_remote_payload ::
    "ext_lib \<Rightarrow> noise_env \<Rightarrow> 'k noise_callbacks option \<Rightarrow> bytes \<Rightarrow> bytes \<Rightarrow> noise_sym \<Rightarrow> noise_peer option \<Rightarrow>
     (noise_sym outcome \<times> noise_peer option) option" where
  "noise_remote_payload L ev callbacks remote_s_public enc y peer =
     (if length enc > NOISE_TAGLEN + 2048 then Some (Fails, peer)
      else if length enc \<ge> NOISE_TAGLEN then
        case sym_decrypt L enc y of
          None \<Rightarrow> Some (Fails, peer)
        | Some (remote_payload, y1) \<Rightarrow>
            case noise_check_identity L ev callbacks remote_s_public remote_payload peer of
              None \<Rightarrow> None
            | Some (Returns peer1) \<Rightarrow> Some (Returns y1, peer1)
            | Some Fails \<Rightarrow> Some (Fails, peer)
            | Some Undefined \<Rightarrow> Some (Undefined, peer)
      else Some (Returns (noise_mix_hash L enc y), peer))"

definition noise_identity_payload :: "ext_lib \<Rightarrow> 'k noise_callbacks option \<Rightarrow> 'k \<Rightarrow> bytes \<Rightarrow> bytes" where
  "noise_identity_payload L callbacks private_key s_public =
     (case do {
        cb \<leftarrow> callbacks;
        gk \<leftarrow> get_identity_key cb;
        sg \<leftarrow> cb_sign cb;
        identity_key \<leftarrow> gk private_key;
        identity_sig \<leftarrow> sg private_key s_public;
        noise_payload_encode L identity_key identity_sig 1024
      } of None \<Rightarrow> [] | Some payload \<Rightarrow> payload)"

text \<open>The static key and the payload, as both sides send them; \<open>re\<close> is the other side's ephemeral key.\<close>

definition noise_send_static ::
    "ext_lib \<Rightarrow> noise_env \<Rightarrow> 'k noise_callbacks option \<Rightarrow> 'k \<Rightarrow> bytes \<Rightarrow> noise_sym \<Rightarrow> (bytes \<times> noise_sym) option" where
  "noise_send_static L ev callbacks private_key re y =
     do {
       (s_private, s_public) \<leftarrow> ev_static ev;
       (encrypted_s, y1) \<leftarrow> sym_encrypt L s_public y;
       dh_result \<leftarrow> x25519_derive L s_private re;
       (encrypted_payload, y2) \<leftarrow> sym_encrypt L (noise_identity_payload L callbacks private_key s_public) (noise_mix_key L dh_result y1);
       Some (encrypted_s @ encrypted_payload, y2)
     }"

text \<open>The static key and the payload, as both sides read them; \<open>e_private\<close> is this side's ephemeral key.\<close>

definition noise_read_static ::
    "ext_lib \<Rightarrow> noise_env \<Rightarrow> 'k noise_callbacks option \<Rightarrow> bytes \<Rightarrow> bytes \<Rightarrow> noise_sym \<Rightarrow> noise_peer option \<Rightarrow>
     (noise_sym outcome \<times> noise_peer option) option" where
  "noise_read_static L ev callbacks e_private msg y peer =
     (if length msg < NOISE_DHLEN + NOISE_TAGLEN then Some (Fails, peer)
      else case sym_decrypt L (take (NOISE_DHLEN + NOISE_TAGLEN) msg) y of
             None \<Rightarrow> Some (Fails, peer)
           | Some (remote_s_public, y1) \<Rightarrow>
               case x25519_derive L e_private remote_s_public of
                 None \<Rightarrow> Some (Fails, peer)
               | Some dh_result \<Rightarrow>
                   noise_remote_payload L ev callbacks remote_s_public (drop (NOISE_DHLEN + NOISE_TAGLEN) msg) (noise_mix_key L dh_result y1) peer)"

section \<open>The handshake: the two sides\<close>

text \<open>The buffer of a context as \<open>calloc\<close> leaves it.\<close>

definition zero_buf :: bytes where
  "zero_buf = replicate 65536 0"

lemma length_zero_buf [simp]: "length zero_buf = 65536"
  unfolding zero_buf_def by (rule length_replicate)

definition noise_split :: "ext_lib \<Rightarrow> noise_env \<Rightarrow> bool \<Rightarrow> noise_sym \<Rightarrow> 's \<Rightarrow> 's noise_ctx outcome" where
  "noise_split L ev initiator y st =
     (let split_keys = snd (noise_hkdf L (sy_ck y) [] (stack_junk L));
          k1 = take NOISE_KEYLEN split_keys; k2 = take NOISE_KEYLEN (drop NOISE_HASHLEN split_keys)
      in if \<not> ev_ctx_mem ev \<or> \<not> ev_stream_mem ev then Fails
         else Returns \<lparr>raw_stream = st, read_key = (if initiator then k2 else k1), write_key = (if initiator then k1 else k2),
                read_nonce = 0, write_nonce = 0, nz_buf = zero_buf, nz_len = 0, nz_pos = 0\<rparr>)"

definition noise_initiator_read ::
    "ext_lib \<Rightarrow> noise_env \<Rightarrow> 'k noise_callbacks option \<Rightarrow> bytes \<Rightarrow> bytes \<Rightarrow> noise_sym \<Rightarrow> noise_peer option \<Rightarrow>
     (noise_sym outcome \<times> noise_peer option) option" where
  "noise_initiator_read L ev callbacks e_private remote_msg y peer =
     (if length remote_msg < NOISE_DHLEN then Some (Fails, peer)
      else let re_public = take NOISE_DHLEN remote_msg
           in case x25519_derive L e_private re_public of
                None \<Rightarrow> Some (Fails, peer)
              | Some dh_result \<Rightarrow>
                  noise_read_static L ev callbacks e_private (drop NOISE_DHLEN remote_msg)
                    (noise_mix_key L dh_result (noise_mix_hash L re_public y)) peer)"

definition libp2p_noise_handshake_raw ::
    "ext_lib \<Rightarrow> 's v2stream \<Rightarrow> noise_env \<Rightarrow> 'k \<Rightarrow> noise_peer option \<Rightarrow> 'k noise_callbacks option \<Rightarrow> 's \<Rightarrow>
     ('s noise_ctx outcome \<times> noise_peer option \<times> 's) option" where
  "libp2p_noise_handshake_raw L io ev private_key peer callbacks st =
     (case ev_ephemeral ev of
        None \<Rightarrow> Some (Fails, peer, st)
      | Some (e_private, e_public) \<Rightarrow>
          do {
            (ok, st1) \<leftarrow> noise_write_frame io e_public st;
            if \<not> ok then Some (Fails, peer, st1)
            else do {
              (m, st2) \<leftarrow> noise_read_frame io 4096 st1;
              case m of
                None \<Rightarrow> Some (Fails, peer, st2)
              | Some remote_msg \<Rightarrow>
                  do {
                    (r, peer1) \<leftarrow> noise_initiator_read L ev callbacks e_private remote_msg
                        (noise_mix_hash L [] (noise_mix_hash L e_public (noise_sym_init L))) peer;
                    case r of
                      Fails \<Rightarrow> Some (Fails, peer1, st2)
                    | Undefined \<Rightarrow> Some (Undefined, peer1, st2)
                    | Returns y \<Rightarrow>
                        case noise_send_static L ev callbacks private_key (take NOISE_DHLEN remote_msg) y of
                          None \<Rightarrow> Some (Fails, peer1, st2)
                        | Some (msg2, y2) \<Rightarrow>
                            do {
                              (ok2, st3) \<leftarrow> noise_write_frame io msg2 st2;
                              if \<not> ok2 then Some (Fails, peer1, st3)
                              else Some (noise_split L ev True y2 st3, peer1, st3)
                            }
                  }
            }
          })"

text \<open>The responder's message: its ephemeral key, then its static key and payload.\<close>

definition noise_responder_send ::
    "ext_lib \<Rightarrow> noise_env \<Rightarrow> 'k noise_callbacks option \<Rightarrow> 'k \<Rightarrow> bytes \<Rightarrow> noise_sym \<Rightarrow> (bytes \<times> noise_sym) option" where
  "noise_responder_send L ev callbacks private_key re_public y =
     do {
       (e_private, e_public) \<leftarrow> ev_ephemeral ev;
       dh_result \<leftarrow> x25519_derive L e_private re_public;
       (c, y1) \<leftarrow> noise_send_static L ev callbacks private_key re_public (noise_mix_key L dh_result (noise_mix_hash L e_public y));
       Some (e_public @ c, y1)
     }"

definition libp2p_noise_handshake_responder_raw ::
    "ext_lib \<Rightarrow> 's v2stream \<Rightarrow> noise_env \<Rightarrow> 'k \<Rightarrow> noise_peer option \<Rightarrow> 'k noise_callbacks option \<Rightarrow> 's \<Rightarrow>
     ('s noise_ctx outcome \<times> noise_peer option \<times> 's) option" where
  "libp2p_noise_handshake_responder_raw L io ev private_key peer callbacks st =
     do {
       (m, st1) \<leftarrow> noise_read_frame io NOISE_DHLEN st;
       case m of
         None \<Rightarrow> Some (Fails, peer, st1)
       | Some re_public \<Rightarrow>
           if length re_public \<noteq> NOISE_DHLEN then Some (Fails, peer, st1)
           else case noise_responder_send L ev callbacks private_key re_public
                       (noise_mix_hash L [] (noise_mix_hash L re_public (noise_sym_init L))) of
                  None \<Rightarrow> Some (Fails, peer, st1)
                | Some (msg1, y) \<Rightarrow>
                    do {
                      (ok, st2) \<leftarrow> noise_write_frame io msg1 st1;
                      if \<not> ok then Some (Fails, peer, st2)
                      else do {
                        (m2, st3) \<leftarrow> noise_read_frame io 4096 st2;
                        case m2 of
                          None \<Rightarrow> Some (Fails, peer, st3)
                        | Some remote_msg2 \<Rightarrow>
                            do {
                              (r, peer1) \<leftarrow> noise_read_static L ev callbacks (fst (the (ev_ephemeral ev))) remote_msg2 y peer;
                              case r of
                                Fails \<Rightarrow> Some (Fails, peer1, st3)
                              | Undefined \<Rightarrow> Some (Undefined, peer1, st3)
                              | Returns y2 \<Rightarrow> Some (noise_split L ev False y2 st3, peer1, st3)
                            }
                      }
                    }
     }"

end
