(* ===== verification/Noise_Callbacks.thy ===== *)
theory Noise_Callbacks
  imports Noise_V2
begin

text \<open>
  The identity callbacks of the daemon: \<open>src/v2/src/conn/noise_callbacks.c\<close>, with the RSA and Ed25519 functions they
  call (\<open>src/crypto/rsa.c\<close>, \<open>src/v2/src/crypto/verify.c\<close>). The private key handle is a pointer to an RSA key;
  a signature is a pointer, of which the RSA verifier reads as many bytes as the modulus has, whatever length the caller
  knows.
\<close>

record rsa_private_key =
  rsa_der :: bytes
  public_key_der :: bytes

definition NOISE_SIG_PREFIX :: bytes where
  "NOISE_SIG_PREFIX = bstr ''noise-libp2p-static-key:''"

definition libp2p_crypto_rsa_sign :: "ext_lib \<Rightarrow> rsa_private_key \<Rightarrow> bytes \<Rightarrow> bytes option" where
  "libp2p_crypto_rsa_sign L k message = rsa_pkcs1_sign L (rsa_der k) (sha256 L message)"

text \<open>The result of parsing the public key is not looked at; without a key the context behind it is a null pointer.\<close>

definition libp2p_crypto_rsa_verify :: "ext_lib \<Rightarrow> bytes \<Rightarrow> bytes \<Rightarrow> bytes \<Rightarrow> bool outcome" where
  "libp2p_crypto_rsa_verify L der message signature =
     (case rsa_parse_public L der of
        None \<Rightarrow> Undefined
      | Some n \<Rightarrow>
          if length signature < n then Undefined
          else Returns (rsa_pkcs1_verify L der (sha256 L message) (take n signature)))"

definition libp2p_crypto_verify_ed25519 :: "ext_lib \<Rightarrow> bytes \<Rightarrow> bytes \<Rightarrow> bytes \<Rightarrow> bool" where
  "libp2p_crypto_verify_ed25519 L pubkey msg sig = (if length pubkey \<noteq> 32 then False else ed25519_verify L pubkey msg sig)"

definition noise_cb_get_identity_key :: "ext_lib \<Rightarrow> bool \<Rightarrow> rsa_private_key option \<Rightarrow> bytes option" where
  "noise_cb_get_identity_key L mem private_key =
     (case private_key of
        None \<Rightarrow> None
      | Some rsa \<Rightarrow>
          if public_key_der rsa = [] then None
          else let pub_key = \<lparr>pk_type = KEYTYPE_RSA, pk_data = public_key_der rsa\<rparr>;
                   protobuf_len = libp2p_crypto_public_key_protobuf_encode_size pub_key
               in if \<not> mem then None
                  else case libp2p_crypto_public_key_protobuf_encode L pub_key protobuf_len of
                         (False, _) \<Rightarrow> None
                       | (True, written) \<Rightarrow> Some written)"

definition noise_cb_sign_raw :: "ext_lib \<Rightarrow> rsa_private_key option \<Rightarrow> bytes \<Rightarrow> bytes option" where
  "noise_cb_sign_raw L private_key data = Option.bind private_key (\<lambda>rsa. libp2p_crypto_rsa_sign L rsa data)"

definition noise_cb_sign :: "ext_lib \<Rightarrow> bool \<Rightarrow> rsa_private_key option \<Rightarrow> bytes \<Rightarrow> bytes option" where
  "noise_cb_sign L mem private_key data = (if \<not> mem then None else noise_cb_sign_raw L private_key (NOISE_SIG_PREFIX @ data))"

text \<open>The identity key is decoded by the loop of \<open>key.c\<close>, which must end for the callback to return.\<close>

definition noise_cb_verify_raw :: "ext_lib \<Rightarrow> bool \<Rightarrow> bytes \<Rightarrow> bytes \<Rightarrow> bytes \<Rightarrow> bool outcome option" where
  "noise_cb_verify_raw L mem identity_key data sig =
     (case libp2p_crypto_public_key_protobuf_decode L mem identity_key of
        None \<Rightarrow> None
      | Some None \<Rightarrow> Some (Returns False)
      | Some (Some pub_key) \<Rightarrow>
          Some (if pk_data pub_key = [] then Returns False
                else if pk_type pub_key = KEYTYPE_RSA then libp2p_crypto_rsa_verify L (pk_data pub_key) data sig
                else if pk_type pub_key = KEYTYPE_ED25519 then Returns (libp2p_crypto_verify_ed25519 L (pk_data pub_key) data sig)
                else Returns False))"

definition noise_cb_verify :: "ext_lib \<Rightarrow> bool \<Rightarrow> bytes \<Rightarrow> bytes \<Rightarrow> bytes \<Rightarrow> bool outcome option" where
  "noise_cb_verify L mem identity_key data sig =
     (if \<not> mem then Some (Returns False) else noise_cb_verify_raw L mem identity_key (NOISE_SIG_PREFIX @ data) sig)"

text \<open>The callbacks of the Noise handshake; \<open>sign_raw\<close> and \<open>verify_raw\<close> are for TLS.\<close>

definition libp2p_noise_identity_callbacks_init :: "ext_lib \<Rightarrow> bool \<Rightarrow> rsa_private_key option noise_callbacks" where
  "libp2p_noise_identity_callbacks_init L mem =
     \<lparr>get_identity_key = Some (noise_cb_get_identity_key L mem), cb_sign = Some (noise_cb_sign L mem), cb_verify = Some (noise_cb_verify L mem)\<rparr>"

section \<open>Keys are read back\<close>

lemma ucast_back: "(ucast (ucast (t :: 32 word) :: 64 word) :: 32 word) = t"
  by (rule bit_word_eqI) (simp add: bit_simps)

lemma public_key_decode_tail:
  assumes "key_fields_ok L (ucast (pk_type k)) (pk_data k)"
  shows "\<exists>b. libp2p_crypto_public_key_protobuf_encode L k (libp2p_crypto_public_key_protobuf_encode_size k) = (True, b) \<and> b \<noteq> [] \<and>
    length b \<le> 22 + length (pk_data k) \<and> (\<forall>z. length z < 2 ^ 31 \<longrightarrow> libp2p_crypto_public_key_protobuf_decode L True (b @ z) = public_key_decode_loop L (b @ z) (length b) k)"
proof -
  obtain h1 v h2 d where E: "h1 \<noteq> []" "h2 \<noteq> []" "length (h1 @ v @ h2) \<le> 11" "length d \<le> length (pk_data k) + 11"
    "\<And>cap. 22 \<le> cap \<Longrightarrow> protobuf_encode_varint L 1 (ucast (pk_type k)) cap = Some (h1 @ v)"
    "\<And>cap. length (h2 @ d) \<le> cap \<Longrightarrow> protobuf_encode_length_delimited L 2 (pk_data k) cap = Some (h2 @ d)"
    and D: "\<And>r n. length h1 \<le> unat n \<Longrightarrow> protobuf_decode_field_and_type L (h1 @ v @ r) n = Some (1, 0, length h1)"
    "\<And>r n. length v \<le> unat n \<Longrightarrow> protobuf_decode_varint L (v @ r) n = Some (ucast (pk_type k), length v)"
    "\<And>r n. length h2 \<le> unat n \<Longrightarrow> protobuf_decode_field_and_type L (h2 @ d @ r) n = Some (2, WIRETYPE_LENGTH_DELIMITED, length h2)"
    "\<And>r n. length d \<le> unat n \<Longrightarrow> protobuf_decode_length_delimited L (d @ r) n = Some (pk_data k, length d)"
    and sz: "length (pk_data k) < 2 ^ 31"
    using assms unfolding key_fields_ok_def by blast
  let ?b = "h1 @ v @ h2 @ d" and ?n = "22 + length (pk_data k)"
  have enc: "libp2p_crypto_public_key_protobuf_encode L k (libp2p_crypto_public_key_protobuf_encode_size k) = (True, ?b)"
    using E(5) [of ?n] E(6) [of "?n - length (h1 @ v)"] E(3,4)
    by (simp add: libp2p_crypto_public_key_protobuf_encode_def libp2p_crypto_public_key_protobuf_encode_size_def)
  let ?k1 = "libp2p_crypto_public_key_new\<lparr>pk_type := pk_type k\<rparr>"
  have "libp2p_crypto_public_key_protobuf_decode L True (?b @ z) = public_key_decode_loop L (?b @ z) (length ?b) k" if z: "length z < 2 ^ 31" for z
  proof -
    let ?N = "length (?b @ z)"
    have N: "?N < 2 ^ 64" using E(3,4) sz z by simp
    note u = unat_claim [OF N] unat_left [OF _ N]
    have "public_key_decode_loop L (?b @ z) (length (h1 @ v)) ?k1 = public_key_decode_loop L (?b @ z) (length ?b) k"
      using E(2) D(3) [of "of_nat ?N" z] D(4) [of "of_nat ?N - of_nat (length (h1 @ v @ h2))" z] u(1) u(2) [of "length (h1 @ v @ h2)"]
      by (cases k, subst public_key_decode_loop.simps) (simp add: Let_def add.assoc libp2p_crypto_public_key_new_def)
    moreover have "public_key_decode_loop L (?b @ z) 0 libp2p_crypto_public_key_new = public_key_decode_loop L (?b @ z) (length (h1 @ v)) ?k1"
      using E(1) D(1) [of "of_nat ?N" "h2 @ d @ z"] D(2) [of "of_nat ?N - of_nat (length h1)" "h2 @ d @ z"] u(1) u(2) [of "length h1"]
      by (subst public_key_decode_loop.simps) (simp add: Let_def ucast_back)
    ultimately show ?thesis by (simp add: libp2p_crypto_public_key_protobuf_decode_def)
  qed
  with enc E(1,3,4) show ?thesis by (intro exI [of _ ?b]) simp
qed

lemma public_key_decode_encode:
  assumes "key_fields_ok L (ucast (pk_type k)) (pk_data k)"
  shows "\<exists>b. libp2p_crypto_public_key_protobuf_encode L k (libp2p_crypto_public_key_protobuf_encode_size k) = (True, b) \<and> b \<noteq> [] \<and>
    length b \<le> 22 + length (pk_data k) \<and> libp2p_crypto_public_key_protobuf_decode L True b = Some (Some k)"
proof -
  have "public_key_decode_loop L b (length b) k = Some (Some k)" for b by (simp add: public_key_decode_loop.simps)
  moreover have "length ([] :: bytes) < 2 ^ 31" by simp
  ultimately show ?thesis using public_key_decode_tail [OF assms] by (metis append_Nil2)
qed

end
