(* ===== verification/Swarm_V2.thy ===== *)
theory Swarm_V2
  imports Identify_V2 Yamux_Stream Noise_Callbacks
begin

text \<open>
  Setting up a connection: \<open>src/v2/src/swarm/swarm.c\<close> with \<open>libp2p_noise_handshake\<close> of \<open>noise.c\<close>. The dialers of TCP and of
  WebSocket are parameters: they give a stream and its state, or fail.
\<close>

definition libp2p_noise_handshake ::
    "ext_lib \<Rightarrow> 's v2stream \<Rightarrow> bool \<Rightarrow> noise_env \<Rightarrow> 'k \<Rightarrow> noise_peer option \<Rightarrow> 'k noise_callbacks option \<Rightarrow> 's \<Rightarrow>
     ('s noise_ctx outcome \<times> noise_peer option \<times> 's) option" where
  "libp2p_noise_handshake L io mem ev private_key peer callbacks st =
     do {
       (ok, st1) \<leftarrow> libp2p_net_multistream_negotiate_protocol io mem (Some (bstr ''/noise'')) st;
       if \<not> ok then Some (Fails, peer, st1) else libp2p_noise_handshake_raw L io ev private_key peer callbacks st1
     }"

record dialer =
  dl_peerstore :: peerstore
  dl_private_key :: "rsa_private_key option"

record swarm =
  sw_peerstore :: peerstore
  sw_private_key :: "rsa_private_key option"
  sw_dialer :: "dialer option"

definition libp2p_v2_swarm_new :: "bool \<Rightarrow> bool \<Rightarrow> peerstore option \<Rightarrow> rsa_private_key option \<Rightarrow> swarm option" where
  "libp2p_v2_swarm_new mem mem2 ps private_key =
     (case ps of
        None \<Rightarrow> None
      | Some p \<Rightarrow>
          if \<not> mem then None
          else Some \<lparr>sw_peerstore = p, sw_private_key = private_key,
                 sw_dialer = (if mem2 then Some \<lparr>dl_peerstore = p, dl_private_key = private_key\<rparr> else None)\<rparr>)"

definition strstr :: "bytes \<Rightarrow> bytes \<Rightarrow> bool" where
  "strstr s t \<longleftrightarrow> (\<exists>i \<in> set [0..<Suc (length s)]. take (length t) (drop i s) = t)"

text \<open>What one call of \<open>libp2p_v2_swarm_connect\<close> meets: allocations, randomness, the dialers.\<close>

record 's swarm_env =
  se_addr :: bool
  se_header :: bool
  se_proposal :: bool
  se_noise :: noise_env
  se_callbacks :: bool
  se_session :: bool
  se_frames :: bool
  se_allocs :: "nat \<Rightarrow> bool"
  se_identify :: identify_mem
  se_tcp_dial :: "bytes \<Rightarrow> 16 word \<Rightarrow> ('s v2stream \<times> 's) option"
  se_ws_dial :: "bytes \<Rightarrow> 16 word \<Rightarrow> ('s v2stream \<times> 's) option"

text \<open>The identify exchange on a new stream; its failures are ignored.\<close>

definition swarm_identify ::
    "ext_lib \<Rightarrow> identify_mem \<Rightarrow> 's v2stream \<Rightarrow> peerstore \<Rightarrow> v2_peer \<Rightarrow> 's yamux_session \<Rightarrow> (v2_peer outcome \<times> 's yamux_session) option" where
  "swarm_identify L m io ps target_peer session =
     do {
       (id_stream, ss1) \<leftarrow> libp2p_yamux_stream_open io session;
       case id_stream of
         None \<Rightarrow> Some (Returns target_peer, ss1)
       | Some cx \<Rightarrow>
           do {
             (ok, st1) \<leftarrow> libp2p_identify_send_response L (yamux_io io) ps (cx, ss1);
             (r, st2) \<leftarrow> (if ok then libp2p_identify_receive L m (yamux_io io) target_peer st1 else Some (Returns (False, target_peer), st1));
             case r of
               Returns (_, peer) \<Rightarrow> Some (Returns peer, snd (v2_close (yamux_io io) st2))
             | _ \<Rightarrow> Some (Undefined, snd st2)
           }
     }"

text \<open>The state of the peer as the Noise handshake leaves it, seen as the struct of \<open>src/v2\<close>: the id is in the same place, and the length of the id,
  which \<open>noise_peer_id_from_identity_key\<close> stores as the second field of the struct of \<open>include/libp2p/peer/peer.h\<close>, lies where the addresses are
  linked. So the list of addresses begins, before any is added, with that number as a pointer, which is 0 only if Noise set no id. The addresses
  that identify adds are put in front of it. Nothing in \<open>swarm.c\<close> follows the links of this local variable.\<close>

definition target_view :: "noise_peer option \<Rightarrow> v2_peer" where
  "target_view np = \<lparr>peer_id = Option.bind np np_id, addr_head = [], addr_end = (case np of None \<Rightarrow> 0 | Some p \<Rightarrow> np_id_size p)\<rparr>"

text \<open>The result, the local variable \<open>target_peer\<close> when the call returns, and the transport.\<close>

definition libp2p_v2_swarm_connect ::
    "ext_lib \<Rightarrow> 's swarm_env \<Rightarrow> swarm \<Rightarrow> bytes \<Rightarrow> (bool outcome \<times> v2_peer \<times> 's option) option" where
  "libp2p_v2_swarm_connect L ev swarm multiaddr_str =
     (case libp2p_multiaddr_new_from_string (se_addr ev) multiaddr_str of
        None \<Rightarrow> Some (Returns False, target_view None, None)
      | Some ma \<Rightarrow>
          let dial = (if strstr multiaddr_str (bstr ''/ws'') then se_ws_dial ev else se_tcp_dial ev)
          in case Option.bind (ma_ip ma) (\<lambda>ip. dial ip (ma_port ma)) of
               None \<Rightarrow> Some (Returns False, target_view None, None)
             | Some (io, transport_stream) \<Rightarrow>
                 do {
                   (ok, st1) \<leftarrow> libp2p_v2_net_multistream_connect io (se_header ev) transport_stream;
                   if \<not> ok then Some (Returns False, target_view None, Some (v2_close io st1))
                   else do {
                     (r, np, st2) \<leftarrow> libp2p_noise_handshake L io (se_proposal ev) (se_noise ev) (sw_private_key swarm)
                         (Some \<lparr>np_id = None, np_id_size = 0\<rparr>) (Some (libp2p_noise_identity_callbacks_init L (se_callbacks ev))) st1;
                     case r of
                       Undefined \<Rightarrow> Some (Undefined, target_view np, Some st2)
                     | Fails \<Rightarrow> Some (Returns False, target_view np, Some (v2_close io st2))
                     | Returns noise_stream \<Rightarrow>
                         (case libp2p_yamux_session_new noise_stream False (se_session ev) (se_allocs ev) of
                            None \<Rightarrow> Some (Returns False, target_view np, Some (raw_stream (noise_stream_close io noise_stream)))
                          | Some session \<Rightarrow>
                              do {
                                (q, ss) \<leftarrow> swarm_identify L (se_identify ev) (noise_io L (se_frames ev) io) (sw_peerstore swarm) (target_view np) session;
                                Some (case q of
                                        Returns peer \<Rightarrow> (Returns True, peer, Some (raw_stream (ys_stream ss)))
                                      | _ \<Rightarrow> (Undefined, target_view np, Some (raw_stream (ys_stream ss))))
                              })
                   }
                 })"

end
