(* ===== verification/Yamux_Total.thy ===== *)
theory Yamux_Total
  imports Yamux_Laws
begin

text \<open>
  Every call of the multiplexer returns, whatever the peer sends: each turn of a loop
  takes a header off the finite input, or ends the loop.
\<close>

context v2_duplex
begin

text \<open>From \<open>ss\<close> to \<open>ss'\<close> at least \<open>k\<close> bytes were taken off the input.\<close>

definition moves :: "nat \<Rightarrow> 's yamux_session \<Rightarrow> 's yamux_session \<Rightarrow> bool" where
  "moves k ss ss' \<longleftrightarrow> length (avail (ys_stream ss')) + k \<le> length (avail (ys_stream ss))"

lemma moves_refl [simp]: "moves 0 ss ss"
  by (simp add: moves_def)

lemma moves_trans: "moves j ss ss' \<Longrightarrow> moves k ss' ss'' \<Longrightarrow> moves (j + k) ss ss''"
  by (simp add: moves_def)

lemma moves_alloc [simp]: "moves k ss (snd (ys_alloc ss')) = moves k ss ss'" "moves k (snd (ys_alloc ss)) ss' = moves k ss ss'"
  by (simp_all add: moves_def ys_alloc_def)

lemma moves_pending [simp]: "moves k ss (pending_append i bs ss') = moves k ss ss'"
  by (simp add: moves_def pending_append_def)

lemma read_full_moves:
  "\<exists>r ss'. yamux_read_full io n ss = Some (r, ss') \<and> moves 0 ss ss' \<and> (r \<noteq> None \<longrightarrow> moves n ss ss')"
proof -
  obtain r st where r: "read_loop io n [] (ys_stream ss) = Some (r, st)" "length (avail st) \<le> length (avail (ys_stream ss))"
    using read_loop_total by blast
  have "length (avail st) + n = length (avail (ys_stream ss))" if "r \<noteq> None"
    using read_loop_ok [of n "[]" "ys_stream ss" _ st] r that by fastforce
  with r show ?thesis by (auto simp: yamux_read_full_def moves_def)
qed

lemma send_header_moves:
  "\<exists>ok ss'. yamux_send_header io ty fl sid len ss = Some (ok, ss') \<and> moves 0 ss ss'"
proof -
  obtain r st where "v2_write io (ys_stream ss) (encode_header \<lparr>hd_version = YAMUX_VERSION, hd_type = ty, hd_flags = fl,
      hd_stream_id = sid, hd_length = len\<rparr>) = Some (r, st)" using write_total by fastforce
  with write_avail [OF this] show ?thesis by (auto simp: yamux_send_header_def moves_def)
qed

lemma read_header_moves:
  "\<exists>h ss'. yamux_read_header io ss = Some (h, ss') \<and> (h \<noteq> None \<longrightarrow> moves 12 ss ss')"
  using read_full_moves [of 12 ss] by (auto simp: yamux_read_header_def)

lemma control_moves:
  "\<exists>ok ss'. yamux_handle_control_frame io hdr ss = Some (ok, ss') \<and> (ok \<longrightarrow> moves 0 ss ss')"
  using send_header_moves [of YAMUX_TYPE_PING YAMUX_FLAG_ACK 0 "hd_length hdr" ss]
  by (auto simp: yamux_handle_control_frame_def yamux_send_ping_response_def)

lemma discard_moves:
  "\<exists>ok ss'. yamux_discard_payload io n ss = Some (ok, ss') \<and> moves 0 ss ss'"
proof (induction n arbitrary: ss rule: less_induct)
  case (less n)
  define c where "c = (if n > 1024 then 1024 else n)"
  obtain r s1 where r: "yamux_read_full io c ss = Some (r, s1)" "moves 0 ss s1" using read_full_moves by blast
  have "n - c < n" if "0 < n" using that by (simp add: c_def)
  then show ?case using less.IH [of "n - c" s1] r moves_trans [of 0 ss s1 0]
    by (cases r) (auto simp: yamux_discard_payload.simps [of io n] Let_def simp flip: c_def)
qed

lemma other_data_moves:
  "\<exists>ok ss'. yamux_other_data io hdr ss = Some (ok, ss') \<and> moves 0 ss ss'"
proof (cases "if unat (hd_length hdr) > 0 then pending_index (hd_stream_id hdr) ss else None")
  case None
  with discard_moves [of "unat (hd_length hdr)" ss] show ?thesis unfolding yamux_other_data_def by simp
next
  case (Some i)
  obtain ok s1 where 1: "yamux_send_header io YAMUX_TYPE_WINDOW_UPDATE 0 (hd_stream_id hdr) (hd_length hdr) ss = Some (ok, s1)" "moves 0 ss s1"
    using send_header_moves by blast
  let ?s2 = "snd (ys_alloc s1)"
  obtain r s3 where 3: "yamux_read_full io (unat (hd_length hdr)) ?s2 = Some (r, s3)" "moves 0 ?s2 s3" using read_full_moves by blast
  obtain ok4 s4 where 4: "yamux_discard_payload io (unat (hd_length hdr)) s3 = Some (ok4, s4)" "moves 0 s3 s4" using discard_moves by blast
  obtain ok5 s5 where 5: "yamux_discard_payload io (unat (hd_length hdr)) ?s2 = Some (ok5, s5)" "moves 0 ?s2 s5" using discard_moves by blast
  have "moves 0 ss s3" "moves 0 ss s4" "moves 0 ss s5"
    using moves_trans [of 0 ss s1 0] moves_trans [of 0 ss s3 0 s4] 1(2) 3(2) 4(2) 5(2) by simp_all
  with 1(1) 3(1) 4(1) 5(1) show ?thesis unfolding yamux_other_data_def Some
    by (cases r; cases "fst (ys_alloc s1)") (auto simp: split_beta)
qed

lemma own_data_moves:
  "\<exists>r cx' ss'. yamux_own_data io n hdr cx ss = Some (Return r, cx', ss')"
proof -
  let ?s1 = "snd (ys_alloc ss)"
  obtain r s2 where 2: "yamux_read_full io (unat (hd_length hdr)) ?s1 = Some (r, s2)" using read_full_moves by blast
  obtain ok s3 where "yamux_send_header io YAMUX_TYPE_WINDOW_UPDATE 0 (cx_stream_id cx)
      (YAMUX_INITIAL_WINDOW_SIZE - credit_used (recv_window cx) (hd_length hdr)) s2 = Some (ok, s3)" using send_header_moves by blast
  with 2 show ?thesis
    by (cases "fst (ys_alloc ss)"; cases r) (simp_all add: yamux_own_data_def Let_def split_beta)
qed

lemma go_on_moves:
  assumes "r = Some (ok, ss') \<and> (ok \<longrightarrow> moves 0 ss ss')"
  shows "\<exists>q cx' ss'. go_on cx r = Some (q, cx', ss') \<and> (q = Continue \<longrightarrow> moves 0 ss ss')"
  using assms by (auto simp: go_on_def)

lemma read_frame_moves:
  "\<exists>q cx' ss'. yamux_read_frame io n hdr cx ss = Some (q, cx', ss') \<and> (q = Continue \<longrightarrow> moves 0 ss ss')"
proof -
  have c: "\<exists>q cx' ss'. go_on cx (yamux_handle_control_frame io hdr ss) = Some (q, cx', ss') \<and> (q = Continue \<longrightarrow> moves 0 ss ss')"
    using control_moves [of hdr ss] go_on_moves by blast
  have d: "\<exists>q cx' ss'. go_on cx (yamux_discard_payload io (unat (hd_length hdr)) ss) = Some (q, cx', ss') \<and> (q = Continue \<longrightarrow> moves 0 ss ss')"
    using discard_moves [of "unat (hd_length hdr)" ss] go_on_moves by blast
  have e: "\<exists>q cx' ss'. go_on cx (yamux_other_data io hdr ss) = Some (q, cx', ss') \<and> (q = Continue \<longrightarrow> moves 0 ss ss')"
    using other_data_moves [of hdr ss] go_on_moves by blast
  from c d e own_data_moves [of n hdr cx ss] show ?thesis by (auto simp: yamux_read_frame_def)
qed

lemma read_step_moves:
  "\<exists>q cx' ss'. yamux_read_step io n cx ss = Some (q, cx', ss') \<and> (q = Continue \<longrightarrow> moves 12 ss ss')"
proof -
  obtain h s1 where h: "yamux_read_header io ss = Some (h, s1)" "h \<noteq> None \<longrightarrow> moves 12 ss s1" using read_header_moves by blast
  show ?thesis
  proof (cases h)
    case (Some hdr)
    then show ?thesis using h read_frame_moves [of n hdr cx s1] moves_trans [of 12 ss s1 0]
      by (auto simp: yamux_read_step_def Let_def)
  qed (use h in \<open>auto simp: yamux_read_step_def Let_def\<close>)
qed

text \<open>A loop each of whose turns takes something off the input ends.\<close>

lemma input_induct:
  assumes "\<And>ss. (\<And>ss'. moves 12 ss ss' \<Longrightarrow> P ss') \<Longrightarrow> P ss"
  shows "P ss"
proof (induction "length (avail (ys_stream ss))" arbitrary: ss rule: less_induct)
  case less
  show ?case by (rule assms, rule less.hyps) (auto simp: moves_def)
qed

lemma stream_read_returns: "\<exists>r cx' ss'. yamux_stream_read io n cx ss = Some (r, cx', ss')"
proof (induction ss arbitrary: cx rule: input_induct)
  case (1 ss)
  obtain q cx1 s1 where "yamux_read_step io n cx ss = Some (q, cx1, s1)" "q = Continue \<Longrightarrow> moves 12 ss s1"
    using read_step_moves by metis
  then show ?case using "1.IH" [of s1 cx1] by (cases q) (auto simp: yamux_stream_read.simps [of io n cx ss])
qed

lemma wait_for_syn_returns: "\<exists>h ss'. yamux_wait_for_syn io ss = Some (h, ss')"
proof (induction ss rule: input_induct)
  case (1 ss)
  obtain h s1 where h: "yamux_read_header io ss = Some (h, s1)" "h \<noteq> None \<longrightarrow> moves 12 ss s1" using read_header_moves by blast
  show ?case
  proof (cases h)
    case (Some hdr)
    obtain ok2 s2 where 2: "yamux_handle_control_frame io hdr s1 = Some (ok2, s2)" "ok2 \<longrightarrow> moves 0 s1 s2" using control_moves by blast
    obtain ok3 s3 where 3: "yamux_discard_payload io (unat (hd_length hdr)) s1 = Some (ok3, s3)" "moves 0 s1 s3" using discard_moves by blast
    have "moves 12 ss s2" if ok2 using moves_trans [of 12 ss s1 0 s2] h 2 Some that by simp
    moreover have "moves 12 ss s3" using moves_trans [of 12 ss s1 0 s3] h 3 Some by simp
    ultimately show ?thesis using "1.IH" h Some 2(1) 3(1) by (auto simp: yamux_wait_for_syn.simps [of io ss])
  qed (use h in \<open>auto simp: yamux_wait_for_syn.simps [of io ss]\<close>)
qed

lemma open_inbound_moves: "\<exists>ss'. yamux_open_inbound io hdr ss = Some ss' \<and> moves 0 ss ss'"
proof -
  obtain ok s1 where 1: "yamux_send_header io YAMUX_TYPE_WINDOW_UPDATE YAMUX_FLAG_ACK (hd_stream_id hdr) 0 ss = Some (ok, s1)" "moves 0 ss s1"
    using send_header_moves by blast
  obtain b s2 where 2: "yamux_pending_add (hd_stream_id hdr) s1 = (b, s2)" by (cases "yamux_pending_add (hd_stream_id hdr) s1")
  then have "ys_stream s2 = ys_stream s1" by (auto simp: yamux_pending_add_def ys_alloc_def Let_def split: if_splits)
  with 1(2) have m: "moves 0 ss s2" by (simp add: moves_def)
  obtain r s3 where 3: "yamux_read_full io (unat (hd_length hdr)) (snd (ys_alloc s2)) = Some (r, s3)" "moves 0 (snd (ys_alloc s2)) s3"
    using read_full_moves by blast
  have "moves 0 ss s3" using moves_trans [of 0 ss s2 0 s3] m 3(2) by simp
  with 1(1) 2 3(1) m show ?thesis by (cases r) (auto simp: yamux_open_inbound_def Let_def split_beta)
qed

lemma open_data_moves: "\<exists>ok ss'. yamux_open_data io i hdr ss = Some (ok, ss') \<and> moves 0 ss ss'"
proof -
  obtain r s1 where 1: "yamux_read_full io (unat (hd_length hdr)) (snd (ys_alloc ss)) = Some (r, s1)" "moves 0 (snd (ys_alloc ss)) s1"
    using read_full_moves by blast
  obtain ok s2 where 2: "yamux_discard_payload io (unat (hd_length hdr)) (snd (ys_alloc ss)) = Some (ok, s2)" "moves 0 (snd (ys_alloc ss)) s2"
    using discard_moves by blast
  from 1 2 show ?thesis by (cases r) (auto simp: yamux_open_data_def Let_def split_beta)
qed

lemma open_frame_moves: "\<exists>ok ack cx' ss'. yamux_open_frame io hdr cx ss = Some (ok, ack, cx', ss') \<and> (ok \<longrightarrow> moves 0 ss ss')"
proof -
  obtain ok1 s1 where 1: "yamux_handle_control_frame io hdr ss = Some (ok1, s1)" "ok1 \<longrightarrow> moves 0 ss s1" using control_moves by blast
  obtain ok2 s2 where 2: "yamux_discard_payload io (unat (hd_length hdr)) ss = Some (ok2, s2)" "moves 0 ss s2" using discard_moves by blast
  obtain s3 where 3: "yamux_open_inbound io hdr ss = Some s3" "moves 0 ss s3" using open_inbound_moves by blast
  show ?thesis
  proof (cases "if hd_type hdr = YAMUX_TYPE_DATA then pending_index (hd_stream_id hdr) ss else None")
    case None
    then show ?thesis using 1 2 3 unfolding yamux_open_frame_def None by auto
  next
    case (Some i)
    then show ?thesis using 1 3 open_data_moves [of i hdr ss] unfolding yamux_open_frame_def Some by auto
  qed
qed

lemma open_loop_returns: "\<exists>c ss'. yamux_open_loop io cx ss = Some (c, ss')"
proof (induction ss arbitrary: cx rule: input_induct)
  case (1 ss)
  obtain h s1 where h: "yamux_read_header io ss = Some (h, s1)" "h \<noteq> None \<longrightarrow> moves 12 ss s1" using read_header_moves by blast
  show ?case
  proof (cases h)
    case (Some hdr)
    obtain ok ack cx2 s2 where 2: "yamux_open_frame io hdr cx s1 = Some (ok, ack, cx2, s2)" "ok \<longrightarrow> moves 0 s1 s2"
      using open_frame_moves by metis
    have "moves 12 ss s2" if ok using moves_trans [of 12 ss s1 0 s2] h 2 Some that by simp
    then show ?thesis using "1.IH" [of s2 cx2] h Some 2(1) by (auto simp: yamux_open_loop.simps [of io cx ss])
  qed (use h in \<open>auto simp: yamux_open_loop.simps [of io cx ss]\<close>)
qed

lemma ping_loop_returns: "\<exists>b ss'. yamux_ping_loop io v ss = Some (b, ss')"
proof (induction ss rule: input_induct)
  case (1 ss)
  obtain h s1 where h: "yamux_read_header io ss = Some (h, s1)" "h \<noteq> None \<longrightarrow> moves 12 ss s1" using read_header_moves by blast
  show ?case
  proof (cases h)
    case (Some hdr)
    obtain ok2 s2 where 2: "yamux_handle_control_frame io hdr s1 = Some (ok2, s2)" "ok2 \<longrightarrow> moves 0 s1 s2" using control_moves by blast
    obtain ok3 s3 where 3: "yamux_discard_payload io (unat (hd_length hdr)) s2 = Some (ok3, s3)" "moves 0 s2 s3" using discard_moves by blast
    have "moves 12 ss s3" if ok2 using moves_trans [of 12 ss s1 0 s2] moves_trans [of 12 ss s2 0 s3] h 2 3 Some that by simp
    then show ?thesis using "1.IH" [of s3] h Some 2(1) 3(1) by (auto simp: yamux_ping_loop.simps [of io v ss])
  qed (use h in \<open>auto simp: yamux_ping_loop.simps [of io v ss]\<close>)
qed

lemma stream_open_returns: "\<exists>c ss'. libp2p_yamux_stream_open io ss = Some (c, ss')"
proof -
  let ?s = "snd (ys_alloc ((snd (ys_alloc ss))\<lparr>next_stream_id := next_stream_id (snd (ys_alloc ss)) + 2\<rparr>))"
  let ?sid = "next_stream_id (snd (ys_alloc ss))"
  obtain ok s1 where "yamux_send_header io YAMUX_TYPE_WINDOW_UPDATE YAMUX_FLAG_SYN ?sid 0 ?s = Some (ok, s1)"
    using send_header_moves by blast
  then show ?thesis using open_loop_returns [of "new_ctx ?sid False" s1]
    by (auto simp: libp2p_yamux_stream_open_def new_ctx_def Let_def split_beta)
qed

lemma accept_ctx_returns: "\<exists>c ss'. yamux_accept_ctx io ss = Some (c, ss')"
proof (cases "pending_inbound ss")
  case Nil
  obtain h s1 where h: "yamux_wait_for_syn io ss = Some (h, s1)" using wait_for_syn_returns by blast
  show ?thesis
  proof (cases h)
    case (Some hdr)
    obtain r s2 where "yamux_read_full io (unat (hd_length hdr)) (snd (ys_alloc s1)) = Some (r, s2)" using read_full_moves by blast
    then show ?thesis using Nil h Some by (auto simp: yamux_accept_ctx_def Let_def split_beta)
  qed (use Nil h in \<open>simp add: yamux_accept_ctx_def\<close>)
qed (simp add: yamux_accept_ctx_def Let_def)

lemma stream_accept_returns: "\<exists>c ss'. libp2p_yamux_stream_accept io ss = Some (c, ss')"
proof -
  obtain c s1 where c: "yamux_accept_ctx io (snd (ys_alloc ss)) = Some (c, s1)" using accept_ctx_returns by blast
  show ?thesis
  proof (cases c)
    case (Some cx)
    obtain ok s2 where s2: "yamux_send_header io YAMUX_TYPE_WINDOW_UPDATE YAMUX_FLAG_ACK (cx_stream_id cx) 0 (snd (ys_alloc s1)) = Some (ok, s2)"
      using send_header_moves by blast
    have "\<exists>s3. yamux_stream_close io cx s2 = Some s3"
      using send_header_moves [of YAMUX_TYPE_DATA YAMUX_FLAG_FIN "cx_stream_id cx" 0 s2] by (auto simp: yamux_stream_close_def)
    then show ?thesis using c Some s2 by (auto simp: libp2p_yamux_stream_accept_def Let_def split_beta)
  qed (use c in \<open>auto simp: libp2p_yamux_stream_accept_def Let_def split_beta\<close>)
qed

lemma session_ping_returns: "\<exists>b ss'. libp2p_yamux_session_ping io ss = Some (b, ss')"
proof -
  obtain ok s1 where "yamux_send_header io YAMUX_TYPE_PING 0 0 (ping_seq ss) (ss\<lparr>ping_seq := ping_seq ss + 1\<rparr>) = Some (ok, s1)"
    using send_header_moves by blast
  then show ?thesis using ping_loop_returns [of "ping_seq ss" s1] by (auto simp: libp2p_yamux_session_ping_def Let_def)
qed

end

end
