(* ===== verification/Yamux_Session.thy ===== *)
theory Yamux_Session
  imports Yamux_Laws Machine
begin

text \<open>
  A yamux session as a state machine: which calls change it, over any stream below, and what
  they keep: the parity of the stream ids it gives out, and that no stream is queued
  twice.
\<close>

definition ids_ok :: "'s yamux_session \<Rightarrow> bool" where
  "ids_ok ss \<longleftrightarrow> (even (unat (next_stream_id ss)) \<longleftrightarrow> is_server ss) \<and> distinct (map pi_stream_id (pending_inbound ss))"

text \<open>The calls that give out no id.\<close>

definition keeps_ids :: "'s yamux_session \<Rightarrow> 's yamux_session \<Rightarrow> bool" where
  "keeps_ids ss ss' \<longleftrightarrow> next_stream_id ss' = next_stream_id ss \<and> is_server ss' = is_server ss \<and>
     (distinct (map pi_stream_id (pending_inbound ss)) \<longrightarrow> distinct (map pi_stream_id (pending_inbound ss')))"

lemma keeps_ids_refl [simp, intro]: "keeps_ids ss ss"
  by (simp add: keeps_ids_def)

lemma keeps_ids_trans [trans]: "keeps_ids a b \<Longrightarrow> keeps_ids b c \<Longrightarrow> keeps_ids a c"
  by (simp add: keeps_ids_def)

lemma keeps_ids_fields [simp]:
  "keeps_ids ss (ss'\<lparr>ys_stream := st\<rparr>) = keeps_ids ss ss'" "keeps_ids ss (snd (ys_alloc ss')) = keeps_ids ss ss'"
  "keeps_ids ss (ss'\<lparr>ys_closed := c\<rparr>) = keeps_ids ss ss'" "keeps_ids ss (ss'\<lparr>ys_attached := c\<rparr>) = keeps_ids ss ss'"
  "keeps_ids ss (ss'\<lparr>ping_seq := v\<rparr>) = keeps_ids ss ss'"
  by (simp_all add: keeps_ids_def ys_alloc_def)

lemma keeps_ids_left [simp]:
  "keeps_ids (snd (ys_alloc ss)) ss' = keeps_ids ss ss'" "keeps_ids (ss\<lparr>ping_seq := v\<rparr>) ss' = keeps_ids ss ss'"
  by (simp_all add: keeps_ids_def ys_alloc_def)

lemma keeps_ids_pending [simp]: "keeps_ids ss (pending_append i bs ss') = keeps_ids ss ss'"
proof -
  have "map pi_stream_id (ps[i := (ps ! i)\<lparr>pi_data := d\<rparr>]) = map pi_stream_id ps" for d and ps :: "yamux_pending list"
    by (cases "i < length ps") (simp_all add: map_update list_update_same_conv list_update_beyond)
  then show ?thesis by (simp add: keeps_ids_def pending_append_def)
qed

lemma fst_ys_alloc: "fst (ys_alloc ss) = ys_mem ss 0"
  by (simp add: ys_alloc_def)

named_theorems keeps \<open>calls that keep the ids\<close>

lemma read_full_keeps [keeps]: "yamux_read_full io n ss = Some (r, ss') \<Longrightarrow> keeps_ids ss ss'"
  by (auto simp: yamux_read_full_def bind_eq_Some_conv)

lemma send_header_keeps [keeps]: "yamux_send_header io ty fl sid len ss = Some (ok, ss') \<Longrightarrow> keeps_ids ss ss'"
  by (auto simp: yamux_send_header_def bind_eq_Some_conv)

lemma read_header_keeps [keeps]: "yamux_read_header io ss = Some (h, ss') \<Longrightarrow> keeps_ids ss ss'"
  by (auto simp: yamux_read_header_def bind_eq_Some_conv dest: keeps)

lemma control_keeps [keeps]: "yamux_handle_control_frame io hdr ss = Some (ok, ss') \<Longrightarrow> keeps_ids ss ss'"
  by (auto simp: yamux_handle_control_frame_def yamux_send_ping_response_def dest: keeps split: if_splits)

lemma discard_keeps [keeps]: "yamux_discard_payload io n ss = Some (ok, ss') \<Longrightarrow> keeps_ids ss ss'"
proof (induction n arbitrary: ss rule: less_induct)
  case (less n)
  show ?case
  proof (cases "n = 0")
    case False
    define c where "c = (if n > 1024 then 1024 else n)"
    have "n - c < n" using False by (simp add: c_def)
    then show ?thesis using less False keeps_ids_trans
      by (fastforce simp: yamux_discard_payload.simps [of io n] Let_def simp flip: c_def dest: keeps split: option.splits)
  qed (use less.prems in \<open>simp add: yamux_discard_payload.simps\<close>)
qed

lemma other_data_keeps [keeps]:
  assumes "yamux_other_data io hdr ss = Some (ok, ss')"
  shows "keeps_ids ss ss'"
proof (cases "if unat (hd_length hdr) > 0 then pending_index (hd_stream_id hdr) ss else None")
  case None
  then show ?thesis using assms unfolding yamux_other_data_def None by (auto dest: keeps)
next
  case (Some i)
  from assms obtain ok1 s1 where s1: "yamux_send_header io YAMUX_TYPE_WINDOW_UPDATE 0 (hd_stream_id hdr) (hd_length hdr) ss = Some (ok1, s1)"
    unfolding yamux_other_data_def Some by (auto simp: bind_eq_Some_conv)
  have "keeps_ids (snd (ys_alloc s1)) ss'"
    using assms s1 keeps_ids_trans unfolding yamux_other_data_def Some
    by (fastforce simp: split_beta bind_eq_Some_conv simp del: keeps_ids_left(1) dest: keeps split: if_splits option.splits)
  then show ?thesis using keeps_ids_trans [OF send_header_keeps [OF s1]] by simp
qed

lemma own_data_keeps [keeps]:
  assumes "yamux_own_data io n hdr cx ss = Some (q, cx', ss')"
  shows "keeps_ids ss ss'"
proof -
  have "keeps_ids (snd (ys_alloc ss)) ss'"
    using assms keeps_ids_trans
    by (fastforce simp: yamux_own_data_def Let_def split_beta bind_eq_Some_conv simp del: keeps_ids_left(1) dest: keeps split: if_splits option.splits)
  then show ?thesis by simp
qed

lemma read_frame_keeps [keeps]: "yamux_read_frame io n hdr cx ss = Some (q, cx', ss') \<Longrightarrow> keeps_ids ss ss'"
  by (auto simp: yamux_read_frame_def go_on_def bind_eq_Some_conv dest: keeps split: if_splits)

lemma read_step_keeps [keeps]: "yamux_read_step io n cx ss = Some (q, cx', ss') \<Longrightarrow> keeps_ids ss ss'"
  by (auto simp: yamux_read_step_def Let_def bind_eq_Some_conv dest!: keeps split: if_splits option.splits intro: keeps_ids_trans)

lemma stream_read_keeps:
  assumes "yamux_stream_read io n cx ss = Some (r, cx', ss')"
  shows "keeps_ids ss ss'"
proof -
  let ?P = "\<lambda>io n cx ss y. keeps_ids ss (snd (snd y))"
  have "?P io n cx ss (r, cx', ss')"
  proof (rule yamux_stream_read.raw_induct [OF _ assms, of ?P])
    fix f io n cx ss y
    assume IH: "\<And>io n cx ss y. f io n cx ss = Some y \<Longrightarrow> keeps_ids ss (snd (snd y))"
      and eq: "(case yamux_read_step io n cx ss of None \<Rightarrow> None | Some (Return r, cx1, ss1) \<Rightarrow> Some (r, cx1, ss1)
        | Some (Continue, cx1, ss1) \<Rightarrow> f io n cx1 ss1) = Some y"
    obtain q cx1 s1 where s1: "yamux_read_step io n cx ss = Some (q, cx1, s1)" using eq by (auto split: option.splits)
    from read_step_keeps [OF this] show "keeps_ids ss (snd (snd y))"
      using eq s1 IH [of io n cx1 s1 y] by (cases q) (auto intro: keeps_ids_trans)
  qed
  then show ?thesis by simp
qed

lemma stream_write_keeps: "yamux_stream_write io b cx ss = Some (r, cx', ss') \<Longrightarrow> keeps_ids ss ss'"
  by (auto simp: yamux_stream_write_def Let_def bind_eq_Some_conv dest: keeps split: if_splits)

lemma stream_close_keeps: "yamux_stream_close io cx ss = Some ss' \<Longrightarrow> keeps_ids ss ss'"
  by (auto simp: yamux_stream_close_def dest: keeps split: if_splits)

lemma wait_for_syn_keeps [keeps]:
  assumes "yamux_wait_for_syn io ss = Some (h, ss')"
  shows "keeps_ids ss ss'"
proof -
  let ?P = "\<lambda>io ss y. keeps_ids ss (snd y)"
  have "?P io ss (h, ss')"
  proof (rule yamux_wait_for_syn.raw_induct [OF _ assms, of ?P])
    fix f io ss y
    assume IH: "\<And>io ss y. f io ss = Some y \<Longrightarrow> keeps_ids ss (snd y)"
      and eq: "(case yamux_read_header io ss of None \<Rightarrow> None | Some (None, ss1) \<Rightarrow> Some (None, ss1)
        | Some (Some hdr, ss1) \<Rightarrow>
          if hd_type hdr = YAMUX_TYPE_PING \<or> hd_type hdr = YAMUX_TYPE_GO_AWAY then
            case yamux_handle_control_frame io hdr ss1 of None \<Rightarrow> None
            | Some (ok, ss2) \<Rightarrow> if ok then f io ss2 else Some (None, ss2)
          else if (hd_type hdr = YAMUX_TYPE_WINDOW_UPDATE \<or> hd_type hdr = YAMUX_TYPE_DATA) \<and>
                  has_flag hdr YAMUX_FLAG_SYN then Some (Some hdr, ss1)
          else case yamux_discard_payload io (unat (hd_length hdr)) ss1 of None \<Rightarrow> None
               | Some (ok, ss2) \<Rightarrow> if ok then f io ss2 else Some (None, ss2)) = Some y"
    obtain hh s1 where s1: "yamux_read_header io ss = Some (hh, s1)" using eq by (auto split: option.splits)
    have "keeps_ids s1 (snd y)"
      using eq s1 by (auto dest!: keeps IH split: option.splits if_splits intro: keeps_ids_trans)
    with read_header_keeps [OF s1] show "keeps_ids ss (snd y)" by (rule keeps_ids_trans)
  qed
  then show ?thesis by simp
qed

lemma pending_add_keeps:
  assumes "yamux_pending_add sid ss = (ok, ss')" and "\<not> yamux_pending_exists sid ss"
  shows "keeps_ids ss ss'"
  using assms by (auto simp: yamux_pending_add_def ys_alloc_def keeps_ids_def yamux_pending_exists_def pending_index_None Let_def split: if_splits)

lemma open_inbound_keeps [keeps]:
  assumes "yamux_open_inbound io hdr ss = Some ss'"
  shows "keeps_ids ss ss'"
proof (cases "yamux_pending_exists (hd_stream_id hdr) ss")
  case False
  then obtain ok s1 where s1: "yamux_send_header io YAMUX_TYPE_WINDOW_UPDATE YAMUX_FLAG_ACK (hd_stream_id hdr) 0 ss = Some (ok, s1)"
    using assms by (auto simp: yamux_open_inbound_def bind_eq_Some_conv)
  then have "pending_inbound s1 = pending_inbound ss" by (auto simp: yamux_send_header_def bind_eq_Some_conv)
  then have "\<not> yamux_pending_exists (hd_stream_id hdr) s1" using False by (simp add: yamux_pending_exists_def pending_index_def)
  moreover obtain b s2 where s2: "yamux_pending_add (hd_stream_id hdr) s1 = (b, s2)" by (cases "yamux_pending_add (hd_stream_id hdr) s1")
  ultimately have "keeps_ids s1 s2" by (intro pending_add_keeps)
  moreover have "keeps_ids (snd (ys_alloc s2)) ss' \<or> ss' = s2"
    using assms False s1 s2 by (auto simp: yamux_open_inbound_def Let_def split_beta bind_eq_Some_conv simp del: keeps_ids_left(1)
        dest!: keeps split: if_splits option.splits)
  ultimately show ?thesis using send_header_keeps [OF s1] by (auto intro: keeps_ids_trans)
qed (use assms in \<open>auto simp: yamux_open_inbound_def\<close>)

lemma open_data_keeps [keeps]:
  assumes "yamux_open_data io i hdr ss = Some (ok, ss')"
  shows "keeps_ids ss ss'"
proof -
  have "keeps_ids (snd (ys_alloc ss)) ss' \<or> ss' = ss"
    using assms by (auto simp: yamux_open_data_def Let_def split_beta bind_eq_Some_conv simp del: keeps_ids_left(1)
        dest!: keeps split: if_splits option.splits)
  then show ?thesis by auto
qed

lemma open_frame_keeps [keeps]: "yamux_open_frame io hdr cx ss = Some (ok, ack, cx', ss') \<Longrightarrow> keeps_ids ss ss' \<and> cx_stream_id cx' = cx_stream_id cx"
  by (auto simp: yamux_open_frame_def bind_eq_Some_conv dest: keeps split: if_splits option.splits)

lemma open_loop_keeps:
  assumes "yamux_open_loop io cx ss = Some (c, ss')"
  shows "keeps_ids ss ss' \<and> (\<forall>cx'. c = Some cx' \<longrightarrow> cx_stream_id cx' = cx_stream_id cx)"
proof -
  let ?P = "\<lambda>io cx ss y. keeps_ids ss (snd y) \<and> (\<forall>cx'. fst y = Some cx' \<longrightarrow> cx_stream_id cx' = cx_stream_id cx)"
  have "?P io cx ss (c, ss')"
  proof (rule yamux_open_loop.raw_induct [OF _ assms, of ?P])
    fix f io cx ss y
    assume IH: "\<And>io cx ss y. f io cx ss = Some y \<Longrightarrow> ?P io cx ss y"
      and eq: "(case yamux_read_header io ss of None \<Rightarrow> None | Some (None, ss1) \<Rightarrow> Some (None, ss1)
        | Some (Some hdr, ss1) \<Rightarrow> (case yamux_open_frame io hdr cx ss1 of None \<Rightarrow> None
           | Some (ok, ack_seen, cx2, ss2) \<Rightarrow> if \<not> ok then Some (None, ss2)
               else if ack_seen then Some (Some (cx2\<lparr>syn_ack_received := True\<rparr>), ss2) else f io cx2 ss2)) = Some y"
    obtain hh s1 where s1: "yamux_read_header io ss = Some (hh, s1)" using eq by (auto split: option.splits)
    have "keeps_ids s1 (snd y) \<and> (\<forall>cx'. fst y = Some cx' \<longrightarrow> cx_stream_id cx' = cx_stream_id cx)"
    proof (cases hh)
      case (Some hdr)
      then obtain ok ack cx2 s2 where s2: "yamux_open_frame io hdr cx s1 = Some (ok, ack, cx2, s2)"
        using eq s1 by (auto split: option.splits)
      have y: "(if \<not> ok then Some (None, s2) else if ack then Some (Some (cx2\<lparr>syn_ack_received := True\<rparr>), s2) else f io cx2 s2) = Some y"
        using eq s1 Some s2 by simp
      show ?thesis
      proof (cases "ok \<and> \<not> ack")
        case True
        then have "f io cx2 s2 = Some y" using y by simp
        from IH [OF this] have z: "keeps_ids s2 (snd y)" "\<forall>cx'. fst y = Some cx' \<longrightarrow> cx_stream_id cx' = cx_stream_id cx2"
          by blast+
        with open_frame_keeps [OF s2] have "keeps_ids s1 (snd y)" by (blast intro: keeps_ids_trans)
        then show ?thesis using z(2) open_frame_keeps [OF s2] by metis
      next
        case False
        then have "y = (None, s2) \<or> y = (Some (cx2\<lparr>syn_ack_received := True\<rparr>), s2)" using y by (cases ok) simp_all
        then show ?thesis using open_frame_keeps [OF s2] by (elim disjE) simp_all
      qed
    qed (use eq s1 in auto)
    then show "?P io cx ss y" using keeps_ids_trans [OF read_header_keeps [OF s1], of "snd y"] by blast
  qed
  then show ?thesis unfolding fst_conv snd_conv .
qed

lemma accept_ctx_keeps [keeps]:
  assumes "yamux_accept_ctx io ss = Some (c, ss')"
  shows "keeps_ids ss ss'"
proof (cases "pending_inbound ss")
  case Nil
  then obtain h s1 where s1: "yamux_wait_for_syn io ss = Some (h, s1)" using assms by (auto simp: yamux_accept_ctx_def bind_eq_Some_conv)
  have "keeps_ids (snd (ys_alloc s1)) ss' \<or> ss' = s1"
    using assms Nil s1 by (auto simp: yamux_accept_ctx_def Let_def split_beta bind_eq_Some_conv simp del: keeps_ids_left(1)
        dest!: keeps split: if_splits option.splits)
  then show ?thesis using wait_for_syn_keeps [OF s1] by (auto intro: keeps_ids_trans)
qed (use assms in \<open>auto simp: yamux_accept_ctx_def Let_def keeps_ids_def\<close>)

lemma stream_accept_keeps:
  assumes "libp2p_yamux_stream_accept io ss = Some (c, ss')"
  shows "keeps_ids ss ss'"
proof (cases "ys_closed ss \<or> \<not> ys_mem ss 0")
  case False
  then obtain c1 s1 where s1: "yamux_accept_ctx io (snd (ys_alloc ss)) = Some (c1, s1)"
    using assms by (auto simp: libp2p_yamux_stream_accept_def ys_alloc_def bind_eq_Some_conv)
  have "keeps_ids s1 ss'"
  proof (cases c1)
    case None
    then show ?thesis using assms False s1 by (auto simp: libp2p_yamux_stream_accept_def Let_def split_beta ys_alloc_def)
  next
    case (Some cx)
    show ?thesis
    proof (cases "ys_mem s1 0")
      case True
      obtain ok s4 where s4: "yamux_send_header io YAMUX_TYPE_WINDOW_UPDATE YAMUX_FLAG_ACK (cx_stream_id cx) 0 (snd (ys_alloc s1)) = Some (ok, s4)"
        using assms False s1 Some True
        by (auto simp: libp2p_yamux_stream_accept_def Let_def split_beta bind_eq_Some_conv fst_ys_alloc)
      have "ss' = s4 \<or> yamux_stream_close io cx s4 = Some ss'"
        using assms False s1 Some True s4
        by (auto simp: libp2p_yamux_stream_accept_def Let_def split_beta bind_eq_Some_conv fst_ys_alloc split: if_splits)
      then show ?thesis using send_header_keeps [OF s4] by (auto dest: stream_close_keeps intro: keeps_ids_trans)
    next
      case mem: False
      then have "ss' = snd (ys_alloc s1)" using assms False s1 Some
        by (auto simp: libp2p_yamux_stream_accept_def Let_def split_beta fst_ys_alloc)
      then show ?thesis by simp
    qed
  qed
  with accept_ctx_keeps [OF s1] show ?thesis by (auto intro: keeps_ids_trans)
qed (use assms in \<open>auto simp: libp2p_yamux_stream_accept_def ys_alloc_def keeps_ids_def split: if_splits\<close>)

lemma stream_open_ids:
  assumes "libp2p_yamux_stream_open io ss = Some (c, ss')"
  shows "(next_stream_id ss' = next_stream_id ss \<and> c = None \<or> next_stream_id ss' = next_stream_id ss + 2) \<and>
    is_server ss' = is_server ss \<and>
    (distinct (map pi_stream_id (pending_inbound ss)) \<longrightarrow> distinct (map pi_stream_id (pending_inbound ss'))) \<and>
    (\<forall>cx. c = Some cx \<longrightarrow> cx_stream_id cx = next_stream_id ss)"
proof (cases "ys_closed ss \<or> \<not> ys_mem ss 0")
  case True
  then show ?thesis using assms
    by (auto simp: libp2p_yamux_stream_open_def ys_alloc_def Let_def split: if_splits)
next
  case False
  let ?s2 = "(snd (ys_alloc ss))\<lparr>next_stream_id := next_stream_id ss + 2\<rparr>" and ?cx = "new_ctx (next_stream_id ss) False"
  have s2: "next_stream_id ?s2 = next_stream_id ss + 2" "is_server ?s2 = is_server ss" "pending_inbound ?s2 = pending_inbound ss"
    by (simp_all add: ys_alloc_def)
  have "keeps_ids ?s2 ss' \<and> (\<forall>cx. c = Some cx \<longrightarrow> cx_stream_id cx = next_stream_id ss)"
  proof (cases "ys_mem ?s2 0")
    case True
    then obtain ok s4 where s4: "yamux_send_header io YAMUX_TYPE_WINDOW_UPDATE YAMUX_FLAG_SYN (cx_stream_id ?cx) 0 (snd (ys_alloc ?s2)) = Some (ok, s4)"
      and r: "\<not> ok \<and> c = None \<and> ss' = s4 \<or> ok \<and> yamux_open_loop io ?cx s4 = Some (c, ss')"
      using assms False
      by (auto simp: libp2p_yamux_stream_open_def ys_alloc_def Let_def bind_eq_Some_conv split: if_splits)
    have "keeps_ids ?s2 s4" using send_header_keeps [OF s4] by simp
    moreover have "cx_stream_id ?cx = next_stream_id ss" by (simp add: new_ctx_def)
    ultimately show ?thesis using r open_loop_keeps [of io ?cx s4 c ss'] keeps_ids_trans [of ?s2 s4 ss'] by auto
  next
    case mem: False
    then have "ss' = snd (ys_alloc ?s2)" "c = None" using assms False
      by (simp_all add: libp2p_yamux_stream_open_def ys_alloc_def Let_def)
    then show ?thesis by simp
  qed
  then show ?thesis using s2 by (simp add: keeps_ids_def)
qed

lemma session_ping_keeps:
  assumes "libp2p_yamux_session_ping io ss = Some (b, ss')"
  shows "keeps_ids ss ss'"
proof (cases "ys_closed ss")
  case False
  obtain ok s1 where s1: "yamux_send_header io YAMUX_TYPE_PING 0 0 (ping_seq ss) (ss\<lparr>ping_seq := ping_seq ss + 1\<rparr>) = Some (ok, s1)"
    and r: "ss' = s1 \<or> yamux_ping_loop io (ping_seq ss) s1 = Some (b, ss')"
    using assms False by (auto simp: libp2p_yamux_session_ping_def Let_def bind_eq_Some_conv split: if_splits)
  have "keeps_ids s1 ss'" if l: "yamux_ping_loop io (ping_seq ss) s1 = Some (b, ss')"
  proof -
    let ?P = "\<lambda>io v ss y. keeps_ids ss (snd y)"
    have "?P io (ping_seq ss) s1 (b, ss')"
    proof (rule yamux_ping_loop.raw_induct [OF _ l, of ?P])
      fix f io v ss y
      assume IH: "\<And>io v ss y. f io v ss = Some y \<Longrightarrow> keeps_ids ss (snd y)"
        and eq: "(case yamux_read_header io ss of None \<Rightarrow> None | Some (None, ss1) \<Rightarrow> Some (False, ss1)
          | Some (Some hdr, ss1) \<Rightarrow>
            if hd_type hdr = YAMUX_TYPE_PING \<and> has_flag hdr YAMUX_FLAG_ACK \<and> hd_length hdr = v then Some (True, ss1)
            else (case yamux_handle_control_frame io hdr ss1 of None \<Rightarrow> None
                  | Some (ok, ss2) \<Rightarrow> if \<not> ok then Some (False, ss2)
                      else (case yamux_discard_payload io (unat (hd_length hdr)) ss2 of None \<Rightarrow> None
                            | Some (ok', ss3) \<Rightarrow> if \<not> ok' then Some (False, ss3) else f io v ss3))) = Some y"
      obtain hh s1 where s1: "yamux_read_header io ss = Some (hh, s1)" using eq by (auto split: option.splits)
      have "keeps_ids s1 (snd y)"
      proof (cases hh)
        case (Some hdr)
        show ?thesis
        proof (cases "y = (True, s1)")
          case False
          then obtain ok s2 where s2: "yamux_handle_control_frame io hdr s1 = Some (ok, s2)"
            using eq s1 Some by (auto split: option.splits if_splits)
          have "keeps_ids s2 (snd y)" using eq s1 s2 Some False
            by (auto dest!: discard_keeps IH split: option.splits if_splits intro: keeps_ids_trans)
          with control_keeps [OF s2] show ?thesis by (rule keeps_ids_trans)
        qed simp
      qed (use eq s1 in auto)
      with read_header_keeps [OF s1] show "keeps_ids ss (snd y)" by (rule keeps_ids_trans)
    qed
    then show ?thesis by simp
  qed
  then show ?thesis using r send_header_keeps [OF s1] keeps_ids_trans [of ss s1 ss'] by auto
qed (use assms in \<open>auto simp: libp2p_yamux_session_ping_def\<close>)

lemma session_goaway_keeps: "libp2p_yamux_session_goaway io code ss = Some ss' \<Longrightarrow> keeps_ids ss ss'"
  by (auto simp: libp2p_yamux_session_goaway_def bind_eq_Some_conv dest!: send_header_keeps split: if_splits)

section \<open>The session as a machine\<close>

text \<open>Any call on the session, on any of its streams, that returns.\<close>

inductive yamux_step :: "'s v2stream \<Rightarrow> 's yamux_session \<Rightarrow> 's yamux_session \<Rightarrow> bool" for io where
  Open: "libp2p_yamux_stream_open io ss = Some (c, ss') \<Longrightarrow> yamux_step io ss ss'"
| Accept: "libp2p_yamux_stream_accept io ss = Some (c, ss') \<Longrightarrow> yamux_step io ss ss'"
| Read: "yamux_stream_read io n cx ss = Some (r, cx', ss') \<Longrightarrow> yamux_step io ss ss'"
| Write: "yamux_stream_write io b cx ss = Some (k, cx', ss') \<Longrightarrow> yamux_step io ss ss'"
| Close: "yamux_stream_close io cx ss = Some ss' \<Longrightarrow> yamux_step io ss ss'"
| Ping: "libp2p_yamux_session_ping io ss = Some (ok, ss') \<Longrightarrow> yamux_step io ss ss'"
| Goaway: "libp2p_yamux_session_goaway io code ss = Some ss' \<Longrightarrow> yamux_step io ss ss'"

inductive_cases yamux_stepE: "yamux_step io ss ss'"

definition yamux_fresh :: "bool \<Rightarrow> 's yamux_session \<Rightarrow> bool" where
  "yamux_fresh server ss \<longleftrightarrow> (\<exists>st m. libp2p_yamux_session_new st server True m = Some ss)"

lemma keeps_ids_ok: "keeps_ids ss ss' \<Longrightarrow> ids_ok ss \<Longrightarrow> ids_ok ss' \<and> is_server ss' = is_server ss"
  by (simp add: keeps_ids_def ids_ok_def)

lemma even_unat_plus_2: "even (unat (w + 2 :: 32 word)) = even (unat w)"
proof -
  have "unat (w + 2) = (unat w + 2) mod 2 ^ 32" by (simp add: unat_word_ariths)
  then show ?thesis by (simp add: dvd_mod_iff)
qed

interpretation yamux_machine: invariant_machine "yamux_fresh server" "yamux_step io" "\<lambda>ss. ids_ok ss \<and> is_server ss = server"
proof unfold_locales
  fix ss :: "'a yamux_session"
  assume "yamux_fresh server ss"
  then show "ids_ok ss \<and> is_server ss = server"
    by (cases server) (auto simp: yamux_fresh_def libp2p_yamux_session_new_def ids_ok_def)
next
  fix ss ss' :: "'a yamux_session"
  assume inv: "ids_ok ss \<and> is_server ss = server" and "yamux_step io ss ss'"
  from this(2) show "ids_ok ss' \<and> is_server ss' = server"
  proof cases
    case (Open c)
    with stream_open_ids [OF this] inv show ?thesis by (auto simp: ids_ok_def even_unat_plus_2)
  qed (use inv in \<open>auto dest!: keeps_ids_ok stream_accept_keeps stream_read_keeps stream_write_keeps
      stream_close_keeps session_ping_keeps session_goaway_keeps\<close>)+
qed

section \<open>Opening and accepting\<close>

abbreviation update_header :: "16 word \<Rightarrow> 32 word \<Rightarrow> 32 word \<Rightarrow> yamux_header" where
  "update_header fl sid n \<equiv>
     \<lparr>hd_version = YAMUX_VERSION, hd_type = YAMUX_TYPE_WINDOW_UPDATE, hd_flags = fl, hd_stream_id = sid, hd_length = n\<rparr>"

lemmas frame_flags = has_flag_def YAMUX_FLAG_SYN_def YAMUX_FLAG_ACK_def YAMUX_FLAG_FIN_def

context v2_packet
begin

lemma stream_open_live:
  assumes "healthy ss (encode_header (update_header YAMUX_FLAG_ACK (next_stream_id ss) n) @ rest) w"
  shows "\<exists>ss'. libp2p_yamux_stream_open io ss =
      Some (Some ((new_ctx (next_stream_id ss) True)\<lparr>send_window := YAMUX_INITIAL_WINDOW_SIZE + n\<rparr>), ss') \<and>
    healthy ss' rest (w @ encode_header (update_header YAMUX_FLAG_SYN (next_stream_id ss) 0))"
proof -
  let ?sid = "next_stream_id ss" and ?s2 = "(snd (ys_alloc ss))\<lparr>next_stream_id := next_stream_id ss + 2\<rparr>"
  let ?s3 = "snd (ys_alloc ?s2)"
  have mem: "ys_mem ss k" and op: "\<not> ys_closed ss" for k using assms by (auto simp: healthy_def)
  have "at_wire (ys_stream ?s3) (encode_header (update_header YAMUX_FLAG_ACK ?sid n) @ rest) w"
    using assms by (simp add: healthy_def ys_alloc_def)
  from send_header_live [OF this] obtain st4 where
    s4: "yamux_send_header io YAMUX_TYPE_WINDOW_UPDATE YAMUX_FLAG_SYN ?sid 0 ?s3 = Some (True, ?s3\<lparr>ys_stream := st4\<rparr>)"
      "at_wire st4 (encode_header (update_header YAMUX_FLAG_ACK ?sid n) @ rest) (w @ encode_header (update_header YAMUX_FLAG_SYN ?sid 0))"
    by blast
  from read_header_live [of "?s3\<lparr>ys_stream := st4\<rparr>" "update_header YAMUX_FLAG_ACK ?sid n" rest] s4(2) obtain st5 where
    s5: "yamux_read_header io (?s3\<lparr>ys_stream := st4\<rparr>) = Some (Some (update_header YAMUX_FLAG_ACK ?sid n), ?s3\<lparr>ys_stream := st5\<rparr>)"
      "at_wire st5 rest (w @ encode_header (update_header YAMUX_FLAG_SYN ?sid 0))" by auto
  have "yamux_open_loop io (new_ctx ?sid False) (?s3\<lparr>ys_stream := st4\<rparr>) =
      Some (Some ((new_ctx ?sid True)\<lparr>send_window := YAMUX_INITIAL_WINDOW_SIZE + n\<rparr>), ?s3\<lparr>ys_stream := st5\<rparr>)"
    by (subst yamux_open_loop.simps) (simp add: s5(1) yamux_open_frame_def frame_types frame_flags new_ctx_def)
  moreover have "libp2p_yamux_stream_open io ss = yamux_open_loop io (new_ctx ?sid False) (?s3\<lparr>ys_stream := st4\<rparr>)"
    using s4(1) mem op by (simp add: libp2p_yamux_stream_open_def ys_alloc_def Let_def new_ctx_def)
  moreover have "healthy (?s3\<lparr>ys_stream := st5\<rparr>) rest (w @ encode_header (update_header YAMUX_FLAG_SYN ?sid 0))"
    using assms s5(2) by (simp add: healthy_def ys_alloc_def)
  ultimately show ?thesis by auto
qed

lemma stream_accept_live:
  assumes "healthy ss (encode_header (update_header YAMUX_FLAG_SYN sid n) @ rest) w" and "pending_inbound ss = []"
  shows "\<exists>ss'. libp2p_yamux_stream_accept io ss = Some (Some (new_ctx sid True), ss') \<and>
    healthy ss' rest (w @ encode_header (update_header YAMUX_FLAG_ACK sid 0))"
proof -
  let ?h = "update_header YAMUX_FLAG_SYN sid n" and ?s1 = "snd (ys_alloc ss)"
  have mem: "ys_mem ss k" and op: "\<not> ys_closed ss" for k using assms by (auto simp: healthy_def)
  have "at_wire (ys_stream ?s1) (encode_header ?h @ rest) w" using assms by (simp add: healthy_def ys_alloc_def)
  from read_header_live [OF this] obtain st2 where
    s2: "yamux_read_header io ?s1 = Some (Some ?h, ?s1\<lparr>ys_stream := st2\<rparr>)" "at_wire st2 rest w" by blast
  have "yamux_wait_for_syn io ?s1 = Some (Some ?h, ?s1\<lparr>ys_stream := st2\<rparr>)"
    by (subst yamux_wait_for_syn.simps) (simp add: s2(1) frame_types frame_flags)
  then have c: "yamux_accept_ctx io ?s1 = Some (Some (new_ctx sid True), ?s1\<lparr>ys_stream := st2\<rparr>)"
    using assms(2) by (simp add: yamux_accept_ctx_def ys_alloc_def frame_types)
  let ?s3 = "snd (ys_alloc (?s1\<lparr>ys_stream := st2\<rparr>))"
  have "at_wire (ys_stream ?s3) rest w" using s2(2) by (simp add: ys_alloc_def)
  from send_header_live [OF this] obtain st4 where
    s4: "yamux_send_header io YAMUX_TYPE_WINDOW_UPDATE YAMUX_FLAG_ACK sid 0 ?s3 = Some (True, ?s3\<lparr>ys_stream := st4\<rparr>)"
      "at_wire st4 rest (w @ encode_header (update_header YAMUX_FLAG_ACK sid 0))" by blast
  have "libp2p_yamux_stream_accept io ss = Some (Some (new_ctx sid True), ?s3\<lparr>ys_stream := st4\<rparr>)"
    using c s4(1) mem op by (simp add: libp2p_yamux_stream_accept_def ys_alloc_def Let_def new_ctx_def)
  moreover have "healthy (?s3\<lparr>ys_stream := st4\<rparr>) rest (w @ encode_header (update_header YAMUX_FLAG_ACK sid 0))"
    using assms s4(2) by (simp add: healthy_def ys_alloc_def)
  ultimately show ?thesis by blast
qed

end

end
