(* ===== verification/V2_Theorems.thy ===== *)
theory V2_Theorems
  imports Multistream_V2
begin

text \<open>
  What the second-generation stack guarantees: protocol negotiation over TCP, with an
  instance of each statement on concrete sockets.
\<close>

section \<open>A concrete socket\<close>

text \<open>A connected socket that hands out at most three bytes at a time, takes at most two and is interrupted
  once before each \<open>send\<close>.\<close>

definition sample_sock :: "bytes \<Rightarrow> tcp_sock" where
  "sample_sock rx = \<lparr>sk_fd = 5, sk_rx = rx, sk_recv = (\<lambda>_. Some 2), sk_tx = [], sk_send = (\<lambda>_. (1, Some 1))\<rparr>"

lemma sample_sock_simps [simp]: "tcp_ready (sample_sock rx)" "sk_rx (sample_sock rx) = rx" "sk_tx (sample_sock rx) = []"
  by (simp_all add: tcp_ready_def sample_sock_def)

definition sample_proto :: bytes where
  "sample_proto = bstr ''/yamux/1.0.0''"

lemma sample_proto_ok: "0 \<notin> set sample_proto" "length sample_proto \<le> 254"
  by code_simp+

section \<open>Protocol negotiation\<close>

text \<open>C17. A dialer that connects and proposes a protocol and a listener that expects it complete the
  negotiation over TCP, however the kernel splits reads and writes: what either side reads is exactly what the
  other has written, both report success and nothing is left unread.\<close>

theorem handshake_completes:
  assumes "tcp_ready d" and "tcp_ready l" and "0 \<notin> set p" and "length p \<le> 254"
    and "sk_rx d = frame MULTISTREAM_MSG_HEADER @ frame (p @ [10])" and "sk_tx d = []"
    and "sk_rx l = frame MULTISTREAM_MSG_HEADER @ frame (p @ [10])" and "sk_tx l = []"
  shows "\<exists>d1 d2 l'. libp2p_v2_net_multistream_connect tcp_stream True d = Some (True, d1) \<and>
    libp2p_net_multistream_negotiate_protocol tcp_stream True (Some p) d1 = Some (True, d2) \<and>
    libp2p_net_multistream_accept tcp_stream True True (Some p) l = Some (True, l') \<and>
    sk_tx d2 = sk_rx l \<and> sk_tx l' = sk_rx d \<and> sk_rx d2 = [] \<and> sk_rx l' = []"
proof -
  have m: "length (p @ [10]) < 256" "cstr (p @ [10]) = p @ [10]" using assms(3,4) by simp_all
  obtain d1 where d1: "libp2p_v2_net_multistream_connect tcp_stream True d = Some (True, d1)"
    "sk_rx d1 = frame (p @ [10])" "sk_tx d1 = frame MULTISTREAM_MSG_HEADER" "tcp_ready d1"
    using tcp.connect_live [OF assms(1) _ _ assms(5), of "length (frame MULTISTREAM_MSG_HEADER)"] assms(6) by auto
  obtain d2 where "libp2p_net_multistream_negotiate_protocol tcp_stream True (Some p) d1 = Some (True, d2)"
    "sk_rx d2 = []" "sk_tx d2 = sk_tx d1 @ frame (p @ [10])"
    using tcp.negotiate_live [OF d1(4) _ assms(3,4) order_refl, of "p @ [10]" "[]"] d1(2) m by auto
  moreover obtain l' where "libp2p_net_multistream_accept tcp_stream True True (Some p) l = Some (True, l')"
    "sk_rx l' = []" "sk_tx l' = frame MULTISTREAM_MSG_HEADER @ frame (p @ [10])"
    using tcp.accept_live [OF assms(2) TrueI, of "Some p" "p @ [10]" "[]"] assms(3,4,7,8) m
    by (auto simp: answer_def)
  ultimately show ?thesis using d1 assms(5,7) by auto
qed

theorem handshake_completes_witness:
  "let w = frame MULTISTREAM_MSG_HEADER @ frame (sample_proto @ [10])
   in \<exists>d1 d2 l'. libp2p_v2_net_multistream_connect tcp_stream True (sample_sock w) = Some (True, d1) \<and>
     libp2p_net_multistream_negotiate_protocol tcp_stream True (Some sample_proto) d1 = Some (True, d2) \<and>
     libp2p_net_multistream_accept tcp_stream True True (Some sample_proto) (sample_sock w) = Some (True, l') \<and>
     sk_tx d2 = w \<and> sk_tx l' = w"
  using handshake_completes [OF _ _ sample_proto_ok, of "sample_sock (frame MULTISTREAM_MSG_HEADER @ frame (sample_proto @ [10]))"
      "sample_sock (frame MULTISTREAM_MSG_HEADER @ frame (sample_proto @ [10]))"]
  unfolding Let_def by auto

text \<open>A message written with \<open>write_length_prefixed_msg\<close> is read back by
  \<open>read_length_prefixed_msg\<close> on the other side, up to its first NUL, if it fits the buffer; what follows stays
  unread.\<close>

theorem message_round_trip:
  assumes "tcp_ready a" and "tcp_ready b" and "length (cstr m) < max_len" and "max_len \<le> 2 ^ 64"
    and "sk_tx a = []" and "write_length_prefixed_msg tcp_stream True m a = Some (True, a')" and "sk_rx b = sk_tx a' @ rest"
  shows "\<exists>b'. read_length_prefixed_msg tcp_stream max_len b = Some (Some (cstr m), b') \<and> sk_rx b' = rest"
  using tcp.read_msg_live [OF assms(2) _ assms(3,4), of rest] tcp.write_msg_ok [OF assms(6)] assms(5,7) by auto

theorem message_round_trip_witness:
  "\<exists>a' b'. write_length_prefixed_msg tcp_stream True sample_proto (sample_sock []) = Some (True, a') \<and>
     read_length_prefixed_msg tcp_stream 256 (sample_sock (sk_tx a' @ [1, 2])) = Some (Some sample_proto, b') \<and> sk_rx b' = [1, 2]"
proof -
  obtain a' where a: "write_length_prefixed_msg tcp_stream True sample_proto (sample_sock []) = Some (True, a')"
    using tcp.write_msg_live [OF sample_sock_simps(1) TrueI order_refl] by blast
  show ?thesis
    using message_round_trip [OF _ _ _ _ _ a, of "sample_sock (sk_tx a' @ [1, 2])" 256 "[1, 2]"] a sample_proto_ok by auto
qed

text \<open>C18. When the listener reports success, whatever the peer sent and however reads and writes went: it
  read two messages, the multistream header and a proposal of the expected protocol, the messages fit its 256-byte
  buffer, and it has echoed both.\<close>

theorem accept_needs_protocol:
  assumes "libp2p_net_multistream_accept tcp_stream mem1 mem2 (Some e) s = Some (True, s')"
  shows "\<exists>h1 m1 h2 m2. sk_rx s = h1 @ m1 @ h2 @ m2 @ sk_rx s' \<and> cstr m1 = MULTISTREAM_MSG_HEADER \<and>
    trim_newline m2 = cstr e \<and> length m2 < 256 \<and>
    sk_tx s' = sk_tx s @ frame MULTISTREAM_MSG_HEADER @ frame (with_newline (cstr e))"
  using tcp.accept_ok [OF assms] .

theorem accept_needs_protocol_witness:
  "\<exists>s'. libp2p_net_multistream_accept tcp_stream True True (Some sample_proto)
       (sample_sock (frame MULTISTREAM_MSG_HEADER @ frame (sample_proto @ [10]))) = Some (True, s') \<and>
     sk_tx s' = frame MULTISTREAM_MSG_HEADER @ frame (with_newline sample_proto)"
proof -
  obtain s' where s': "libp2p_net_multistream_accept tcp_stream True True (Some sample_proto)
      (sample_sock (frame MULTISTREAM_MSG_HEADER @ frame (sample_proto @ [10]))) = Some (True, s')"
    using tcp.accept_live [OF sample_sock_simps(1) TrueI, of "Some sample_proto"
        "frame MULTISTREAM_MSG_HEADER @ frame (sample_proto @ [10])" "sample_proto @ [10]" "[]"] sample_proto_ok
    by (auto simp: answer_def)
  then show ?thesis using accept_needs_protocol [OF s'] sample_proto_ok by auto
qed

text \<open>A proposal of another protocol is answered with \<open>na\<close>; the listener and the dialer that reads
  this answer both report failure.\<close>

theorem negotiation_rejects:
  assumes "tcp_ready l" and "0 \<notin> set e" and "0 \<notin> set q" and "length q \<le> 254" and "q \<noteq> e"
    and "sk_rx l = frame MULTISTREAM_MSG_HEADER @ frame (q @ [10])" and "sk_tx l = []"
    and "tcp_ready d" and "sk_rx d = frame (bstr ''na'' @ [10])" and "q \<noteq> bstr ''na''"
  shows "\<exists>l' d'. libp2p_net_multistream_accept tcp_stream True True (Some e) l = Some (False, l') \<and>
    sk_tx l' = frame MULTISTREAM_MSG_HEADER @ sk_rx d \<and>
    libp2p_net_multistream_negotiate_protocol tcp_stream True (Some q) d = Some (False, d')"
proof -
  have na: "cstr (bstr ''na'' @ [10]) = bstr ''na'' @ [10]" by (rule cstr_id [OF na_no_nul])
  obtain l' where "libp2p_net_multistream_accept tcp_stream True True (Some e) l = Some (False, l')"
    "sk_tx l' = frame MULTISTREAM_MSG_HEADER @ frame (bstr ''na'' @ [10])"
    using tcp.accept_live [OF assms(1) TrueI, of "Some e" "q @ [10]" "[]"] assms(2-7)
    by (auto simp: answer_def)
  moreover obtain d' where "libp2p_net_multistream_negotiate_protocol tcp_stream True (Some q) d = Some (False, d')"
    using tcp.negotiate_live [OF assms(8) TrueI assms(3,4) order_refl, of "bstr ''na'' @ [10]" "[]"] assms(9,10) na
    by (auto simp: bstr_def)
  ultimately show ?thesis using assms(9) by auto
qed

theorem negotiation_rejects_witness:
  "\<exists>l'. libp2p_net_multistream_accept tcp_stream True True (Some (bstr ''/noise''))
       (sample_sock (frame MULTISTREAM_MSG_HEADER @ frame (sample_proto @ [10]))) = Some (False, l') \<and>
     sk_tx l' = frame MULTISTREAM_MSG_HEADER @ frame (bstr ''na'' @ [10])"
proof -
  have "0 \<notin> set (bstr ''/noise'')" "sample_proto \<noteq> bstr ''/noise''" "sample_proto \<noteq> bstr ''na''" by code_simp+
  then show ?thesis
    using negotiation_rejects [OF sample_sock_simps(1) _ sample_proto_ok, of "bstr ''/noise''" _ "sample_sock (frame (bstr ''na'' @ [10]))"]
    by auto
qed

end
