(* ===== verification/Yamux_Theorems.thy ===== *)
theory Yamux_Theorems
  imports Yamux_Stream Yamux_Total Yamux_Session V2_Theorems
begin

text \<open>
  What the multiplexer guarantees over TCP, and where it does not do what it means to; with an
  instance of each statement on a concrete session.
\<close>

section \<open>Sessions over TCP\<close>

text \<open>A session over a working socket with \<open>a\<close> to read and \<open>w\<close> written, memory to allocate and
  queued streams with different ids.\<close>

definition tcp_session :: "tcp_sock yamux_session \<Rightarrow> bytes \<Rightarrow> bytes \<Rightarrow> bool" where
  "tcp_session ss a w \<longleftrightarrow> tcp_ready (ys_stream ss) \<and> sk_rx (ys_stream ss) = a \<and> sk_tx (ys_stream ss) = w \<and>
     \<not> ys_closed ss \<and> (\<forall>k. ys_mem ss k) \<and> distinct (map pi_stream_id (pending_inbound ss))"

lemma tcp_session_healthy: "tcp_session ss a w = tcp.healthy ss a w"
  by (auto simp: tcp_session_def tcp.healthy_def tcp.at_wire_def)

definition sample_session :: "bytes \<Rightarrow> tcp_sock yamux_session" where
  "sample_session rx = the (libp2p_yamux_session_new (sample_sock rx) False True (\<lambda>_. True))"

lemma sample_session_fields [simp]:
  "ys_stream (sample_session rx) = sample_sock rx" "ys_closed (sample_session rx) = False"
  "pending_inbound (sample_session rx) = []" "next_stream_id (sample_session rx) = 1" "ping_seq (sample_session rx) = 1"
  "ys_attached (sample_session rx) = True" "ys_mem (sample_session rx) = (\<lambda>_. True)"
  by (simp_all add: sample_session_def libp2p_yamux_session_new_def)

lemma sample_session_ok: "tcp_session (sample_session rx) rx []"
  by (simp add: tcp_session_def)

abbreviation data_header :: "32 word \<Rightarrow> 16 word \<Rightarrow> nat \<Rightarrow> yamux_header" where
  "data_header sid fl n \<equiv> \<lparr>hd_version = YAMUX_VERSION, hd_type = YAMUX_TYPE_DATA, hd_flags = fl, hd_stream_id = sid, hd_length = of_nat n\<rparr>"

abbreviation ping_header :: "16 word \<Rightarrow> 32 word \<Rightarrow> yamux_header" where
  "ping_header fl v \<equiv> \<lparr>hd_version = YAMUX_VERSION, hd_type = YAMUX_TYPE_PING, hd_flags = fl, hd_stream_id = 0, hd_length = v\<rparr>"

section \<open>Frames\<close>

text \<open>A header sent with \<open>yamux_send_header\<close> is read by \<open>yamux_read_header\<close> on the other side
  field by field as it was sent, and nothing after it is touched.\<close>

theorem header_round_trip:
  assumes "tcp_ready (ys_stream b)" and "yamux_send_header tcp_stream ty fl sid len a = Some (True, a')"
    and "sk_tx (ys_stream a) = []" and "sk_rx (ys_stream b) = sk_tx (ys_stream a') @ rest"
  shows "\<exists>b'. yamux_read_header tcp_stream b =
      Some (Some \<lparr>hd_version = YAMUX_VERSION, hd_type = ty, hd_flags = fl, hd_stream_id = sid, hd_length = len\<rparr>, b') \<and>
    sk_rx (ys_stream b') = rest"
proof -
  let ?h = "\<lparr>hd_version = YAMUX_VERSION, hd_type = ty, hd_flags = fl, hd_stream_id = sid, hd_length = len\<rparr>"
  have "v2_write tcp_stream (ys_stream a) (encode_header ?h) = Some (int (length (encode_header ?h)), ys_stream a')"
    using assms(2) by (auto simp: yamux_send_header_def bind_eq_Some_conv)
  from tcp.write_ok [OF this] have "tcp.at_wire (ys_stream b) (encode_header ?h @ rest) (sk_tx (ys_stream b))"
    using assms by (simp add: tcp.at_wire_def)
  from tcp.read_header_live [OF this] show ?thesis by (auto simp: tcp.at_wire_def)
qed

theorem header_round_trip_witness:
  "\<exists>a' b'. yamux_send_header tcp_stream YAMUX_TYPE_PING YAMUX_FLAG_ACK 0 77 (sample_session []) = Some (True, a') \<and>
     yamux_read_header tcp_stream (sample_session (sk_tx (ys_stream a') @ [9])) = Some (Some (ping_header YAMUX_FLAG_ACK 77), b') \<and>
     sk_rx (ys_stream b') = [9]"
proof -
  obtain st where a: "yamux_send_header tcp_stream YAMUX_TYPE_PING YAMUX_FLAG_ACK 0 77 (sample_session []) =
      Some (True, (sample_session [])\<lparr>ys_stream := st\<rparr>)"
    using tcp.send_header_live [of "sample_session []" "[]" "[]"] by (fastforce simp: tcp.at_wire_def)
  show ?thesis
    using header_round_trip [OF _ a, of "sample_session (sk_tx st @ [9])" "[9]"] a by auto
qed

section \<open>Writing\<close>

text \<open>C19. Whatever the socket does: a write either fails and leaves the stream as it was, or takes a
  non-empty prefix of the data, never more than 65535 bytes or than the peer's window allows; then exactly one
  DATA frame with this prefix went out and the window shrank by its length, without underflow.\<close>

theorem stream_write_respects_window:
  assumes "yamux_stream_write tcp_stream buf cx ss = Some (r, cx', ss')"
  shows "r = - 1 \<and> cx' = cx \<or>
    (\<exists>n. r = int n \<and> 0 < n \<and> n \<le> 65535 \<and> n \<le> length buf \<and> n \<le> unat (send_window cx) \<and>
      unat (send_window cx') = unat (send_window cx) - n \<and> cx' = cx\<lparr>send_window := send_window cx'\<rparr> \<and>
      sk_tx (ys_stream ss') = sk_tx (ys_stream ss) @ wire (data_header (cx_stream_id cx) 0 n, take n buf))"
proof (cases "r = - 1")
  case True
  then show ?thesis using assms by (auto simp: yamux_stream_write_def Let_def bind_eq_Some_conv split: if_splits)
next
  case False
  define n where "n = min (min (length buf) YAMUX_MAX_PAYLOAD) (unat (send_window cx))"
  have n: "n \<le> 65535" "n \<le> length buf" "n \<le> unat (send_window cx)" by (auto simp: n_def YAMUX_MAX_PAYLOAD_def)
  from assms False obtain s1 st where r: "r = int n" "0 < n"
    and w1: "v2_write tcp_stream (ys_stream ss) (encode_header (data_header (cx_stream_id cx) 0 n)) = Some (12, s1)"
    and w2: "v2_write tcp_stream s1 (take n buf) = Some (int n, st)"
    and c: "cx' = cx\<lparr>send_window := send_window cx - of_nat n\<rparr>" "ss' = ss\<lparr>ys_stream := st\<rparr>"
    unfolding yamux_stream_write_def yamux_send_header_def Let_def n_def [symmetric]
    by (auto simp: bind_eq_Some_conv split: if_splits)
  have "sk_tx st = sk_tx (ys_stream ss) @ wire (data_header (cx_stream_id cx) 0 n, take n buf)"
    using tcp.write_ok [of "ys_stream ss" "encode_header (data_header (cx_stream_id cx) 0 n)" s1] tcp.write_ok [of s1 "take n buf" st]
      w1 w2 n(2) by (simp add: wire_def)
  moreover have u: "unat (of_nat n :: 32 word) = n" using n(1) by (simp add: unat_of_nat)
  then have "unat (send_window cx - of_nat n) = unat (send_window cx) - n"
    using n(3) by (simp add: unat_sub word_le_nat_alt)
  ultimately show ?thesis using n r c by (intro disjI2 exI [of _ n]) simp
qed

theorem stream_write_respects_window_witness:
  "\<exists>cx' ss'. yamux_stream_write tcp_stream [1, 2, 3] (new_ctx 1 True) (sample_session []) = Some (3, cx', ss') \<and>
     unat (send_window cx') = 262141"
proof -
  have win: "unat (send_window (new_ctx 1 True)) = 262144" by (simp add: new_ctx_def YAMUX_INITIAL_WINDOW_SIZE_def)
  have "tcp.at_wire (ys_stream (sample_session [])) [] []" by (simp add: tcp.at_wire_def)
  from tcp.stream_write_live [OF this, of "new_ctx 1 True" "[1, 2, 3]"] obtain cx' ss' where
    w: "yamux_stream_write tcp_stream [1, 2, 3] (new_ctx 1 True) (sample_session []) = Some (3, cx', ss')"
    using win by (auto simp: new_ctx_def YAMUX_MAX_PAYLOAD_def)
  show ?thesis using stream_write_respects_window [OF w] w win by auto
qed

section \<open>Reading\<close>

text \<open>C20. Whatever frames come before, a read of a stream delivers the next data of that stream: pings
  are answered on the way, data for queued streams is queued and credited, window updates are added up, other frames
  are skipped, and what does not fit the caller's buffer is kept for the next read.\<close>

theorem stream_read_delivers:
  assumes "tcp_session ss (concat (map wire fs) @ wire (hdr, pl) @ rest) w" and "\<forall>f\<in>set fs. passed (cx_stream_id cx) f"
    and "\<not> cx_closed cx" and "drained cx" and "wf_frame (hdr, pl)" and "is_data (hdr, pl) (cx_stream_id cx)" and "pl \<noteq> []"
  shows "\<exists>cx' ss'. yamux_stream_read tcp_stream n cx ss = Some (Some (take n pl), cx', ss') \<and>
    buffered cx' = drop n pl \<and> send_window cx' = send_window (fold pass_ctx fs cx) \<and>
    tcp_session ss' rest (w @ concat (map (reply (cx_stream_id cx) (pi_stream_id ` set (pending_inbound ss))) fs) @ credit hdr cx) \<and>
    pending_inbound ss' = map (fold (enqueue (cx_stream_id cx)) fs) (pending_inbound ss)"
proof -
  obtain ss' where "yamux_stream_read tcp_stream n cx ss = Some (Some (take n pl), own_ctx n hdr pl (fold pass_ctx fs cx), ss')"
    "tcp_session ss' rest (w @ concat (map (reply (cx_stream_id cx) (pi_stream_id ` set (pending_inbound ss))) fs) @ credit hdr cx)"
    "pending_inbound ss' = map (fold (enqueue (cx_stream_id cx)) fs) (pending_inbound ss)"
    using tcp.read_delivers [OF assms(1) [unfolded tcp_session_healthy] assms(2-7)] unfolding tcp_session_healthy by blast
  then show ?thesis
    by (intro exI [of _ "own_ctx n hdr pl (fold pass_ctx fs cx)"] exI [of _ ss'])
      (simp add: own_ctx_def buffered_def min_def)
qed

lemma passed_ping: "passed sid (ping_header 0 v, [])"
  by (simp add: passed_def wf_frame_def is_data_def frame_types)

lemma own_data_frame: "n < 2 ^ 32 \<Longrightarrow> length pl = n \<Longrightarrow> wf_frame (data_header sid fl n, pl)" "is_data (data_header sid fl n, pl) sid"
  by (auto simp: wf_frame_def is_data_def frame_types unat_of_nat)

lemma new_ctx_fields [simp]: "cx_stream_id (new_ctx sid b) = sid" "\<not> cx_closed (new_ctx sid b)" "drained (new_ctx sid b)"
  "buffered (new_ctx sid b) = []" "buffer_ok (new_ctx sid b)" "send_window (new_ctx sid b) = YAMUX_INITIAL_WINDOW_SIZE"
  by (simp_all add: new_ctx_def drained_def buffered_def buffer_ok_def)

theorem stream_read_delivers_witness:
  "let rx = wire (ping_header 0 7, []) @ wire (data_header 1 0 3, [1, 2, 3]) @ [9]
   in \<exists>cx' ss'. yamux_stream_read tcp_stream 2 (new_ctx 1 True) (sample_session rx) = Some (Some [1, 2], cx', ss') \<and>
     buffered cx' = [3] \<and> sk_rx (ys_stream ss') = [9]"
proof -
  let ?h = "data_header 1 0 3"
  let ?ss = "sample_session (wire (ping_header 0 7, []) @ wire (?h, [1, 2, 3]) @ [9])"
  have f: "wf_frame (?h, [1, 2, 3])" "is_data (?h, [1, 2, 3]) (cx_stream_id (new_ctx 1 True))"
    by (rule own_data_frame(1), simp_all add: is_data_def)
  have s: "tcp_session ?ss (concat (map wire [(ping_header 0 7, [])]) @ wire (?h, [1, 2, 3]) @ [9]) []"
    using sample_session_ok by simp
  from stream_read_delivers [OF s _ _ _ f, of 2] passed_ping [of 1 7] show ?thesis
    unfolding Let_def by (auto simp: tcp_session_def numeral_2_eq_2)
qed

text \<open>C21. The four calls that wait for the peer, reading a stream, opening one, accepting one and a ping, return when the connection comes to an end:
  over every TCP socket on which finitely many bytes arrive, whatever they are and however they are cut, before the end of file or an error, whatever
  becomes of the writes and whether or not memory is available. A peer that stays silent for ever, on which \<open>recv\<close> blocks, and one that never stops
  sending frames are not sockets of this kind.\<close>

theorem yamux_calls_return:
  "(\<exists>r cx' ss'. yamux_stream_read tcp_stream n cx ss = Some (r, cx', ss')) \<and>
   (\<exists>c ss'. libp2p_yamux_stream_open tcp_stream ss = Some (c, ss')) \<and>
   (\<exists>c ss'. libp2p_yamux_stream_accept tcp_stream ss = Some (c, ss')) \<and>
   (\<exists>b ss'. libp2p_yamux_session_ping tcp_stream ss = Some (b, ss'))"
  using tcp.stream_read_returns tcp.stream_open_returns tcp.stream_accept_returns tcp.session_ping_returns by blast

section \<open>What goes wrong\<close>

text \<open>C22. Data that arrives with FIN and does not fit the caller's buffer is lost: the read hands out the
  first \<open>n\<close> bytes and keeps the rest, but marks the stream closed, and a closed stream never hands out
  anything.\<close>

theorem fin_loses_data:
  assumes "tcp_session ss (wire (hdr, pl) @ rest) w" and "\<not> cx_closed cx" and "drained cx" and "wf_frame (hdr, pl)"
    and "is_data (hdr, pl) (cx_stream_id cx)" and "has_flag hdr YAMUX_FLAG_FIN" and "n < length pl"
  shows "\<exists>cx' ss'. yamux_stream_read tcp_stream n cx ss = Some (Some (take n pl), cx', ss') \<and> buffered cx' = drop n pl \<and>
    drop n pl \<noteq> [] \<and> (\<forall>m. yamux_stream_read tcp_stream m cx' ss' = Some (None, cx', ss'))"
proof -
  have "tcp.healthy ss (concat (map wire []) @ wire (hdr, pl) @ rest) w" using assms(1) by (simp add: tcp_session_healthy)
  moreover have "pl \<noteq> []" using assms(7) by auto
  ultimately obtain ss' where r: "yamux_stream_read tcp_stream n cx ss = Some (Some (take n pl), own_ctx n hdr pl cx, ss')"
    using tcp.read_delivers [of ss "[]" hdr pl rest w cx n] assms(2-5) by auto
  have c: "cx_closed (own_ctx n hdr pl cx)" using assms(6) by (simp add: own_ctx_def)
  have "yamux_stream_read tcp_stream m (own_ctx n hdr pl cx) ss' = Some (None, own_ctx n hdr pl cx, ss')" for m
    using c by (simp add: yamux_stream_read.simps [of _ m] yamux_read_step_def)
  then show ?thesis using r assms(7) by (auto simp: own_ctx_def buffered_def)
qed

theorem fin_loses_data_witness:
  "let rx = wire (data_header 1 YAMUX_FLAG_FIN 3, [1, 2, 3])
   in \<exists>cx' ss'. yamux_stream_read tcp_stream 1 (new_ctx 1 True) (sample_session rx) = Some (Some [1], cx', ss') \<and>
     buffered cx' = [2, 3] \<and> yamux_stream_read tcp_stream 9 cx' ss' = Some (None, cx', ss')"
proof -
  let ?h = "data_header 1 YAMUX_FLAG_FIN 3"
  have f: "wf_frame (?h, [1, 2, 3])" "is_data (?h, [1, 2, 3]) (cx_stream_id (new_ctx 1 True))"
    by (rule own_data_frame(1), simp_all add: is_data_def)
  have "tcp_session (sample_session (wire (?h, [1, 2, 3]))) (wire (?h, [1, 2, 3]) @ []) []" using sample_session_ok by simp
  from fin_loses_data [OF this _ _ f, of 1] show ?thesis
    unfolding Let_def by (auto simp: has_flag_def YAMUX_FLAG_FIN_def)
qed

text \<open>What is left of a header is read to the end, in vain.\<close>

lemma read_loop_short:
  "tcp_ready s \<Longrightarrow> length (sk_rx s) < n \<Longrightarrow> \<exists>s'. read_loop tcp_stream n acc s = Some (None, s') \<and> sk_rx s' = []"
proof (induction "length (sk_rx s)" arbitrary: s n acc rule: less_induct)
  case less
  obtain m where m: "sk_recv s 0 = Some m" "0 \<le> sk_fd s" using less.prems(1) by (auto simp: tcp_ready_def)
  define k where "k = min n (Suc m)"
  let ?s1 = "s\<lparr>sk_recv := (\<lambda>k. sk_recv s (Suc k)), sk_rx := drop k (sk_rx s)\<rparr>"
  have r: "v2_read tcp_stream s n = Some (Some (take k (sk_rx s)), ?s1)"
    using m by (simp add: tcp_stream_def tcp_stream_read_def sock_recv_def Let_def k_def)
  have n: "0 < n" "0 < k" "k \<le> n" using less.prems(2) by (simp_all add: k_def)
  show ?case
  proof (cases "sk_rx s = []")
    case True
    then show ?thesis using r n by (subst read_loop.simps) simp
  next
    case False
    have k: "tcp_ready ?s1" "length (sk_rx ?s1) < length (sk_rx s)" "length (sk_rx ?s1) < n - length (take k (sk_rx s))"
      using less.prems False n by (auto simp: tcp_ready_def min_def)
    from less.hyps [OF k(2,1,3), of "acc @ take k (sk_rx s)"] show ?thesis
      using r n False by (subst read_loop.simps) simp
  qed
qed

text \<open>C23. Two pings that cross: the peer's PING with a value \<open>v\<close> of at most 12 arrives before its answer to ours, and nothing after it. The value of a
  PING stands in the length field of its header and no payload follows, but \<open>libp2p_yamux_session_ping\<close> answers the peer's PING and then drops \<open>v\<close> bytes:
  the first \<open>v\<close> of the awaited answer. The call succeeds only for \<open>v = 0\<close>. For every other value it reports failure, and nothing of the answer is left to
  be read.\<close>

theorem ping_eats_answer:
  assumes "tcp_session ss (encode_header (ping_header 0 v) @ encode_header (ping_header YAMUX_FLAG_ACK (ping_seq ss))) w" and "unat v \<le> 12"
  shows "\<exists>ss'. libp2p_yamux_session_ping tcp_stream ss = Some (v = 0, ss') \<and> sk_rx (ys_stream ss') = []"
proof -
  let ?P = "encode_header (ping_header 0 v)" and ?A = "encode_header (ping_header YAMUX_FLAG_ACK (ping_seq ss))"
  let ?s0 = "ss\<lparr>ping_seq := ping_seq ss + 1\<rparr>"
  have open_ss: "\<not> ys_closed ss" using assms(1) by (simp add: tcp_session_def)
  have "tcp.at_wire (ys_stream ?s0) (?P @ ?A) w" using assms(1) by (simp add: tcp_session_def tcp.at_wire_def)
  from tcp.send_header_live [OF this] obtain st1 w1 where
    s1: "yamux_send_header tcp_stream YAMUX_TYPE_PING 0 0 (ping_seq ss) ?s0 = Some (True, ?s0\<lparr>ys_stream := st1\<rparr>)" "tcp.at_wire st1 (?P @ ?A) w1"
    by blast
  from tcp.read_header_live [of "?s0\<lparr>ys_stream := st1\<rparr>" "ping_header 0 v" ?A w1] s1(2) obtain st2 where
    s2: "yamux_read_header tcp_stream (?s0\<lparr>ys_stream := st1\<rparr>) = Some (Some (ping_header 0 v), ?s0\<lparr>ys_stream := st2\<rparr>)" "tcp.at_wire st2 ?A w1"
    by auto
  from tcp.send_header_live [of "?s0\<lparr>ys_stream := st2\<rparr>" ?A w1 YAMUX_TYPE_PING YAMUX_FLAG_ACK 0 v] s2(2) obtain st3 w3 where
    s3: "yamux_handle_control_frame tcp_stream (ping_header 0 v) (?s0\<lparr>ys_stream := st2\<rparr>) = Some (True, ?s0\<lparr>ys_stream := st3\<rparr>)" "tcp.at_wire st3 ?A w3"
    by (auto simp: yamux_handle_control_frame_def yamux_send_ping_response_def has_flag_def)
  have "length (take (unat v) ?A) = unat v" using assms(2) by simp
  with tcp.discard_live [of "?s0\<lparr>ys_stream := st3\<rparr>" "take (unat v) ?A" "drop (unat v) ?A" w3] s3(2) obtain st4 where
    s4: "yamux_discard_payload tcp_stream (unat v) (?s0\<lparr>ys_stream := st3\<rparr>) = Some (True, ?s0\<lparr>ys_stream := st4\<rparr>)"
      "tcp.at_wire st4 (drop (unat v) ?A) w3" by auto
  have "\<exists>s5. yamux_ping_loop tcp_stream (ping_seq ss) (?s0\<lparr>ys_stream := st4\<rparr>) = Some (v = 0, s5) \<and> sk_rx (ys_stream s5) = []"
  proof (cases "v = 0")
    case True
    then have "tcp.at_wire st4 (?A @ []) w3" using s4(2) by simp
    from tcp.read_header_live [of "?s0\<lparr>ys_stream := st4\<rparr>" "ping_header YAMUX_FLAG_ACK (ping_seq ss)" "[]" w3] this obtain st5 where
      "yamux_read_header tcp_stream (?s0\<lparr>ys_stream := st4\<rparr>) = Some (Some (ping_header YAMUX_FLAG_ACK (ping_seq ss)), ?s0\<lparr>ys_stream := st5\<rparr>)"
      "tcp.at_wire st5 [] w3" by auto
    with True show ?thesis by (subst yamux_ping_loop.simps) (simp add: has_flag_def tcp.at_wire_def YAMUX_FLAG_ACK_def)
  next
    case False
    then have "0 < unat v" by (simp add: unat_gt_0)
    then have "tcp_ready st4" "length (sk_rx st4) < 12" using s4(2) by (simp_all add: tcp.at_wire_def)
    from read_loop_short [OF this, of "[]"] obtain st5 where "read_loop tcp_stream 12 [] st4 = Some (None, st5)" "sk_rx st5 = []" by blast
    with False show ?thesis by (subst yamux_ping_loop.simps) (simp add: yamux_read_header_def yamux_read_full_def)
  qed
  then obtain s5 where s5: "yamux_ping_loop tcp_stream (ping_seq ss) (?s0\<lparr>ys_stream := st4\<rparr>) = Some (v = 0, s5)" "sk_rx (ys_stream s5) = []" by blast
  then have "yamux_ping_loop tcp_stream (ping_seq ss) (?s0\<lparr>ys_stream := st1\<rparr>) = Some (v = 0, s5)"
    by (subst yamux_ping_loop.simps) (simp add: s2(1) s3(1) s4(1) has_flag_def)
  then show ?thesis using s1(1) s5(2) open_ss by (auto simp: libp2p_yamux_session_ping_def Let_def)
qed

theorem ping_eats_answer_witness:
  "\<exists>ss'. libp2p_yamux_session_ping tcp_stream
     (sample_session (encode_header (ping_header 0 1) @ encode_header (ping_header YAMUX_FLAG_ACK 1))) = Some (False, ss') \<and> sk_rx (ys_stream ss') = []"
  using ping_eats_answer [of "sample_session (encode_header (ping_header 0 1) @ encode_header (ping_header YAMUX_FLAG_ACK 1))" 1 "[]"]
    sample_session_ok by simp

section \<open>Stream ids\<close>

text \<open>The two ends of a connection never open streams with the same id, whatever calls each session has seen
  and whatever bytes came from below: a client's ids are odd, a server's even. And in no session that calls lead to is a stream queued
  twice for being accepted.\<close>

theorem stream_ids_disjoint:
  assumes "libp2p_yamux_session_new sa False True ma = Some a0" and "(yamux_step io)\<^sup>*\<^sup>* a0 a"
    and "libp2p_yamux_session_new sb True True mb = Some b0" and "(yamux_step io')\<^sup>*\<^sup>* b0 b"
    and "libp2p_yamux_stream_open io a = Some (Some cx, a')" and "libp2p_yamux_stream_open io' b = Some (Some cx', b')"
  shows "cx_stream_id cx \<noteq> cx_stream_id cx' \<and> distinct (map pi_stream_id (pending_inbound a')) \<and>
    distinct (map pi_stream_id (pending_inbound b'))"
proof -
  have fr: "yamux_fresh False a0" "yamux_fresh True b0" using assms(1,3) unfolding yamux_fresh_def by blast+
  have a: "ids_ok a \<and> is_server a = False" by (rule yamux_machine.reachable_inv [OF fr(1) assms(2)])
  have b: "ids_ok b \<and> is_server b = True" by (rule yamux_machine.reachable_inv [OF fr(2) assms(4)])
  have "cx_stream_id cx = next_stream_id a" "cx_stream_id cx' = next_stream_id b"
    using stream_open_ids [OF assms(5)] stream_open_ids [OF assms(6)] by blast+
  then have "cx_stream_id cx \<noteq> cx_stream_id cx'" using a b by (auto simp: ids_ok_def)
  moreover have "distinct (map pi_stream_id (pending_inbound a'))" "distinct (map pi_stream_id (pending_inbound b'))"
    using stream_open_ids [OF assms(5)] stream_open_ids [OF assms(6)] a b unfolding ids_ok_def by blast+
  ultimately show ?thesis by simp
qed

lemma session_new_ok:
  assumes "libp2p_yamux_session_new (sample_sock rx) server True (\<lambda>_. True) = Some ss"
  shows "tcp_session ss rx []" and "next_stream_id ss = (if server then 2 else 1)"
  using assms by (auto simp: libp2p_yamux_session_new_def tcp_session_def)

lemma session_new_opens:
  assumes "libp2p_yamux_session_new (sample_sock (encode_header (update_header YAMUX_FLAG_ACK (if server then 2 else 1) 0)))
      server True (\<lambda>_. True) = Some ss"
  shows "\<exists>cx ss'. libp2p_yamux_stream_open tcp_stream ss = Some (Some cx, ss')"
proof -
  have "tcp.healthy ss (encode_header (update_header YAMUX_FLAG_ACK (next_stream_id ss) 0) @ []) []"
    using session_new_ok [OF assms] by (simp add: tcp_session_healthy)
  from tcp.stream_open_live [OF this] show ?thesis by blast
qed

theorem stream_ids_disjoint_witness:
  "\<exists>a b cx cx' a' b'. libp2p_yamux_stream_open tcp_stream a = Some (Some cx, a') \<and> libp2p_yamux_stream_open tcp_stream b = Some (Some cx', b') \<and>
     cx_stream_id cx \<noteq> cx_stream_id cx'"
proof -
  let ?new = "\<lambda>server. libp2p_yamux_session_new (sample_sock (encode_header (update_header YAMUX_FLAG_ACK (if server then 2 else 1) 0)))
      server True (\<lambda>_. True)"
  obtain a b where n: "?new False = Some a" "?new True = Some b" by (simp add: libp2p_yamux_session_new_def)
  obtain cx a' where a: "libp2p_yamux_stream_open tcp_stream a = Some (Some cx, a')" using session_new_opens [OF n(1)] by blast
  obtain cx' b' where b: "libp2p_yamux_stream_open tcp_stream b = Some (Some cx', b')" using session_new_opens [OF n(2)] by blast
  from stream_ids_disjoint [OF n(1) rtranclp.rtrancl_refl n(2) rtranclp.rtrancl_refl a b] a b show ?thesis by blast
qed

text \<open>C24. Opening a stream meets accepting it: over working sockets \<open>libp2p_yamux_stream_open\<close> sends exactly the SYN
  that \<open>libp2p_yamux_stream_accept\<close> waits for, which sends exactly the ACK the first waits for; both return the same stream, with
  full windows on both sides, and leave what follows on the wire.\<close>

theorem open_meets_accept:
  assumes "tcp_session a (encode_header (update_header YAMUX_FLAG_ACK (next_stream_id a) 0) @ ra) []"
    and "tcp_session b (encode_header (update_header YAMUX_FLAG_SYN (next_stream_id a) 0) @ rb) []" and "pending_inbound b = []"
  shows "\<exists>cx a' b'. libp2p_yamux_stream_open tcp_stream a = Some (Some cx, a') \<and> libp2p_yamux_stream_accept tcp_stream b = Some (Some cx, b') \<and>
    cx_stream_id cx = next_stream_id a \<and> send_window cx = YAMUX_INITIAL_WINDOW_SIZE \<and> recv_window cx = YAMUX_INITIAL_WINDOW_SIZE \<and>
    sk_rx (ys_stream b) = sk_tx (ys_stream a') @ rb \<and> sk_rx (ys_stream a) = sk_tx (ys_stream b') @ ra \<and>
    sk_rx (ys_stream a') = ra \<and> sk_rx (ys_stream b') = rb"
proof -
  let ?cx = "new_ctx (next_stream_id a) True"
  obtain a' where a': "libp2p_yamux_stream_open tcp_stream a = Some (Some (?cx\<lparr>send_window := YAMUX_INITIAL_WINDOW_SIZE + 0\<rparr>), a')"
    "tcp_session a' ra ([] @ encode_header (update_header YAMUX_FLAG_SYN (next_stream_id a) 0))"
    using tcp.stream_open_live [OF assms(1) [unfolded tcp_session_healthy]] unfolding tcp_session_healthy by blast
  obtain b' where b': "libp2p_yamux_stream_accept tcp_stream b = Some (Some ?cx, b')"
    "tcp_session b' rb ([] @ encode_header (update_header YAMUX_FLAG_ACK (next_stream_id a) 0))"
    using tcp.stream_accept_live [OF assms(2) [unfolded tcp_session_healthy] assms(3)] unfolding tcp_session_healthy by blast
  have "?cx\<lparr>send_window := YAMUX_INITIAL_WINDOW_SIZE + 0\<rparr> = ?cx" by (simp add: new_ctx_def)
  with a' b' assms show ?thesis
    by (intro exI [of _ ?cx] exI [of _ a'] exI [of _ b']) (simp add: tcp_session_def new_ctx_def)
qed

theorem open_meets_accept_witness:
  "\<exists>cx a' b'. libp2p_yamux_stream_open tcp_stream (sample_session (encode_header (update_header YAMUX_FLAG_ACK 1 0))) = Some (Some cx, a') \<and>
     libp2p_yamux_stream_accept tcp_stream (sample_session (encode_header (update_header YAMUX_FLAG_SYN 1 0))) = Some (Some cx, b') \<and>
     cx_stream_id cx = 1"
  using open_meets_accept [of "sample_session (encode_header (update_header YAMUX_FLAG_ACK 1 0))" "[]"
      "sample_session (encode_header (update_header YAMUX_FLAG_SYN 1 0))" "[]"] sample_session_ok
  by auto

end
