(* ===== verification/Noise_Stream.thy ===== *)
theory Noise_Stream
  imports Noise_V2 Tcp_V2
begin

text \<open>
  The encrypted stream keeps the stream contract. Seen from above, an established Noise context over a stream that
  does not split its headers is itself a stream, of writes up to 65519 bytes: what can be read is the buffered
  plaintext followed by the plaintexts of the frames on the wire below, what was sent are the plaintexts of the
  frames written since the handshake.
\<close>

section \<open>Frames\<close>

lemma length_frame_header [simp]: "length (frame_header n) = 2"
  by (simp add: frame_header_def)

lemma frame_header_ne [simp]: "frame_header n \<noteq> []"
  by (simp add: frame_header_def)

lemma header_len_frame [simp]: "n \<le> 65535 \<Longrightarrow> header_len (frame_header n) = n"
proof -
  assume n: "n \<le> 65535"
  have "unat (of_nat (n div 256) :: byte) = n div 256" using n by (simp add: unat_of_nat)
  moreover have "unat (of_nat n :: byte) = n mod 256" by (simp add: unat_of_nat)
  ultimately show ?thesis by (simp add: header_len_def frame_header_def)
qed

lemma header_len_pair: "frame_header n = [b1, b2] \<Longrightarrow> n \<le> 65535 \<Longrightarrow> header_len [b1, b2] = n"
  using header_len_frame [of n] by simp

lemma frame_header_pair: "\<exists>b1 b2. frame_header n = [b1, b2]"
  by (simp add: frame_header_def)

lemma length_nonce_bytes [simp]: "length (nonce_bytes n) = 12"
  by (simp add: nonce_bytes_def)

lemma noise_encrypt_ok:
  assumes "aead_ok L" and "length key = 32" and "length p \<le> 65535"
  shows "\<exists>c. noise_encrypt L key n ad p = Some c \<and> length c = length p + 16 \<and> noise_decrypt L key n ad c = Some p"
proof -
  obtain c where "aead_seal L key (nonce_bytes n) ad p = Some c" "length c = length p + 16" "aead_open L key (nonce_bytes n) ad c = Some p"
    using assms unfolding aead_ok_def by (metis length_nonce_bytes)
  then show ?thesis by (simp add: noise_encrypt_def noise_decrypt_def NOISE_TAGLEN_def)
qed

text \<open>One encrypted frame, the frames of a list of plaintexts, and the plaintexts of a byte stream.\<close>

definition noise_frame :: "ext_lib \<Rightarrow> bytes \<Rightarrow> 64 word \<Rightarrow> bytes \<Rightarrow> bytes" where
  "noise_frame L key n p = (case noise_encrypt L key n [] p of None \<Rightarrow> [] | Some c \<Rightarrow> frame_header (length c) @ c)"

primrec noise_wire :: "ext_lib \<Rightarrow> bytes \<Rightarrow> 64 word \<Rightarrow> bytes list \<Rightarrow> bytes" where
  "noise_wire L key n [] = []"
| "noise_wire L key n (p # ps) = noise_frame L key n p @ noise_wire L key (n + 1) ps"

function noise_unwire :: "ext_lib \<Rightarrow> bytes \<Rightarrow> 64 word \<Rightarrow> bytes \<Rightarrow> bytes list" where
  "noise_unwire L key n bs =
     (if length bs < 2 + header_len bs then []
      else case noise_decrypt L key n [] (take (header_len bs) (drop 2 bs)) of
             None \<Rightarrow> []
           | Some p \<Rightarrow> p # noise_unwire L key (n + 1) (drop (2 + header_len bs) bs))"
  by pat_completeness auto
termination by (relation "measure (\<lambda>(L, key, n, bs). length bs)") auto

declare noise_unwire.simps [simp del]

definition plain_ok :: "bytes \<Rightarrow> bool" where
  "plain_ok p \<longleftrightarrow> p \<noteq> [] \<and> length p \<le> 65519"

lemma noise_frame_ok:
  assumes "aead_ok L" and "length key = 32" and "length p \<le> 65519"
  shows "\<exists>c. noise_frame L key n p = frame_header (length p + 16) @ c \<and> noise_encrypt L key n [] p = Some c \<and>
    length c = length p + 16 \<and> noise_decrypt L key n [] c = Some p"
proof -
  have "length p \<le> 65535" using assms(3) by simp
  from noise_encrypt_ok [OF assms(1,2) this, of n "[]"] show ?thesis by (auto simp: noise_frame_def)
qed

lemma noise_unwire_Nil [simp]: "noise_unwire L key n [] = []"
  by (simp add: noise_unwire.simps)

lemma noise_unwire_frame:
  assumes "aead_ok L" and "length key = 32" and "length p \<le> 65519"
  shows "noise_unwire L key n (noise_frame L key n p @ bs) = p # noise_unwire L key (n + 1) bs"
proof -
  obtain c where c: "noise_frame L key n p = frame_header (length p + 16) @ c" "length c = length p + 16" "noise_decrypt L key n [] c = Some p"
    using noise_frame_ok [OF assms] by blast
  obtain b1 b2 where b: "frame_header (length p + 16) = [b1, b2]" using frame_header_pair by blast
  then have "header_len (b1 # b2 # c @ bs) = length c"
    using header_len_pair [OF b] assms(3) c(2) by (simp add: header_len_def)
  moreover have "drop (2 + length c) (b1 # b2 # c @ bs) = bs" "take (length c) (drop 2 (b1 # b2 # c @ bs)) = c" by simp_all
  ultimately show ?thesis using b c
    by (simp add: noise_unwire.simps [of L key n "b1 # b2 # c @ bs"] del: drop_append)
qed

lemma noise_unwire_wire [simp]:
  "aead_ok L \<Longrightarrow> length key = 32 \<Longrightarrow> \<forall>p \<in> set ps. plain_ok p \<Longrightarrow> noise_unwire L key n (noise_wire L key n ps) = ps"
  by (induction ps arbitrary: n) (simp_all add: noise_unwire_frame plain_ok_def)

lemma noise_wire_append:
  "noise_wire L key n (ps @ qs) = noise_wire L key n ps @ noise_wire L key (n + of_nat (length ps)) qs"
  by (induction ps arbitrary: n) (simp_all add: algebra_simps)

section \<open>The plaintext buffer\<close>

definition nz_pending :: "'s noise_ctx \<Rightarrow> bytes" where
  "nz_pending c = take (nz_len c - nz_pos c) (drop (nz_pos c) (nz_buf c))"

definition nz_buf_ok :: "'s noise_ctx \<Rightarrow> bool" where
  "nz_buf_ok c \<longleftrightarrow> length (nz_buf c) = 65536 \<and> nz_len c \<le> 65536 \<and> (nz_pos c < nz_len c \<or> nz_pos c = 0 \<and> nz_len c = 0)"

lemma nz_pending_Nil: "nz_buf_ok c \<Longrightarrow> nz_pending c = [] \<longleftrightarrow> \<not> nz_pos c < nz_len c"
  by (auto simp: nz_pending_def nz_buf_ok_def)

lemma noise_serve_ok:
  assumes "length (nz_buf c) = 65536" and "nz_len c \<le> 65536" and "nz_pos c \<le> nz_len c"
  shows "\<exists>c'. noise_serve n c = (take n (nz_pending c), c') \<and> nz_pending c' = drop n (nz_pending c) \<and> nz_buf_ok c' \<and>
    raw_stream c' = raw_stream c \<and> read_key c' = read_key c \<and> write_key c' = write_key c \<and>
    read_nonce c' = read_nonce c \<and> write_nonce c' = write_nonce c"
proof -
  have len: "length (nz_pending c) = nz_len c - nz_pos c" using assms by (simp add: nz_pending_def)
  let ?k = "min n (nz_len c - nz_pos c)"
  have out: "take ?k (drop (nz_pos c) (nz_buf c)) = take n (nz_pending c)" by (simp add: nz_pending_def min.commute)
  show ?thesis
  proof (cases "nz_pos c + ?k = nz_len c")
    case True
    then have "drop n (nz_pending c) = []" using len by auto
    with True out assms show ?thesis by (simp add: noise_serve_def Let_def nz_pending_def nz_buf_ok_def)
  next
    case False
    then have "?k = n" "nz_pos c + n < nz_len c" using assms(3) by auto
    with False out assms show ?thesis
      by (simp add: noise_serve_def Let_def nz_pending_def nz_buf_ok_def drop_take add.commute)
  qed
qed

section \<open>The stream above\<close>

definition nz_avail :: "ext_lib \<Rightarrow> ('s \<Rightarrow> bytes) \<Rightarrow> 's noise_ctx \<Rightarrow> bytes" where
  "nz_avail L avail c = nz_pending c @ concat (noise_unwire L (read_key c) (read_nonce c) (avail (raw_stream c)))"

definition nz_sent :: "ext_lib \<Rightarrow> ('s \<Rightarrow> bytes) \<Rightarrow> nat \<Rightarrow> 's noise_ctx \<Rightarrow> bytes" where
  "nz_sent L sent k c = concat (noise_unwire L (write_key c) 0 (drop k (sent (raw_stream c))))"

lemma noise_io_simps [simp]:
  "v2_read (noise_io L True io) = noise_stream_read L io True" "v2_write (noise_io L True io) = noise_stream_write L io"
  by (simp_all add: noise_io_def)

context v2_framed
begin

text \<open>A context in working order: the bytes below are frames of the peer, and what was sent below since the
  handshake, which wrote \<open>k\<close> bytes, are this side's frames.\<close>

definition nz_ready :: "ext_lib \<Rightarrow> nat \<Rightarrow> 's noise_ctx \<Rightarrow> bool" where
  "nz_ready L k c \<longleftrightarrow> ready (raw_stream c) \<and> length (read_key c) = 32 \<and> length (write_key c) = 32 \<and> nz_buf_ok c \<and>
     (\<exists>ps. (\<forall>p \<in> set ps. plain_ok p) \<and> avail (raw_stream c) = noise_wire L (read_key c) (read_nonce c) ps) \<and>
     (\<exists>qs. (\<forall>q \<in> set qs. plain_ok q) \<and> k \<le> length (sent (raw_stream c)) \<and>
       drop k (sent (raw_stream c)) = noise_wire L (write_key c) 0 qs \<and> write_nonce c = of_nat (length qs))"

lemma nz_read_frame:
  assumes "aead_ok L" and "length (read_key c) = 32" and "plain_ok p" and "length (nz_buf c) = 65536" and "\<not> nz_pos c < nz_len c"
    and "at_wire (raw_stream c) (noise_frame L (read_key c) (read_nonce c) p @ a) w"
  shows "\<exists>st c'. noise_stream_read L io True c n = Some (Some (take n p), c') \<and> at_wire st a w \<and> nz_pending c' = drop n p \<and> nz_buf_ok c' \<and>
    raw_stream c' = st \<and> read_key c' = read_key c \<and> write_key c' = write_key c \<and> read_nonce c' = read_nonce c + 1 \<and>
    write_nonce c' = write_nonce c"
proof -
  have p: "length p \<le> 65519" using assms(3) by (simp add: plain_ok_def)
  obtain ct where ct: "noise_frame L (read_key c) (read_nonce c) p = frame_header (length p + 16) @ ct" "length ct = length p + 16"
      "noise_decrypt L (read_key c) (read_nonce c) [] ct = Some p"
    using noise_frame_ok [OF assms(1,2) p] by blast
  obtain b1 b2 where b: "frame_header (length p + 16) = [b1, b2]" using frame_header_pair by blast
  then have h: "header_len [b1, b2] = length ct" using header_len_pair [OF b] p ct(2) by simp
  obtain s1 where s1: "v2_read io (raw_stream c) 2 = Some (Some [b1, b2], s1)" "at_wire s1 (ct @ a) w"
    using at_wire_read_two [of "raw_stream c" b1 b2 "ct @ a" w] assms(6) ct(1) b by auto
  obtain s2 where s2: "read_loop io (length ct) [] s1 = Some (Some ct, s2)" "at_wire s2 a w" using at_wire_read_loop [OF s1(2)] by blast
  let ?c = "c\<lparr>raw_stream := s2, read_nonce := read_nonce c + 1, nz_buf := memcpy (nz_buf c) p, nz_len := length p, nz_pos := 0\<rparr>"
  have "nz_pending ?c = p" by (simp add: nz_pending_def)
  then obtain c' where c': "noise_serve n ?c = (take n p, c')" "nz_pending c' = drop n p" "nz_buf_ok c'" "raw_stream c' = s2"
      "read_key c' = read_key c" "write_key c' = write_key c" "read_nonce c' = read_nonce c + 1" "write_nonce c' = write_nonce c"
    using noise_serve_ok [of ?c n] assms(4) p by auto
  have "noise_stream_read L io True c n = Some (Some (take n p), c')"
    using s1(1) s2(1) h ct(2,3) c'(1) p assms(5) by (simp add: noise_stream_read_def Let_def NOISE_TAGLEN_def)
  then show ?thesis using c' s2(2) by blast
qed

lemma nz_write_frame:
  assumes "aead_ok L" and "length (write_key c) = 32" and "plain_ok b" and "fits 65535" and "at_wire (raw_stream c) a w"
  shows "\<exists>st. noise_stream_write L io c b = Some (int (length b), c\<lparr>raw_stream := st, write_nonce := write_nonce c + 1\<rparr>) \<and>
    at_wire st a (w @ noise_frame L (write_key c) (write_nonce c) b)"
proof -
  have p: "length b \<le> 65519" using assms(3) by (simp add: plain_ok_def)
  obtain ct where ct: "noise_frame L (write_key c) (write_nonce c) b = frame_header (length b + 16) @ ct"
      "noise_encrypt L (write_key c) (write_nonce c) [] b = Some ct" "length ct = length b + 16"
    using noise_frame_ok [OF assms(1,2) p] by blast
  have fits: "fits 2" "fits (length ct)" using fits_mono [OF assms(4)] p ct(3) by auto
  obtain s1 where s1: "v2_write io (raw_stream c) (frame_header (length b + 16)) = Some (2, s1)" "at_wire s1 a (w @ frame_header (length b + 16))"
    using at_wire_write [OF assms(5), of "frame_header (length b + 16)"] fits(1) by auto
  have "ct \<noteq> []" using ct(3) by auto
  then obtain s2 where s2: "v2_write io s1 ct = Some (int (length ct), s2)" "at_wire s2 a ((w @ frame_header (length b + 16)) @ ct)"
    using at_wire_write [OF s1(2) _ fits(2)] by blast
  have "take (length b + 16) ct = ct" using ct(3) by simp
  with s1(1) s2 ct p show ?thesis by (intro exI [of _ s2]) (simp add: noise_stream_write_def Let_def NOISE_TAGLEN_def)
qed

lemma nz_read_live:
  assumes "aead_ok L" and "nz_ready L k c" and "0 < n" and "nz_avail L avail c \<noteq> []"
  shows "\<exists>bs c'. noise_stream_read L io True c n = Some (Some bs, c') \<and> bs \<noteq> [] \<and> length bs \<le> n \<and>
    nz_avail L avail c = bs @ nz_avail L avail c' \<and> nz_sent L sent k c' = nz_sent L sent k c \<and> nz_ready L k c'"
proof (cases "nz_pending c = []")
  case False
  have ok: "nz_buf_ok c" using assms(2) by (simp add: nz_ready_def)
  then have lt: "nz_pos c < nz_len c" using False nz_pending_Nil by blast
  then obtain c' where "noise_serve n c = (take n (nz_pending c), c')" "nz_pending c' = drop n (nz_pending c)" "nz_buf_ok c'"
      "raw_stream c' = raw_stream c" "read_key c' = read_key c" "write_key c' = write_key c"
      "read_nonce c' = read_nonce c" "write_nonce c' = write_nonce c"
    using noise_serve_ok [of c n] ok by (auto simp: nz_buf_ok_def)
  then show ?thesis using False lt assms(2,3)
    by (intro exI [of _ "take n (nz_pending c)"] exI [of _ c']) (auto simp: noise_stream_read_def nz_avail_def nz_sent_def nz_ready_def)
next
  case True
  have R: "ready (raw_stream c)" "length (read_key c) = 32" "nz_buf_ok c" using assms(2) by (auto simp: nz_ready_def)
  obtain ps where ps: "\<forall>p \<in> set ps. plain_ok p" "avail (raw_stream c) = noise_wire L (read_key c) (read_nonce c) ps"
    using assms(2) by (auto simp: nz_ready_def)
  then have "ps \<noteq> []" using assms(4) True by (auto simp: nz_avail_def)
  then obtain p qs where q: "ps = p # qs" by (cases ps) auto
  let ?a = "noise_wire L (read_key c) (read_nonce c + 1) qs"
  have pq: "plain_ok p" "\<forall>p \<in> set qs. plain_ok p" using ps(1) q by auto
  have wire: "at_wire (raw_stream c) (noise_frame L (read_key c) (read_nonce c) p @ ?a) (sent (raw_stream c))"
    using R(1) ps(2) q by (simp add: at_wire_def)
  have idle: "\<not> nz_pos c < nz_len c" "length (nz_buf c) = 65536" using R(3) True nz_pending_Nil by (auto simp: nz_buf_ok_def)
  obtain st c' where c': "noise_stream_read L io True c n = Some (Some (take n p), c')" "at_wire st ?a (sent (raw_stream c))"
      "nz_pending c' = drop n p" "nz_buf_ok c'" "raw_stream c' = st" "read_key c' = read_key c" "write_key c' = write_key c"
      "read_nonce c' = read_nonce c + 1" "write_nonce c' = write_nonce c"
    using nz_read_frame [OF assms(1) R(2) pq(1) idle(2,1) wire] by blast
  have "nz_avail L avail c = p @ concat qs"
    unfolding nz_avail_def ps(2) noise_unwire_wire [OF assms(1) R(2) ps(1)] using True q by simp
  moreover have "nz_avail L avail c' = drop n p @ concat qs"
    using c' assms(1) R(2) pq(2) by (simp add: nz_avail_def at_wire_def)
  moreover have "nz_ready L k c'" using assms(2) c' pq(2) by (auto simp: nz_ready_def at_wire_def)
  moreover have "nz_sent L sent k c' = nz_sent L sent k c" using c' by (simp add: nz_sent_def at_wire_def)
  moreover have "take n p \<noteq> []" using pq(1) assms(3) by (auto simp: plain_ok_def)
  ultimately show ?thesis using c'(1) by (intro exI [of _ "take n p"] exI [of _ c']) simp
qed

lemma nz_write_live:
  assumes "aead_ok L" and "fits 65535" and "nz_ready L k c" and "plain_ok b"
  shows "\<exists>c'. noise_stream_write L io c b = Some (int (length b), c') \<and> nz_sent L sent k c' = nz_sent L sent k c @ b \<and>
    nz_avail L avail c' = nz_avail L avail c \<and> nz_ready L k c'"
proof -
  have R: "ready (raw_stream c)" "length (write_key c) = 32" "nz_buf_ok c" using assms(3) by (auto simp: nz_ready_def)
  obtain ps where ps: "\<forall>p \<in> set ps. plain_ok p" "avail (raw_stream c) = noise_wire L (read_key c) (read_nonce c) ps"
    using assms(3) by (auto simp: nz_ready_def)
  obtain qs where qs: "\<forall>q \<in> set qs. plain_ok q" "k \<le> length (sent (raw_stream c))"
      "drop k (sent (raw_stream c)) = noise_wire L (write_key c) 0 qs" "write_nonce c = of_nat (length qs)"
    using assms(3) by (auto simp: nz_ready_def)
  have "at_wire (raw_stream c) (avail (raw_stream c)) (sent (raw_stream c))" using R(1) by (simp add: at_wire_def)
  then obtain st where w: "noise_stream_write L io c b = Some (int (length b), c\<lparr>raw_stream := st, write_nonce := write_nonce c + 1\<rparr>)"
      "at_wire st (avail (raw_stream c)) (sent (raw_stream c) @ noise_frame L (write_key c) (write_nonce c) b)"
    using nz_write_frame [OF assms(1) R(2) assms(4,2)] by blast
  let ?c = "c\<lparr>raw_stream := st, write_nonce := write_nonce c + 1\<rparr>"
  have tx: "drop k (sent st) = noise_wire L (write_key c) 0 (qs @ [b])" "\<forall>q \<in> set (qs @ [b]). plain_ok q" "k \<le> length (sent st)"
    using w(2) qs assms(4) by (auto simp: at_wire_def noise_wire_append)
  then have "nz_sent L sent k ?c = nz_sent L sent k c @ b" using qs assms(1) R(2) by (simp add: nz_sent_def)
  moreover have "nz_ready L k ?c"
    unfolding nz_ready_def by (intro conjI exI [of _ ps] exI [of _ "qs @ [b]"])
      (use assms(3) w(2) tx qs(4) ps in \<open>auto simp: at_wire_def nz_ready_def nz_buf_ok_def\<close>)
  moreover have "nz_avail L avail ?c = nz_avail L avail c" using w(2) by (simp add: nz_avail_def at_wire_def nz_pending_def)
  ultimately show ?thesis using w(1) by blast
qed

theorem noise_stream_contract:
  assumes "aead_ok L" and "fits 65535"
  shows "v2_packet (noise_io L True io) (nz_avail L avail) (nz_sent L sent k) (nz_ready L k) (\<lambda>n. n \<le> 65519)"
proof
  show "\<exists>bs c'. v2_read (noise_io L True io) c n = Some (Some bs, c') \<and> bs \<noteq> [] \<and> length bs \<le> n \<and> nz_avail L avail c = bs @ nz_avail L avail c' \<and>
      nz_sent L sent k c' = nz_sent L sent k c \<and> nz_ready L k c' \<and> (\<forall>m. m \<le> 65519 \<longrightarrow> m \<le> 65519)"
    if "nz_ready L k c" "0 < n" "nz_avail L avail c \<noteq> []" for c n
    using nz_read_live [OF assms(1) that] by simp
  show "\<exists>c'. v2_write (noise_io L True io) c b = Some (int (length b), c') \<and> nz_sent L sent k c' = nz_sent L sent k c @ b \<and>
      nz_avail L avail c' = nz_avail L avail c \<and> nz_ready L k c' \<and> n - length b \<le> 65519"
    if "nz_ready L k c" "n \<le> 65519" "0 < length b" "length b \<le> n" for c n and b :: bytes
    using nz_write_live [OF assms that(1), of b] that(2-4) by (auto simp: plain_ok_def)
qed simp_all

end

end
