(* ===== verification/Noise_Handshake.thy ===== *)
theory Noise_Handshake
  imports Noise_Stream
begin

text \<open>
  The two sides of the Noise handshake meet: whatever one side sends the other accepts and both end with the same
  hash, chaining key and cipher keys. The messages are related first as pure functions of the handshake variables,
  then the frames that carry them over any stream that does not split headers.
\<close>

section \<open>The handshake variables\<close>

definition sym_ok :: "noise_sym \<Rightarrow> bool" where
  "sym_ok y \<longleftrightarrow> length (sy_k y) = 32"

lemma mix_hash_ok [simp]: "sym_ok (noise_mix_hash L d y) = sym_ok y"
  by (simp add: sym_ok_def noise_mix_hash_def)

lemma noise_hkdf_ok:
  assumes "hash_ok L"
  shows "\<exists>k1 k2. noise_hkdf L ck ikm out = (True, k1 @ k2) \<and> length k1 = 32 \<and> length k2 = 32"
proof -
  have h: "\<exists>d. hmac_sha256 L k m = Some d \<and> length d = 32" for k m using assms by (simp add: hash_ok_def)
  obtain prk where prk: "hmac_sha256 L ck ikm = Some prk" using h by blast
  obtain k1 where k1: "hmac_sha256 L prk [1] = Some k1" "length k1 = 32" using h by blast
  obtain k2 where "hmac_sha256 L prk (take NOISE_HASHLEN k1 @ [2]) = Some k2" "length k2 = 32" using h by blast
  with prk k1 show ?thesis by (intro exI [of _ k1] exI [of _ k2]) (simp add: noise_hkdf_def)
qed

lemma mix_key_ok: "hash_ok L \<Longrightarrow> sym_ok (noise_mix_key L ikm y)"
proof -
  assume "hash_ok L"
  from noise_hkdf_ok [OF this, of "sy_ck y" ikm "stack_junk L"] show ?thesis
    by (auto simp: sym_ok_def noise_mix_key_def NOISE_HASHLEN_def Let_def)
qed

lemma sym_round_trip:
  assumes "aead_ok L" and "sym_ok y" and "length p \<le> 65535"
  shows "\<exists>c y'. sym_encrypt L p y = Some (c, y') \<and> sym_decrypt L c y = Some (p, y') \<and> length c = length p + 16 \<and> sym_ok y'"
proof -
  obtain c where "noise_encrypt L (sy_k y) (sy_n y) (sy_h y) p = Some c" "length c = length p + 16"
      "noise_decrypt L (sy_k y) (sy_n y) (sy_h y) c = Some p"
    using noise_encrypt_ok [OF assms(1) assms(2) [unfolded sym_ok_def] assms(3)] by blast
  then show ?thesis using assms(2) by (simp add: sym_encrypt_def sym_decrypt_def sym_ok_def noise_mix_hash_def)
qed

section \<open>The identity payload\<close>

lemma noise_payload_encode_bound:
  assumes "encoder_bounded L" and "noise_payload_encode L k g cap = Some b"
  shows "length b \<le> cap"
proof -
  obtain b1 b2 where b: "b = b1 @ b2"
      "(if k = [] then Some [] else protobuf_encode_length_delimited L 1 k cap) = Some b1"
      "(if g = [] then Some [] else protobuf_encode_length_delimited L 2 g (cap - length b1)) = Some b2"
    using assms(2) unfolding noise_payload_encode_def bind_eq_Some_conv by auto
  have enc: "length b \<le> cap" if "protobuf_encode_length_delimited L fld d cap = Some b" for fld d cap b
    using assms(1) that by (simp add: encoder_bounded_def)
  have "length b1 \<le> cap" using b(2) enc by (auto split: if_splits)
  moreover have "length b2 \<le> cap - length b1" using b(3) enc by (auto split: if_splits)
  ultimately show ?thesis using b(1) by simp
qed

lemma identity_payload_bound: "encoder_bounded L \<Longrightarrow> length (noise_identity_payload L cb k s) \<le> 1024"
  using noise_payload_encode_bound [of L]
  by (auto simp: noise_identity_payload_def bind_eq_Some_conv split: option.split)

section \<open>Messages\<close>

text \<open>A static key and a payload as a side of the handshake would send them, whatever the payload.\<close>

definition static_message :: "ext_lib \<Rightarrow> bytes \<times> bytes \<Rightarrow> bytes \<Rightarrow> bytes \<Rightarrow> noise_sym \<Rightarrow> (bytes \<times> noise_sym) option" where
  "static_message L s re payload y =
     do {
       (c1, y1) \<leftarrow> sym_encrypt L (snd s) y;
       x \<leftarrow> x25519_derive L (fst s) re;
       (c2, y2) \<leftarrow> sym_encrypt L payload (noise_mix_key L x y1);
       Some (c1 @ c2, y2)
     }"

lemma send_static_message:
  "ev_static ev = Some s \<Longrightarrow> noise_send_static L ev cb k re y = static_message L s re (noise_identity_payload L cb k (snd s)) y"
  by (cases s) (simp add: noise_send_static_def static_message_def)

text \<open>What a side makes of the outcome of its check.\<close>

definition after_check :: "noise_sym \<Rightarrow> noise_peer option \<Rightarrow> noise_peer option outcome option \<Rightarrow> (noise_sym outcome \<times> noise_peer option) option" where
  "after_check y q r =
     (case r of
        None \<Rightarrow> None
      | Some (Returns q') \<Rightarrow> Some (Returns y, q')
      | Some Fails \<Rightarrow> Some (Fails, q)
      | Some Undefined \<Rightarrow> Some (Undefined, q))"

lemma after_check_simps [simp]:
  "after_check y q None = None" "after_check y q (Some (Returns q')) = Some (Returns y, q')" "after_check y q (Some Fails) = Some (Fails, q)"
  "after_check y q (Some Undefined) = Some (Undefined, q)"
  by (simp_all add: after_check_def)

text \<open>What one side sends of its static key and a payload, the other decrypts; what happens next is up to the check
  of the identity.\<close>

lemma static_exchange:
  assumes "aead_ok L" and "hash_ok L" and "sym_ok y" and "dh_agrees L s e" and "length p \<le> 2048"
  shows "\<exists>m y'. static_message L s (snd e) p y = Some (m, y') \<and> sym_ok y' \<and> length m = length p + 64 \<and>
    (\<forall>ev (cb :: 'k noise_callbacks option) q.
      noise_read_static L ev cb (fst e) m y q = after_check y' q (noise_check_identity L ev cb (snd s) p q))"
proof -
  obtain x where x: "length (snd s) = 32" "x25519_derive L (fst s) (snd e) = Some x" "x25519_derive L (fst e) (snd s) = Some x"
    using assms(4) by (auto simp: dh_agrees_def)
  obtain c1 y1 where c1: "sym_encrypt L (snd s) y = Some (c1, y1)" "sym_decrypt L c1 y = Some (snd s, y1)" "length c1 = 48"
    using sym_round_trip [OF assms(1,3), of "snd s"] x(1) by auto
  have "length p \<le> 65535" using assms(5) by simp
  then obtain c2 y2 where c2: "sym_encrypt L p (noise_mix_key L x y1) = Some (c2, y2)" "sym_decrypt L c2 (noise_mix_key L x y1) = Some (p, y2)"
      "length c2 = length p + 16" "sym_ok y2"
    using sym_round_trip [OF assms(1) mix_key_ok [OF assms(2)]] by blast
  have "static_message L s (snd e) p y = Some (c1 @ c2, y2)" using x(2) c1(1) c2(1) by (simp add: static_message_def)
  moreover have "length (c1 @ c2) = length p + 64" using c1(3) c2(3) by simp
  moreover have "noise_read_static L ev cb (fst e) (c1 @ c2) y q = after_check y2 q (noise_check_identity L ev cb (snd s) p q)"
    for ev and cb :: "'k noise_callbacks option" and q
    using c1(2,3) x(3) c2(2,3) assms(5)
    by (simp add: noise_read_static_def noise_remote_payload_def after_check_def NOISE_TAGLEN_def NOISE_DHLEN_def
        split: option.split outcome.split)
  ultimately show ?thesis using c2(4) by blast
qed

text \<open>The assumptions of a handshake between an initiator and a responder.\<close>

definition noise_meets :: "ext_lib \<Rightarrow> noise_env \<Rightarrow> noise_env \<Rightarrow> bytes \<times> bytes \<Rightarrow> bytes \<times> bytes \<Rightarrow> bytes \<times> bytes \<Rightarrow> bytes \<times> bytes \<Rightarrow> bool" where
  "noise_meets L evI evR eI sI eR sR \<longleftrightarrow>
     aead_ok L \<and> hash_ok L \<and> encoder_bounded L \<and>
     ev_ephemeral evI = Some eI \<and> ev_static evI = Some sI \<and> ev_ctx_mem evI \<and> ev_stream_mem evI \<and>
     ev_ephemeral evR = Some eR \<and> ev_static evR = Some sR \<and> ev_ctx_mem evR \<and> ev_stream_mem evR \<and>
     dh_agrees L eI eR \<and> dh_agrees L sR eI \<and> dh_agrees L sI eR"

definition first_hash :: "ext_lib \<Rightarrow> bytes \<Rightarrow> noise_sym" where
  "first_hash L e = noise_mix_hash L [] (noise_mix_hash L e (noise_sym_init L))"

lemma sym_init_ok [simp]: "sym_ok (noise_sym_init L)"
  by (simp add: noise_sym_init_def sym_ok_def noise_mix_hash_def NOISE_HASHLEN_def Let_def)

text \<open>The message of a responder with the keys \<open>eR\<close> and \<open>sR\<close> and a payload of its choice.\<close>

lemma first_exchange:
  assumes "aead_ok L" and "hash_ok L" and "dh_agrees L eI eR" and "dh_agrees L sR eI" and "length p \<le> 2048"
  shows "\<exists>x c y2. x25519_derive L (fst eR) (snd eI) = Some x \<and>
    static_message L sR (snd eI) p (noise_mix_key L x (noise_mix_hash L (snd eR) (first_hash L (snd eI)))) = Some (c, y2) \<and>
    sym_ok y2 \<and> length c = length p + 64 \<and>
    (\<forall>ev (cb :: 'k noise_callbacks option) q. noise_initiator_read L ev cb (fst eI) (snd eR @ c) (first_hash L (snd eI)) q =
      after_check y2 q (noise_check_identity L ev cb (snd sR) p q))"
proof -
  obtain x where x: "length (snd eI) = 32" "length (snd eR) = 32" "x25519_derive L (fst eI) (snd eR) = Some x"
      "x25519_derive L (fst eR) (snd eI) = Some x" using assms(3) by (auto simp: dh_agrees_def)
  let ?y = "noise_mix_key L x (noise_mix_hash L (snd eR) (first_hash L (snd eI)))"
  obtain c y2 where c: "static_message L sR (snd eI) p ?y = Some (c, y2)" "sym_ok y2" "length c = length p + 64"
    "\<forall>ev (cb :: 'k noise_callbacks option) q.
      noise_read_static L ev cb (fst eI) c ?y q = after_check y2 q (noise_check_identity L ev cb (snd sR) p q)"
    using static_exchange [OF assms(1,2) mix_key_ok [OF assms(2)] assms(4,5)] by blast
  have "noise_initiator_read L ev cb (fst eI) (snd eR @ c) (first_hash L (snd eI)) q =
      after_check y2 q (noise_check_identity L ev cb (snd sR) p q)" for ev and cb :: "'k noise_callbacks option" and q
    using x c(4) by (simp add: noise_initiator_read_def NOISE_DHLEN_def)
  with c(1-3) x(4) show ?thesis by blast
qed

lemma message_exchange:
  assumes "noise_meets L evI evR eI sI eR sR"
    and "noise_check_identity L evI cbI (snd sR) (noise_identity_payload L cbR kR (snd sR)) pI = Some (Returns pI')"
    and "noise_check_identity L evR cbR (snd sI) (noise_identity_payload L cbI kI (snd sI)) pR = Some (Returns pR')"
  shows "\<exists>m2 y2 m3 y3. noise_responder_send L evR cbR kR (snd eI) (first_hash L (snd eI)) = Some (m2, y2) \<and>
    noise_initiator_read L evI cbI (fst eI) m2 (first_hash L (snd eI)) pI = Some (Returns y2, pI') \<and> take NOISE_DHLEN m2 = snd eR \<and>
    noise_send_static L evI cbI kI (snd eR) y2 = Some (m3, y3) \<and> noise_read_static L evR cbR (fst eR) m3 y2 pR = Some (Returns y3, pR') \<and>
    length m2 \<le> 1120 \<and> m2 \<noteq> [] \<and> length m3 \<le> 1120 \<and> m3 \<noteq> []"
proof -
  note A = assms(1) [unfolded noise_meets_def]
  have L: "aead_ok L" "hash_ok L" "encoder_bounded L" using A by simp_all
  let ?pR = "noise_identity_payload L cbR kR (snd sR)" and ?pI = "noise_identity_payload L cbI kI (snd sI)"
  have b: "length ?pR \<le> 1024" "length ?pI \<le> 1024" by (rule identity_payload_bound [OF L(3)])+
  have D: "dh_agrees L eI eR" "dh_agrees L sR eI" "dh_agrees L sI eR" and S: "ev_static evR = Some sR" "ev_static evI = Some sI"
    and E: "ev_ephemeral evR = Some eR" using A by simp_all
  have "length ?pR \<le> 2048" "length ?pI \<le> 2048" using b by simp_all
  note p = this
  obtain x c y2 where c: "x25519_derive L (fst eR) (snd eI) = Some x"
      "static_message L sR (snd eI) ?pR (noise_mix_key L x (noise_mix_hash L (snd eR) (first_hash L (snd eI)))) = Some (c, y2)" "sym_ok y2"
      "length c = length ?pR + 64" "noise_initiator_read L evI cbI (fst eI) (snd eR @ c) (first_hash L (snd eI)) pI =
        after_check y2 pI (noise_check_identity L evI cbI (snd sR) ?pR pI)"
    using first_exchange [OF L(1,2) D(1,2) p(1)] by blast
  obtain m3 y3 where m3: "static_message L sI (snd eR) ?pI y2 = Some (m3, y3)" "length m3 = length ?pI + 64"
      "noise_read_static L evR cbR (fst eR) m3 y2 pR = after_check y3 pR (noise_check_identity L evR cbR (snd sI) ?pI pR)"
    using static_exchange [OF L(1,2) c(3) D(3) p(2)] by blast
  have e: "length (snd eR) = 32" using D(1) by (simp add: dh_agrees_def)
  have "noise_responder_send L evR cbR kR (snd eI) (first_hash L (snd eI)) = Some (snd eR @ c, y2)"
    using E c(1,2) by (cases eR) (simp add: noise_responder_send_def send_static_message [OF S(1)])
  moreover have "noise_send_static L evI cbI kI (snd eR) y2 = Some (m3, y3)" using m3(1) by (simp add: send_static_message [OF S(2)])
  moreover have "take NOISE_DHLEN (snd eR @ c) = snd eR" "length (snd eR @ c) \<le> 1120" "snd eR @ c \<noteq> []" "length m3 \<le> 1120" "m3 \<noteq> []"
    using e c(4) m3(2) b by (auto simp: NOISE_DHLEN_def)
  ultimately show ?thesis using c(5) m3(3) unfolding assms(2,3) after_check_simps by blast
qed

lemma noise_split_keys:
  assumes "hash_ok L" and "ev_ctx_mem evI" and "ev_stream_mem evI" and "ev_ctx_mem evR" and "ev_stream_mem evR"
  shows "\<exists>k1 k2. length k1 = 32 \<and> length k2 = 32 \<and>
    noise_split L evI True y st = Returns \<lparr>raw_stream = st, read_key = k2, write_key = k1, read_nonce = 0, write_nonce = 0,
      nz_buf = zero_buf, nz_len = 0, nz_pos = 0\<rparr> \<and>
    noise_split L evR False y st' = Returns \<lparr>raw_stream = st', read_key = k1, write_key = k2, read_nonce = 0, write_nonce = 0,
      nz_buf = zero_buf, nz_len = 0, nz_pos = 0\<rparr>"
  using noise_hkdf_ok [OF assms(1), of "sy_ck y" "[]" "stack_junk L"] assms(2-5)
  by (auto simp: noise_split_def Let_def NOISE_KEYLEN_def NOISE_HASHLEN_def)

section \<open>Over a stream\<close>

definition nframe :: "bytes \<Rightarrow> bytes" where
  "nframe d = frame_header (length d) @ d"

context v2_framed
begin

lemma noise_write_frame_live:
  assumes "at_wire st a w" and "d \<noteq> []" and "length d \<le> 65535" and "fits 65535"
  shows "\<exists>st'. noise_write_frame io d st = Some (True, st') \<and> at_wire st' a (w @ nframe d)"
proof -
  have f: "fits (length (frame_header (length d)))" "fits (length d)" using fits_mono [OF assms(4)] assms(3) by auto
  obtain st1 where st1: "v2_write io st (frame_header (length d)) = Some (2, st1)" "at_wire st1 a (w @ frame_header (length d))"
    using at_wire_write [OF assms(1) frame_header_ne f(1)] by auto
  from at_wire_write [OF st1(2) assms(2) f(2)] st1(1) show ?thesis by (auto simp: noise_write_frame_def nframe_def)
qed

lemma noise_read_frame_live:
  assumes "at_wire st (nframe d @ a) w" and "length d \<le> cap" and "cap \<le> 65535"
  shows "\<exists>st'. noise_read_frame io cap st = Some (Some d, st') \<and> at_wire st' a w"
proof -
  obtain b1 b2 where b: "frame_header (length d) = [b1, b2]" using frame_header_pair by blast
  then have h: "header_len [b1, b2] = length d" using header_len_pair [OF b] assms(2,3) by simp
  obtain st1 where "v2_read io st 2 = Some (Some [b1, b2], st1)" "at_wire st1 (d @ a) w"
    using at_wire_read_two [of st b1 b2 "d @ a" w] assms(1) b by (auto simp: nframe_def)
  with at_wire_read_loop [of st1 d a w] h assms(2) show ?thesis by (auto simp: noise_read_frame_def)
qed

lemma initiator_live:
  assumes "ev_ephemeral ev = Some e" and "length (snd e) = 32" and "fits 65535"
    and "noise_initiator_read L ev cb (fst e) m2 (first_hash L (snd e)) p = Some (Returns y2, p')"
    and "noise_send_static L ev cb k (take NOISE_DHLEN m2) y2 = Some (m3, y3)"
    and "length m2 \<le> 1120" and "length m3 \<le> 1120" and "m3 \<noteq> []"
    and "at_wire st (nframe m2 @ a) w"
  shows "\<exists>st'. libp2p_noise_handshake_raw L io ev k p cb st = Some (noise_split L ev True y3 st', p', st') \<and>
    at_wire st' a (w @ nframe (snd e) @ nframe m3)"
proof -
  have "snd e \<noteq> []" "length (snd e) \<le> 65535" using assms(2) by auto
  then obtain st1 where st1: "noise_write_frame io (snd e) st = Some (True, st1)" "at_wire st1 (nframe m2 @ a) (w @ nframe (snd e))"
    using noise_write_frame_live [OF assms(9) _ _ assms(3)] by blast
  obtain st2 where st2: "noise_read_frame io 4096 st1 = Some (Some m2, st2)" "at_wire st2 a (w @ nframe (snd e))"
    using noise_read_frame_live [OF st1(2), of 4096] assms(6) by auto
  have "length m3 \<le> 65535" using assms(7) by simp
  then obtain st3 where "noise_write_frame io m3 st2 = Some (True, st3)" "at_wire st3 a ((w @ nframe (snd e)) @ nframe m3)"
    using noise_write_frame_live [OF st2(2) assms(8) _ assms(3)] by blast
  with st1(1) st2(1) assms(1,4,5) show ?thesis
    by (cases e) (simp add: libp2p_noise_handshake_raw_def first_hash_def)
qed

text \<open>The initiator on a message that its check of the identity does not let pass.\<close>

lemma initiator_stops:
  assumes "ev_ephemeral ev = Some e" and "length (snd e) = 32" and "fits 65535" and "length m2 \<le> 4096" and "at_wire st (nframe m2 @ a) w"
  shows "\<exists>st'. at_wire st' a (w @ nframe (snd e)) \<and>
    (noise_initiator_read L ev cb (fst e) m2 (first_hash L (snd e)) p = None \<longrightarrow> libp2p_noise_handshake_raw L io ev k p cb st = None) \<and>
    (noise_initiator_read L ev cb (fst e) m2 (first_hash L (snd e)) p = Some (Fails, p') \<longrightarrow>
      libp2p_noise_handshake_raw L io ev k p cb st = Some (Fails, p', st')) \<and>
    (noise_initiator_read L ev cb (fst e) m2 (first_hash L (snd e)) p = Some (Undefined, p') \<longrightarrow>
      libp2p_noise_handshake_raw L io ev k p cb st = Some (Undefined, p', st'))"
proof -
  have "snd e \<noteq> []" "length (snd e) \<le> 65535" using assms(2) by auto
  then obtain st1 where st1: "noise_write_frame io (snd e) st = Some (True, st1)" "at_wire st1 (nframe m2 @ a) (w @ nframe (snd e))"
    using noise_write_frame_live [OF assms(5) _ _ assms(3)] by blast
  obtain st2 where "noise_read_frame io 4096 st1 = Some (Some m2, st2)" "at_wire st2 a (w @ nframe (snd e))"
    using noise_read_frame_live [OF st1(2) assms(4)] by auto
  with st1(1) assms(1) show ?thesis
    by (cases e) (intro exI [of _ st2], simp add: libp2p_noise_handshake_raw_def first_hash_def)
qed

lemma responder_live:
  assumes "ev_ephemeral ev = Some e" and "length re = 32" and "fits 65535"
    and "noise_responder_send L ev cb k re (first_hash L re) = Some (m2, y2)"
    and "noise_read_static L ev cb (fst e) m3 y2 p = Some (Returns y3, p')"
    and "length m2 \<le> 1120" and "m2 \<noteq> []" and "length m3 \<le> 1120"
    and "at_wire st (nframe re @ nframe m3 @ a) w"
  shows "\<exists>st'. libp2p_noise_handshake_responder_raw L io ev k p cb st = Some (noise_split L ev False y3 st', p', st') \<and>
    at_wire st' a (w @ nframe m2)"
proof -
  obtain st1 where st1: "noise_read_frame io NOISE_DHLEN st = Some (Some re, st1)" "at_wire st1 (nframe m3 @ a) w"
    using noise_read_frame_live [OF assms(9), of NOISE_DHLEN] assms(2) by (auto simp: NOISE_DHLEN_def)
  have "length m2 \<le> 65535" using assms(6) by simp
  then obtain st2 where st2: "noise_write_frame io m2 st1 = Some (True, st2)" "at_wire st2 (nframe m3 @ a) (w @ nframe m2)"
    using noise_write_frame_live [OF st1(2) assms(7) _ assms(3)] by blast
  obtain st3 where "noise_read_frame io 4096 st2 = Some (Some m3, st3)" "at_wire st3 a (w @ nframe m2)"
    using noise_read_frame_live [OF st2(2), of 4096] assms(8) by auto
  with st1(1) st2(1) assms(1,2,4,5) show ?thesis
    by (simp add: libp2p_noise_handshake_responder_raw_def first_hash_def NOISE_DHLEN_def)
qed

end

end
