(* ===== verification/Noise_Identity.thy ===== *)
theory Noise_Identity
  imports Noise_Handshake
begin

text \<open>
  The identity payload of the handshake: what is encoded is decoded, which payloads are checked at all, and the
  payload on which the decoder never stops.
\<close>

section \<open>Decoding an encoded payload\<close>

lemma decode_end: "length inp < 2 ^ 64 \<Longrightarrow> noise_payload_decode L inp (of_nat (length inp)) k g = Some (Some (k, g))"
  by (simp add: noise_payload_decode.simps unat_of_nat)

lemma decode_field:
  assumes "field_ok L fld d cap hdr len" and "inp = pre @ hdr @ len @ d @ post" and "length inp < 2 ^ 32"
  shows "noise_payload_decode L inp (of_nat (length pre)) k g =
    noise_payload_decode L inp (of_nat (length (pre @ hdr @ len @ d)))
      (if fld = 1 then Some (of_nat (length (pre @ hdr @ len)), of_nat (length d)) else k)
      (if fld = 2 then Some (of_nat (length (pre @ hdr @ len)), of_nat (length d)) else g)"
proof -
  have F: "hdr \<noteq> []" "len \<noteq> []" "\<And>r n. length hdr \<le> unat n \<Longrightarrow> protobuf_decode_field_and_type L (hdr @ len @ r) n = Some (int fld, WIRETYPE_LENGTH_DELIMITED, length hdr)"
      "\<And>r. varint_decode L (len @ r) = (of_nat (length d), length len)" using assms(1) by (simp_all add: field_ok_def)
  have u: "unat (of_nat n :: 64 word) = n" if "n \<le> length inp" for n using that assms(3) by (simp add: unat_of_nat)
  have n: "length pre < length inp" "length pre + length hdr \<le> length inp" "length (pre @ hdr @ len @ d) \<le> length inp"
    using assms(2) F(1) by auto
  have p1: "(of_nat (length pre) :: 64 word) + of_nat (length hdr) = of_nat (length pre + length hdr)" by simp
  have p2: "(of_nat (length pre + length hdr) :: 64 word) + of_nat (length len) = of_nat (length (pre @ hdr @ len))" by simp
  have p3: "(of_nat (length (pre @ hdr @ len)) :: 64 word) + of_nat (length d) = of_nat (length (pre @ hdr @ len @ d))" by simp
  have d0: "drop (unat (of_nat (length pre) :: 64 word)) inp = hdr @ len @ d @ post"
    using u [of "length pre"] n(1) assms(2) by simp
  have d1: "drop (unat (of_nat (length pre + length hdr) :: 64 word)) inp = len @ d @ post"
    unfolding u [OF n(2)] using assms(2) by simp
  have lt: "unat (of_nat (length pre) :: 64 word) < length inp" using u [of "length pre"] n(1) by simp
  have le: "\<not> unat (of_nat (length (pre @ hdr @ len @ d)) :: 64 word) > length inp" unfolding u [OF n(3)] using n(3) by simp
  have "unat (of_nat (length inp) - of_nat (length pre) :: 64 word) = length inp - length pre"
    using n(1) assms(3) by (intro unat_left) simp_all
  then have F3: "protobuf_decode_field_and_type L (hdr @ len @ r) (of_nat (length inp) - of_nat (length pre)) =
      Some (int fld, WIRETYPE_LENGTH_DELIMITED, length hdr)" for r using n(2) by (intro F(3)) simp
  have "(int fld = 1) = (fld = 1)" "(int fld = 2) = (fld = 2)" by auto
  then show ?thesis
    by (subst noise_payload_decode.simps)
      (simp only: lt d0 F3 p1 d1 F(4) p2 p3 le F(2) if_True if_False option.case prod.case Let_def refl not_True_eq_False simp_thms
        length_0_conv cong: if_cong)
qed

lemma payload_slice_at:
  "length (pre @ d @ post) < 2 ^ 64 \<Longrightarrow> payload_slice (pre @ d @ post) (of_nat (length pre), of_nat (length d)) = Some d"
proof -
  assume "length (pre @ d @ post) < 2 ^ 64"
  then have "unat (of_nat (length pre) :: 64 word) = length pre" "unat (of_nat (length d) :: 64 word) = length d"
    by (simp_all add: unat_of_nat)
  then show ?thesis by (simp add: payload_slice_def)
qed

lemma protobuf_encode_ok:
  assumes "protobuf_ok L" and "0 < fld" and "fld < 16" and "protobuf_encode_length_delimited L fld d cap = Some b" and "length d < 65536"
  shows "\<exists>hdr len. field_ok L fld d cap hdr len \<and> b = hdr @ len @ d \<and> length b \<le> cap"
proof -
  obtain hdr len where f: "field_ok L fld d cap hdr len" using assms(1,2,3,5) unfolding protobuf_ok_def by blast
  then have "length (hdr @ len @ d) \<le> cap" using assms(4) unfolding field_ok_def by (metis not_le option.distinct(1))
  moreover from this have "b = hdr @ len @ d" using f assms(4) by (simp add: field_ok_def)
  ultimately show ?thesis using f by blast
qed

lemma payload_decode_encode:
  assumes "protobuf_ok L" and "key \<noteq> []" and "sig \<noteq> []" and "length key < 65536" and "length sig < 65536" and "cap < 2 ^ 32"
    and "noise_payload_encode L key sig cap = Some p"
  shows "\<exists>k g. noise_payload_decode L p 0 None None = Some (Some (Some k, Some g)) \<and>
    payload_slice p k = Some key \<and> payload_slice p g = Some sig"
proof -
  obtain b1 b2 where b: "protobuf_encode_length_delimited L 1 key cap = Some b1"
      "protobuf_encode_length_delimited L 2 sig (cap - length b1) = Some b2" "p = b1 @ b2"
    using assms(2,3,7) by (auto simp: noise_payload_encode_def bind_eq_Some_conv)
  obtain h1 l1 where f1: "field_ok L 1 key cap h1 l1" "b1 = h1 @ l1 @ key" "length b1 \<le> cap"
    using protobuf_encode_ok [OF assms(1) _ _ b(1) assms(4)] by auto
  obtain h2 l2 where f2: "field_ok L 2 sig (cap - length b1) h2 l2" "b2 = h2 @ l2 @ sig" "length b2 \<le> cap - length b1"
    using protobuf_encode_ok [OF assms(1) _ _ b(2) assms(5)] by auto
  have len: "length p < 2 ^ 32" using b(3) f1(3) f2(3) assms(6) by simp
  let ?k = "(of_nat (length (h1 @ l1)), of_nat (length key)) :: 64 word \<times> 64 word"
  let ?g = "(of_nat (length (b1 @ h2 @ l2)), of_nat (length sig)) :: 64 word \<times> 64 word"
  have "noise_payload_decode L p 0 None None = noise_payload_decode L p (of_nat (length b1)) (Some ?k) None"
    using decode_field [OF f1(1), of p "[]" b2 None None] len b(3) f1(2) by simp
  also have "\<dots> = noise_payload_decode L p (of_nat (length p)) (Some ?k) (Some ?g)"
    using decode_field [OF f2(1), of p b1 "[]" "Some ?k" None] len b(3) f2(2) by simp
  also have "\<dots> = Some (Some (Some ?k, Some ?g))" using decode_end [of p L] len by simp
  finally have "noise_payload_decode L p 0 None None = Some (Some (Some ?k, Some ?g))" .
  moreover have "payload_slice p ?k = Some key" using payload_slice_at [of "h1 @ l1" key b2] len b(3) f1(2) by simp
  moreover have "payload_slice p ?g = Some sig" using payload_slice_at [of "b1 @ h2 @ l2" sig "[]"] len b(3) f2(2) by simp
  ultimately show ?thesis by blast
qed

section \<open>What is checked\<close>

lemma check_identity_encoded:
  assumes "protobuf_ok L" and "key \<noteq> []" and "sig \<noteq> []" and "length key < 65536" and "length sig < 65536" and "cap < 2 ^ 32"
    and "noise_payload_encode L key sig cap = Some p" and "callbacks = Some cb" and "cb_verify cb = Some verify"
  shows "noise_check_identity L ev callbacks s p peer =
    (case verify key s sig of
       None \<Rightarrow> None
     | Some (Returns False) \<Rightarrow> Some Fails
     | Some (Returns True) \<Rightarrow>
         (case peer of None \<Rightarrow> Some (Returns None)
          | Some pr \<Rightarrow> (case noise_peer_id_from_identity_key L ev key pr of
              None \<Rightarrow> None | Some (Returns (_, pr')) \<Rightarrow> Some (Returns (Some pr')) | Some _ \<Rightarrow> Some Undefined))
     | Some _ \<Rightarrow> Some Undefined)"
  using payload_decode_encode [OF assms(1-7)] assms(8,9) by (auto simp: noise_check_identity_def)

lemma check_identity_empty: "noise_check_identity L ev callbacks s [] peer = Some (Returns peer)"
proof -
  have "noise_payload_decode L [] 0 None None = Some (Some (None, None))" by (simp add: noise_payload_decode.simps)
  then show ?thesis by (simp add: noise_check_identity_def split: option.split)
qed

lemma identity_payload_none [simp]: "noise_identity_payload L None k s = []"
  by (simp add: noise_identity_payload_def)

section \<open>A payload that is never decoded\<close>

text \<open>A field of which the announced length takes the position back to where it was.\<close>

lemma payload_decode_loops:
  assumes "unat pos < length inp"
    and "protobuf_decode_field_and_type L (drop (unat pos) inp) (of_nat (length inp) - pos) = Some (fld, WIRETYPE_LENGTH_DELIMITED, h)"
    and "varint_decode L (drop (unat (pos + of_nat h)) inp) = (n, v)" and "v \<noteq> 0"
    and "pos + of_nat h + of_nat v + n = pos"
  shows "noise_payload_decode L inp pos k g = None"
proof -
  let ?P = "\<lambda>L' inp' pos' k g r. \<not> (L' = L \<and> inp' = inp \<and> pos' = pos)"
  have False if r: "noise_payload_decode L inp pos k g = Some r" for r
  proof -
    have "?P L inp pos k g r"
    proof (rule noise_payload_decode.raw_induct [OF _ r, of ?P], intro notI, elim conjE)
      fix f L' inp' pos' k g r
      assume ih: "\<And>L' inp' pos' k g r. f L' inp' pos' k g = Some r \<Longrightarrow> \<not> (L' = L \<and> inp' = inp \<and> pos' = pos)"
        and eq: "L' = L" "inp' = inp" "pos' = pos"
        and body: "(if unat pos' < length inp'
          then case protobuf_decode_field_and_type L' (drop (unat pos') inp') (of_nat (length inp') - pos') of
              None \<Rightarrow> Some None
            | Some (field_no, field_type, hdr_bytes) \<Rightarrow>
                if field_type \<noteq> WIRETYPE_LENGTH_DELIMITED then Some None
                else let pos1 = pos' + of_nat hdr_bytes; (data_len, varint_len) = varint_decode L' (drop (unat pos1) inp');
                       start = pos1 + of_nat varint_len; pos2 = start + data_len
                     in if varint_len = 0 \<or> length inp' < unat pos2 then Some None
                        else f L' inp' pos2 (if field_no = 1 then Some (start, data_len) else k)
                               (if field_no = 2 then Some (start, data_len) else g)
          else Some (Some (k, g))) = Some r"
      have "\<exists>k g. f L inp pos k g = Some r"
        using body unfolding eq using assms by (auto simp: Let_def)
      then show False using ih by blast
    qed
    then show False by simp
  qed
  then show ?thesis by (metis not_Some_eq)
qed

end
