(* ===== verification/Noise_Theorems.thy ===== *)
theory Noise_Theorems
  imports Noise_Identity
begin

text \<open>
  What the Noise channel guarantees over TCP, and where it does not do what it means to; with an instance of
  each statement on a concrete library and concrete sockets.
\<close>

section \<open>A concrete library\<close>

text \<open>An instance of the libraries that has the documented behaviour the statements rely on: a cipher that appends a
  tag of zeros, constant hashes and secrets, and length-delimited fields with three-byte varints. It shows that the
  assumptions can hold together, nothing more.\<close>

definition sample_varint :: "nat \<Rightarrow> bytes" where
  "sample_varint n = [of_nat (128 + n mod 128), of_nat (128 + n div 128 mod 128), of_nat (n div 16384)]"

definition sample_lib :: ext_lib where
  "sample_lib = \<lparr>
     hmac_sha256 = (\<lambda>k m. Some (replicate 32 7)),
     sha256 = (\<lambda>m. replicate 32 9),
     aead_seal = (\<lambda>key nonce ad p. Some (p @ replicate 16 0)),
     aead_open = (\<lambda>key nonce ad c. Some (take (length c - 16) c)),
     x25519_derive = (\<lambda>a b. Some (replicate 32 3)),
     ed25519_verify = (\<lambda>k m g. False), rsa_pkcs1_sign = (\<lambda>k h. Some [1]), rsa_parse_public = (\<lambda>k. Some 1), rsa_pkcs1_verify = (\<lambda>k h g. g = [1]),
     protobuf_encode_varint = (\<lambda>fld v cap. None),
     protobuf_encode_length_delimited = (\<lambda>fld d cap.
       let b = of_nat (fld * 8 + 2) # sample_varint (length d) @ d in if length b \<le> cap then Some b else None),
     protobuf_encode_string = (\<lambda>fld d cap. None),
     protobuf_decode_field_and_type = (\<lambda>bs n. case bs of [] \<Rightarrow> None | b # _ \<Rightarrow> Some (int (unat b div 8), unat b mod 8, 1)),
     protobuf_decode_varint = (\<lambda>bs n. None),
     protobuf_decode_length_delimited = (\<lambda>bs n. None),
     protobuf_decode_string = (\<lambda>bs n. (None, 0)),
     varint_decode = (\<lambda>bs. (of_nat (unat (byte_at bs 0) mod 128 + 128 * (unat (byte_at bs 1) mod 128) + 16384 * unat (byte_at bs 2)), 3)),
     varint_encode = (\<lambda>v. sample_varint (unat v)),
     mh_new_sha2_256 = (\<lambda>d. Some ([0x12, 0x20] @ d)),
     stack_junk = replicate 64 0\<rparr>"

lemma sample_varint_value:
  assumes "n < 65536"
  shows "unat (byte_at (sample_varint n @ r) 0) mod 128 + 128 * (unat (byte_at (sample_varint n @ r) 1) mod 128) +
    16384 * unat (byte_at (sample_varint n @ r) 2) = n"
proof -
  have "unat (of_nat (128 + n mod 128) :: byte) mod 128 = n mod 128"
    "unat (of_nat (128 + n div 128 mod 128) :: byte) mod 128 = n div 128 mod 128" "unat (of_nat (n div 16384) :: byte) = n div 16384"
    using assms by (simp_all only: unat_of_nat) simp_all
  moreover have "n mod 128 + 128 * (n div 128 mod 128) + 16384 * (n div 16384) = n"
  proof -
    have "n div 128 mod 128 + 128 * (n div 128 div 128) = n div 128" "n mod 128 + 128 * (n div 128) = n" by simp_all
    moreover have "n div 16384 = n div 128 div 128" by (simp flip: div_mult2_eq)
    ultimately show ?thesis by linarith
  qed
  ultimately show ?thesis by (simp add: sample_varint_def numeral_2_eq_2)
qed

lemma sample_lib_ok [simp]: "aead_ok sample_lib" "hash_ok sample_lib" "encoder_bounded sample_lib"
  by (auto simp: sample_lib_def aead_ok_def hash_ok_def encoder_bounded_def Let_def split: if_splits)

lemma sample_protobuf_ok [simp]: "protobuf_ok sample_lib"
proof -
  have "field_ok sample_lib fld d cap [of_nat (fld * 8 + 2)] (sample_varint (length d))" if "fld < 16" "length d < 65536" for fld d cap
  proof -
    have t: "unat (of_nat (fld * 8 + 2) :: byte) = fld * 8 + 2" using that(1) by (simp only: unat_of_nat) simp
    have "(fld * 8 + 2) div 8 = fld" "(fld * 8 + 2) mod 8 = 2" by presburger+
    then show ?thesis using sample_varint_value [OF that(2)] t
      by (simp add: field_ok_def sample_lib_def WIRETYPE_LENGTH_DELIMITED_def sample_varint_def Let_def del: of_nat_add of_nat_mult)
  qed
  moreover have "length (sample_varint n) = 3" for n by (simp add: sample_varint_def)
  ultimately show ?thesis unfolding protobuf_ok_def
    by (intro allI impI, rule_tac x = "[of_nat (fld * 8 + 2)]" in exI, rule_tac x = "sample_varint (length d)" in exI) simp
qed


section \<open>The handshake over TCP\<close>

text \<open>Two contexts at the ends of a channel: the keys are crossed, the counters zero, the buffers empty.\<close>

definition noise_linked :: "'s noise_ctx \<Rightarrow> 't noise_ctx \<Rightarrow> bool" where
  "noise_linked c d \<longleftrightarrow> length (write_key c) = 32 \<and> length (read_key c) = 32 \<and> write_key c = read_key d \<and> read_key c = write_key d \<and>
     write_nonce c = 0 \<and> read_nonce c = 0 \<and> write_nonce d = 0 \<and> read_nonce d = 0 \<and>
     nz_buf_ok c \<and> nz_buf_ok d \<and> nz_pending c = [] \<and> nz_pending d = []"

text \<open>An initiator and a responder that have completed the handshake on the sockets of one connection.\<close>

definition noise_established ::
    "ext_lib \<Rightarrow> noise_env \<Rightarrow> noise_env \<Rightarrow> 'k \<Rightarrow> 'l \<Rightarrow> 'k noise_callbacks option \<Rightarrow> 'l noise_callbacks option \<Rightarrow>
     noise_peer option \<Rightarrow> noise_peer option \<Rightarrow> noise_peer option \<Rightarrow> noise_peer option \<Rightarrow> tcp_sock \<Rightarrow> tcp_sock \<Rightarrow> bytes \<Rightarrow> bytes \<Rightarrow> bytes \<Rightarrow> bytes \<Rightarrow> bool" where
  "noise_established L evI evR kI kR cbI cbR pI pR pI' pR' i r wI wR aI aR \<longleftrightarrow>
     (\<exists>ci cr. libp2p_noise_handshake_raw L tcp_stream evI kI pI cbI i = Some (Returns ci, pI', raw_stream ci) \<and>
       libp2p_noise_handshake_responder_raw L tcp_stream evR kR pR cbR r = Some (Returns cr, pR', raw_stream cr) \<and>
       noise_linked ci cr \<and> tcp_unsplit (raw_stream ci) \<and> tcp_unsplit (raw_stream cr) \<and>
       sk_tx (raw_stream ci) = sk_tx i @ wI \<and> sk_rx (raw_stream ci) = aI \<and>
       sk_tx (raw_stream cr) = sk_tx r @ wR \<and> sk_rx (raw_stream cr) = aR)"

lemma tcp_handshake:
  assumes "noise_meets L evI evR eI sI eR sR"
    and "noise_check_identity L evI cbI (snd sR) (noise_identity_payload L cbR kR (snd sR)) pI = Some (Returns pI')"
    and "noise_check_identity L evR cbR (snd sI) (noise_identity_payload L cbI kI (snd sI)) pR = Some (Returns pR')"
  shows "\<exists>wI wR. \<forall>i r aI aR. tcp_unsplit i \<longrightarrow> tcp_unsplit r \<longrightarrow> sk_rx i = wR @ aI \<longrightarrow> sk_rx r = wI @ aR \<longrightarrow>
    noise_established L evI evR kI kR cbI cbR pI pR pI' pR' i r wI wR aI aR"
proof -
  obtain m2 y2 m3 y3 where M: "noise_responder_send L evR cbR kR (snd eI) (first_hash L (snd eI)) = Some (m2, y2)"
      "noise_initiator_read L evI cbI (fst eI) m2 (first_hash L (snd eI)) pI = Some (Returns y2, pI')" "take NOISE_DHLEN m2 = snd eR"
      "noise_send_static L evI cbI kI (snd eR) y2 = Some (m3, y3)" "noise_read_static L evR cbR (fst eR) m3 y2 pR = Some (Returns y3, pR')"
      "length m2 \<le> 1120" "m2 \<noteq> []" "length m3 \<le> 1120" "m3 \<noteq> []"
    using message_exchange [OF assms] by blast
  have E: "ev_ephemeral evI = Some eI" "ev_ephemeral evR = Some eR" "length (snd eI) = 32" "hash_ok L"
      "ev_ctx_mem evI" "ev_stream_mem evI" "ev_ctx_mem evR" "ev_stream_mem evR"
    using assms(1) by (auto simp: noise_meets_def dh_agrees_def)
  have "noise_established L evI evR kI kR cbI cbR pI pR pI' pR' i r (nframe (snd eI) @ nframe m3) (nframe m2) aI aR"
    if "tcp_unsplit i" "tcp_unsplit r" "sk_rx i = nframe m2 @ aI" "sk_rx r = (nframe (snd eI) @ nframe m3) @ aR" for i r aI aR
  proof -
    have wi: "tcpu.at_wire i (nframe m2 @ aI) (sk_tx i)" and wr: "tcpu.at_wire r (nframe (snd eI) @ nframe m3 @ aR) (sk_tx r)"
      using that by (simp_all add: tcpu.at_wire_def)
    obtain i' where i': "libp2p_noise_handshake_raw L tcp_stream evI kI pI cbI i = Some (noise_split L evI True y3 i', pI', i')"
        "tcpu.at_wire i' aI (sk_tx i @ nframe (snd eI) @ nframe m3)"
      using tcpu.initiator_live [OF E(1,3) TrueI M(2) M(4) [folded M(3)] M(6,8,9) wi] by blast
    obtain r' where r': "libp2p_noise_handshake_responder_raw L tcp_stream evR kR pR cbR r = Some (noise_split L evR False y3 r', pR', r')"
        "tcpu.at_wire r' aR (sk_tx r @ nframe m2)"
      using tcpu.responder_live [OF E(2,3) TrueI M(1,5,6,7,8) wr] by blast
    obtain k1 k2 where "length k1 = 32" "length k2 = 32"
      "noise_split L evI True y3 i' = Returns \<lparr>raw_stream = i', read_key = k2, write_key = k1, read_nonce = 0, write_nonce = 0,
        nz_buf = zero_buf, nz_len = 0, nz_pos = 0\<rparr>"
      "noise_split L evR False y3 r' = Returns \<lparr>raw_stream = r', read_key = k1, write_key = k2, read_nonce = 0, write_nonce = 0,
        nz_buf = zero_buf, nz_len = 0, nz_pos = 0\<rparr>"
      using noise_split_keys [OF E(4,5,6,7,8), of y3 i' r'] by blast
    with i' r' show ?thesis
      by (simp add: noise_established_def tcpu.at_wire_def noise_linked_def nz_buf_ok_def nz_pending_def)
  qed
  then show ?thesis by blast
qed

text \<open>The identity a side presents: its public key and a signature of its static key, which fit the payload buffer.\<close>

definition noise_identity :: "ext_lib \<Rightarrow> 'k noise_callbacks \<Rightarrow> 'k \<Rightarrow> bytes \<Rightarrow> bytes \<Rightarrow> bytes \<Rightarrow> bool" where
  "noise_identity L cb k s key sig \<longleftrightarrow> key \<noteq> [] \<and> sig \<noteq> [] \<and> length key < 65536 \<and> length sig < 65536 \<and>
     (\<exists>gk sg p. get_identity_key cb = Some gk \<and> cb_sign cb = Some sg \<and> gk k = Some key \<and> sg k s = Some sig \<and>
       noise_payload_encode L key sig 1024 = Some p)"

lemma identity_checked:
  assumes "protobuf_ok L" and "noise_identity L cbS kS s key sig" and "cb_verify cbR = Some verify" and "verify key s sig = Some (Returns True)"
    and "noise_peer_id_from_identity_key L ev key p = Some (Returns (found, p'))"
  shows "noise_check_identity L ev (Some cbR) s (noise_identity_payload L (Some cbS) kS s) (Some p) = Some (Returns (Some p'))"
proof -
  obtain gk sg pl where i: "key \<noteq> []" "sig \<noteq> []" "length key < 65536" "length sig < 65536" "get_identity_key cbS = Some gk"
      "cb_sign cbS = Some sg" "gk kS = Some key" "sg kS s = Some sig" "noise_payload_encode L key sig 1024 = Some pl"
    using assms(2) by (auto simp: noise_identity_def)
  then have "noise_identity_payload L (Some cbS) kS s = pl" by (simp add: noise_identity_payload_def)
  then show ?thesis using check_identity_encoded [OF assms(1) i(1-4) _ i(9) refl assms(3)] assms(4,5) by simp
qed


section \<open>The handshake\<close>

text \<open>C4. An initiator and a responder complete the handshake over TCP sockets that do not split the two bytes of a frame header, if each presents an identity
  that the other's callback verifies (C8 shows that it fails otherwise) and the hash, AEAD and Diffie-Hellman functions are correct: there are two byte sequences such that on any two sockets that deliver them, whatever follows, each side reads
  exactly the other's, writes its own and returns a stream; the session keys are crossed, 32 bytes long, with zero counters,
  and each side has derived the other's peer id.\<close>

theorem noise_handshake_agrees:
  assumes "noise_meets L evI evR eI sI eR sR" and "protobuf_ok L"
    and "noise_identity L cbI kI (snd sI) keyI sigI" and "noise_identity L cbR kR (snd sR) keyR sigR"
    and "cb_verify cbI = Some vI" and "vI keyR (snd sR) sigR = Some (Returns True)" and "cb_verify cbR = Some vR" and "vR keyI (snd sI) sigI = Some (Returns True)"
    and "noise_peer_id_from_identity_key L evI keyR pI = Some (Returns (foundI, pI'))"
    and "noise_peer_id_from_identity_key L evR keyI pR = Some (Returns (foundR, pR'))"
  shows "\<exists>wI wR. \<forall>i r aI aR. tcp_unsplit i \<longrightarrow> tcp_unsplit r \<longrightarrow> sk_rx i = wR @ aI \<longrightarrow> sk_rx r = wI @ aR \<longrightarrow>
    noise_established L evI evR kI kR (Some cbI) (Some cbR) (Some pI) (Some pR) (Some pI') (Some pR') i r wI wR aI aR"
  by (rule tcp_handshake [OF assms(1) identity_checked [OF assms(2,4,5,6,9)] identity_checked [OF assms(2,3,7,8,10)]])

definition sample_env :: noise_env where
  "sample_env = \<lparr>ev_ephemeral = Some (replicate 32 1, replicate 32 2), ev_static = Some (replicate 32 4, replicate 32 5),
     ev_id_mem = False, ev_ctx_mem = True, ev_stream_mem = True\<rparr>"

definition sample_callbacks :: "unit noise_callbacks" where
  "sample_callbacks = \<lparr>get_identity_key = Some (\<lambda>_. Some [8, 1]), cb_sign = Some (\<lambda>_ s. Some (take 4 s)),
     cb_verify = Some (\<lambda>k s g. Some (Returns (k = [8, 1] \<and> g = take 4 s)))\<rparr>"

definition sample_peer :: noise_peer where
  "sample_peer = \<lparr>np_id = None, np_id_size = 0\<rparr>"

lemma sample_meets:
  "noise_meets sample_lib sample_env sample_env (replicate 32 1, replicate 32 2) (replicate 32 4, replicate 32 5)
     (replicate 32 1, replicate 32 2) (replicate 32 4, replicate 32 5)"
  by (simp add: noise_meets_def sample_env_def dh_agrees_def) (simp add: sample_lib_def)

lemma sample_identity: "noise_identity sample_lib sample_callbacks () (replicate 32 5) [8, 1] (replicate 4 5)"
  by (simp add: noise_identity_def sample_callbacks_def noise_payload_encode_def sample_lib_def sample_varint_def Let_def)

theorem noise_handshake_agrees_witness:
  "\<exists>wI wR. \<forall>i r aI aR. tcp_unsplit i \<longrightarrow> tcp_unsplit r \<longrightarrow> sk_rx i = wR @ aI \<longrightarrow> sk_rx r = wI @ aR \<longrightarrow>
     noise_established sample_lib sample_env sample_env () () (Some sample_callbacks) (Some sample_callbacks)
       (Some sample_peer) (Some sample_peer) (Some sample_peer) (Some sample_peer) i r wI wR aI aR"
proof -
  have id: "noise_peer_id_from_identity_key sample_lib sample_env [8, 1] sample_peer = Some (Returns (False, sample_peer))"
    by (simp add: noise_peer_id_from_identity_key_def libp2p_crypto_public_key_protobuf_decode_def sample_env_def)
  have s: "noise_identity sample_lib sample_callbacks () (snd (replicate 32 4, replicate 32 5)) [8, 1] (replicate 4 5)"
    using sample_identity by (simp only: snd_conv)
  show ?thesis
    by (rule noise_handshake_agrees [OF sample_meets sample_protobuf_ok s s _ _ _ _ id id, where vI = "\<lambda>k s g. Some (Returns (k = [8, 1] \<and> g = take 4 s))"
          and vR = "\<lambda>k s g. Some (Returns (k = [8, 1] \<and> g = take 4 s))"])
      (simp_all add: sample_callbacks_def)
qed

text \<open>C7. The handshake does not authenticate: a responder without any identity, which sends an empty payload, completes it
  with an initiator whatever the initiator's \<open>verify\<close> callback would say, even if it rejects every signature. The
  stream is returned and the peer id stays what it was.\<close>

theorem noise_accepts_anonymous:
  assumes "noise_meets L evI evR eI sI eR sR"
  shows "\<exists>wI wR. \<forall>i r aI aR. tcp_unsplit i \<longrightarrow> tcp_unsplit r \<longrightarrow> sk_rx i = wR @ aI \<longrightarrow> sk_rx r = wI @ aR \<longrightarrow>
    noise_established L evI evR kI kR (Some cbI) None pI pR pI pR i r wI wR aI aR"
proof -
  have "noise_check_identity L evI (Some cbI) (snd sR) (noise_identity_payload L None kR (snd sR)) pI = Some (Returns pI)"
    by (simp add: check_identity_empty)
  moreover have "noise_check_identity L evR None (snd sI) (noise_identity_payload L (Some cbI) kI (snd sI)) pR = Some (Returns pR)"
    by (simp add: noise_check_identity_def)
  ultimately show ?thesis by (rule tcp_handshake [OF assms])
qed

theorem noise_accepts_anonymous_witness:
  "\<exists>wI wR. \<forall>i r aI aR. tcp_unsplit i \<longrightarrow> tcp_unsplit r \<longrightarrow> sk_rx i = wR @ aI \<longrightarrow> sk_rx r = wI @ aR \<longrightarrow>
     noise_established sample_lib sample_env sample_env () () (Some (sample_callbacks\<lparr>cb_verify := Some (\<lambda>_ _ _. Some (Returns False))\<rparr>)) None
       (Some sample_peer) None (Some sample_peer) None i r wI wR aI aR"
  by (rule noise_accepts_anonymous [OF sample_meets])

text \<open>C8. An identity whose signature does not verify is refused: an initiator that reads the message of a responder whose
  payload is the encoding of a key and a signature, of which \<open>verify\<close> says no, returns no stream and leaves the peer
  alone.\<close>

theorem noise_refuses_bad_signature:
  assumes "aead_ok L" and "hash_ok L" and "protobuf_ok L" and "dh_agrees L eI eR" and "dh_agrees L sR eI" and "ev_ephemeral ev = Some eI"
    and "key \<noteq> []" and "sig \<noteq> []" and "length key < 65536" and "length sig < 65536"
    and "noise_payload_encode L key sig 1024 = Some p" and "length p \<le> 1024" and "cb_verify cb = Some verify" and "verify key (snd sR) sig = Some (Returns False)"
  shows "\<exists>x c y. static_message L sR (snd eI) p (noise_mix_key L x (noise_mix_hash L (snd eR) (first_hash L (snd eI)))) = Some (c, y) \<and>
    (\<forall>i a. tcp_unsplit i \<longrightarrow> sk_rx i = nframe (snd eR @ c) @ a \<longrightarrow>
      (\<exists>i'. libp2p_noise_handshake_raw L tcp_stream ev k peer (Some cb) i = Some (Fails, peer, i')))"
proof -
  have p: "length p \<le> 2048" using assms(12) by simp
  obtain x c y where c: "static_message L sR (snd eI) p (noise_mix_key L x (noise_mix_hash L (snd eR) (first_hash L (snd eI)))) = Some (c, y)"
      "length c = length p + 64" "noise_initiator_read L ev (Some cb) (fst eI) (snd eR @ c) (first_hash L (snd eI)) peer =
        after_check y peer (noise_check_identity L ev (Some cb) (snd sR) p peer)"
    using first_exchange [OF assms(1,2,4,5) p] by blast
  have "noise_check_identity L ev (Some cb) (snd sR) p peer = Some Fails"
    using check_identity_encoded [OF assms(3,7-10) _ assms(11) refl assms(13)] assms(14) by simp
  then have r: "noise_initiator_read L ev (Some cb) (fst eI) (snd eR @ c) (first_hash L (snd eI)) peer = Some (Fails, peer)"
    using c(3) by simp
  have e: "length (snd eI) = 32" "length (snd eR @ c) \<le> 4096" using assms(4,12) c(2) by (auto simp: dh_agrees_def)
  have "\<exists>i'. libp2p_noise_handshake_raw L tcp_stream ev k peer (Some cb) i = Some (Fails, peer, i')"
    if "tcp_unsplit i" "sk_rx i = nframe (snd eR @ c) @ a" for i a
  proof -
    have "tcpu.at_wire i (nframe (snd eR @ c) @ a) (sk_tx i)" using that by (simp add: tcpu.at_wire_def)
    from tcpu.initiator_stops [OF assms(6) e(1) TrueI e(2) this, of L "Some cb" peer k peer] r show ?thesis by blast
  qed
  with c(1) show ?thesis by blast
qed

theorem noise_refuses_bad_signature_witness:
  "\<exists>c. \<forall>i a. tcp_unsplit i \<longrightarrow> sk_rx i = nframe (replicate 32 2 @ c) @ a \<longrightarrow>
     (\<exists>i'. libp2p_noise_handshake_raw sample_lib tcp_stream sample_env () (Some sample_peer) (Some sample_callbacks) i =
       Some (Fails, Some sample_peer, i'))"
proof -
  have D: "dh_agrees sample_lib (replicate 32 1, replicate 32 2) (replicate 32 1, replicate 32 2)"
    "dh_agrees sample_lib (replicate 32 4, replicate 32 5) (replicate 32 1, replicate 32 2)"
    using sample_meets by (auto simp: noise_meets_def)
  have e: "noise_payload_encode sample_lib [8, 1] [6] 1024 = Some ([10] @ sample_varint 2 @ [8, 1] @ [18] @ sample_varint 1 @ [6])"
    by (simp add: noise_payload_encode_def sample_lib_def sample_varint_def Let_def)
  have v: "ev_ephemeral sample_env = Some (replicate 32 1, replicate 32 2)"
    "cb_verify sample_callbacks = Some (\<lambda>k s g. Some (Returns (k = [8, 1] \<and> g = take 4 s)))" by (simp_all add: sample_env_def sample_callbacks_def)
  have h: "([8, 1] :: bytes) \<noteq> []" "([6] :: bytes) \<noteq> []" "length ([8, 1] :: bytes) < 65536" "length ([6] :: bytes) < 65536"
    "length ([10] @ sample_varint 2 @ [8, 1] @ [18] @ sample_varint 1 @ [6]) \<le> 1024"
    by (simp_all add: sample_varint_def)
  have g: "Some (Returns (([8, 1] :: bytes) = [8, 1] \<and> [6] = take 4 (snd (replicate 32 4 :: bytes, replicate 32 5 :: bytes)))) = Some (Returns False)"
    by (auto dest!: arg_cong [where f = length])
  from noise_refuses_bad_signature [OF sample_lib_ok(1,2) sample_protobuf_ok D v(1) h(1-4) e h(5) v(2) g, of "()" "Some sample_peer"]
  show ?thesis unfolding snd_conv by blast
qed

text \<open>C9. A payload of eleven bytes stops the handshake for ever: a field whose announced length, added to the position as a
  64-bit number, gives the position again. A responder that sends it, with any keys, makes an initiator with a \<open>verify\<close>
  callback loop in \<open>noise_payload_decode\<close>: the handshake does not return.\<close>

theorem noise_payload_hangs:
  assumes "aead_ok L" and "hash_ok L" and "dh_agrees L eI eR" and "dh_agrees L sR eI" and "ev_ephemeral ev = Some eI"
    and "length p = 11" and "protobuf_decode_field_and_type L p 11 = Some (1, WIRETYPE_LENGTH_DELIMITED, 1)"
    and "varint_decode L (drop 1 p) = (- 11, 10)" and "cb_verify cb = Some verify"
  shows "\<exists>x c y. static_message L sR (snd eI) p (noise_mix_key L x (noise_mix_hash L (snd eR) (first_hash L (snd eI)))) = Some (c, y) \<and>
    (\<forall>i a. tcp_unsplit i \<longrightarrow> sk_rx i = nframe (snd eR @ c) @ a \<longrightarrow> libp2p_noise_handshake_raw L tcp_stream ev k peer (Some cb) i = None)"
proof -
  have p: "length p \<le> 2048" using assms(6) by simp
  obtain x c y where c: "static_message L sR (snd eI) p (noise_mix_key L x (noise_mix_hash L (snd eR) (first_hash L (snd eI)))) = Some (c, y)"
      "length c = length p + 64" "noise_initiator_read L ev (Some cb) (fst eI) (snd eR @ c) (first_hash L (snd eI)) peer =
        after_check y peer (noise_check_identity L ev (Some cb) (snd sR) p peer)"
    using first_exchange [OF assms(1-4) p] by blast
  have "noise_payload_decode L p 0 None None = None"
    by (rule payload_decode_loops [where h = 1 and n = "- 11" and v = 10]) (use assms(6-8) in simp_all)
  then have "noise_check_identity L ev (Some cb) (snd sR) p peer = None" using assms(9) by (simp add: noise_check_identity_def)
  then have r: "noise_initiator_read L ev (Some cb) (fst eI) (snd eR @ c) (first_hash L (snd eI)) peer = None" using c(3) by simp
  have e: "length (snd eI) = 32" "length (snd eR @ c) \<le> 4096" using assms(3,6) c(2) by (auto simp: dh_agrees_def)
  have "libp2p_noise_handshake_raw L tcp_stream ev k peer (Some cb) i = None"
    if "tcp_unsplit i" "sk_rx i = nframe (snd eR @ c) @ a" for i a
  proof -
    have "tcpu.at_wire i (nframe (snd eR @ c) @ a) (sk_tx i)" using that by (simp add: tcpu.at_wire_def)
    from tcpu.initiator_stops [OF assms(5) e(1) TrueI e(2) this, of L "Some cb" peer k peer] r show ?thesis by blast
  qed
  with c(1) show ?thesis by blast
qed


text \<open>The sample library with a varint decoder that knows the ten bytes of the payload.\<close>

definition hang_payload :: bytes where
  "hang_payload = [0x0A, 0xF5, 0xFF, 0xFF, 0xFF, 0xFF, 0xFF, 0xFF, 0xFF, 0xFF, 0x01]"

definition hang_lib :: ext_lib where
  "hang_lib = sample_lib\<lparr>varint_decode := (\<lambda>bs. if bs = drop 1 hang_payload then (- 11, 10) else (0, 0))\<rparr>"

theorem noise_payload_hangs_witness:
  "\<exists>c. \<forall>i a. tcp_unsplit i \<longrightarrow> sk_rx i = nframe (replicate 32 2 @ c) @ a \<longrightarrow>
     libp2p_noise_handshake_raw hang_lib tcp_stream sample_env () (Some sample_peer) (Some sample_callbacks) i = None"
proof -
  have ok: "aead_ok hang_lib" "hash_ok hang_lib" using sample_lib_ok by (simp_all add: hang_lib_def aead_ok_def hash_ok_def)
  have D: "dh_agrees hang_lib (replicate 32 1, replicate 32 2) (replicate 32 1, replicate 32 2)"
    "dh_agrees hang_lib (replicate 32 4, replicate 32 5) (replicate 32 1, replicate 32 2)"
    using sample_meets by (auto simp: noise_meets_def dh_agrees_def hang_lib_def)
  have v: "ev_ephemeral sample_env = Some (replicate 32 1, replicate 32 2)"
    "cb_verify sample_callbacks = Some (\<lambda>k s g. Some (Returns (k = [8, 1] \<and> g = take 4 s)))" by (simp_all add: sample_env_def sample_callbacks_def)
  have h: "length hang_payload = 11" "protobuf_decode_field_and_type hang_lib hang_payload 11 = Some (1, WIRETYPE_LENGTH_DELIMITED, 1)"
    "varint_decode hang_lib (drop 1 hang_payload) = (- 11, 10)"
    by (simp_all add: hang_payload_def hang_lib_def sample_lib_def WIRETYPE_LENGTH_DELIMITED_def)
  from noise_payload_hangs [OF ok D v(1) h v(2), of "()" "Some sample_peer"] show ?thesis unfolding snd_conv by blast
qed

end
