(* ===== verification/Noise_Channel.thy ===== *)
theory Noise_Channel
  imports Noise_Theorems
begin

text \<open>
  The established channel over TCP: what is written at one end is read at the other, and two ways in which the
  stream below can break it.
\<close>

section \<open>Delivery\<close>

text \<open>A caller that writes a list of buffers and goes on while each is taken whole.\<close>

primrec noise_write_all :: "ext_lib \<Rightarrow> 's v2stream \<Rightarrow> 's noise_ctx \<Rightarrow> bytes list \<Rightarrow> (bool \<times> 's noise_ctx) option" where
  "noise_write_all L io c [] = Some (True, c)"
| "noise_write_all L io c (b # bs) =
     (case noise_stream_write L io c b of
        None \<Rightarrow> None
      | Some (n, c1) \<Rightarrow> if n = int (length b) then noise_write_all L io c1 bs else Some (False, c1))"

text \<open>A caller that reads exactly so many bytes, and then so many, on the same context: each time the loop of
  \<open>yamux_read_full\<close> over \<open>noise_stream_read\<close>. What a read leaves of a frame stays in the buffer of the context for the next.\<close>

primrec noise_read_all :: "ext_lib \<Rightarrow> 's v2stream \<Rightarrow> 's noise_ctx \<Rightarrow> nat list \<Rightarrow> (bytes list option \<times> 's noise_ctx) option" where
  "noise_read_all L io c [] = Some (Some [], c)"
| "noise_read_all L io c (n # ns) =
     (case read_loop (noise_io L True io) n [] c of
        None \<Rightarrow> None
      | Some (None, c1) \<Rightarrow> Some (None, c1)
      | Some (Some d, c1) \<Rightarrow> map_option (\<lambda>(ds, c2). (map_option ((#) d) ds, c2)) (noise_read_all L io c1 ns))"

context v2_framed
begin

lemma write_all_live:
  assumes "aead_ok L" and "fits 65535"
  shows "length (write_key c) = 32 \<Longrightarrow> at_wire (raw_stream c) a w \<Longrightarrow> \<forall>b \<in> set bs. plain_ok b \<Longrightarrow>
    \<exists>c'. noise_write_all L io c bs = Some (True, c') \<and> at_wire (raw_stream c') a (w @ noise_wire L (write_key c) (write_nonce c) bs)"
proof (induction bs arbitrary: c w)
  case (Cons b bs)
  have b: "plain_ok b" "\<forall>b \<in> set bs. plain_ok b" using Cons.prems(3) by simp_all
  obtain st where st: "noise_stream_write L io c b = Some (int (length b), c\<lparr>raw_stream := st, write_nonce := write_nonce c + 1\<rparr>)"
      "at_wire st a (w @ noise_frame L (write_key c) (write_nonce c) b)"
    using nz_write_frame [OF assms(1) Cons.prems(1) b(1) assms(2) Cons.prems(2)] by blast
  from Cons.IH [of "c\<lparr>raw_stream := st, write_nonce := write_nonce c + 1\<rparr>" "w @ noise_frame L (write_key c) (write_nonce c) b"]
  show ?case using Cons.prems(1) st b(2) by auto
qed simp

lemma nz_read_all:
  assumes "aead_ok L" and "fits 65535" and "nz_ready L k c" and "sum_list ns \<le> length (nz_avail L avail c)"
  shows "\<exists>ds c'. noise_read_all L io c ns = Some (Some ds, c') \<and> map length ds = ns \<and> nz_avail L avail c = concat ds @ nz_avail L avail c'"
  using assms(3,4)
proof (induction ns arbitrary: c)
  case (Cons n ns)
  let ?a = "nz_avail L avail c"
  have n: "n \<le> length ?a" "sum_list ns \<le> length (drop n ?a)" using Cons.prems(2) by simp_all
  obtain c1 where c1: "read_loop (noise_io L True io) n [] c = Some (Some (take n ?a), c1)" "nz_avail L avail c1 = drop n ?a" "nz_ready L k c1"
    using v2_live.read_loop_live [OF v2_packet.axioms(1) [OF noise_stream_contract [OF assms(1,2)]] Cons.prems(1) n(1), of "[]"] by auto
  obtain ds c' where r: "noise_read_all L io c1 ns = Some (Some ds, c')" "map length ds = ns" "drop n ?a = concat ds @ nz_avail L avail c'"
    using Cons.IH [OF c1(3)] c1(2) n(2) by auto
  have "?a = concat (take n ?a # ds) @ nz_avail L avail c'" using r(3) by (metis append_take_drop_id append_assoc concat.simps(2))
  with c1(1) r(1,2) n(1) show ?case by (intro exI [of _ "take n ?a # ds"] exI [of _ c']) simp
qed simp

lemma nz_ready_fresh:
  assumes "ready st" and "avail st = noise_wire L (read_key d) (read_nonce d) bs" and "\<forall>b \<in> set bs. plain_ok b"
    and "length (read_key d) = 32" and "length (write_key d) = 32" and "nz_buf_ok d" and "write_nonce d = 0"
  shows "nz_ready L (length (sent st)) (d\<lparr>raw_stream := st\<rparr>)"
  unfolding nz_ready_def by (intro conjI exI [of _ bs] exI [of _ "[]"]) (use assms in \<open>simp_all add: nz_buf_ok_def\<close>)

end

text \<open>C5. What is written at one end of an established channel over TCP is read at the other: if the AEAD is correct and TCP does not split
  the two bytes of a frame header, the writes of any buffers of 1 to 65519 bytes succeed, and the peer's context, on any socket that delivers the
  bytes written, reads them back in any number of reads of any sizes, one after the other: the pieces have the sizes asked for and together are the
  bytes written, in order. A read that ends inside a frame leaves the rest in the buffer of the context, from which the next one is served.
  Every allocation of the reader succeeds; \<open>noise_split_header_fails\<close> below shows what a split header does.\<close>

theorem noise_channel_delivers:
  assumes "aead_ok L" and "noise_linked c d" and "tcp_unsplit (raw_stream c)" and "\<forall>b \<in> set bs. plain_ok b"
  shows "\<exists>c' w. noise_write_all L tcp_stream c bs = Some (True, c') \<and> sk_tx (raw_stream c') = sk_tx (raw_stream c) @ w \<and>
    (\<forall>s ns. tcp_unsplit s \<longrightarrow> sk_rx s = w \<longrightarrow> sum_list ns \<le> length (concat bs) \<longrightarrow>
      (\<exists>ds d'. noise_read_all L tcp_stream (d\<lparr>raw_stream := s\<rparr>) ns = Some (Some ds, d') \<and> map length ds = ns \<and>
        concat ds = take (sum_list ns) (concat bs)))"
proof -
  have K: "length (write_key c) = 32" "length (read_key d) = 32" "length (write_key d) = 32" "read_key d = write_key c"
      "read_nonce d = write_nonce c" "nz_buf_ok d" "write_nonce d = 0" "nz_pending d = []"
    using assms(2) by (auto simp: noise_linked_def)
  let ?w = "noise_wire L (write_key c) (write_nonce c) bs"
  have "tcpu.at_wire (raw_stream c) (sk_rx (raw_stream c)) (sk_tx (raw_stream c))" using assms(3) by (simp add: tcpu.at_wire_def)
  then obtain c' where c': "noise_write_all L tcp_stream c bs = Some (True, c')" "sk_tx (raw_stream c') = sk_tx (raw_stream c) @ ?w"
    using tcpu.write_all_live [OF assms(1) TrueI K(1) _ assms(4)] by (auto simp: tcpu.at_wire_def)
  have "\<exists>ds d'. noise_read_all L tcp_stream (d\<lparr>raw_stream := s\<rparr>) ns = Some (Some ds, d') \<and> map length ds = ns \<and>
        concat ds = take (sum_list ns) (concat bs)" if "tcp_unsplit s" "sk_rx s = ?w" "sum_list ns \<le> length (concat bs)" for s ns
  proof -
    have r: "tcpu.nz_ready L (length (sk_tx s)) (d\<lparr>raw_stream := s\<rparr>)"
      using tcpu.nz_ready_fresh [OF that(1) _ assms(4) K(2,3,6,7)] that(2) K(4,5) by simp
    have a: "nz_avail L sk_rx (d\<lparr>raw_stream := s\<rparr>) = concat bs"
      using K(1,4,5,8) that(2) assms(1,4) by (simp add: nz_avail_def nz_pending_def)
    from tcpu.nz_read_all [OF assms(1) TrueI r, of ns] that(3) obtain ds d' where
      d: "noise_read_all L tcp_stream (d\<lparr>raw_stream := s\<rparr>) ns = Some (Some ds, d')" "map length ds = ns" "concat bs = concat ds @ nz_avail L sk_rx d'"
      unfolding a by blast
    then have "length (concat ds) = sum_list ns" by (simp add: length_concat)
    then show ?thesis using d by (auto intro!: exI [of _ ds] exI [of _ d'])
  qed
  with c' show ?thesis by blast
qed

definition sample_ctx :: "tcp_sock \<Rightarrow> tcp_sock noise_ctx" where
  "sample_ctx s = \<lparr>raw_stream = s, read_key = replicate 32 1, write_key = replicate 32 1, read_nonce = 0, write_nonce = 0,
     nz_buf = zero_buf, nz_len = 0, nz_pos = 0\<rparr>"

lemma sample_linked: "noise_linked (sample_ctx s) (sample_ctx t)"
  by (simp add: noise_linked_def sample_ctx_def nz_buf_ok_def nz_pending_def)

definition whole_sock :: "bytes \<Rightarrow> tcp_sock" where
  "whole_sock rx = \<lparr>sk_fd = 5, sk_rx = rx, sk_recv = (\<lambda>_. Some 9), sk_tx = [], sk_send = (\<lambda>_. (1, Some 9))\<rparr>"

lemma whole_sock_simps [simp]: "tcp_unsplit (whole_sock rx)" "sk_rx (whole_sock rx) = rx" "sk_tx (whole_sock rx) = []"
  by (simp_all add: tcp_unsplit_def tcp_ready_def whole_sock_def)

theorem noise_channel_delivers_witness:
  "\<exists>c' d'. noise_write_all sample_lib tcp_stream (sample_ctx (whole_sock [])) [[1, 2, 3], [4]] = Some (True, c') \<and>
     noise_read_all sample_lib tcp_stream (sample_ctx (whole_sock (sk_tx (raw_stream c')))) [1, 1, 2] = Some (Some [[1], [2], [3, 4]], d')"
proof -
  let ?bs = "[[1, 2, 3], [4 :: byte]]"
  have s: "\<And>s t. (sample_ctx s)\<lparr>raw_stream := t\<rparr> = sample_ctx t" "raw_stream (sample_ctx (whole_sock [])) = whole_sock []"
    by (simp_all add: sample_ctx_def)
  have p: "\<forall>b \<in> set ?bs. plain_ok b" by (simp add: plain_ok_def)
  have "tcp_unsplit (raw_stream (sample_ctx (whole_sock [])))" by (simp add: s)
  from noise_channel_delivers [OF sample_lib_ok(1) sample_linked [of "whole_sock []" "whole_sock []"] this p] obtain c' w where
    c: "noise_write_all sample_lib tcp_stream (sample_ctx (whole_sock [])) ?bs = Some (True, c')" "sk_tx (raw_stream c') = w"
    "\<forall>t ns. tcp_unsplit t \<longrightarrow> sk_rx t = w \<longrightarrow> sum_list ns \<le> length (concat ?bs) \<longrightarrow>
      (\<exists>ds d'. noise_read_all sample_lib tcp_stream (sample_ctx t) ns = Some (Some ds, d') \<and> map length ds = ns \<and>
        concat ds = take (sum_list ns) (concat ?bs))"
    unfolding s whole_sock_simps append_Nil by blast
  from c(3) [rule_format, of "whole_sock (sk_tx (raw_stream c'))" "[1, 1, 2]"] c(2) obtain ds d' where
    d: "noise_read_all sample_lib tcp_stream (sample_ctx (whole_sock (sk_tx (raw_stream c')))) [1, 1, 2] = Some (Some ds, d')"
      "map length ds = [1, 1, 2]" "concat ds = [1, 2, 3, 4]" by auto
  then have "ds = [[1], [2], [3, 4]]"
    by (auto simp: map_eq_Cons_conv length_Suc_conv numeral_2_eq_2)
  with c(1) d(1) show ?thesis by blast
qed

section \<open>What goes wrong\<close>

text \<open>A header that TCP delivers in two pieces breaks the channel: although a whole valid frame is there to be read, a
  \<open>recv\<close> that hands out one byte makes \<open>noise_stream_read\<close> fail, with the first byte of the header gone and the counter
  unchanged.\<close>

theorem noise_split_header_fails:
  assumes "tcp_ready (raw_stream c)" and "sk_recv (raw_stream c) 0 = Some 0" and "nz_pos c = nz_len c"
    and "aead_ok L" and "length (read_key c) = 32" and "plain_ok p"
    and "sk_rx (raw_stream c) = noise_frame L (read_key c) (read_nonce c) p @ a"
  shows "\<exists>c'. noise_stream_read L tcp_stream True c n = Some (None, c') \<and> sk_rx (raw_stream c') = tl (sk_rx (raw_stream c)) \<and>
    read_nonce c' = read_nonce c"
proof -
  obtain ct where "noise_frame L (read_key c) (read_nonce c) p = frame_header (length p + 16) @ ct"
    using noise_frame_ok [OF assms(4,5)] assms(6) by (auto simp: plain_ok_def)
  then obtain b bs where b: "sk_rx (raw_stream c) = b # bs" using assms(7) by (auto simp: frame_header_def)
  have "0 \<le> sk_fd (raw_stream c)" using assms(1) by (simp add: tcp_ready_def)
  then have "v2_read tcp_stream (raw_stream c) 2 = Some (Some [b], (raw_stream c)\<lparr>sk_recv := (\<lambda>k. sk_recv (raw_stream c) (Suc k)), sk_rx := bs\<rparr>)"
    using assms(2) b by (simp add: tcp_stream_def tcp_stream_read_def sock_recv_def Let_def)
  then show ?thesis using assms(3) b by (simp add: noise_stream_read_def)
qed

theorem noise_split_header_fails_witness:
  "let s = (whole_sock (noise_frame sample_lib (replicate 32 1) 0 [7, 8]))\<lparr>sk_recv := (\<lambda>_. Some 0)\<rparr>
   in \<exists>c'. noise_stream_read sample_lib tcp_stream True (sample_ctx s) 2 = Some (None, c') \<and> read_nonce c' = 0"
proof -
  let ?s = "(whole_sock (noise_frame sample_lib (replicate 32 1) 0 [7, 8]))\<lparr>sk_recv := (\<lambda>_. Some 0)\<rparr>"
  have "tcp_ready (raw_stream (sample_ctx ?s))" "sk_recv (raw_stream (sample_ctx ?s)) 0 = Some 0" "nz_pos (sample_ctx ?s) = nz_len (sample_ctx ?s)"
    "length (read_key (sample_ctx ?s)) = 32" "plain_ok [7, 8]" "read_nonce (sample_ctx ?s) = 0"
    "sk_rx (raw_stream (sample_ctx ?s)) = noise_frame sample_lib (read_key (sample_ctx ?s)) (read_nonce (sample_ctx ?s)) [7, 8] @ []"
    by (simp_all add: sample_ctx_def whole_sock_def tcp_ready_def plain_ok_def)
  then show ?thesis using noise_split_header_fails [of "sample_ctx ?s" sample_lib "[7, 8]" "[]" 2] unfolding Let_def by auto
qed


text \<open>After a failed write the same counter encrypts other data: when the socket takes the header and part of the
  ciphertext and then fails, \<open>noise_stream_write\<close> reports failure without counting the message, and the next write goes
  out under the same key and counter. The wire then holds the beginning of one ciphertext and the whole of another made
  with one nonce.\<close>

theorem noise_nonce_reused:
  assumes "aead_ok L" and "length (write_key c) = 32" and "plain_ok b1" and "plain_ok b2"
    and "0 \<le> sk_fd (raw_stream c)" and "\<forall>k. sk_recv (raw_stream c) k \<noteq> None \<and> sk_recv (raw_stream c) k \<noteq> Some 0"
    and "sk_send (raw_stream c) 0 = (0, Some 1)" and "sk_send (raw_stream c) 1 = (0, Some m)" and "m < length b1"
    and "sk_send (raw_stream c) 2 = (0, None)" and "\<forall>k \<ge> 3. snd (sk_send (raw_stream c) k) \<noteq> None"
  shows "\<exists>c' c''. noise_stream_write L tcp_stream c b1 = Some (- 1, c') \<and> noise_stream_write L tcp_stream c' b2 = Some (int (length b2), c'') \<and>
    sk_tx (raw_stream c'') = sk_tx (raw_stream c) @ take (m + 3) (noise_frame L (write_key c) (write_nonce c) b1) @
      noise_frame L (write_key c) (write_nonce c) b2"
proof -
  let ?s = "raw_stream c"
  have p: "length b1 \<le> 65519" using assms(3) by (simp add: plain_ok_def)
  obtain ct where ct: "noise_frame L (write_key c) (write_nonce c) b1 = frame_header (length b1 + 16) @ ct"
      "noise_encrypt L (write_key c) (write_nonce c) [] b1 = Some ct" "length ct = length b1 + 16"
    using noise_frame_ok [OF assms(1,2) p] by blast
  let ?h = "frame_header (length b1 + 16)"
  let ?s1 = "?s\<lparr>sk_send := (\<lambda>k. sk_send ?s (Suc k)), sk_tx := sk_tx ?s @ ?h\<rparr>"
  let ?s3 = "?s\<lparr>sk_send := (\<lambda>k. sk_send ?s (k + 3)), sk_tx := sk_tx ?s @ ?h @ take (m + 1) ct\<rparr>"
  have w1: "v2_write tcp_stream ?s ?h = Some (2, ?s1)"
    using assms(5,7) by (simp add: tcp_stream_def tcp_stream_write_def tcp_write_loop.simps [of ?h] sock_send_def Let_def)
  have sh: "(\<lambda>k. sk_send ?s (Suc (Suc (Suc k)))) = (\<lambda>k. sk_send ?s (k + 3))" by (simp add: eval_nat_numeral)
  have "sk_send ?s (Suc 0) = (0, Some m)" "sk_send ?s (Suc (Suc 0)) = (0, None)" using assms(8,10) by (simp_all add: eval_nat_numeral)
  then have w2: "v2_write tcp_stream ?s1 ct = Some (- 1, ?s3)"
    using assms(5,9) ct(3) sh
    by (simp add: tcp_stream_def tcp_stream_write_def tcp_write_loop.simps [of ct] sock_send_def Let_def)
  have "take (length b1 + 16) ct = ct" using ct(3) by simp
  then have n1: "noise_stream_write L tcp_stream c b1 = Some (- 1, c\<lparr>raw_stream := ?s3\<rparr>)"
    using w1 w2 ct p by (simp add: noise_stream_write_def Let_def NOISE_TAGLEN_def)
  have "tcp_unsplit ?s3" using assms(5,6,11) by (simp add: tcp_unsplit_def tcp_ready_def)
  then have "tcpu.at_wire (raw_stream (c\<lparr>raw_stream := ?s3\<rparr>)) (sk_rx ?s3) (sk_tx ?s3)" by (simp add: tcpu.at_wire_def)
  from tcpu.nz_write_frame [OF assms(1) _ assms(4) TrueI this] assms(2) obtain st where
    "noise_stream_write L tcp_stream (c\<lparr>raw_stream := ?s3\<rparr>) b2 = Some (int (length b2), c\<lparr>raw_stream := st, write_nonce := write_nonce c + 1\<rparr>)"
    "sk_tx st = sk_tx ?s3 @ noise_frame L (write_key c) (write_nonce c) b2" by (auto simp: tcpu.at_wire_def)
  then show ?thesis using n1 ct(1) by (simp add: frame_header_def numeral_3_eq_3)
qed

theorem noise_nonce_reused_witness:
  "let s = (whole_sock [])\<lparr>sk_send := (\<lambda>k. if k = 0 then (0, Some 1) else if k = 1 then (0, Some 0) else if k = 2 then (0, None) else (0, Some 9))\<rparr>
   in \<exists>c' c''. noise_stream_write sample_lib tcp_stream (sample_ctx s) [1, 2] = Some (- 1, c') \<and>
     noise_stream_write sample_lib tcp_stream c' [3] = Some (1, c'') \<and>
     sk_tx (raw_stream c'') = take 3 (noise_frame sample_lib (replicate 32 1) 0 [1, 2]) @ noise_frame sample_lib (replicate 32 1) 0 [3]"
proof -
  let ?s = "(whole_sock [])\<lparr>sk_send := (\<lambda>k. if k = 0 then (0, Some 1) else if k = 1 then (0, Some 0) else if k = 2 then (0, None) else (0, Some 9))\<rparr>"
  have "raw_stream (sample_ctx ?s) = ?s" "write_key (sample_ctx ?s) = replicate 32 1" "write_nonce (sample_ctx ?s) = 0" "plain_ok [1, 2]" "plain_ok [3]"
    by (simp_all add: sample_ctx_def plain_ok_def)
  then show ?thesis using noise_nonce_reused [of sample_lib "sample_ctx ?s" "[1, 2]" "[3]" 0] unfolding Let_def
    by (simp add: whole_sock_def)
qed

end
