(* ===== verification/Stack_V2.thy ===== *)
theory Stack_V2
  imports Yamux_Theorems Noise_Channel
begin

text \<open>
  The stack as the dialer builds it: protocol negotiation over a yamux stream over a Noise channel over TCP. Each
  layer keeps the contract of the one below, so the statements about one layer hold over all the others; and one place
  where two layers do not fit.
\<close>

section \<open>Negotiation over yamux over any stream\<close>

context v2_packet
begin

lemma negotiation_over_yamux:
  assumes "healthy ss (concat (map wire fs)) w" and "kind_peer cx fs" and "framed w" and "\<not> cx_closed cx"
    and "buffer_ok cx" and "buffered cx = []" and "0 \<notin> set p" and "length p \<le> 254" and "512 \<le> unat (send_window cx)" and "fits 512"
    and "data_in (cx_stream_id cx) fs = frame MULTISTREAM_MSG_HEADER @ frame (p @ [10])"
  shows "\<exists>s1 cx' ss'. libp2p_v2_net_multistream_connect (yamux_io io) True (cx, ss) = Some (True, s1) \<and>
    libp2p_net_multistream_negotiate_protocol (yamux_io io) True (Some p) s1 = Some (True, cx', ss') \<and>
    y_sent sent (cx', ss') = y_sent sent (cx, ss) @ frame MULTISTREAM_MSG_HEADER @ frame (p @ [10])"
proof -
  let ?H = "frame MULTISTREAM_MSG_HEADER" and ?P = "frame (p @ [10])"
  have ready: "y_ready (cx, ss)" using assms(1-5) by (auto simp: y_ready_def)
  have "\<forall>f\<in>set fs. wf_frame f" using assms(2) by (simp add: kind_peer_def)
  then have av: "y_avail avail (cx, ss) = ?H @ ?P" using healthy_wire [OF assms(1)] assms(6,11) by (simp add: y_avail_def)
  have len: "length ?H \<le> 21" "length ?P \<le> 257"
    using varint_header_length [of 19 1] varint_header_length [of "Suc (length p)" 1] assms(8) by (simp_all add: frame_def)
  then have room: "y_room fits (cx, ss) 512" "length ?H \<le> 512" "length ?P \<le> 512 - length ?H"
    using assms(9,10) by (simp_all add: y_room_def YAMUX_MAX_PAYLOAD_def)
  obtain s1 where s1: "libp2p_v2_net_multistream_connect (yamux_io io) True (cx, ss) = Some (True, s1)"
    "y_avail avail s1 = ?P" "y_sent sent s1 = y_sent sent (cx, ss) @ ?H" "y_ready s1" "y_room fits s1 (512 - length ?H)"
    using v2_live.connect_live [OF yamux_stream_contract ready room(1,2) av] by auto
  have "y_avail avail s1 = ?P @ []" using s1(2) by simp
  from v2_live.negotiate_live [OF yamux_stream_contract s1(4,5) assms(7,8) room(3) this] assms(7,8) obtain s2 where
    "libp2p_net_multistream_negotiate_protocol (yamux_io io) True (Some p) s1 = Some (True, s2)"
    "y_sent sent s2 = y_sent sent s1 @ ?P" by auto
  then show ?thesis using s1 by (cases s2) auto
qed

end

section \<open>The whole stack\<close>

text \<open>A yamux session over a Noise channel over a TCP socket: the channel is in working order, nothing has been sent on it
  and what the socket delivers are the encrypted frames of \<open>a\<close>, in pieces of any size.\<close>

definition noise_session :: "ext_lib \<Rightarrow> tcp_sock noise_ctx yamux_session \<Rightarrow> bytes \<Rightarrow> bool" where
  "noise_session L ss a \<longleftrightarrow>
     (let c = ys_stream ss in tcp_unsplit (raw_stream c) \<and> length (read_key c) = 32 \<and> length (write_key c) = 32 \<and> nz_buf_ok c \<and>
        nz_pending c = [] \<and> write_nonce c = 0 \<and>
        (\<exists>ps. (\<forall>p \<in> set ps. plain_ok p) \<and> concat ps = a \<and> sk_rx (raw_stream c) = noise_wire L (read_key c) (read_nonce c) ps)) \<and>
     \<not> ys_closed ss \<and> (\<forall>k. ys_mem ss k) \<and> distinct (map pi_stream_id (pending_inbound ss))"

lemma noise_session_healthy:
  assumes "aead_ok L" and "noise_session L ss a"
  defines "k \<equiv> length (sk_tx (raw_stream (ys_stream ss)))"
  shows "v2_packet.healthy (nz_avail L sk_rx) (nz_sent L sk_tx k) (tcpu.nz_ready L k) ss a []"
    and "v2_packet.at_wire (nz_avail L sk_rx) (nz_sent L sk_tx k) (tcpu.nz_ready L k) (ys_stream ss) a []"
proof -
  let ?c = "ys_stream ss"
  obtain ps where ps: "\<forall>p \<in> set ps. plain_ok p" "concat ps = a" "sk_rx (raw_stream ?c) = noise_wire L (read_key ?c) (read_nonce ?c) ps"
    using assms(2) by (auto simp: noise_session_def Let_def)
  have C: "tcp_unsplit (raw_stream ?c)" "length (read_key ?c) = 32" "length (write_key ?c) = 32" "nz_buf_ok ?c" "nz_pending ?c = []"
      "write_nonce ?c = 0" using assms(2) by (simp_all add: noise_session_def Let_def)
  have r: "tcpu.nz_ready L k ?c" using tcpu.nz_ready_fresh [OF C(1) ps(3,1) C(2,3,4,6)] by (simp add: k_def)
  have "nz_avail L sk_rx ?c = a" "nz_sent L sk_tx k ?c = []"
    using ps C(2,5) assms(1) by (simp_all add: nz_avail_def nz_sent_def k_def)
  with r show w: "v2_packet.at_wire (nz_avail L sk_rx) (nz_sent L sk_tx k) (tcpu.nz_ready L k) ?c a []"
    by (simp add: v2_packet.at_wire_def [OF tcpu.noise_stream_contract [OF assms(1) TrueI]])
  then show "v2_packet.healthy (nz_avail L sk_rx) (nz_sent L sk_tx k) (tcpu.nz_ready L k) ss a []"
    using assms(2) by (simp add: v2_packet.healthy_def [OF tcpu.noise_stream_contract [OF assms(1) TrueI]] noise_session_def Let_def)
qed

text \<open>The whole stack works: over a fresh yamux session on an established Noise channel over TCP, protocol negotiation
  on one stream completes. The peer's side of the negotiation may be cut into yamux frames in any way and mixed with
  frames of other streams, these cut into Noise frames in any way, these into segments that do not split a Noise header;
  the dialer's \<open>connect\<close> and \<open>negotiate\<close> succeed, and the plaintext sent on the stream is its side.\<close>

theorem negotiation_over_stack:
  assumes "aead_ok L" and "noise_session L ss (concat (map wire fs))" and "kind_peer cx fs" and "\<not> cx_closed cx"
    and "buffer_ok cx" and "buffered cx = []" and "0 \<notin> set p" and "length p \<le> 254" and "512 \<le> unat (send_window cx)"
    and "data_in (cx_stream_id cx) fs = frame MULTISTREAM_MSG_HEADER @ frame (p @ [10])"
    and "k = length (sk_tx (raw_stream (ys_stream ss)))"
  shows "\<exists>s1 cx' ss'. libp2p_v2_net_multistream_connect (yamux_io (noise_io L True tcp_stream)) True (cx, ss) = Some (True, s1) \<and>
    libp2p_net_multistream_negotiate_protocol (yamux_io (noise_io L True tcp_stream)) True (Some p) s1 = Some (True, cx', ss') \<and>
    y_sent (nz_sent L sk_tx k) (cx', ss') = frame MULTISTREAM_MSG_HEADER @ frame (p @ [10])"
proof -
  note C = tcpu.noise_stream_contract [OF assms(1) TrueI, of k]
  have h: "v2_packet.healthy (nz_avail L sk_rx) (nz_sent L sk_tx k) (tcpu.nz_ready L k) ss (concat (map wire fs)) []"
    unfolding assms(11) by (rule noise_session_healthy [OF assms(1,2)])
  have "framed []" unfolding framed_def by (rule exI [of _ "[]"]) simp
  moreover have "y_sent (nz_sent L sk_tx k) (cx, ss) = []" using v2_packet.healthy_wire [OF C h] by (simp add: y_sent_def)
  ultimately show ?thesis using v2_packet.negotiation_over_yamux [OF C h assms(3) _ assms(4-9) _ assms(10)] by auto
qed

text \<open>A fresh session over a fresh channel that has two Noise frames to read.\<close>

definition stack_session :: "bytes list \<Rightarrow> tcp_sock noise_ctx yamux_session" where
  "stack_session ps = the (libp2p_yamux_session_new (sample_ctx (whole_sock (noise_wire sample_lib (replicate 32 1) 0 ps))) False True (\<lambda>_. True))"

lemma stack_session_fields [simp]:
  "ys_stream (stack_session ps) = sample_ctx (whole_sock (noise_wire sample_lib (replicate 32 1) 0 ps))"
  "ys_closed (stack_session ps) = False" "pending_inbound (stack_session ps) = []" "ys_mem (stack_session ps) = (\<lambda>_. True)"
  by (simp_all add: stack_session_def libp2p_yamux_session_new_def)

lemma stack_session_ok: "\<forall>p \<in> set ps. plain_ok p \<Longrightarrow> noise_session sample_lib (stack_session ps) (concat ps)"
  unfolding noise_session_def Let_def by (intro conjI exI [of _ ps]) (simp_all add: sample_ctx_def nz_buf_ok_def nz_pending_def)

theorem negotiation_over_stack_witness:
  "let d = frame MULTISTREAM_MSG_HEADER @ frame (sample_proto @ [10]); ps = [wire (ping_header 0 7, []), wire (data_header 1 0 (length d), d)]
   in \<exists>s1 s2. libp2p_v2_net_multistream_connect (yamux_io (noise_io sample_lib True tcp_stream)) True (new_ctx 1 True, stack_session ps) = Some (True, s1) \<and>
     libp2p_net_multistream_negotiate_protocol (yamux_io (noise_io sample_lib True tcp_stream)) True (Some sample_proto) s1 = Some (True, s2)"
proof -
  let ?d = "frame MULTISTREAM_MSG_HEADER @ frame (sample_proto @ [10])"
  let ?fs = "[(ping_header 0 7, []), (data_header 1 0 (length ?d), ?d)]"
  have len: "length ?d < 512"
    using varint_header_length [of 19 1] varint_header_length [of "Suc (length sample_proto)" 1] sample_proto_ok(2) by (simp add: frame_def)
  then have wf: "wf_frame (data_header 1 0 (length ?d), ?d)" by (intro own_data_frame(1)) simp_all
  have k: "kind_peer (new_ctx 1 True) ?fs"
    using wf passed_ping [of 1 7] by (auto simp: kind_peer_def passed_def frame_types YAMUX_INITIAL_WINDOW_SIZE_def has_flag_def)
  have "wire (ping_header 0 7, []) \<noteq> []" "length (wire (ping_header 0 7, [])) = 12" "length (wire (data_header 1 0 (length ?d), ?d)) = 12 + length ?d"
    "wire (data_header 1 0 (length ?d), ?d) \<noteq> []"
    by (auto simp: wire_def encode_header_def net16_def net32_def)
  then have "\<forall>p \<in> set (map wire ?fs). plain_ok p" using len by (auto simp: plain_ok_def)
  from stack_session_ok [OF this] have s: "noise_session sample_lib (stack_session (map wire ?fs)) (concat (map wire ?fs))" .
  have "data_in (cx_stream_id (new_ctx 1 True)) ?fs = ?d" by (simp add: is_data_def frame_types)
  with negotiation_over_stack [OF sample_lib_ok(1) s k _ _ _ sample_proto_ok] show ?thesis
    unfolding Let_def by (fastforce simp: YAMUX_INITIAL_WINDOW_SIZE_def)
qed

text \<open>C29. A write on a yamux stream of 65520 to 65535 bytes, which yamux allows, is cut by the Noise channel below: the data
  header announces all of them, 65519 follow, and the write reports failure without charging the window. The peer takes
  what is sent next for the missing bytes.\<close>

theorem yamux_write_cut_by_noise:
  assumes "aead_ok L" and "noise_session L ss a" and "\<not> cx_closed cx" and "65519 < length b" and "length b \<le> YAMUX_MAX_PAYLOAD"
    and "length b \<le> unat (send_window cx)" and "k = length (sk_tx (raw_stream (ys_stream ss)))"
  shows "\<exists>ss'. yamux_stream_write (noise_io L True tcp_stream) b cx ss = Some (- 1, cx, ss') \<and>
    nz_sent L sk_tx k (ys_stream ss') = encode_header \<lparr>hd_version = YAMUX_VERSION, hd_type = YAMUX_TYPE_DATA, hd_flags = 0,
      hd_stream_id = cx_stream_id cx, hd_length = of_nat (length b)\<rparr> @ take 65519 b"
proof -
  note C = tcpu.noise_stream_contract [OF assms(1) TrueI, of k]
  let ?h = "encode_header \<lparr>hd_version = YAMUX_VERSION, hd_type = YAMUX_TYPE_DATA, hd_flags = 0,
      hd_stream_id = cx_stream_id cx, hd_length = of_nat (length b)\<rparr>"
  have w: "v2_packet.at_wire (nz_avail L sk_rx) (nz_sent L sk_tx k) (tcpu.nz_ready L k) (ys_stream ss) a []"
    unfolding assms(7) by (rule noise_session_healthy(2) [OF assms(1,2)])
  obtain st1 where st1: "yamux_send_header (noise_io L True tcp_stream) YAMUX_TYPE_DATA 0 (cx_stream_id cx) (of_nat (length b)) ss = Some (True, ss\<lparr>ys_stream := st1\<rparr>)"
      "v2_packet.at_wire (nz_avail L sk_rx) (nz_sent L sk_tx k) (tcpu.nz_ready L k) st1 a ([] @ ?h)"
    using v2_packet.send_header_live [OF C w, of YAMUX_TYPE_DATA 0 "cx_stream_id cx" "of_nat (length b)"] by auto
  have t: "plain_ok (take 65519 b)" "take 65519 (take 65519 b) = take 65519 b" using assms(4) by (auto simp: plain_ok_def)
  have "tcpu.nz_ready L k st1" "nz_sent L sk_tx k st1 = ?h" using st1(2) by (simp_all add: v2_packet.at_wire_def [OF C])
  then obtain st2 where st2: "noise_stream_write L tcp_stream st1 (take 65519 b) = Some (65519, st2)" "nz_sent L sk_tx k st2 = ?h @ take 65519 b"
    using tcpu.nz_write_live [OF assms(1) TrueI _ t(1), of k st1] assms(4) by auto
  have "noise_stream_write L tcp_stream st1 b = noise_stream_write L tcp_stream st1 (take 65519 b)"
    using assms(4) by (simp add: noise_stream_write_def NOISE_TAGLEN_def min_def)
  moreover have "b \<noteq> []" using assms(4) by auto
  ultimately show ?thesis using st1(1) st2 assms(2-6)
    by (simp add: yamux_stream_write_def Let_def min_def noise_session_def)
qed


theorem yamux_write_cut_by_noise_witness:
  "\<exists>ss'. yamux_stream_write (noise_io sample_lib True tcp_stream) (replicate 65530 1) (new_ctx 1 True) (stack_session []) =
     Some (- 1, new_ctx 1 True, ss')"
proof -
  have s: "noise_session sample_lib (stack_session []) []" using stack_session_ok [of "[]"] by simp
  have len: "length (replicate 65530 (1 :: byte)) = 65530" by (rule length_replicate)
  have "65519 < length (replicate 65530 (1 :: byte))" "length (replicate 65530 (1 :: byte)) \<le> YAMUX_MAX_PAYLOAD"
    "length (replicate 65530 (1 :: byte)) \<le> unat (send_window (new_ctx 1 True))" "\<not> cx_closed (new_ctx 1 True)"
    unfolding len by (simp_all add: YAMUX_MAX_PAYLOAD_def YAMUX_INITIAL_WINDOW_SIZE_def)
  with yamux_write_cut_by_noise [OF sample_lib_ok(1) s] show ?thesis by blast
qed

end
