(* ===== verification/Identify_Laws.thy ===== *)
theory Identify_Laws
  imports Identify_V2
begin

text \<open>
  The identify message, from the encoders of the sender to the decoders of the receiver, over any stream that works.
\<close>

section \<open>What the libraries document\<close>

text \<open>A string is a length-delimited field; the decoder of strings takes the length and the data, and counts both.\<close>

definition strings_ok :: "ext_lib \<Rightarrow> bool" where
  "strings_ok L \<longleftrightarrow> (\<forall>fld s cap. 0 \<notin> set s \<longrightarrow> protobuf_encode_string L fld s cap = protobuf_encode_length_delimited L fld s cap) \<and>
     (\<forall>d len n r. length d < 65536 \<longrightarrow> varint_decode L (len @ d @ r) = (of_nat (length d), length len) \<longrightarrow> length (len @ d) \<le> unat n \<longrightarrow>
        protobuf_decode_string L (len @ d @ r) n = (Some d, length (len @ d)))"

text \<open>A varint has at most ten bytes, of which the last and only the last has a clear top bit; it is decoded as it was encoded.\<close>

definition varint_shape :: "bytes \<Rightarrow> bool" where
  "varint_shape v \<longleftrightarrow> v \<noteq> [] \<and> length v \<le> 10 \<and> (\<forall>b \<in> set (butlast v). b AND 0x80 \<noteq> 0) \<and> last v AND 0x80 = 0"

definition lengths_ok :: "ext_lib \<Rightarrow> bool" where
  "lengths_ok L \<longleftrightarrow> (\<forall>n < 65536. varint_shape (varint_encode L (of_nat n)) \<and>
     varint_decode L (varint_encode L (of_nat n)) = (of_nat n, length (varint_encode L (of_nat n))))"

section \<open>Fields\<close>

definition field_shape :: "ext_lib \<Rightarrow> nat \<times> bytes \<times> bytes \<Rightarrow> bytes \<Rightarrow> bool" where
  "field_shape L = (\<lambda>(fld, d, len) b. fld \<in> {1..6} \<and> length d < 65536 \<and>
     (\<exists>cap. protobuf_encode_length_delimited L fld d cap = Some b) \<and> (\<exists>hdr. b = hdr @ len @ d \<and> hdr \<noteq> [] \<and>
     (\<forall>r n. length hdr \<le> unat n \<longrightarrow> protobuf_decode_field_and_type L (hdr @ len @ r) n = Some (int fld, WIRETYPE_LENGTH_DELIMITED, length hdr)) \<and>
     (\<forall>r. varint_decode L (len @ r) = (of_nat (length d), length len))))"

lemma encode_shape:
  assumes "protobuf_ok L" and "fld \<in> {1..6}" and "length d < 65536" and "length d + 4 \<le> cap"
  shows "\<exists>b len. protobuf_encode_length_delimited L fld d cap = Some b \<and> field_shape L (fld, d, len) b \<and> length b \<le> length d + 4"
proof -
  have "0 < fld" "fld < 16" using assms(2) by auto
  then obtain hdr len where h: "length hdr + length len \<le> 4" "field_ok L fld d cap hdr len"
    using assms(1,3) unfolding protobuf_ok_def by blast
  then have e: "protobuf_encode_length_delimited L fld d cap = Some (hdr @ len @ d)" using assms(4) by (simp add: field_ok_def)
  then have "field_shape L (fld, d, len) (hdr @ len @ d)" using h assms(2,3) by (auto simp: field_shape_def field_ok_def)
  then show ?thesis using h(1) e by (intro exI [of _ "hdr @ len @ d"] exI [of _ len]) simp
qed

text \<open>What a field adds to what is known.\<close>

definition apply_field :: "nat \<times> bytes \<times> bytes \<Rightarrow> identify_info \<Rightarrow> identify_info" where
  "apply_field = (\<lambda>(fld, d, len) info.
     if fld = 1 then info\<lparr>info_public_key := Some d, info_public_key_len := length (len @ d)\<rparr>
     else if fld = 2 then info\<lparr>info_listen_addrs := info_listen_addrs info @ [d]\<rparr>
     else if fld = 3 then info\<lparr>info_protocols := info_protocols info @ [d]\<rparr>
     else if fld = 4 then info\<lparr>info_observed_addr := Some d, info_observed_addr_len := length (len @ d)\<rparr>
     else if fld = 5 then info\<lparr>info_protocol_version := Some d\<rparr>
     else info\<lparr>info_agent_version := Some d\<rparr>)"

text \<open>The remaining length as an \<open>int\<close>, passed where a \<open>size_t\<close> is taken.\<close>

lemma unat_scast: "n < 2 ^ 31 \<Longrightarrow> unat (scast (of_nat n :: 32 word) :: 64 word) = n"
proof -
  assume n: "n < 2 ^ 31"
  then have "sint (of_nat n :: 32 word) = int n" by (simp add: signed_of_nat signed_take_bit_int_eq_self)
  then have "(scast (of_nat n :: 32 word) :: 64 word) = of_nat n" by (simp add: scast_eq)
  then show ?thesis using n by (simp add: unat_of_nat)
qed

lemma loop_field:
  assumes "strings_ok L" and "field_shape L f b" and "\<forall>k. grow k" and "length (pre @ b) \<le> msg_len" and "msg_len < 65536"
  shows "identify_loop L grow (pre @ b @ post) msg_len (length pre) info =
    identify_loop L grow (pre @ b @ post) msg_len (length (pre @ b)) (apply_field f info)"
proof -
  obtain fld d len where f: "f = (fld, d, len)" by (cases f)
  obtain hdr where h: "fld \<in> {1..6}" "length d < 65536" "b = hdr @ len @ d" "hdr \<noteq> []"
      "\<And>r n. length hdr \<le> unat n \<Longrightarrow> protobuf_decode_field_and_type L (hdr @ len @ r) n = Some (int fld, WIRETYPE_LENGTH_DELIMITED, length hdr)"
      "\<And>r. varint_decode L (len @ r) = (of_nat (length d), length len)"
    using assms(2) by (auto simp: field_shape_def f)
  let ?pos = "length pre + length hdr"
  have "unat (of_nat msg_len - of_nat ?pos :: 64 word) = msg_len - ?pos"
    using assms(4,5) h(3) by (simp add: unat_sub_if' unat_of_nat word_le_nat_alt flip: of_nat_add)
  then have "length (len @ d) \<le> unat (of_nat msg_len - of_nat ?pos :: 64 word)" using assms(4) h(3) by simp
  then have s: "protobuf_decode_string L (len @ d @ post) (of_nat msg_len - of_nat ?pos) = (Some d, length (len @ d))"
    using assms(1) h(2,6) unfolding strings_ok_def by blast
  have i: "1 \<le> int fld" "int fld \<le> 6" using h(1) by auto
  have e: "int fld = 1 \<longleftrightarrow> fld = 1" "int fld = 2 \<longleftrightarrow> fld = 2" "int fld = 3 \<longleftrightarrow> fld = 3" "int fld = 4 \<longleftrightarrow> fld = 4" "int fld = 5 \<longleftrightarrow> fld = 5" by auto
  have "identify_field L (grow ?pos) (len @ d @ post) (of_nat msg_len - of_nat ?pos) (int fld) WIRETYPE_LENGTH_DELIMITED info =
      (True, length (len @ d), apply_field f info)"
    unfolding identify_field_def s using i assms(3) by (simp add: f apply_field_def e add_string_to_array_def)
  moreover have "length pre < msg_len" using assms(4) h(3,4) by (cases hdr) auto
  moreover have "unat (scast (of_nat (msg_len - length pre) :: 32 word) :: 64 word) = msg_len - length pre"
    using assms(5) by (intro unat_scast) simp
  ultimately show ?thesis using h(5) [of "scast (of_nat (msg_len - length pre) :: 32 word)" "d @ post"] assms(4) h(3)
    by (subst identify_loop.simps) (simp add: h(3) Let_def add.assoc)
qed

lemma loop_fields:
  assumes "strings_ok L" and "list_all2 (field_shape L) fs bs" and "\<forall>k. grow k" and "length (pre @ concat bs) < 65536"
  shows "identify_loop L grow (pre @ concat bs @ post) (length (pre @ concat bs)) (length pre) info = Some (True, fold apply_field fs info)"
  using assms(2,4)
proof (induction fs bs arbitrary: pre info rule: list_all2_induct)
  case Nil
  then show ?case by (subst identify_loop.simps) simp
next
  case (Cons f fs b bs)
  have "identify_loop L grow ((pre @ b) @ concat bs @ post) (length ((pre @ b) @ concat bs)) (length (pre @ b)) (apply_field f info) =
      Some (True, fold apply_field fs (apply_field f info))"
    by (rule Cons.IH) (use Cons.prems in simp)
  moreover have "identify_loop L grow (pre @ b @ (concat bs @ post)) (length (pre @ b @ concat bs)) (length pre) info =
      identify_loop L grow (pre @ b @ (concat bs @ post)) (length (pre @ b @ concat bs)) (length (pre @ b)) (apply_field f info)"
    by (rule loop_field [OF assms(1) Cons.hyps(1) assms(3)]) (use Cons.prems in simp_all)
  ultimately show ?case by simp
qed

section \<open>The message\<close>

definition message_fields :: "peerstore \<Rightarrow> (nat \<times> bytes) list" where
  "message_fields ps = [(5, IDENTIFY_PROTOCOL_VERSION), (6, IDENTIFY_AGENT_VERSION)] @
     (if ps_public_key ps = [] then [] else [(1, ps_public_key ps)]) @ map (Pair 2) (ps_listen_addrs ps)"

definition field_size :: "(nat \<times> bytes) list \<Rightarrow> nat" where
  "field_size fds = sum_list (map (\<lambda>(fld, d). length d + 4) fds)"

lemma identify_fields_alt:
  assumes "strings_ok L"
  shows "identify_fields L ps = map (\<lambda>(fld, d). protobuf_encode_length_delimited L fld d) (message_fields ps)"
proof -
  have "0 \<notin> set IDENTIFY_PROTOCOL_VERSION" "0 \<notin> set IDENTIFY_AGENT_VERSION"
    by (simp_all add: IDENTIFY_PROTOCOL_VERSION_def IDENTIFY_AGENT_VERSION_def bstr_def)
  then have "protobuf_encode_string L f IDENTIFY_PROTOCOL_VERSION = protobuf_encode_length_delimited L f IDENTIFY_PROTOCOL_VERSION"
    "protobuf_encode_string L f IDENTIFY_AGENT_VERSION = protobuf_encode_length_delimited L f IDENTIFY_AGENT_VERSION" for f
    using assms by (auto simp: strings_ok_def)
  then show ?thesis by (simp add: identify_fields_def message_fields_def)
qed

lemma encode_all_shapes:
  assumes "protobuf_ok L" and "\<forall>(fld, d) \<in> set fds. fld \<in> {1..6}" and "length buf + field_size fds \<le> 4096"
  shows "\<exists>bs lens. encode_all (map (\<lambda>(fld, d). protobuf_encode_length_delimited L fld d) fds) buf = Some (buf @ concat bs) \<and>
    length lens = length fds \<and> list_all2 (field_shape L) (map (\<lambda>((fld, d), len). (fld, d, len)) (zip fds lens)) bs \<and>
    length (concat bs) \<le> field_size fds"
  using assms(2,3)
proof (induction fds arbitrary: buf)
  case Nil
  show ?case by (intro exI [of _ "[]"]) (simp add: field_size_def)
next
  case (Cons fd fds)
  obtain fld d where fd: "fd = (fld, d)" by (cases fd)
  have sz: "length buf + (length d + 4) + field_size fds \<le> 4096" using Cons.prems(2) by (simp add: field_size_def fd)
  then have "length d < 65536" "length d + 4 \<le> 4096 - length buf" "fld \<in> {1..6}" using Cons.prems(1) by (auto simp: fd)
  then obtain b len where b: "protobuf_encode_length_delimited L fld d (4096 - length buf) = Some b" "field_shape L (fld, d, len) b"
      "length b \<le> length d + 4"
    using encode_shape [OF assms(1)] by blast
  obtain bs lens where r: "encode_all (map (\<lambda>(fld, d). protobuf_encode_length_delimited L fld d) fds) (buf @ b) = Some ((buf @ b) @ concat bs)"
      "length lens = length fds" "list_all2 (field_shape L) (map (\<lambda>((fld, d), len). (fld, d, len)) (zip fds lens)) bs"
      "length (concat bs) \<le> field_size fds"
    using Cons.IH [of "buf @ b"] Cons.prems(1) sz b(3) by auto
  with b show ?case by (intro exI [of _ "b # bs"] exI [of _ "len # lens"]) (simp add: fd field_size_def)
qed

text \<open>What the receiver knows after the message of \<open>ps\<close>; \<open>n\<close> is the length it takes for that of the key.\<close>

definition info_of :: "peerstore \<Rightarrow> nat \<Rightarrow> identify_info" where
  "info_of ps n = \<lparr>info_public_key = Some (ps_public_key ps), info_public_key_len = n, info_listen_addrs = ps_listen_addrs ps,
     info_protocols = [], info_observed_addr = None, info_observed_addr_len = 0,
     info_protocol_version = Some IDENTIFY_PROTOCOL_VERSION, info_agent_version = Some IDENTIFY_AGENT_VERSION\<rparr>"

lemma fold_addrs:
  "length lens = length as \<Longrightarrow>
   fold apply_field (map (\<lambda>((fld, d), len). (fld, d, len)) (zip (map (Pair 2) as) lens)) info = info\<lparr>info_listen_addrs := info_listen_addrs info @ as\<rparr>"
proof (induction as arbitrary: lens info)
  case (Cons a as)
  then show ?case by (cases lens) (auto simp: apply_field_def)
qed simp

text \<open>A tag below 16 has one byte, a length one below 128 and two below 16384.\<close>

definition sizes_ok :: "ext_lib \<Rightarrow> bool" where
  "sizes_ok L \<longleftrightarrow> (\<forall>fld d cap b n. 0 < fld \<longrightarrow> fld < 16 \<longrightarrow> length d < 16384 \<longrightarrow> 1 \<le> unat n \<longrightarrow> protobuf_encode_length_delimited L fld d cap = Some b \<longrightarrow>
     length b = length d + (if length d < 128 then 2 else 3) \<and> protobuf_decode_field_and_type L b n = Some (int fld, WIRETYPE_LENGTH_DELIMITED, 1))"

definition prefix_len :: "bytes \<Rightarrow> nat" where
  "prefix_len key = (if length key < 128 then 1 else 2)"

lemma prefix_size:
  assumes "sizes_ok L" and "field_shape L (1, key, len) b" and "length b < 16384"
  shows "length (len @ key) = length key + prefix_len key"
proof -
  obtain cap hdr where h: "protobuf_encode_length_delimited L 1 key cap = Some b" "b = hdr @ len @ key"
      "\<And>r n. length hdr \<le> unat n \<Longrightarrow> protobuf_decode_field_and_type L (hdr @ len @ r) n = Some (1, WIRETYPE_LENGTH_DELIMITED, length hdr)" "hdr \<noteq> []"
    using assms(2) by (auto simp: field_shape_def)
  let ?n = "of_nat (length b) :: 64 word"
  have n: "unat ?n = length b" using assms(3) by (simp add: unat_of_nat)
  have "length key < 16384" "1 \<le> unat ?n" unfolding n using assms(3) h(2,4) by (auto simp: Suc_le_eq)
  then have "length b = length key + (if length key < 128 then 2 else 3)" "protobuf_decode_field_and_type L b ?n = Some (int 1, WIRETYPE_LENGTH_DELIMITED, 1)"
    using assms(1) h(1) unfolding sizes_ok_def by (metis less_numeral_extra(1) one_less_numeral_iff semiring_norm(76))+
  then show ?thesis using h(2) h(3) [of ?n key] n by (auto simp: prefix_len_def split: if_splits)
qed

lemma message_exists:
  assumes "protobuf_ok L" and "strings_ok L" and "sizes_ok L" and "field_size (message_fields ps) \<le> 4096" and "ps_public_key ps \<noteq> []"
  shows "\<exists>buf. encode_all (identify_fields L ps) [] = Some buf \<and> buf \<noteq> [] \<and> length buf \<le> 4096 \<and>
    (\<forall>grow post info. (\<forall>k. grow k) \<longrightarrow> libp2p_identify_info_new True = Some info \<longrightarrow> 
      identify_loop L grow (buf @ post) (length buf) 0 info = Some (True, info_of ps (length (ps_public_key ps) + prefix_len (ps_public_key ps))))"
proof -
  let ?fds = "message_fields ps" and ?key = "ps_public_key ps"
  let ?e = "\<lambda>(fld, d). protobuf_encode_length_delimited L fld d"
  have fds: "\<forall>(fld, d) \<in> set ?fds. fld \<in> {1..6}" by (auto simp: message_fields_def)
  then obtain bs lens where r: "encode_all (map ?e ?fds) [] = Some (concat bs)" "length lens = length ?fds"
      "list_all2 (field_shape L) (map (\<lambda>((fld, d), len). (fld, d, len)) (zip ?fds lens)) bs" "length (concat bs) \<le> field_size ?fds"
    using encode_all_shapes [OF assms(1) fds, of "[]"] assms(4) by auto
  obtain l5 l6 l1 ls where l: "lens = l5 # l6 # l1 # ls" "length ls = length (ps_listen_addrs ps)"
    using r(2) assms(5) by (auto simp: message_fields_def length_Suc_conv)
  obtain b5 b6 b1 cs where b: "bs = b5 # b6 # b1 # cs" "field_shape L (1, ?key, l1) b1" "field_shape L (5, IDENTIFY_PROTOCOL_VERSION, l5) b5"
    using r(3) assms(5) by (auto simp: message_fields_def l list_all2_Cons1)
  have k: "length (l1 @ ?key) = length ?key + prefix_len ?key"
    using prefix_size [OF assms(3) b(2)] r(4) assms(4) by (simp add: b(1))
  have f: "fold apply_field (map (\<lambda>((fld, d), len). (fld, d, len)) (zip ?fds lens)) info = info_of ps (length ?key + prefix_len ?key)"
    if "libp2p_identify_info_new True = Some info" for info
    using that k fold_addrs [OF l(2)] assms(5)
    by (auto simp: message_fields_def l(1) apply_field_def libp2p_identify_info_new_def info_of_def)
  have "identify_loop L grow (concat bs @ post) (length (concat bs)) 0 info = Some (True, info_of ps (length ?key + prefix_len ?key))"
    if "\<forall>k. grow k" "libp2p_identify_info_new True = Some info" for grow post info
    using loop_fields [OF assms(2) r(3) that(1), of "[]" post info] r(4) assms(4) f [OF that(2)] by simp
  moreover have "concat bs \<noteq> []" using b(1,3) by (auto simp: field_shape_def)
  ultimately show ?thesis using r(1,4) assms(4) identify_fields_alt [OF assms(2), of ps] by (intro exI [of _ "concat bs"]) simp
qed

section \<open>Over a stream that works\<close>

context v2_live
begin

lemma identify_write_live:
  assumes "ready s" and "room s n" and "length b \<le> n"
  shows "\<exists>s'. identify_write_all io b s = Some (True, s') \<and> sent s' = sent s @ b \<and> avail s' = avail s \<and> ready s' \<and> room s' (n - length b)"
proof (cases "b = []")
  case True
  then show ?thesis using assms by (simp add: identify_write_all.simps)
next
  case False
  then obtain s' where "v2_write io s b = Some (int (length b), s')" "sent s' = sent s @ b" "avail s' = avail s" "ready s'" "room s' (n - length b)"
    using write_live [OF assms(1,2) _ assms(3)] by auto
  with False show ?thesis by (subst identify_write_all.simps) (simp add: identify_write_all.simps [of io "[]"])
qed

lemma identify_prefix_live:
  assumes "ready s" and "avail s = v @ r" and "v \<noteq> []" and "length v \<le> k" and "\<forall>b \<in> set (butlast v). b AND 0x80 \<noteq> 0" and "last v AND 0x80 = 0"
  shows "\<exists>s'. identify_prefix io k acc s = Some (Some (acc @ v), s') \<and> avail s' = r \<and> sent s' = sent s \<and> ready s' \<and> (\<forall>j. room s j \<longrightarrow> room s' j)"
  using assms
proof (induction v arbitrary: k acc s)
  case (Cons b v)
  obtain j where k: "k = Suc j" using Cons.prems(4) by (cases k) auto
  obtain s1 where s1: "v2_read io s 1 = Some (Some [b], s1)" "avail s1 = v @ r" "sent s1 = sent s" "ready s1" "\<forall>j. room s j \<longrightarrow> room s1 j"
    using read_byte [OF Cons.prems(1), of b "v @ r"] Cons.prems(2) by auto
  show ?case
  proof (cases "v = []")
    case True
    then show ?thesis using s1 Cons.prems(6) by (simp add: k)
  next
    case False
    then have "b AND 0x80 \<noteq> 0" using Cons.prems(5) by simp
    then have "identify_prefix io k acc s = identify_prefix io j (acc @ [b]) s1" using s1(1) by (simp add: k)
    with Cons.IH [OF s1(4,2) False, of j "acc @ [b]"] Cons.prems(4-6) False s1(3,5) show ?thesis by (auto simp: k)
  qed
qed simp

lemma identify_length_live:
  assumes "lengths_ok L" and "n < 65536" and "ready s" and "avail s = varint_encode L (of_nat n) @ r"
  shows "\<exists>s'. identify_read_varint_length L io s = Some (Some (of_nat n), s') \<and> avail s' = r \<and> sent s' = sent s \<and> ready s' \<and> (\<forall>j. room s j \<longrightarrow> room s' j)"
proof -
  let ?v = "varint_encode L (of_nat n)"
  have v: "?v \<noteq> []" "length ?v \<le> 16" "\<forall>b \<in> set (butlast ?v). b AND 0x80 \<noteq> 0" "last ?v AND 0x80 = 0" "varint_decode L ?v = (of_nat n, length ?v)"
    using assms(1,2) by (fastforce simp: lengths_ok_def varint_shape_def)+
  obtain s' where "identify_prefix io 16 [] s = Some (Some ([] @ ?v), s')" "avail s' = r" "sent s' = sent s" "ready s'" "\<forall>j. room s j \<longrightarrow> room s' j"
    using identify_prefix_live [OF assms(3,4) v(1-4), of "[]"] by blast
  with v(5) show ?thesis by (simp add: identify_read_varint_length_def)
qed

lemma identify_send_live:
  assumes "encode_all (identify_fields L ps) [] = Some buf" and "ready s" and "room s n" and "length (varint_encode L (of_nat (length buf)) @ buf) \<le> n"
  shows "\<exists>s'. libp2p_identify_send_response L io ps s = Some (True, s') \<and> sent s' = sent s @ varint_encode L (of_nat (length buf)) @ buf \<and>
    avail s' = avail s \<and> ready s'"
proof -
  let ?v = "varint_encode L (of_nat (length buf))"
  obtain s1 where s1: "identify_write_all io ?v s = Some (True, s1)" "sent s1 = sent s @ ?v" "avail s1 = avail s" "ready s1" "room s1 (n - length ?v)"
    using identify_write_live [OF assms(2,3), of ?v] assms(4) by auto
  have "length buf \<le> n - length ?v" using assms(4) by simp
  then obtain s2 where "identify_write_all io buf s1 = Some (True, s2)" "sent s2 = sent s1 @ buf" "avail s2 = avail s1" "ready s2"
    using identify_write_live [OF s1(4,5)] by blast
  with s1 assms(1) show ?thesis by (simp add: libp2p_identify_send_response_def)
qed

lemma identify_receive_live:
  assumes "lengths_ok L" and "buf \<noteq> []" and "length buf \<le> 4096" and "im_info m" and "ready s" and "avail s = varint_encode L (of_nat (length buf)) @ buf @ r"
    and "\<forall>post info0. libp2p_identify_info_new True = Some info0 \<longrightarrow> identify_loop L (im_grow m) (buf @ post) (length buf) 0 info0 = Some (True, info)"
  shows "\<exists>s'. libp2p_identify_receive L m io peer s = map_option (\<lambda>q. (map_outcome (Pair True) q, s')) (identify_populate L m info peer) \<and>
    avail s' = r \<and> sent s' = sent s \<and> ready s'"
proof -
  let ?n = "length buf"
  have "?n < 65536" using assms(3) by simp
  then obtain s1 where s1: "identify_read_varint_length L io s = Some (Some (of_nat ?n), s1)" "avail s1 = buf @ r" "sent s1 = sent s" "ready s1"
    using identify_length_live [OF assms(1) _ assms(5,6)] by blast
  obtain s2 where s2: "identify_read_full io ?n s1 = Some (Some buf, s2)" "avail s2 = r" "sent s2 = sent s1" "ready s2"
    using read_loop_live [OF s1(4), of ?n "[]"] s1(2) by (auto simp: identify_read_full_def)
  have n: "unat (of_nat ?n :: 64 word) = ?n" using assms(3) by (simp add: unat_of_nat)
  obtain info0 where i: "libp2p_identify_info_new (im_info m) = Some info0" "libp2p_identify_info_new True = Some info0"
    using assms(4) by (simp add: libp2p_identify_info_new_def)
  have "libp2p_identify_receive L m io peer s = map_option (\<lambda>q. (map_outcome (Pair True) q, s2)) (identify_populate L m info peer)"
    using s1(1) s2(1) i(1) assms(7) [rule_format, OF i(2)] assms(2,3) n
    by (cases "identify_populate L m info peer") (simp_all add: libp2p_identify_receive_def)
  with s1 s2 show ?thesis by auto
qed

end

section \<open>The peer\<close>

lemma identify_addrs_all:
  "(\<forall>i. im_addr m i \<and> im_node m i) \<Longrightarrow>
   identify_addrs m i as peer = peer\<lparr>addr_head := rev (List.map_filter (\<lambda>a. libp2p_multiaddr_new_from_string True (cstr a)) as) @ addr_head peer\<rparr>"
  by (induction as arbitrary: i peer) (auto simp: List.map_filter_simps split: option.split)

text \<open>The key as the receiver reads it: behind its bytes stand the zero of the string and, for a key of 128 bytes or more, one byte that is
  not part of the string.\<close>

lemma string_memory_key: "string_memory m key (length key + prefix_len key) = key @ (if length key < 128 then [0] else [0, im_behind m 0])"
  by (simp add: string_memory_def prefix_len_def numeral_2_eq_2 upt_rec)

end
