(* ===== verification/Base58_Theorems.thy ===== *)
theory Base58_Theorems
  imports Base58
begin

text \<open>
  Base 58: what decoding and encoding compute, as numbers, and that they are inverse to each other.
\<close>

section \<open>Helpers\<close>

lemma leading_zeros_ok:
  "\<forall>b \<in> set s. unat b < 128 \<Longrightarrow>
   leading_zeros s = Some (length (takeWhile (\<lambda>b. b58digits_map ! unat b = 0) s), dropWhile (\<lambda>b. b58digits_map ! unat b = 0) s)"
  by (induction s) auto

lemma dval_dropWhile: "dval b (map f (dropWhile (\<lambda>x. f x = 0) xs)) = dval b (map f xs)"
  by (induction xs) simp_all

lemma dval_digits:
  assumes "\<forall>b \<in> set s. valid58 b"
  shows "dval 58 (map digit58 (dropWhile (\<lambda>b. b58digits_map ! unat b = 0) s)) = dval 58 (map digit58 s)"
proof -
  have "dropWhile (\<lambda>b. b58digits_map ! unat b = 0) s = dropWhile (\<lambda>b. digit58 b = 0) s"
    by (rule dropWhile_cong) (use assms valid58_digit in auto)
  then show ?thesis by (simp add: dval_dropWhile)
qed

lemma decode_loop_invalid: "\<exists>b \<in> set bs. \<not> valid58 b \<Longrightarrow> decode_loop zm bs outi = None"
proof (induction bs arbitrary: outi)
  case (Cons b bs)
  then show ?case by (cases "valid58 b") (auto simp: valid58_def high_bit Let_def split: prod.split)
qed simp

lemma zero_digit_valid: "unat b < 128 \<Longrightarrow> b58digits_map ! unat b = 0 \<Longrightarrow> valid58 b"
  by (simp add: valid58_def)

lemma val32_zeros [simp]: "val32 (replicate n 0) = 0"
  by (induction n) simp_all

section \<open>Properties\<close>

lemma base58_decode_spec:
  assumes "\<forall>b \<in> set s. unat b < 128"
  shows "if (\<forall>b \<in> set s. valid58 b) \<and> dval 58 (map digit58 s) < 256 ^ binsz
    then \<exists>bin. libp2p_crypto_encoding_base58_decode s binsz =
          Some (Some (bin, binsz - length (takeWhile (\<lambda>b. b = 0) bin) + length (takeWhile (\<lambda>b. b58digits_map ! unat b = 0) s))) \<and>
        length bin = binsz \<and> be_val bin = dval 58 (map digit58 s)
    else libp2p_crypto_encoding_base58_decode s binsz = Some None"
proof -
  let ?rest = "dropWhile (\<lambda>b. b58digits_map ! unat b = 0) s" and ?z = "replicate ((binsz + 3) div 4) 0 :: 32 word list"
  have un: "libp2p_crypto_encoding_base58_decode s binsz =
      (case decode_loop (b58_mask binsz) ?rest ?z of None \<Rightarrow> Some None
       | Some outi \<Rightarrow> Some (Some (words_out (binsz mod 4) outi, binsz - length (takeWhile (\<lambda>b. b = 0) (words_out (binsz mod 4) outi)) +
           length (takeWhile (\<lambda>b. b58digits_map ! unat b = 0) s))))"
    unfolding libp2p_crypto_encoding_base58_decode_def leading_zeros_ok [OF assms] b58_mask_def Let_def by simp
  show ?thesis
  proof (cases "\<forall>b \<in> set s. valid58 b")
    case True
    then have "\<forall>b \<in> set ?rest. valid58 b" by (auto dest: set_dropWhileD)
    moreover have "length ?z = (binsz + 3) div 4" "val32 ?z < 256 ^ binsz" by simp_all
    ultimately have r: "if dval 58 (map digit58 s) < 256 ^ binsz
      then \<exists>outi. decode_loop (b58_mask binsz) ?rest ?z = Some outi \<and> length outi = (binsz + 3) div 4 \<and> val32 outi = dval 58 (map digit58 s)
      else decode_loop (b58_mask binsz) ?rest ?z = None"
      using decode_loop_ok [of ?rest ?z binsz] unfolding dval_digits [OF True] val32_zeros length_replicate mult_0 add_0 by blast
    show ?thesis
    proof (cases "dval 58 (map digit58 s) < 256 ^ binsz")
      case less: True
      then obtain outi where o: "decode_loop (b58_mask binsz) ?rest ?z = Some outi" "length outi = (binsz + 3) div 4"
        "val32 outi = dval 58 (map digit58 s)" using r by auto
      with words_out_ok [of outi binsz] less True show ?thesis unfolding un by simp
    qed (use r True un in auto)
  next
    case False
    then obtain b where b: "b \<in> set s" "\<not> valid58 b" by blast
    then have "b58digits_map ! unat b \<noteq> 0" using zero_digit_valid assms by blast
    then have "b \<in> set ?rest" using b(1) by (metis (mono_tags, lifting) Un_iff set_append set_takeWhileD takeWhile_dropWhile_id)
    then have "decode_loop (b58_mask binsz) ?rest ?z = None" using b(2) decode_loop_invalid by blast
    then show ?thesis using False un by auto
  qed
qed

text \<open>A byte of 128 or more fails the loop over the digits; only where the leading zeros end is the table indexed with it.\<close>

definition zero58 :: "byte \<Rightarrow> bool" where
  "zero58 b \<longleftrightarrow> unat b < 128 \<and> b58digits_map ! unat b = 0"

lemma leading_zeros_all:
  "leading_zeros s = (let rest = dropWhile zero58 s in
     if rest \<noteq> [] \<and> 128 \<le> unat (hd rest) then None else Some (length (takeWhile zero58 s), rest))"
proof (induction s)
  case (Cons c s)
  have len: "length b58digits_map = 128" by (simp add: b58digits_map_def)
  consider "zero58 c" | "128 \<le> unat c" | "unat c < 128" "b58digits_map ! unat c \<noteq> 0"
    unfolding zero58_def by (meson not_le)
  then show ?case
  proof cases
    case 1
    then have "leading_zeros (c # s) = map_option (\<lambda>(n, rest). (Suc n, rest)) (leading_zeros s)" by (simp add: zero58_def len)
    then show ?thesis using 1 Cons by (simp add: Let_def)
  qed (simp_all add: zero58_def len Let_def)
qed (simp add: Let_def)

lemma base58_decode_foreign:
  assumes "b \<in> set s" and "128 \<le> unat b" and "rest = dropWhile zero58 s"
  shows "libp2p_crypto_encoding_base58_decode s binsz = (if rest \<noteq> [] \<and> 128 \<le> unat (hd rest) then None else Some None)"
proof -
  have "b \<notin> set (takeWhile zero58 s)" using assms(2) by (auto dest!: set_takeWhileD simp: zero58_def)
  moreover have "b \<in> set (takeWhile zero58 s @ rest)" using assms(1,3) by simp
  ultimately have "b \<in> set rest" by simp
  moreover have "\<not> valid58 b" using assms(2) by (simp add: valid58_def)
  ultimately have "decode_loop zm rest outi = None" for zm outi using decode_loop_invalid by blast
  then show ?thesis using assms(3)
    by (simp add: libp2p_crypto_encoding_base58_decode_def leading_zeros_all Let_def)
qed

text \<open>C10. Decoding any string into a buffer of any size. It succeeds exactly if all characters are base 58 digits and the number they stand for
  fits the buffer; then the buffer holds this number, big-endian and padded on the left, and the size is set to the bytes of the number and one for each
  leading digit zero. It fails for every other string, but one: if the first character behind the leading zero digits is a byte of 128 or more, the table of
  digits is read outside its bounds, which C does not define.\<close>

theorem base58_decode_correct:
  "let rest = dropWhile zero58 s
   in if rest \<noteq> [] \<and> 128 \<le> unat (hd rest) then libp2p_crypto_encoding_base58_decode s binsz = None
      else if (\<forall>b \<in> set s. valid58 b) \<and> dval 58 (map digit58 s) < 256 ^ binsz
      then \<exists>bin. libp2p_crypto_encoding_base58_decode s binsz =
            Some (Some (bin, binsz - length (takeWhile (\<lambda>b. b = 0) bin) + length (takeWhile (\<lambda>b. b58digits_map ! unat b = 0) s))) \<and>
          length bin = binsz \<and> be_val bin = dval 58 (map digit58 s)
      else libp2p_crypto_encoding_base58_decode s binsz = Some None"
proof (cases "\<forall>b \<in> set s. unat b < 128")
  case True
  let ?rest = "dropWhile zero58 s"
  have "unat (hd ?rest) < 128" if "?rest \<noteq> []" using True hd_in_set [OF that] by (meson set_dropWhileD)
  then have "\<not> (?rest \<noteq> [] \<and> 128 \<le> unat (hd ?rest))" by (meson not_le)
  with base58_decode_spec [OF True, of binsz] show ?thesis unfolding Let_def by (simp only: if_False)
next
  case False
  then obtain b where b: "b \<in> set s" "128 \<le> unat b" by (auto simp: not_less)
  then have "\<not> (\<forall>b \<in> set s. valid58 b)" by (meson not_le valid58_def)
  with base58_decode_foreign [OF b refl, of binsz] show ?thesis unfolding Let_def by (cases "dropWhile zero58 s \<noteq> [] \<and> 128 \<le> unat (hd (dropWhile zero58 s))") (simp_all only: simp_thms if_True if_False)
qed

theorem base58_decode_correct_witness:
  "(\<exists>bin n. libp2p_crypto_encoding_base58_decode (bstr ''5R'') 2 = Some (Some (bin, n)) \<and> be_val bin = 256) \<and>
   libp2p_crypto_encoding_base58_decode [49, 200] 2 = None \<and> libp2p_crypto_encoding_base58_decode [50, 200] 2 = Some None"
proof -
  have s: "bstr ''5R'' = [53, 82]" by (simp add: bstr_def)
  have d: "digit58 53 = 4" "digit58 82 = 24" "valid58 53" "valid58 82" "b58digits_map ! 53 = 4" "b58digits_map ! 49 = 0" "b58digits_map ! 50 = 1" "\<not> valid58 200"
    by (simp_all add: digit58_def valid58_def b58digits_map_def)
  show ?thesis
    using base58_decode_correct [of "bstr ''5R''" 2] base58_decode_correct [of "[49, 200]" 2] base58_decode_correct [of "[50, 200]" 2]
    by (simp add: s d zero58_def) blast
qed

lemma ordered_digits:
  "list_all (\<lambda>d. valid58 (b58digits_ordered ! d) \<and> digit58 (b58digits_ordered ! d) = d \<and> b58digits_ordered ! d \<noteq> 0) [0..<58]"
  by (simp add: b58digits_ordered_def bstr_def valid58_def digit58_def b58digits_map_def upt_rec)

text \<open>Digits and their characters.\<close>

lemma ordered_digit:
  "unat (d :: byte) < 58 \<Longrightarrow> valid58 (b58digits_ordered ! unat d) \<and> digit58 (b58digits_ordered ! unat d) = unat d \<and> b58digits_ordered ! unat d \<noteq> 0"
  using ordered_digits by (simp add: list_all_iff)

lemma base58_encode_decode:
  assumes "takeWhile (\<lambda>b. b = 0) data = []" and "length data * 138 div 100 + 1 < cap"
  shows "\<exists>s. libp2p_crypto_encoding_base58_encode data cap = Some (Some s, length s + 1) \<and> 0 \<notin> set s \<and>
    libp2p_crypto_encoding_base58_decode s (length data) = Some (Some (data, length data))"
proof -
  define size where "size = length data * 138 div 100 + 1"
  have "be_val data < 58 ^ size" using be_val_less [of data] size_bound [of "length data"] by (simp add: size_def)
  moreover have z: "val58 (replicate size 0) = 0" by (rule dval_zeros) simp
  ultimately have "val58 (replicate size 0) * 256 ^ length data + be_val data < 58 ^ length (replicate size (0 :: byte))" by simp
  moreover have "digits_ok (replicate size 0)" "- 1 \<le> int size - 1" "int size - 1 < int (length (replicate size (0 :: byte)))"
    by (simp_all add: digits_ok_def)
  moreover have "int i \<le> int size - 1 \<Longrightarrow> replicate size (0 :: byte) ! i = 0" for i by simp
  ultimately obtain buf where
    buf: "encode_loop data (int size - 1) (replicate size 0) = Some buf" "digits_ok buf" "length buf = size" "val58 buf = be_val data"
    using encode_loop_ok [of "replicate size 0" "int size - 1" data] unfolding z length_replicate mult_0 add_0 by blast
  define ds where "ds = dropWhile (\<lambda>d. d = 0) buf"
  define s where "s = map (\<lambda>d. b58digits_ordered ! unat d) ds"
  have "length ds \<le> size" using buf(3) length_dropWhile_le by (simp add: ds_def flip: buf(3))
  then have enc: "libp2p_crypto_encoding_base58_encode data cap = Some (Some s, length s + 1)"
    unfolding libp2p_crypto_encoding_base58_encode_def assms(1) Let_def list.size(3) diff_zero drop_0 size_def [symmetric] buf(1)
    using assms(2) [folded size_def] by (simp add: s_def flip: ds_def)
  have ok: "d \<in> set ds \<Longrightarrow> unat d < 58" for d using buf(2) set_dropWhileD by (fastforce simp: digits_ok_def ds_def)
  have valid: "\<forall>b \<in> set s. valid58 b \<and> b \<noteq> 0" using ok ordered_digit by (auto simp: s_def)
  have "map digit58 s = map unat ds" using ok ordered_digit by (simp add: s_def)
  moreover have "dval 58 (map unat ds) = be_val data"
    using dval_dropWhile [of 58 unat buf] buf(4) by (simp add: ds_def unat_eq_zero)
  ultimately have v: "dval 58 (map digit58 s) = be_val data" by simp
  have "takeWhile (\<lambda>b. b58digits_map ! unat b = 0) s = []"
  proof (cases ds)
    case (Cons d ds')
    then have "d \<noteq> 0" "unat d < 58" using ok hd_dropWhile [of "\<lambda>d. d = 0" buf] by (auto simp: ds_def)
    then show ?thesis using Cons ordered_digit valid58_digit by (simp add: s_def unat_eq_zero uint_0_iff)
  qed (simp add: s_def)
  with base58_decode_spec [of s "length data"] valid v be_val_less [of data] obtain bin where
    bin: "libp2p_crypto_encoding_base58_decode s (length data) = Some (Some (bin, length data - length (takeWhile (\<lambda>b. b = 0) bin)))"
      "length bin = length data" "be_val bin = be_val data" by (auto simp: valid58_def)
  then have "bin = data" using be_val_inject by blast
  then show ?thesis using enc bin(1) valid assms(1) by auto
qed

text \<open>C28. Encoding data that does not begin with a zero byte succeeds if the buffer is large enough, without writing outside the
  work area, and decoding the string into a buffer of the size of the data gives the data back.\<close>

theorem base58_round_trip:
  assumes "takeWhile (\<lambda>b. b = 0) data = []" and "length data * 138 div 100 + 1 < cap"
  shows "\<exists>s. libp2p_crypto_encoding_base58_encode data cap = Some (Some s, length s + 1) \<and> 0 \<notin> set s \<and>
    libp2p_crypto_encoding_base58_decode s (length data) = Some (Some (data, length data))"
  by (rule base58_encode_decode [OF assms])

theorem base58_round_trip_witness:
  "\<exists>s. libp2p_crypto_encoding_base58_encode [1, 2, 255] 6 = Some (Some s, length s + 1) \<and>
     libp2p_crypto_encoding_base58_decode s 3 = Some (Some ([1, 2, 255], 3))"
  using base58_round_trip [of "[1, 2, 255]" 6] by (auto simp: numeral_3_eq_3)

text \<open>Data that begins with a zero byte: the code fills the pointer to the result with the character for zero, not the
  result, and then writes through it.\<close>

lemma base58_leading_zero:
  assumes "encode_loop data (int (length data * 138 div 100)) (replicate (length data * 138 div 100 + 1) 0) = Some buf"
    and "0 < n" and "data = [] \<or> hd data \<noteq> 0" and "n + length (dropWhile (\<lambda>d. d = 0) buf) < cap"
  shows "libp2p_crypto_encoding_base58_encode (replicate n 0 @ data) cap = None"
proof -
  have t: "takeWhile (\<lambda>b. b = 0) (replicate n 0 @ data) = replicate n 0"
    using assms(3) by (cases data) (auto simp: takeWhile_append)
  have l: "length (replicate n (0 :: byte) @ data) - n = length data" and d: "drop n (replicate n 0 @ data) = data"
    and i: "int (length data * 138 div 100 + 1) - 1 = int (length data * 138 div 100)" by simp_all
  show ?thesis
    unfolding libp2p_crypto_encoding_base58_encode_def Let_def t length_replicate l d i assms(1) using assms(2,4) by simp
qed

end
