(* ===== verification/Identity_Theorems.thy ===== *)
theory Identity_Theorems
  imports Noise_Callbacks Noise_Theorems Base58_Theorems
begin

text \<open>
  Identities: the daemon's callbacks sign what they verify, peer ids, and the identities that break the handshake or
  collide.
\<close>

section \<open>Signatures\<close>

lemma prefix_sign [simp]: "noise_cb_sign L True (Some k) s = rsa_pkcs1_sign L (rsa_der k) (sha256 L (NOISE_SIG_PREFIX @ s))"
  by (simp add: noise_cb_sign_def noise_cb_sign_raw_def libp2p_crypto_rsa_sign_def)

text \<open>The daemon's callbacks accept their own identities: for an RSA key pair the protobuf of the public key and the
  signature of a static key, as \<open>get_identity_key\<close> and \<open>sign\<close> make them, pass \<open>verify\<close> with that static key, and what
  \<open>verify\<close> is given as a longer buffer is cut to the modulus.\<close>

theorem callbacks_round_trip:
  assumes "rsa_pair L (rsa_der k) (public_key_der k)" and "key_fields_ok L 0 (public_key_der k)" and "public_key_der k \<noteq> []"
  shows "\<exists>key sig. noise_cb_get_identity_key L True (Some k) = Some key \<and> noise_cb_sign L True (Some k) s = Some sig \<and>
    key \<noteq> [] \<and> sig \<noteq> [] \<and> length key \<le> 22 + length (public_key_der k) \<and>
    (\<forall>r. noise_cb_verify L True key s (sig @ r) = Some (Returns True))"
proof -
  let ?pk = "\<lparr>pk_type = KEYTYPE_RSA, pk_data = public_key_der k\<rparr>"
  have "key_fields_ok L (ucast (pk_type ?pk)) (pk_data ?pk)" using assms(2) by (simp add: KEYTYPE_RSA_def)
  from public_key_decode_encode [OF this] obtain b where
    b: "libp2p_crypto_public_key_protobuf_encode L ?pk (libp2p_crypto_public_key_protobuf_encode_size ?pk) = (True, b)" "b \<noteq> []"
      "length b \<le> 22 + length (public_key_der k)" "libp2p_crypto_public_key_protobuf_decode L True b = Some (Some ?pk)" by auto
  obtain n sig where n: "0 < n" "rsa_parse_public L (public_key_der k) = Some n"
      "rsa_pkcs1_sign L (rsa_der k) (sha256 L (NOISE_SIG_PREFIX @ s)) = Some sig" "length sig = n"
      "rsa_pkcs1_verify L (public_key_der k) (sha256 L (NOISE_SIG_PREFIX @ s)) sig"
    using assms(1) unfolding rsa_pair_def by blast
  have "noise_cb_verify L True b s (sig @ r) = Some (Returns True)" for r
    using b(4) n assms(3) by (simp add: noise_cb_verify_def noise_cb_verify_raw_def libp2p_crypto_rsa_verify_def)
  moreover have "noise_cb_get_identity_key L True (Some k) = Some b"
    using b(1) assms(3) by (simp add: noise_cb_get_identity_key_def Let_def)
  moreover have "sig \<noteq> []" using n(1,4) by auto
  ultimately show ?thesis using n(3) b(2,3) by auto
qed

text \<open>The sample library with keys: a type field of two bytes, a data field of three and the data.\<close>

definition key_lib :: ext_lib where
  "key_lib = sample_lib\<lparr>
     protobuf_encode_varint := (\<lambda>fld v cap. Some [8, ucast v]),
     protobuf_decode_varint := (\<lambda>bs n. case bs of [] \<Rightarrow> None | b # _ \<Rightarrow> Some (ucast b, 1)),
     protobuf_encode_length_delimited := (\<lambda>fld d cap. if length d + 2 \<le> cap then Some (18 # of_nat (length d) # d) else None),
     protobuf_decode_length_delimited := (\<lambda>bs n. case bs of [] \<Rightarrow> None | b # r \<Rightarrow> Some (take (unat b) r, 1 + unat b))\<rparr>"

definition sample_rsa :: rsa_private_key where
  "sample_rsa = \<lparr>rsa_der = [1, 2], public_key_der = [3, 4, 5]\<rparr>"

lemma key_lib_ok: "rsa_pair key_lib (rsa_der sample_rsa) (public_key_der sample_rsa)" "key_fields_ok key_lib 0 (public_key_der sample_rsa)"
  "public_key_der sample_rsa \<noteq> []"
proof -
  show "rsa_pair key_lib (rsa_der sample_rsa) (public_key_der sample_rsa)" "public_key_der sample_rsa \<noteq> []"
    by (simp_all add: rsa_pair_def key_lib_def sample_lib_def sample_rsa_def)
  show "key_fields_ok key_lib 0 (public_key_der sample_rsa)" unfolding key_fields_ok_def
    by (rule conjI, simp add: sample_rsa_def, rule exI [of _ "[8]"], rule exI [of _ "[0]"], rule exI [of _ "[18]"], rule exI [of _ "[3, 3, 4, 5]"])
      (simp add: key_lib_def sample_lib_def sample_rsa_def WIRETYPE_LENGTH_DELIMITED_def)
qed

theorem callbacks_round_trip_witness:
  "\<exists>key sig. noise_cb_get_identity_key key_lib True (Some sample_rsa) = Some key \<and>
     noise_cb_sign key_lib True (Some sample_rsa) (replicate 32 5) = Some sig \<and>
     noise_cb_verify key_lib True key (replicate 32 5) sig = Some (Returns True)"
  using callbacks_round_trip [OF key_lib_ok, of "replicate 32 5"] by (metis append_Nil2)

text \<open>C30. An identity with an RSA key that does not parse makes the handshake do what C does not define: \<open>rsa.c\<close> goes on with
  a null context. A responder with any keys that presents such a key and any signature brings an initiator with the
  daemon's callbacks there, before anything is verified.\<close>

theorem bad_rsa_key_undefined:
  assumes "aead_ok L" and "hash_ok L" and "protobuf_ok L" and "dh_agrees L eI eR" and "dh_agrees L sR eI" and "ev_ephemeral ev = Some eI"
    and "key \<noteq> []" and "sig \<noteq> []" and "length key < 65536" and "length sig < 65536"
    and "noise_payload_encode L key sig 1024 = Some p" and "length p \<le> 1024"
    and "libp2p_crypto_public_key_protobuf_decode L True key = Some (Some \<lparr>pk_type = KEYTYPE_RSA, pk_data = der\<rparr>)"
    and "der \<noteq> []" and "rsa_parse_public L der = None"
  shows "\<exists>x c y. static_message L sR (snd eI) p (noise_mix_key L x (noise_mix_hash L (snd eR) (first_hash L (snd eI)))) = Some (c, y) \<and>
    (\<forall>i a. tcp_unsplit i \<longrightarrow> sk_rx i = nframe (snd eR @ c) @ a \<longrightarrow>
      (\<exists>i'. libp2p_noise_handshake_raw L tcp_stream ev k peer (Some (libp2p_noise_identity_callbacks_init L True)) i = Some (Undefined, peer, i')))"
proof -
  let ?cb = "libp2p_noise_identity_callbacks_init L True"
  have p: "length p \<le> 2048" using assms(12) by simp
  obtain x c y where c: "static_message L sR (snd eI) p (noise_mix_key L x (noise_mix_hash L (snd eR) (first_hash L (snd eI)))) = Some (c, y)"
      "length c = length p + 64" "noise_initiator_read L ev (Some ?cb) (fst eI) (snd eR @ c) (first_hash L (snd eI)) peer =
        after_check y peer (noise_check_identity L ev (Some ?cb) (snd sR) p peer)"
    using first_exchange [OF assms(1,2,4,5) p] by blast
  have v: "cb_verify ?cb = Some (noise_cb_verify L True)" by (simp add: libp2p_noise_identity_callbacks_init_def)
  have "noise_cb_verify L True key (snd sR) sig = Some Undefined"
    using assms(13-15) by (simp add: noise_cb_verify_def noise_cb_verify_raw_def libp2p_crypto_rsa_verify_def)
  then have "noise_check_identity L ev (Some ?cb) (snd sR) p peer = Some Undefined"
    using check_identity_encoded [OF assms(3,7-10) _ assms(11) refl v] by simp
  then have r: "noise_initiator_read L ev (Some ?cb) (fst eI) (snd eR @ c) (first_hash L (snd eI)) peer = Some (Undefined, peer)"
    using c(3) by simp
  have e: "length (snd eI) = 32" "length (snd eR @ c) \<le> 4096" using assms(4,12) c(2) by (auto simp: dh_agrees_def)
  have "\<exists>i'. libp2p_noise_handshake_raw L tcp_stream ev k peer (Some ?cb) i = Some (Undefined, peer, i')"
    if "tcp_unsplit i" "sk_rx i = nframe (snd eR @ c) @ a" for i a
  proof -
    have "tcpu.at_wire i (nframe (snd eR @ c) @ a) (sk_tx i)" using that by (simp add: tcpu.at_wire_def)
    from tcpu.initiator_stops [OF assms(6) e(1) TrueI e(2) this, of L "Some ?cb" peer k peer] r show ?thesis by blast
  qed
  with c(1) show ?thesis by blast
qed

text \<open>The sample library with a key decoder and an RSA parser that refuses every key.\<close>

definition no_rsa_lib :: ext_lib where
  "no_rsa_lib = sample_lib\<lparr>rsa_parse_public := (\<lambda>_. None), protobuf_decode_varint := (\<lambda>bs n. Some (0, 1)),
     protobuf_decode_length_delimited := (\<lambda>bs n. Some ([7], length bs))\<rparr>"

theorem bad_rsa_key_undefined_witness:
  "\<exists>c. \<forall>i a. tcp_unsplit i \<longrightarrow> sk_rx i = nframe (replicate 32 2 @ c) @ a \<longrightarrow>
     (\<exists>i'. libp2p_noise_handshake_raw no_rsa_lib tcp_stream sample_env None (Some sample_peer)
       (Some (libp2p_noise_identity_callbacks_init no_rsa_lib True)) i = Some (Undefined, Some sample_peer, i'))"
proof -
  have ok: "aead_ok no_rsa_lib" "hash_ok no_rsa_lib" "protobuf_ok no_rsa_lib"
    using sample_lib_ok sample_protobuf_ok by (simp_all add: no_rsa_lib_def aead_ok_def hash_ok_def protobuf_ok_def field_ok_def)
  have D: "dh_agrees no_rsa_lib (replicate 32 1, replicate 32 2) (replicate 32 1, replicate 32 2)"
    "dh_agrees no_rsa_lib (replicate 32 4, replicate 32 5) (replicate 32 1, replicate 32 2)"
    using sample_meets by (auto simp: noise_meets_def dh_agrees_def no_rsa_lib_def)
  have v: "ev_ephemeral sample_env = Some (replicate 32 1, replicate 32 2)" by (simp add: sample_env_def)
  have h: "([8, 0, 18, 9] :: bytes) \<noteq> []" "([6] :: bytes) \<noteq> []" "length ([8, 0, 18, 9] :: bytes) < 65536" "length ([6] :: bytes) < 65536" by simp_all
  have e: "noise_payload_encode no_rsa_lib [8, 0, 18, 9] [6] 1024 = Some ([10] @ sample_varint 4 @ [8, 0, 18, 9] @ [18] @ sample_varint 1 @ [6])"
    "length ([10] @ sample_varint 4 @ [8, 0, 18, 9] @ [18] @ sample_varint 1 @ [6]) \<le> 1024"
    by (simp_all add: noise_payload_encode_def no_rsa_lib_def sample_lib_def sample_varint_def Let_def)
  have k: "libp2p_crypto_public_key_protobuf_decode no_rsa_lib True [8, 0, 18, 9] = Some (Some \<lparr>pk_type = KEYTYPE_RSA, pk_data = [7]\<rparr>)"
  proof -
    let ?b = "[8, 0, 18, 9] :: bytes" and ?k = "\<lparr>pk_type = KEYTYPE_RSA, pk_data = []\<rparr>"
    have F: "protobuf_decode_field_and_type no_rsa_lib (8 # r) n = Some (1, 0, 1)" "protobuf_decode_field_and_type no_rsa_lib (18 # r) n = Some (2, 2, 1)"
      "protobuf_decode_varint no_rsa_lib r n = Some (0, 1)" "protobuf_decode_length_delimited no_rsa_lib r n = Some ([7], length r)" for r n
      by (simp_all add: no_rsa_lib_def sample_lib_def)
    have "public_key_decode_loop no_rsa_lib ?b 0 libp2p_crypto_public_key_new = public_key_decode_loop no_rsa_lib ?b 2 ?k"
      by (subst public_key_decode_loop.simps) (simp add: F libp2p_crypto_public_key_new_def KEYTYPE_RSA_def Let_def numeral_2_eq_2)
    also have "\<dots> = public_key_decode_loop no_rsa_lib ?b (Suc (Suc (Suc (Suc 0)))) (?k\<lparr>pk_data := [7]\<rparr>)"
      by (subst public_key_decode_loop.simps) (simp add: F Let_def)
    also have "\<dots> = Some (Some (?k\<lparr>pk_data := [7]\<rparr>))" by (subst public_key_decode_loop.simps) simp
    finally show ?thesis by (simp add: libp2p_crypto_public_key_protobuf_decode_def)
  qed
  have "rsa_parse_public no_rsa_lib [7] = None" by (simp add: no_rsa_lib_def)
  from bad_rsa_key_undefined [OF ok D v h e k _ this, of None "Some sample_peer"] show ?thesis unfolding snd_conv by blast
qed

section \<open>Peer ids\<close>

text \<open>A peer id is the base 58 of the multihash of the key's hash, provided no byte of the hash is zero: the string decodes to
  the two bytes of the multihash header and the 32 bytes of the hash.\<close>

theorem peer_id_decodes:
  assumes "mh_new_sha2_256 L d = Some ([0x12, 0x20] @ d)" and "length d = 32" and "0 \<notin> set d"
  shows "\<exists>s. PrettyID L 100 d = Some (Some s, length s + 1) \<and> 0 \<notin> set s \<and>
    libp2p_crypto_encoding_base58_decode s 34 = Some (Some ([0x12, 0x20] @ d, 34))"
proof -
  let ?m = "[0x12, 0x20] @ d"
  have m: "\<forall>b \<in> set ?m. b \<noteq> 0" using assms(3) by auto
  have "takeWhile (\<lambda>b. b \<noteq> 0) (?m @ replicate 66 0) = ?m"
    using m by (simp add: takeWhile_append takeWhile_replicate del: append_assoc)
  moreover have "memcpy (replicate 100 0) ?m = ?m @ replicate 66 0" using assms(2) by (simp add: memcpy_def)
  ultimately have p: "PrettyID L 100 d = libp2p_crypto_encoding_base58_encode ?m 100" using assms(1) by (simp add: PrettyID_def Let_def)
  have "takeWhile (\<lambda>b. b = 0) ?m = []" "length ?m * 138 div 100 + 1 < 100" "length ?m = 34" using assms(2) by simp_all
  with base58_encode_decode [of ?m 100] show ?thesis unfolding p by simp
qed

theorem peer_id_decodes_witness:
  "\<exists>s. PrettyID sample_lib 100 (replicate 32 1) = Some (Some s, length s + 1) \<and>
     libp2p_crypto_encoding_base58_decode s 34 = Some (Some ([0x12, 0x20] @ replicate 32 1, 34))"
proof -
  have "mh_new_sha2_256 sample_lib (replicate 32 1) = Some ([0x12, 0x20] @ replicate 32 1)" by (simp add: sample_lib_def)
  from peer_id_decodes [OF this] show ?thesis by auto
qed

text \<open>C31. Peer ids collide: the multihash is taken for a C string, so an id depends only on the bytes of the hash before its first
  zero byte. Two keys whose hashes agree up to there, for instance any two hashes that begin with a zero, have the same
  peer id.\<close>

theorem peer_ids_collide:
  assumes "mh_new_sha2_256 L (d @ 0 # r1) = Some ([0x12, 0x20] @ d @ 0 # r1)" and "mh_new_sha2_256 L (d @ 0 # r2) = Some ([0x12, 0x20] @ d @ 0 # r2)"
    and "sha256 L (snd (libp2p_crypto_public_key_protobuf_encode L k1 (libp2p_crypto_public_key_protobuf_encode_size k1))) = d @ 0 # r1"
    and "sha256 L (snd (libp2p_crypto_public_key_protobuf_encode L k2 (libp2p_crypto_public_key_protobuf_encode_size k2))) = d @ 0 # r2"
  shows "libp2p_crypto_public_key_to_peer_id L mem k1 = libp2p_crypto_public_key_to_peer_id L mem k2"
proof -
  have t: "takeWhile (\<lambda>b. b \<noteq> 0) (memcpy buf ([0x12, 0x20] @ d @ 0 # r)) = takeWhile (\<lambda>b. b \<noteq> 0) ([0x12, 0x20] @ d @ [0])" for buf and r :: bytes
    by (auto simp: memcpy_def takeWhile_append)
  have "PrettyID L 100 (d @ 0 # r1) = PrettyID L 100 (d @ 0 # r2)" unfolding PrettyID_def assms(1,2) Let_def option.case t ..
  then show ?thesis unfolding libp2p_crypto_public_key_to_peer_id_def assms(3,4) Let_def by simp
qed


theorem peer_ids_collide_witness:
  "let L = sample_lib\<lparr>sha256 := (\<lambda>m. take 32 (0 # m @ replicate 32 1))\<rparr>;
       k1 = \<lparr>pk_type = KEYTYPE_RSA, pk_data = [1]\<rparr>; k2 = \<lparr>pk_type = KEYTYPE_RSA, pk_data = [2]\<rparr>
   in k1 \<noteq> k2 \<and> libp2p_crypto_public_key_to_peer_id L True k1 = libp2p_crypto_public_key_to_peer_id L True k2"
proof -
  let ?L = "sample_lib\<lparr>sha256 := (\<lambda>m. take 32 (0 # m @ replicate 32 1))\<rparr>"
  let ?k1 = "\<lparr>pk_type = KEYTYPE_RSA, pk_data = [1]\<rparr>" and ?k2 = "\<lparr>pk_type = KEYTYPE_RSA, pk_data = [2]\<rparr>"
  let ?b = "\<lambda>k. snd (libp2p_crypto_public_key_protobuf_encode ?L k (libp2p_crypto_public_key_protobuf_encode_size k))"
  have s: "sha256 ?L m = [] @ 0 # take 31 (m @ replicate 32 1)" for m by (simp add: numeral_eq_Suc)
  have m: "mh_new_sha2_256 ?L d = Some ([0x12, 0x20] @ d)" for d by (simp add: sample_lib_def)
  have "libp2p_crypto_public_key_to_peer_id ?L True ?k1 = libp2p_crypto_public_key_to_peer_id ?L True ?k2"
    by (rule peer_ids_collide [OF m m s s])
  then show ?thesis unfolding Let_def by simp
qed

end
