(* ===== verification/Identify_Theorems.thy ===== *)
theory Identify_Theorems
  imports Identify_Laws Yamux_Theorems Identity_Theorems
begin

text \<open>
  What two ends learn of each other by the identify protocol over a yamux stream, and where it depends on memory that nobody has
  written.
\<close>

section \<open>The exchange\<close>

text \<open>A zero byte where a tag is expected would be the tag of field 0 with type 0. Protobuf has no field 0, so a decoder may refuse it; one that does
  not look at the number takes it. The theorems say what happens with either: all that is asked is that the decoder does one or the other,
  whatever follows.\<close>

definition accepts_zero :: "ext_lib \<Rightarrow> bool" where
  "accepts_zero L \<longleftrightarrow> protobuf_decode_field_and_type L [0] 1 \<noteq> None"

definition tags_ok :: "ext_lib \<Rightarrow> bool" where
  "tags_ok L \<longleftrightarrow> (\<forall>r n. 1 \<le> unat n \<longrightarrow> protobuf_decode_field_and_type L (0 # r) n = (if accepts_zero L then Some (0, 0, 1) else None))"

definition identify_lib :: "ext_lib \<Rightarrow> bool" where
  "identify_lib L \<longleftrightarrow> protobuf_ok L \<and> strings_ok L \<and> sizes_ok L \<and> lengths_ok L \<and> tags_ok L"

definition identify_mem_ok :: "identify_mem \<Rightarrow> bool" where
  "identify_mem_ok m \<longleftrightarrow> im_info m \<and> (\<forall>k. im_grow m k) \<and> im_key m \<and> im_id m \<and> (\<forall>i. im_addr m i \<and> im_node m i)"

text \<open>The store of a node with the key \<open>k\<close> and the peer id \<open>pid\<close>, whose message fits the buffer.\<close>

definition identify_store :: "ext_lib \<Rightarrow> public_key \<Rightarrow> bytes \<Rightarrow> peerstore \<Rightarrow> bool" where
  "identify_store L k pid ps \<longleftrightarrow> key_fields_ok L (ucast (pk_type k)) (pk_data k) \<and>
     libp2p_crypto_public_key_protobuf_encode L k (libp2p_crypto_public_key_protobuf_encode_size k) = (True, ps_public_key ps) \<and>
     libp2p_crypto_public_key_to_peer_id L True k = Some (Some pid) \<and> field_size (message_fields ps) \<le> 4096"

definition learned_addrs :: "peerstore \<Rightarrow> v2_peer \<Rightarrow> multi_address list" where
  "learned_addrs ps peer = rev (List.map_filter (\<lambda>a. libp2p_multiaddr_new_from_string True (cstr a)) (ps_listen_addrs ps)) @ addr_head peer"

text \<open>The tag in front of each field of the loop is decoded with the length of the whole buffer.\<close>

lemma key_tail:
  assumes "tags_ok L" and "key_fields_ok L (ucast (pk_type k)) (pk_data k)"
    and "libp2p_crypto_public_key_protobuf_encode L k (libp2p_crypto_public_key_protobuf_encode_size k) = (True, b)"
  shows "b \<noteq> []"
    and "libp2p_crypto_public_key_protobuf_decode L True (b @ [0]) = Some (if accepts_zero L then Some k else None)"
    and "accepts_zero L \<Longrightarrow> libp2p_crypto_public_key_protobuf_decode L True (b @ [0, 0]) = Some (Some k)"
    and "\<not> accepts_zero L \<or> protobuf_decode_field_and_type L [c] (of_nat (length b + 2)) = None \<Longrightarrow>
      libp2p_crypto_public_key_protobuf_decode L True (b @ [0, c]) = Some None"
proof -
  have sz: "length (pk_data k) < 2 ^ 31" using assms(2) by (simp add: key_fields_ok_def)
  have D: "b \<noteq> []" "length b \<le> 22 + length (pk_data k)" "length z < 2 ^ 31 \<Longrightarrow>
      libp2p_crypto_public_key_protobuf_decode L True (b @ z) = public_key_decode_loop L (b @ z) (length b) k" for z
    using public_key_decode_tail [OF assms(2)] assms(3) by auto
  have z: "public_key_decode_loop L (p @ 0 # r) (length p) k =
      (if accepts_zero L then public_key_decode_loop L (p @ 0 # r) (Suc (length p)) k else Some None)"
    if "length (p @ 0 # r) < 2 ^ 64" for p r
  proof -
    have "1 \<le> unat (of_nat (length (p @ 0 # r)) :: 64 word)" unfolding unat_claim [OF that] by simp
    then show ?thesis using assms(1) unfolding tags_ok_def by (subst public_key_decode_loop.simps) (simp add: Let_def)
  qed
  have e: "public_key_decode_loop L p (length p) k = Some (Some k)" for p by (simp add: public_key_decode_loop.simps)
  have n: "length (b @ [0]) < 2 ^ 64" "length (b @ [0, c]) < 2 ^ 64" "length ((b @ [0]) @ [0]) < 2 ^ 64" for c using D(2) sz by simp_all
  show "b \<noteq> []" by (rule D)
  show "libp2p_crypto_public_key_protobuf_decode L True (b @ [0]) = Some (if accepts_zero L then Some k else None)"
    using z [OF n(1)] e [of "b @ [0]"] by (simp add: D)
  show "libp2p_crypto_public_key_protobuf_decode L True (b @ [0, 0]) = Some (Some k)" if "accepts_zero L"
    using z [OF n(2), of 0] z [OF n(3)] e [of "b @ [0, 0]"] that by (simp add: D)
  show "libp2p_crypto_public_key_protobuf_decode L True (b @ [0, c]) = Some None"
    if c: "\<not> accepts_zero L \<or> protobuf_decode_field_and_type L [c] (of_nat (length b + 2)) = None"
  proof (cases "accepts_zero L")
    case True
    then have "protobuf_decode_field_and_type L [c] (of_nat (length (b @ [0, c]))) = None" using c by simp
    then have "public_key_decode_loop L (b @ [0, c]) (Suc (length b)) k = Some None"
      by (subst public_key_decode_loop.simps) simp
    then show ?thesis using z [OF n(2), of c] True by (simp add: D)
  qed (use z [OF n(2), of c] in \<open>simp add: D\<close>)
qed

lemma populate_info:
  assumes "identify_mem_ok m" and "key \<noteq> []" and "key = ps_public_key ps"
  shows "identify_populate L m (info_of ps (length key + prefix_len key)) peer =
    map_option (map_outcome (\<lambda>q. q\<lparr>addr_head := learned_addrs ps q\<rparr>))
      (identify_set_id L m (key @ (if length key < 128 then [0] else [0, im_behind m 0])) peer)"
proof -
  have "identify_addrs m 0 (ps_listen_addrs ps) = (\<lambda>q. q\<lparr>addr_head := learned_addrs ps q\<rparr>)"
    using assms(1) identify_addrs_all [of m 0 "ps_listen_addrs ps"] by (intro ext) (simp add: learned_addrs_def identify_mem_ok_def)
  then show ?thesis using assms(2,3) by (simp add: identify_populate_def info_of_def string_memory_key)
qed

text \<open>The bytes behind the key that the receiver takes for part of it.\<close>

definition key_excess :: "identify_mem \<Rightarrow> peerstore \<Rightarrow> bytes" where
  "key_excess m ps = (if length (ps_public_key ps) < 128 then [0] else [0, im_behind m 0])"

text \<open>What the receiver makes of the peer, given what the key and the bytes behind it decode to.\<close>

definition learned_peer :: "bytes \<Rightarrow> peerstore \<Rightarrow> public_key option \<Rightarrow> v2_peer \<Rightarrow> v2_peer" where
  "learned_peer pid ps key peer =
     (case key of None \<Rightarrow> peer | Some _ \<Rightarrow> peer\<lparr>peer_id := Some pid\<rparr>)\<lparr>addr_head := learned_addrs ps peer\<rparr>"

lemma set_id_learned:
  assumes "identify_mem_ok m" and "identify_store L k pid ps" and "libp2p_crypto_public_key_protobuf_decode L True key = Some q" and "q \<in> {None, Some k}"
  shows "map_option (map_outcome (\<lambda>p. p\<lparr>addr_head := learned_addrs ps p\<rparr>)) (identify_set_id L m key peer) = Some (Returns (learned_peer pid ps q peer))"
  using assms by (auto simp: identify_set_id_def identify_store_def identify_mem_ok_def learned_peer_def learned_addrs_def)

text \<open>The message of a node, as it stands on the stream.\<close>

definition identify_message :: "ext_lib \<Rightarrow> peerstore \<Rightarrow> bytes" where
  "identify_message L ps =
     (case encode_all (identify_fields L ps) [] of None \<Rightarrow> [] | Some buf \<Rightarrow> varint_encode L (of_nat (length buf)) @ buf)"

context v2_live
begin

lemma identify_exchange:
  assumes "identify_lib L" and "identify_store L k pid ps"
  shows "length (identify_message L ps) \<le> 4106"
    and "ready s \<Longrightarrow> room s 4106 \<Longrightarrow>
      \<exists>s'. libp2p_identify_send_response L io ps s = Some (True, s') \<and> sent s' = sent s @ identify_message L ps \<and> avail s' = avail s \<and> ready s'"
    and "identify_mem_ok m \<Longrightarrow> libp2p_crypto_public_key_protobuf_decode L True (ps_public_key ps @ key_excess m ps) = Some q \<Longrightarrow> q \<in> {None, Some k} \<Longrightarrow>
      ready t \<Longrightarrow> avail t = identify_message L ps @ r \<Longrightarrow>
      \<exists>t'. libp2p_identify_receive L m io peer t = Some (Returns (True, learned_peer pid ps q peer), t') \<and> avail t' = r \<and> sent t' = sent t \<and> ready t'"
proof -
  let ?key = "ps_public_key ps"
  have L: "protobuf_ok L" "strings_ok L" "sizes_ok L" "lengths_ok L" "tags_ok L" using assms(1) by (simp_all add: identify_lib_def)
  have K: "?key \<noteq> []" using key_tail(1) [OF L(5)] assms(2) unfolding identify_store_def by blast
  obtain buf where buf: "encode_all (identify_fields L ps) [] = Some buf" "buf \<noteq> []" "length buf \<le> 4096"
      "\<And>grow post info. (\<forall>k. grow k) \<Longrightarrow> libp2p_identify_info_new True = Some info \<Longrightarrow>
        identify_loop L grow (buf @ post) (length buf) 0 info = Some (True, info_of ps (length ?key + prefix_len ?key))"
    using message_exists [OF L(1-3) _ K] assms(2) unfolding identify_store_def by blast
  let ?v = "varint_encode L (of_nat (length buf))" 
  have "length ?v \<le> 10" using L(4) buf(3) by (simp add: lengths_ok_def varint_shape_def)
  then have len: "length (?v @ buf) \<le> 4106" using buf(3) by simp
  have msg: "identify_message L ps = ?v @ buf" using buf(1) by (simp add: identify_message_def)
  show "length (identify_message L ps) \<le> 4106" using len msg by simp
  show "\<exists>s'. libp2p_identify_send_response L io ps s = Some (True, s') \<and> sent s' = sent s @ identify_message L ps \<and> avail s' = avail s \<and> ready s'"
    if "ready s" "room s 4106" using identify_send_live [OF buf(1) that len] by (simp add: msg)
  show "\<exists>t'. libp2p_identify_receive L m io peer t = Some (Returns (True, learned_peer pid ps q peer), t') \<and> avail t' = r \<and> sent t' = sent t \<and> ready t'"
    if m: "identify_mem_ok m" and q: "libp2p_crypto_public_key_protobuf_decode L True (?key @ key_excess m ps) = Some q" "q \<in> {None, Some k}"
      and t: "ready t" "avail t = identify_message L ps @ r"
  proof -
    have mm: "im_info m" "\<forall>k. im_grow m k" using m by (simp_all add: identify_mem_ok_def)
    have "avail t = ?v @ buf @ r" using t(2) msg by simp
    from identify_receive_live [OF L(4) buf(2,3) mm(1) t(1) this, of "info_of ps (length ?key + prefix_len ?key)" peer] buf(4) [OF mm(2)]
    obtain t' where t': "libp2p_identify_receive L m io peer t = map_option (\<lambda>q. (map_outcome (Pair True) q, t'))
        (identify_populate L m (info_of ps (length ?key + prefix_len ?key)) peer)" "avail t' = r" "sent t' = sent t" "ready t'" by blast
    have "identify_populate L m (info_of ps (length ?key + prefix_len ?key)) peer = Some (Returns (learned_peer pid ps q peer))"
      using populate_info [OF m K refl, of L peer] set_id_learned [OF m assms(2) q, of peer] by (simp only: key_excess_def)
    with t' show ?thesis by simp
  qed
qed

end

text \<open>An instance of the libraries with varints of one to three bytes and decoders that look at the length; \<open>z\<close> says whether a tag of field 0
  is accepted.\<close>

definition wire_varint :: "nat \<Rightarrow> bytes" where
  "wire_varint n = (if n < 128 then [of_nat n] else if n < 16384 then [of_nat (128 + n mod 128), of_nat (n div 128)]
     else [of_nat (128 + n mod 128), of_nat (128 + n div 128 mod 128), of_nat (n div 16384)])"

definition wire_value :: "bytes \<Rightarrow> nat \<times> nat" where
  "wire_value bs =
     (let b0 = unat (byte_at bs 0); b1 = unat (byte_at bs 1); b2 = unat (byte_at bs 2)
      in if b0 < 128 then (b0, 1) else if b1 < 128 then (b0 mod 128 + 128 * b1, 2)
         else (b0 mod 128 + 128 * (b1 mod 128) + 16384 * b2, 3))"

definition wire_libs :: "bool \<Rightarrow> ext_lib" where
  "wire_libs z = sample_lib\<lparr>
     protobuf_encode_varint := (\<lambda>fld v cap. Some [of_nat (8 * fld), ucast v]),
     protobuf_decode_varint := (\<lambda>bs n. case bs of [] \<Rightarrow> None | b # _ \<Rightarrow> if n = 0 then None else Some (ucast b, 1)),
     protobuf_encode_length_delimited := (\<lambda>fld d cap.
       let b = of_nat (fld * 8 + 2) # wire_varint (length d) @ d in if length b \<le> cap then Some b else None),
     protobuf_encode_string := (\<lambda>fld d cap.
       let b = of_nat (fld * 8 + 2) # wire_varint (length d) @ d in if length b \<le> cap then Some b else None),
     protobuf_decode_length_delimited := (\<lambda>bs n. let (l, k) = wire_value bs in if k + l \<le> unat n then Some (take l (drop k bs), k + l) else None),
     protobuf_decode_field_and_type := (\<lambda>bs n. case bs of [] \<Rightarrow> None
       | b # _ \<Rightarrow> if n = 0 \<or> 128 \<le> b \<or> b < 8 \<and> \<not> z then None else Some (int (unat b div 8), unat b mod 8, 1)),
     protobuf_decode_string := (\<lambda>bs n. let (l, k) = wire_value bs in if k + l \<le> unat n then (Some (take l (drop k bs)), k + l) else (None, 0)),
     varint_decode := (\<lambda>bs. let (l, k) = wire_value bs in (of_nat l, k)),
     varint_encode := (\<lambda>v. wire_varint (unat v))\<rparr>"

lemma wire_value_varint:
  assumes "n < 65536"
  shows "wire_value (wire_varint n @ r) = (n, length (wire_varint n))"
proof -
  have b: "unat (of_nat (128 + n mod 128) :: byte) = 128 + n mod 128" "unat (of_nat (128 + n div 128 mod 128) :: byte) = 128 + n div 128 mod 128"
    by (simp_all only: unat_of_nat) simp_all
  have c: "n < 16384 \<Longrightarrow> unat (of_nat (n div 128) :: byte) = n div 128" "unat (of_nat (n div 16384) :: byte) = n div 16384"
      "n < 128 \<Longrightarrow> unat (of_nat n :: byte) = n"
    using assms by (simp_all only: unat_of_nat) simp_all
  have "n < 16384 \<Longrightarrow> n div 128 < 128" by (simp add: less_mult_imp_div_less)
  moreover have "n mod 128 + 128 * (n div 128 mod 128) + 16384 * (n div 16384) = n"
  proof -
    have "n div 128 mod 128 + 128 * (n div 128 div 128) = n div 128" "n mod 128 + 128 * (n div 128) = n" by simp_all
    moreover have "n div 16384 = n div 128 div 128" by (simp flip: div_mult2_eq)
    ultimately show ?thesis by linarith
  qed
  ultimately show ?thesis using b c
    by (simp add: wire_value_def wire_varint_def numeral_2_eq_2 del: of_nat_add)
qed

lemma wire_accepts [simp]: "accepts_zero (wire_libs z) = z"
  by (simp add: accepts_zero_def wire_libs_def)

lemma wire_tag:
  assumes "0 < fld" and "fld < 16" and "1 \<le> unat n"
  shows "protobuf_decode_field_and_type (wire_libs z) (of_nat (fld * 8 + 2) # r) n = Some (int fld, WIRETYPE_LENGTH_DELIMITED, 1)"
proof -
  have "unat (of_nat (fld * 8 + 2) :: byte) = fld * 8 + 2" using assms by (simp only: unat_of_nat) simp
  moreover have "(fld * 8 + 2) div 8 = fld" "(fld * 8 + 2) mod 8 = 2" by presburger+
  moreover have "\<not> (of_nat (fld * 8 + 2) :: byte) < 8" using assms(1) calculation(1) by (simp add: word_less_nat_alt del: of_nat_add of_nat_mult)
  moreover have "n \<noteq> 0" using assms(3) by auto
  ultimately show ?thesis using assms(2)
    by (simp add: wire_libs_def WIRETYPE_LENGTH_DELIMITED_def word_le_nat_alt del: of_nat_add of_nat_mult)
qed

lemma wire_varint_length: "wire_varint n \<noteq> []" "length (wire_varint n) \<le> 3" "n < 16384 \<Longrightarrow> length (wire_varint n) = (if n < 128 then 1 else 2)"
  by (auto simp: wire_varint_def)

lemma wire_protobuf_ok: "protobuf_ok (wire_libs z)"
proof -
  have "field_ok (wire_libs z) fld d cap [of_nat (fld * 8 + 2)] (wire_varint (length d))" if "0 < fld" "fld < 16" "length d < 65536" for fld d cap
    using wire_tag [OF that(1,2)] wire_value_varint [OF that(3)] wire_varint_length(1)
    by (simp add: field_ok_def) (simp add: wire_libs_def Let_def)
  then show ?thesis unfolding protobuf_ok_def
    by (intro allI impI, rule_tac x = "[of_nat (fld * 8 + 2)]" in exI, rule_tac x = "wire_varint (length d)" in exI)
      (use wire_varint_length(2) in simp)
qed

lemma wire_value_bound: "fst (wire_value bs) < 2 ^ 64"
proof -
  have b: "unat (b :: byte) < 256" for b using unsigned_less [of b] by simp
  have "p mod 128 + 128 * (q mod 128) + 16384 * r < 2 ^ 64" "p mod 128 + 128 * r < 2 ^ 64" "r < 2 ^ 64" if "r < 256" for p q r :: nat
  proof -
    have "p mod 128 < 128" "q mod 128 < 128" by simp_all
    with that show "p mod 128 + 128 * (q mod 128) + 16384 * r < 2 ^ 64" "p mod 128 + 128 * r < 2 ^ 64" "r < 2 ^ 64"
      by simp_all
  qed
  then show ?thesis unfolding wire_value_def Let_def using b by (simp only: fst_conv if_distrib [of fst] split: if_split) blast
qed

lemma unat_64: "n < 2 ^ 64 \<Longrightarrow> unat (of_nat n :: 64 word) = n"
  by (simp add: unat_of_nat)

lemma wire_strings_ok: "strings_ok (wire_libs z)"
proof -
  have "protobuf_decode_string (wire_libs z) (len @ d @ r) n = (Some d, length (len @ d))"
    if "length d < 65536" "varint_decode (wire_libs z) (len @ d @ r) = (of_nat (length d), length len)" "length (len @ d) \<le> unat n" for d len r and n :: "64 word"
  proof -
    obtain l k where lk: "wire_value (len @ d @ r) = (l, k)" by (cases "wire_value (len @ d @ r)")
    then have "l < 2 ^ 64" using wire_value_bound [of "len @ d @ r"] by simp
    moreover have "of_nat l = (of_nat (length d) :: 64 word)" "k = length len" using that(2) lk by (simp_all add: wire_libs_def)
    moreover have "length d < 2 ^ 64" using that(1) by simp
    ultimately have "l = length d" using unat_64 [of l] unat_64 [of "length d"] by metis
    then show ?thesis using that(3) lk \<open>k = length len\<close> by (simp add: wire_libs_def)
  qed
  then show ?thesis by (simp add: strings_ok_def) (simp add: wire_libs_def)
qed

lemma wire_sizes_ok: "sizes_ok (wire_libs z)"
proof -
  have "length b = length d + (if length d < 128 then 2 else 3) \<and> protobuf_decode_field_and_type (wire_libs z) b n = Some (int fld, WIRETYPE_LENGTH_DELIMITED, 1)"
    if "0 < fld" "fld < 16" "length d < 16384" "1 \<le> unat n" "protobuf_encode_length_delimited (wire_libs z) fld d cap = Some b" for fld d cap b n
  proof -
    have "b = of_nat (fld * 8 + 2) # wire_varint (length d) @ d" using that(5) by (simp add: wire_libs_def Let_def split: if_splits)
    then show ?thesis using wire_tag [OF that(1,2,4)] wire_varint_length(3) [OF that(3)] by simp
  qed
  then show ?thesis unfolding sizes_ok_def by blast
qed

lemma wire_lengths_ok: "lengths_ok (wire_libs z)"
proof -
  have e: "varint_encode (wire_libs z) (of_nat n) = wire_varint n" if "n < 65536" for n
    using that by (simp add: wire_libs_def unat_of_nat)
  have "varint_shape (wire_varint n)" if "n < 65536" for n
  proof -
    have hi: "x < 128 \<Longrightarrow> (of_nat (128 + x) :: byte) AND 0x80 \<noteq> 0" and lo: "x < 128 \<Longrightarrow> (of_nat x :: byte) AND 0x80 = 0" for x
    proof -
      have "\<forall>x \<in> set [0..<128]. (of_nat (128 + x) :: byte) AND 0x80 \<noteq> 0 \<and> (of_nat x :: byte) AND 0x80 = 0" by code_simp
      then show "x < 128 \<Longrightarrow> (of_nat (128 + x) :: byte) AND 0x80 \<noteq> 0" "x < 128 \<Longrightarrow> (of_nat x :: byte) AND 0x80 = 0" by (metis atLeastLessThan_iff atLeastLessThan_upt zero_le)+
    qed
    have "n < 16384 \<Longrightarrow> n div 128 < 128" "n div 16384 < 128" using that by (simp_all add: less_mult_imp_div_less)
    then show ?thesis using hi lo by (simp add: varint_shape_def wire_varint_def del: of_nat_add)
  qed
  moreover have "varint_decode (wire_libs z) (wire_varint n) = (of_nat n, length (wire_varint n))" if "n < 65536" for n
    using wire_value_varint [OF that, of "[]"] by (simp add: wire_libs_def)
  ultimately show ?thesis using e by (simp add: lengths_ok_def)
qed

lemma wire_lib_ok: "identify_lib (wire_libs z)"
proof -
  have "n \<noteq> 0" if "1 \<le> unat n" for n :: "64 word" using that by auto
  then have "tags_ok (wire_libs z)" unfolding tags_ok_def wire_accepts by (simp add: wire_libs_def)
  then show ?thesis by (simp add: identify_lib_def wire_protobuf_ok wire_strings_ok wire_sizes_ok wire_lengths_ok)
qed

lemma wire_key_ok: "length d < 16384 \<Longrightarrow> key_fields_ok (wire_libs z) 0 d"
  unfolding key_fields_ok_def
  by (rule conjI, simp, rule exI [of _ "[8]"], rule exI [of _ "[0]"], rule exI [of _ "[18]"], rule exI [of _ "wire_varint (length d) @ d"])
    (use wire_value_varint [of "length d"] wire_varint_length(2) [of "length d"] in
      \<open>simp add: wire_libs_def WIRETYPE_LENGTH_DELIMITED_def Let_def\<close>)

abbreviation wire_lib :: ext_lib where "wire_lib \<equiv> wire_libs True"

text \<open>A node with an RSA key of \<open>n\<close> bytes and two addresses, of which one parses.\<close>

definition wire_key :: "nat \<Rightarrow> public_key" where
  "wire_key n = \<lparr>pk_type = KEYTYPE_RSA, pk_data = replicate n 7\<rparr>"

definition wire_store :: "nat \<Rightarrow> peerstore" where
  "wire_store n = \<lparr>ps_local_peer_id = None, ps_head = [],
     ps_public_key = snd (libp2p_crypto_public_key_protobuf_encode wire_lib (wire_key n) (libp2p_crypto_public_key_protobuf_encode_size (wire_key n))),
     ps_listen_addrs = [bstr ''/ip4/1.2.3.4/tcp/4001'', bstr ''/dns'']\<rparr>"

lemma wire_store_key:
  assumes "n < 1024"
  shows "libp2p_crypto_public_key_protobuf_encode (wire_libs z) (wire_key n) (libp2p_crypto_public_key_protobuf_encode_size (wire_key n)) = (True, ps_public_key (wire_store n))"
    and "length (ps_public_key (wire_store n)) = 3 + length (wire_varint n) + n"
proof -
  have "libp2p_crypto_public_key_protobuf_encode (wire_libs z) (wire_key n) (libp2p_crypto_public_key_protobuf_encode_size (wire_key n)) =
      (True, [8, 0] @ [18] @ wire_varint n @ replicate n 7)" for z
    using wire_varint_length(2) [of n]
    by (simp add: libp2p_crypto_public_key_protobuf_encode_def libp2p_crypto_public_key_protobuf_encode_size_def wire_key_def wire_libs_def KEYTYPE_RSA_def Let_def)
  then show "libp2p_crypto_public_key_protobuf_encode (wire_libs z) (wire_key n) (libp2p_crypto_public_key_protobuf_encode_size (wire_key n)) = (True, ps_public_key (wire_store n))"
    "length (ps_public_key (wire_store n)) = 3 + length (wire_varint n) + n" by (simp_all add: wire_store_def)
qed

lemma wire_store_ok:
  assumes "n < 1024"
  shows "\<exists>pid. identify_store (wire_libs z) (wire_key n) pid (wire_store n)"
proof -
  have h: "mh_new_sha2_256 (wire_libs z) (replicate 32 9) = Some ([0x12, 0x20] @ replicate 32 9)" "sha256 (wire_libs z) b = replicate 32 9" for b
    by (simp_all add: wire_libs_def sample_lib_def)
  have "takeWhile (\<lambda>b. b \<noteq> 0) (memcpy (replicate 100 0) ([0x12, 0x20] @ replicate 32 (9 :: byte))) = [0x12, 0x20] @ replicate 32 9"
    by (simp add: memcpy_def takeWhile_append takeWhile_replicate)
  then have "PrettyID (wire_libs z) 100 (replicate 32 9) = libp2p_crypto_encoding_base58_encode ([0x12, 0x20] @ replicate 32 9) 100"
    using h(1) by (simp add: PrettyID_def)
  moreover obtain s where "libp2p_crypto_encoding_base58_encode ([0x12, 0x20] @ replicate 32 9) 100 = Some (Some s, length s + 1)"
    using base58_encode_decode [of "[0x12, 0x20] @ replicate 32 9" 100] by auto
  ultimately have "libp2p_crypto_public_key_to_peer_id (wire_libs z) True (wire_key n) = Some (Some s)"
    by (simp add: libp2p_crypto_public_key_to_peer_id_def h(2))
  moreover have "field_size (message_fields (wire_store n)) \<le> 4096"
    using wire_store_key(2) [OF assms] wire_varint_length(2) [of n] assms
    by (simp add: field_size_def message_fields_def IDENTIFY_PROTOCOL_VERSION_def IDENTIFY_AGENT_VERSION_def bstr_def)
      (simp add: wire_store_def bstr_def)
  moreover have "key_fields_ok (wire_libs z) (ucast (pk_type (wire_key n))) (pk_data (wire_key n))"
    using wire_key_ok [of "replicate n 7"] assms by (simp add: wire_key_def KEYTYPE_RSA_def)
  ultimately show ?thesis using wire_store_key(1) [OF assms] by (auto simp: identify_store_def)
qed

definition wire_mem :: identify_mem where
  "wire_mem = \<lparr>im_buf = True, im_info = True, im_grow = (\<lambda>_. True), im_key = True, im_id = True, im_addr = (\<lambda>_. True), im_node = (\<lambda>_. True), im_behind = (\<lambda>_. 0)\<rparr>"

lemma wire_mem_ok: "identify_mem_ok wire_mem"
  by (simp add: identify_mem_ok_def wire_mem_def)

definition no_peer :: v2_peer where "no_peer = \<lparr>peer_id = None, addr_head = [], addr_end = 0\<rparr>"

text \<open>A stream of a session over TCP that has \<open>d\<close> to read, behind a ping.\<close>

definition wire_stream :: "bytes \<Rightarrow> yamux_ctx \<times> tcp_sock yamux_session" where
  "wire_stream d = (new_ctx 1 True, sample_session (concat (map wire [(ping_header 0 7, []), (data_header 1 0 (length d), d)])))"

lemma wire_stream_ok:
  assumes "length d < 65536"
  shows "tcp.y_ready (wire_stream d)" and "y_avail sk_rx (wire_stream d) = d" and "y_room (\<lambda>_. True) (wire_stream d) 4106"
proof -
  let ?fs = "[(ping_header 0 7, []), (data_header 1 0 (length d), d)]"
  have wf: "wf_frame (data_header 1 0 (length d), d)" using assms by (intro own_data_frame(1)) simp_all
  have k: "kind_peer (new_ctx 1 True) ?fs"
    using wf passed_ping [of 1 7] by (auto simp: kind_peer_def passed_def frame_types YAMUX_INITIAL_WINDOW_SIZE_def has_flag_def)
  have "framed []" unfolding framed_def by (rule exI [of _ "[]"]) simp
  moreover have "tcp.healthy (sample_session (concat (map wire ?fs))) (concat (map wire ?fs)) []"
    by (simp add: tcp_session_def flip: tcp_session_healthy)
  ultimately show "tcp.y_ready (wire_stream d)" using k unfolding tcp.y_ready_def wire_stream_def prod.case
    by (intro exI [of _ ?fs] exI [of _ "[]"]) simp
  have "\<forall>f \<in> set ?fs. wf_frame f" using k by (simp add: kind_peer_def)
  from frames_of_wires [OF this] show "y_avail sk_rx (wire_stream d) = d"
    by (simp add: y_avail_def wire_stream_def is_data_def frame_types)
  show "y_room (\<lambda>_. True) (wire_stream d) 4106" by (simp add: y_room_def wire_stream_def YAMUX_MAX_PAYLOAD_def YAMUX_INITIAL_WINDOW_SIZE_def)
qed

section \<open>What is learned\<close>

text \<open>C38. Two nodes and the identify protocol over a yamux stream over TCP: for a node with a key whose encoding has fewer than 128 bytes
  \<open>libp2p_identify_send_response\<close> sends its message on any stream that works and has room, and \<open>libp2p_identify_receive\<close> at the other end, however
  the message is cut into frames and mixed with others, reads exactly it, reports success and takes from it the listen addresses that parse. The
  receiver takes the length of the field for that of the key and decodes the key with the zero byte of the string behind it: the peer id of the key is
  learned if the protobuf decoder accepts the zero as the tag of a field 0, and is not learned if it refuses it, as it should; the call reports success
  in both cases.\<close>

theorem identify_round_trip:
  assumes "identify_lib L" and "identify_store L k pid ps" and "length (ps_public_key ps) < 128" and "identify_mem_ok m"
  shows "(\<forall>s. tcp.y_ready s \<longrightarrow> y_room (\<lambda>_. True) s 4106 \<longrightarrow>
      (\<exists>s'. libp2p_identify_send_response L (yamux_io tcp_stream) ps s = Some (True, s') \<and> y_sent sk_tx s' = y_sent sk_tx s @ identify_message L ps)) \<and>
    (\<forall>t r peer. tcp.y_ready t \<longrightarrow> y_avail sk_rx t = identify_message L ps @ r \<longrightarrow>
      (\<exists>t'. libp2p_identify_receive L m (yamux_io tcp_stream) peer t =
          Some (Returns (True, (if accepts_zero L then peer\<lparr>peer_id := Some pid\<rparr> else peer)\<lparr>addr_head := learned_addrs ps peer\<rparr>), t') \<and>
        y_avail sk_rx t' = r))"
proof -
  have d: "libp2p_crypto_public_key_protobuf_decode L True (ps_public_key ps @ key_excess m ps) = Some (if accepts_zero L then Some k else None)"
    using assms(1-3) key_tail(2) by (simp add: identify_store_def identify_lib_def key_excess_def)
  have q: "(if accepts_zero L then Some k else None) \<in> {None, Some k}" by simp
  have l: "learned_peer pid ps (if accepts_zero L then Some k else None) peer =
      (if accepts_zero L then peer\<lparr>peer_id := Some pid\<rparr> else peer)\<lparr>addr_head := learned_addrs ps peer\<rparr>" for peer
    by (simp add: learned_peer_def)
  show ?thesis using yam.identify_exchange(2) [OF assms(1,2)] yam.identify_exchange(3) [OF assms(1,2,4) d q, unfolded l] by blast
qed

theorem identify_round_trip_witness:
  "\<forall>z. \<exists>pid s' t'. libp2p_identify_send_response (wire_libs z) (yamux_io tcp_stream) (wire_store 36) (wire_stream []) = Some (True, s') \<and>
     libp2p_identify_receive (wire_libs z) wire_mem (yamux_io tcp_stream) no_peer (wire_stream (identify_message (wire_libs z) (wire_store 36))) =
       Some (Returns (True, \<lparr>peer_id = (if z then Some pid else None), addr_head = learned_addrs (wire_store 36) no_peer, addr_end = 0\<rparr>), t')"
proof
  fix z
  obtain pid where st: "identify_store (wire_libs z) (wire_key 36) pid (wire_store 36)" using wire_store_ok [of 36] by auto
  have len: "length (ps_public_key (wire_store 36)) < 128" using wire_store_key(2) [of 36] wire_varint_length(3) [of 36] by simp
  let ?msg = "identify_message (wire_libs z) (wire_store 36)"
  have "length ?msg < 65536" using yam.identify_exchange(1) [OF wire_lib_ok st] by simp
  note w = wire_stream_ok [OF this] wire_stream_ok [of "[]"]
  have "y_avail sk_rx (wire_stream ?msg) = ?msg @ []" using w(2) by simp
  note R = conjunct2 [OF identify_round_trip [OF wire_lib_ok st len wire_mem_ok], rule_format, OF w(1) this, of no_peer]
  have "tcp.y_ready (wire_stream [])" "y_room (\<lambda>_. True) (wire_stream []) 4106" using w(4,6) by simp_all
  note S = conjunct1 [OF identify_round_trip [OF wire_lib_ok st len wire_mem_ok], rule_format, OF this]
  have "(if accepts_zero (wire_libs z) then no_peer\<lparr>peer_id := Some pid\<rparr> else no_peer)\<lparr>addr_head := learned_addrs (wire_store 36) no_peer\<rparr> =
      \<lparr>peer_id = (if z then Some pid else None), addr_head = learned_addrs (wire_store 36) no_peer, addr_end = 0\<rparr>"
    by (simp add: no_peer_def)
  with R S show "\<exists>pid s' t'. libp2p_identify_send_response (wire_libs z) (yamux_io tcp_stream) (wire_store 36) (wire_stream []) = Some (True, s') \<and>
     libp2p_identify_receive (wire_libs z) wire_mem (yamux_io tcp_stream) no_peer (wire_stream ?msg) =
       Some (Returns (True, \<lparr>peer_id = (if z then Some pid else None), addr_head = learned_addrs (wire_store 36) no_peer, addr_end = 0\<rparr>), t')"
    by metis
qed

text \<open>C39. With a key of 128 bytes or more, every RSA key, one of the bytes behind the key that the receiver decodes lies behind the memory of the
  string, and what it happens to be decides what is learned. With a decoder that accepts a zero as the tag of a field 0 the peer id of the key is
  learned if that byte is zero too, and the peer keeps its old id if the decoder finds no tag there; with a decoder that refuses the zero the id is
  never learned. The call reports success in every case.\<close>

theorem identify_reads_behind_key:
  assumes "identify_lib L" and "identify_store L k pid ps" and "128 \<le> length (ps_public_key ps)" and "identify_mem_ok m"
  shows "\<forall>t r peer. tcp.y_ready t \<longrightarrow> y_avail sk_rx t = identify_message L ps @ r \<longrightarrow>
      (accepts_zero L \<and> im_behind m 0 = 0 \<longrightarrow>
        (\<exists>t'. libp2p_identify_receive L m (yamux_io tcp_stream) peer t =
          Some (Returns (True, peer\<lparr>peer_id := Some pid, addr_head := learned_addrs ps peer\<rparr>), t'))) \<and>
      (\<not> accepts_zero L \<or> protobuf_decode_field_and_type L [im_behind m 0] (of_nat (length (ps_public_key ps) + 2)) = None \<longrightarrow>
        (\<exists>t'. libp2p_identify_receive L m (yamux_io tcp_stream) peer t =
          Some (Returns (True, peer\<lparr>addr_head := learned_addrs ps peer\<rparr>), t')))"
proof -
  have T: "tags_ok L" "key_fields_ok L (ucast (pk_type k)) (pk_data k)"
      "libp2p_crypto_public_key_protobuf_encode L k (libp2p_crypto_public_key_protobuf_encode_size k) = (True, ps_public_key ps)"
    using assms(1,2) by (simp_all add: identify_store_def identify_lib_def)
  have d: "accepts_zero L \<Longrightarrow> im_behind m 0 = 0 \<Longrightarrow>
      libp2p_crypto_public_key_protobuf_decode L True (ps_public_key ps @ key_excess m ps) = Some (Some k)"
    "\<not> accepts_zero L \<or> protobuf_decode_field_and_type L [im_behind m 0] (of_nat (length (ps_public_key ps) + 2)) = None \<Longrightarrow>
      libp2p_crypto_public_key_protobuf_decode L True (ps_public_key ps @ key_excess m ps) = Some None"
    using key_tail(3) [OF T] key_tail(4) [OF T, of "im_behind m 0"] assms(3) by (simp_all add: key_excess_def)
  have l: "learned_peer pid ps (Some k) peer = peer\<lparr>peer_id := Some pid, addr_head := learned_addrs ps peer\<rparr>"
    "learned_peer pid ps None peer = peer\<lparr>addr_head := learned_addrs ps peer\<rparr>" for peer by (simp_all add: learned_peer_def)
  show ?thesis
    using yam.identify_exchange(3) [OF assms(1,2,4) d(1), unfolded l] yam.identify_exchange(3) [OF assms(1,2,4) d(2), unfolded l] by blast
qed

theorem identify_reads_behind_key_witness:
  "\<exists>pid t1 t2. let a = learned_addrs (wire_store 270) no_peer; s = wire_stream (identify_message wire_lib (wire_store 270)) in
     libp2p_identify_receive wire_lib (wire_mem\<lparr>im_behind := (\<lambda>_. 0)\<rparr>) (yamux_io tcp_stream) no_peer s =
       Some (Returns (True, \<lparr>peer_id = Some pid, addr_head = a, addr_end = 0\<rparr>), t1) \<and>
     libp2p_identify_receive wire_lib (wire_mem\<lparr>im_behind := (\<lambda>_. 0x80)\<rparr>) (yamux_io tcp_stream) no_peer s =
       Some (Returns (True, \<lparr>peer_id = None, addr_head = a, addr_end = 0\<rparr>), t2)"
proof -
  let ?msg = "identify_message wire_lib (wire_store 270)" and ?m = "\<lambda>b. wire_mem\<lparr>im_behind := (\<lambda>_. b)\<rparr>"
  obtain pid where st: "identify_store wire_lib (wire_key 270) pid (wire_store 270)" using wire_store_ok [of 270] by auto
  have len: "128 \<le> length (ps_public_key (wire_store 270))" using wire_store_key(2) [of 270] by simp
  have "length ?msg < 65536" using yam.identify_exchange(1) [OF wire_lib_ok st] by simp
  note w = wire_stream_ok [OF this]
  have a: "y_avail sk_rx (wire_stream ?msg) = ?msg @ []" using w(2) by simp
  have m: "identify_mem_ok (?m b)" for b using wire_mem_ok by (simp add: identify_mem_ok_def)
  have c: "accepts_zero wire_lib \<and> im_behind (?m 0) 0 = 0"
      "\<not> accepts_zero wire_lib \<or> protobuf_decode_field_and_type wire_lib [im_behind (?m 0x80) 0] n = None" for n
    unfolding wire_accepts by (simp_all add: wire_libs_def)
  have T: "\<exists>t'. libp2p_identify_receive wire_lib (?m 0) (yamux_io tcp_stream) no_peer (wire_stream ?msg) =
      Some (Returns (True, no_peer\<lparr>peer_id := Some pid, addr_head := learned_addrs (wire_store 270) no_peer\<rparr>), t')"
    "\<exists>t'. libp2p_identify_receive wire_lib (?m 0x80) (yamux_io tcp_stream) no_peer (wire_stream ?msg) =
      Some (Returns (True, no_peer\<lparr>addr_head := learned_addrs (wire_store 270) no_peer\<rparr>), t')"
    using identify_reads_behind_key [OF wire_lib_ok st len m, rule_format, OF w(1) a] c by blast+
  then show ?thesis unfolding Let_def no_peer_def by auto
qed

end
