(* ===== verification/Swarm_Theorems.thy ===== *)
theory Swarm_Theorems
  imports Swarm_V2 Stack_V2 Identify_Theorems
begin

text \<open>
  A connection from the address to the identity of the peer: dialing, the multistream header, the Noise handshake, a yamux
  session, a stream on it and the identify exchange, each over the one before.
\<close>

section \<open>The identify exchange over yamux over any stream\<close>

lemma framed_syn: "framed (encode_header (update_header fl sid 0))"
proof -
  have "wf_frame (update_header fl sid 0, [])" by (simp add: wf_frame_def frame_types)
  then show ?thesis unfolding framed_def by (intro exI [of _ "[(update_header fl sid 0, [])]"]) (simp add: wire_def)
qed

context v2_packet
begin

lemma swarm_identify_live:
  assumes "identify_lib L" and "identify_store L k pid ps" and "identify_store L k' pid' ps'" and "identify_mem_ok m"
    and "libp2p_crypto_public_key_protobuf_decode L True (ps_public_key ps' @ key_excess m ps') = Some q" and "q \<in> {None, Some k'}"
    and "healthy ss (encode_header (update_header YAMUX_FLAG_ACK (next_stream_id ss) 0) @ concat (map wire fs)) []"
    and "kind_peer (new_ctx (next_stream_id ss) True) fs" and "data_in (next_stream_id ss) fs = identify_message L ps' @ r" and "fits 4106"
  shows "\<exists>ss'. swarm_identify L m io ps peer ss = Some (Returns (learned_peer pid' ps' q peer), ss')"
proof -
  let ?sid = "next_stream_id ss" and ?cx = "new_ctx (next_stream_id ss) True"
  obtain ss1 where o: "libp2p_yamux_stream_open io ss = Some (Some ?cx, ss1)" and h: "healthy ss1 (concat (map wire fs)) (encode_header (update_header YAMUX_FLAG_SYN ?sid 0))"
    using stream_open_live [OF assms(7)] by (auto simp: new_ctx_def)
  have wf: "\<forall>f \<in> set fs. wf_frame f" using assms(8) by (simp add: kind_peer_def)
  have rd: "y_ready (?cx, ss1)" unfolding y_ready_def prod.case
    by (intro exI [of _ fs] exI [of _ "encode_header (update_header YAMUX_FLAG_SYN ?sid 0)"] conjI h assms(8) framed_syn) simp_all
  have room: "y_room fits (?cx, ss1) 4106" using assms(10) by (simp add: y_room_def YAMUX_MAX_PAYLOAD_def YAMUX_INITIAL_WINDOW_SIZE_def)
  have av: "y_avail avail (?cx, ss1) = identify_message L ps' @ r" using healthy_wire [OF h] wf assms(9) by (simp add: y_avail_def)
  note E = v2_live.identify_exchange [OF yamux_stream_contract assms(1)]
  obtain s2 where s2: "libp2p_identify_send_response L (yamux_io io) ps (?cx, ss1) = Some (True, s2)"
      "y_avail avail s2 = identify_message L ps' @ r" "y_ready s2"
    using E(2) [OF assms(2) rd room] av by auto
  obtain s3 where "libp2p_identify_receive L m (yamux_io io) peer s2 = Some (Returns (True, learned_peer pid' ps' q peer), s3)"
    using E(3) [OF assms(3,4,5,6) s2(3,2)] by blast
  with o s2(1) show ?thesis by (simp add: swarm_identify_def)
qed

end

section \<open>The whole connection\<close>

definition swarm_mem_ok :: "'s swarm_env \<Rightarrow> bool" where
  "swarm_mem_ok ev \<longleftrightarrow> se_addr ev \<and> se_header ev \<and> se_proposal ev \<and> se_callbacks ev \<and> se_session ev \<and> se_frames ev \<and> (\<forall>k. se_allocs ev k) \<and>
     identify_mem_ok (se_identify ev)"

definition noise_proposal :: bytes where
  "noise_proposal = frame MULTISTREAM_MSG_HEADER @ frame (bstr ''/noise'' @ [10])"

text \<open>The two negotiations in front of the handshake.\<close>

lemma swarm_negotiates:
  assumes "tcp_unsplit i" and "sk_rx i = noise_proposal @ a"
  shows "\<exists>s1 s2. libp2p_v2_net_multistream_connect tcp_stream True i = Some (True, s1) \<and>
    libp2p_net_multistream_negotiate_protocol tcp_stream True (Some (bstr ''/noise'')) s1 = Some (True, s2) \<and>
    tcp_unsplit s2 \<and> sk_rx s2 = a \<and> sk_tx s2 = sk_tx i @ noise_proposal"
proof -
  let ?P = "bstr ''/noise'' :: bytes"
  have p: "0 \<notin> set ?P" "length ?P = 6" by (simp_all add: bstr_def)
  obtain s1 where s1: "libp2p_v2_net_multistream_connect tcp_stream True i = Some (True, s1)" "sk_rx s1 = frame (?P @ [10]) @ a"
      "sk_tx s1 = sk_tx i @ frame MULTISTREAM_MSG_HEADER" "tcp_unsplit s1"
    using tcpu.connect_live [OF assms(1) TrueI le_refl, of MULTISTREAM_MSG_HEADER "frame (?P @ [10]) @ a"] assms(2)
    by (auto simp: noise_proposal_def)
  have "length (?P @ [10]) < 256" "length ?P \<le> 254" using p(2) by simp_all
  with tcpu.negotiate_live [OF s1(4) TrueI p(1) _ le_refl s1(2)] p(1) obtain s2 where
    "libp2p_net_multistream_negotiate_protocol tcp_stream True (Some ?P) s1 = Some (True, s2)" "sk_rx s2 = a"
    "sk_tx s2 = sk_tx s1 @ frame (?P @ [10])" "tcp_unsplit s2" by auto
  with s1 show ?thesis by (auto simp: noise_proposal_def)
qed

text \<open>The session on a fresh channel, and the exchange on it.\<close>

lemma swarm_session:
  assumes "aead_ok L" and "noise_linked ci cr" and "tcp_unsplit (raw_stream ci)" and "sk_rx (raw_stream ci) = noise_wire L (write_key cr) 0 ps"
    and "\<forall>p \<in> set ps. plain_ok p" and "concat ps = encode_header (update_header YAMUX_FLAG_ACK 1 0) @ concat (map wire fs)"
    and "kind_peer (new_ctx 1 True) fs" and "data_in 1 fs = identify_message L ps' @ rest" and "\<forall>k. allocs k"
    and "identify_lib L" and "identify_store L k pid own" and "identify_store L k' pid' ps'" and "identify_mem_ok m"
    and "libp2p_crypto_public_key_protobuf_decode L True (ps_public_key ps' @ key_excess m ps') = Some q" and "q \<in> {None, Some k'}"
  shows "\<exists>ss ss'. libp2p_yamux_session_new ci False True allocs = Some ss \<and>
    swarm_identify L m (noise_io L True tcp_stream) own peer ss = Some (Returns (learned_peer pid' ps' q peer), ss')"
proof -
  obtain ss where ss: "libp2p_yamux_session_new ci False True allocs = Some ss" "ys_stream ss = ci" "next_stream_id ss = 1" "\<not> ys_closed ss"
      "pending_inbound ss = []" "ys_mem ss = allocs" by (simp add: libp2p_yamux_session_new_def)
  have "noise_session L ss (concat ps)" unfolding noise_session_def Let_def
    using assms(2-5,9) ss by (auto simp: noise_linked_def)
  note H = noise_session_healthy(1) [OF assms(1) this, unfolded assms(6)]
  have h: "v2_packet.healthy (nz_avail L sk_rx) (nz_sent L sk_tx (length (sk_tx (raw_stream (ys_stream ss))))) (tcpu.nz_ready L (length (sk_tx (raw_stream (ys_stream ss))))) ss
      (encode_header (update_header YAMUX_FLAG_ACK (next_stream_id ss) 0) @ concat (map wire fs)) []" using H ss(3) by simp
  have f: "kind_peer (new_ctx (next_stream_id ss) True) fs" "data_in (next_stream_id ss) fs = identify_message L ps' @ rest" "(4106 :: nat) \<le> 65519"
    using assms(7,8) ss(3) by simp_all
  from v2_packet.swarm_identify_live [OF tcpu.noise_stream_contract [OF assms(1) TrueI] assms(10-15) h f] ss(1) show ?thesis by blast
qed

text \<open>What the layers above TCP do decides what \<open>libp2p_v2_swarm_connect\<close> does.\<close>

lemma swarm_connect_runs:
  assumes "swarm_mem_ok ev" and "libp2p_multiaddr_new_from_string True str \<noteq> None" and "\<not> strstr str (bstr ''/ws'')"
    and "tcp_unsplit i" and "sk_rx i = noise_proposal @ a"
    and "\<And>s. tcp_unsplit s \<Longrightarrow> sk_rx s = a \<Longrightarrow> \<exists>ci ss ss'.
      libp2p_noise_handshake_raw L tcp_stream (se_noise ev) (sw_private_key sw) (Some \<lparr>np_id = None, np_id_size = 0\<rparr>)
        (Some (libp2p_noise_identity_callbacks_init L True)) s = Some (Returns ci, np, raw_stream ci) \<and>
      libp2p_yamux_session_new ci False True (se_allocs ev) = Some ss \<and>
      swarm_identify L (se_identify ev) (noise_io L True tcp_stream) (sw_peerstore sw) (target_view np) ss = Some (Returns peer, ss')"
  shows "\<exists>st. libp2p_v2_swarm_connect L (ev\<lparr>se_tcp_dial := (\<lambda>ip port. Some (tcp_stream, i))\<rparr>) sw str = Some (Returns True, peer, Some st)"
proof -
  obtain ma where ma: "libp2p_multiaddr_new_from_string True str = Some ma" using assms(2) by blast
  then obtain ip where ip: "ma_ip ma = Some ip" by (auto simp: libp2p_multiaddr_new_from_string_def Let_def split: if_splits)
  obtain s1 s2 where N: "libp2p_v2_net_multistream_connect tcp_stream True i = Some (True, s1)"
      "libp2p_net_multistream_negotiate_protocol tcp_stream True (Some (bstr ''/noise'')) s1 = Some (True, s2)" "tcp_unsplit s2" "sk_rx s2 = a"
    using swarm_negotiates [OF assms(4,5)] by blast
  with assms(6) [OF N(3,4)] assms(1,3) ma ip show ?thesis
    by (auto simp: libp2p_v2_swarm_connect_def libp2p_noise_handshake_def swarm_mem_ok_def)
qed

text \<open>C6. Connecting to a peer that follows the protocols succeeds and learns who it is. The setting: memory is available, the address parses and is not one
  of a WebSocket, TCP does not split the two bytes of a Noise header, the AEAD, hash, Diffie-Hellman and protobuf functions are correct, the identities of
  both ends pass each other's checks, and the encoded key of the peer has fewer than 128 bytes, so that it is not an RSA key (C39 has those). Then there are
  the bytes \<open>wI\<close> and \<open>wR\<close> of the handshake such that a peer that has read \<open>wI\<close> has completed its side, and, on any socket the dialer opens, if the peer
  answers the multistream header and the proposal of Noise, sends its side of the handshake and then, in Noise frames cut in any way under the key that its
  side of the handshake gives it, the acknowledgement of the first stream and its identify message in yamux frames cut and mixed in any way, then
  \<open>libp2p_v2_swarm_connect\<close> returns success with the addresses of the peer and, if the protobuf decoder accepts the zero behind the key as a tag (C38), with
  its id in place of what the handshake left. The addresses stand in front of what the handshake left as the head of their list: if Noise set the id, that is
  its length, taken for a pointer.\<close>

theorem swarm_connect_completes:
  assumes "noise_meets L (se_noise ev) evR eI sI eR sR"
    and "noise_check_identity L (se_noise ev) (Some (libp2p_noise_identity_callbacks_init L True)) (snd sR) (noise_identity_payload L cbR kR (snd sR))
      (Some \<lparr>np_id = None, np_id_size = 0\<rparr>) = Some (Returns np)"
    and "noise_check_identity L evR cbR (snd sI)
      (noise_identity_payload L (Some (libp2p_noise_identity_callbacks_init L True)) (sw_private_key sw) (snd sI)) pR = Some (Returns pR')"
    and "swarm_mem_ok ev" and "identify_lib L" and "identify_store L k pid (sw_peerstore sw)" and "identify_store L k' pid' ps'"
    and "length (ps_public_key ps') < 128" and "libp2p_multiaddr_new_from_string True str \<noteq> None" and "\<not> strstr str (bstr ''/ws'')"
  shows "\<exists>wI wR. \<forall>r. tcp_unsplit r \<longrightarrow> sk_rx r = wI \<longrightarrow>
    (\<exists>cr. libp2p_noise_handshake_responder_raw L tcp_stream evR kR pR cbR r = Some (Returns cr, pR', raw_stream cr) \<and>
      (\<forall>i ps fs rest. tcp_unsplit i \<longrightarrow> (\<forall>p \<in> set ps. plain_ok p) \<longrightarrow> concat ps = encode_header (update_header YAMUX_FLAG_ACK 1 0) @ concat (map wire fs) \<longrightarrow>
        kind_peer (new_ctx 1 True) fs \<longrightarrow> data_in 1 fs = identify_message L ps' @ rest \<longrightarrow>
        sk_rx i = noise_proposal @ wR @ noise_wire L (write_key cr) 0 ps \<longrightarrow>
        (\<exists>st. libp2p_v2_swarm_connect L (ev\<lparr>se_tcp_dial := (\<lambda>ip port. Some (tcp_stream, i))\<rparr>) sw str =
          Some (Returns True, (if accepts_zero L then (target_view np)\<lparr>peer_id := Some pid'\<rparr> else target_view np)\<lparr>addr_head := learned_addrs ps' (target_view np)\<rparr>, Some st))))"
proof -
  let ?cb = "Some (libp2p_noise_identity_callbacks_init L True)" and ?no = "Some \<lparr>np_id = None, np_id_size = 0\<rparr>"
    and ?peer = "(if accepts_zero L then (target_view np)\<lparr>peer_id := Some pid'\<rparr> else target_view np)\<lparr>addr_head := learned_addrs ps' (target_view np)\<rparr>"
  let ?est = "noise_established L (se_noise ev) evR (sw_private_key sw) kR ?cb cbR ?no pR np pR'"
  have aead: "aead_ok L" using assms(1) by (simp add: noise_meets_def)
  have M: "\<forall>k. se_allocs ev k" "identify_mem_ok (se_identify ev)"
    using assms(4) by (simp_all add: swarm_mem_ok_def)
  have q: "libp2p_crypto_public_key_protobuf_decode L True (ps_public_key ps' @ key_excess (se_identify ev) ps') =
      Some (if accepts_zero L then Some k' else None)"
    using assms(5,7,8) key_tail(2) by (simp add: identify_store_def identify_lib_def key_excess_def)
  obtain wI wR where W: "\<forall>i r aI aR. tcp_unsplit i \<longrightarrow> tcp_unsplit r \<longrightarrow> sk_rx i = wR @ aI \<longrightarrow> sk_rx r = wI @ aR \<longrightarrow> ?est i r wI wR aI aR"
    using tcp_handshake [OF assms(1-3)] by blast
  have "\<exists>cr. libp2p_noise_handshake_responder_raw L tcp_stream evR kR pR cbR r = Some (Returns cr, pR', raw_stream cr) \<and>
      (\<forall>i ps fs rest. tcp_unsplit i \<longrightarrow> (\<forall>p \<in> set ps. plain_ok p) \<longrightarrow> concat ps = encode_header (update_header YAMUX_FLAG_ACK 1 0) @ concat (map wire fs) \<longrightarrow>
        kind_peer (new_ctx 1 True) fs \<longrightarrow> data_in 1 fs = identify_message L ps' @ rest \<longrightarrow>
        sk_rx i = noise_proposal @ wR @ noise_wire L (write_key cr) 0 ps \<longrightarrow>
        (\<exists>st. libp2p_v2_swarm_connect L (ev\<lparr>se_tcp_dial := (\<lambda>ip port. Some (tcp_stream, i))\<rparr>) sw str =
          Some (Returns True, ?peer, Some st)))"
    if r: "tcp_unsplit r" "sk_rx r = wI" for r
  proof -
    have "tcp_unsplit (r\<lparr>sk_rx := wR\<rparr>)" using r(1) by (simp add: tcp_unsplit_def tcp_ready_def)
    then have "?est (r\<lparr>sk_rx := wR\<rparr>) r wI wR [] []" using W r by simp
    then obtain cr where cr: "libp2p_noise_handshake_responder_raw L tcp_stream evR kR pR cbR r = Some (Returns cr, pR', raw_stream cr)"
      by (auto simp: noise_established_def)
    have "\<exists>st. libp2p_v2_swarm_connect L (ev\<lparr>se_tcp_dial := (\<lambda>ip port. Some (tcp_stream, i))\<rparr>) sw str =
          Some (Returns True, ?peer, Some st)"
      if i: "tcp_unsplit i" and P: "\<forall>p \<in> set ps. plain_ok p" "concat ps = encode_header (update_header YAMUX_FLAG_ACK 1 0) @ concat (map wire fs)"
        "kind_peer (new_ctx 1 True) fs" "data_in 1 fs = identify_message L ps' @ rest" and rx: "sk_rx i = noise_proposal @ wR @ noise_wire L (write_key cr) 0 ps"
      for i ps fs rest
    proof (rule swarm_connect_runs [OF assms(4,9,10) i rx])
      fix s assume "tcp_unsplit s" "sk_rx s = wR @ noise_wire L (write_key cr) 0 ps"
      then have "?est s r wI wR (noise_wire L (write_key cr) 0 ps) []" using W r by simp
      then obtain ci where ci: "libp2p_noise_handshake_raw L tcp_stream (se_noise ev) (sw_private_key sw) ?no ?cb s = Some (Returns ci, np, raw_stream ci)"
          "noise_linked ci cr" "tcp_unsplit (raw_stream ci)" "sk_rx (raw_stream ci) = noise_wire L (write_key cr) 0 ps"
        using cr by (auto simp: noise_established_def)
      have l: "learned_peer pid' ps' (if accepts_zero L then Some k' else None) (target_view np) = ?peer" by (simp add: learned_peer_def)
      have "(if accepts_zero L then Some k' else None) \<in> {None, Some k'}" by simp
      from swarm_session [OF aead ci(2-4) P M(1) assms(5,6,7) M(2) q this, of "target_view np"] ci(1)
      show "\<exists>ci ss ss'. libp2p_noise_handshake_raw L tcp_stream (se_noise ev) (sw_private_key sw) ?no ?cb s = Some (Returns ci, np, raw_stream ci) \<and>
        libp2p_yamux_session_new ci False True (se_allocs ev) = Some ss \<and>
        swarm_identify L (se_identify ev) (noise_io L True tcp_stream) (sw_peerstore sw) (target_view np) ss =
          Some (Returns ?peer, ss')" unfolding l by blast
    qed
    with cr show ?thesis by blast
  qed
  then show ?thesis by blast
qed

text \<open>A node and a peer without identities in the handshake, with keys of 36 bytes.\<close>

definition sample_swarm :: swarm where
  "sample_swarm = \<lparr>sw_peerstore = wire_store 36, sw_private_key = None, sw_dialer = None\<rparr>"

definition sample_swarm_env :: "tcp_sock swarm_env" where
  "sample_swarm_env = \<lparr>se_addr = True, se_header = True, se_proposal = True, se_noise = sample_env, se_callbacks = True, se_session = True, se_frames = True,
     se_allocs = (\<lambda>_. True), se_identify = wire_mem, se_tcp_dial = (\<lambda>_ _. None), se_ws_dial = (\<lambda>_ _. None)\<rparr>"

lemma wire_meets:
  "noise_meets wire_lib sample_env sample_env (replicate 32 1, replicate 32 2) (replicate 32 4, replicate 32 5)
     (replicate 32 1, replicate 32 2) (replicate 32 4, replicate 32 5)"
proof -
  have "encoder_bounded wire_lib" by (auto simp: encoder_bounded_def wire_libs_def Let_def split: if_splits)
  moreover have "aead_ok wire_lib" "hash_ok wire_lib" using sample_lib_ok by (simp_all add: wire_libs_def aead_ok_def hash_ok_def)
  ultimately show ?thesis using sample_meets by (simp add: noise_meets_def) (simp add: wire_libs_def dh_agrees_def)
qed

lemma sample_swarm_meets:
  "noise_meets wire_lib (se_noise sample_swarm_env) sample_env (replicate 32 1, replicate 32 2) (replicate 32 4, replicate 32 5)
     (replicate 32 1, replicate 32 2) (replicate 32 4, replicate 32 5)"
  using wire_meets by (simp add: sample_swarm_env_def)

lemma sample_swarm_checks:
  "noise_check_identity wire_lib (se_noise sample_swarm_env) (Some (libp2p_noise_identity_callbacks_init wire_lib True)) (snd (replicate 32 4, replicate 32 5))
     (noise_identity_payload wire_lib None () (snd (replicate 32 4, replicate 32 5))) (Some \<lparr>np_id = None, np_id_size = 0\<rparr>) =
     Some (Returns (Some \<lparr>np_id = None, np_id_size = 0\<rparr>))"
  "noise_check_identity wire_lib sample_env None (snd (replicate 32 4, replicate 32 5)) p None = Some (Returns None)"
  by (simp_all add: check_identity_empty) (simp add: noise_check_identity_def)

lemma sample_swarm_mem: "swarm_mem_ok sample_swarm_env"
  using wire_mem_ok by (simp add: swarm_mem_ok_def sample_swarm_env_def)

lemma sample_swarm_addr:
  "libp2p_multiaddr_new_from_string True (bstr ''/ip4/1.2.3.4/tcp/4001'') \<noteq> None" "\<not> strstr (bstr ''/ip4/1.2.3.4/tcp/4001'') (bstr ''/ws'')"
  by code_simp+

theorem swarm_connect_completes_witness:
  "\<exists>i pid st. libp2p_v2_swarm_connect wire_lib (sample_swarm_env\<lparr>se_tcp_dial := (\<lambda>ip port. Some (tcp_stream, i))\<rparr>) sample_swarm (bstr ''/ip4/1.2.3.4/tcp/4001'') =
     Some (Returns True, \<lparr>peer_id = Some pid, addr_head = learned_addrs (wire_store 36) no_peer, addr_end = 0\<rparr>, Some st)"
proof -
  let ?no = "\<lparr>np_id = None, np_id_size = 0\<rparr> :: noise_peer" and ?a = "bstr ''/ip4/1.2.3.4/tcp/4001''"
  obtain pid where st: "identify_store wire_lib (wire_key 36) pid (wire_store 36)" using wire_store_ok [of 36] by auto
  have len: "length (ps_public_key (wire_store 36)) < 128" using wire_store_key(2) [of 36] wire_varint_length(3) [of 36] by simp
  have own: "identify_store wire_lib (wire_key 36) pid (sw_peerstore sample_swarm)" using st by (simp add: sample_swarm_def)
  from swarm_connect_completes [OF sample_swarm_meets sample_swarm_checks sample_swarm_mem wire_lib_ok own st len sample_swarm_addr] obtain wI wR where
    W: "\<forall>r. tcp_unsplit r \<longrightarrow> sk_rx r = wI \<longrightarrow>
    (\<exists>cr. libp2p_noise_handshake_responder_raw wire_lib tcp_stream sample_env () None None r = Some (Returns cr, None, raw_stream cr) \<and>
      (\<forall>i ps fs rest. tcp_unsplit i \<longrightarrow> (\<forall>p \<in> set ps. plain_ok p) \<longrightarrow> concat ps = encode_header (update_header YAMUX_FLAG_ACK 1 0) @ concat (map wire fs) \<longrightarrow>
        kind_peer (new_ctx 1 True) fs \<longrightarrow> data_in 1 fs = identify_message wire_lib (wire_store 36) @ rest \<longrightarrow>
        sk_rx i = noise_proposal @ wR @ noise_wire wire_lib (write_key cr) 0 ps \<longrightarrow>
        (\<exists>st. libp2p_v2_swarm_connect wire_lib (sample_swarm_env\<lparr>se_tcp_dial := (\<lambda>ip port. Some (tcp_stream, i))\<rparr>) sample_swarm ?a =
          Some (Returns True, (if accepts_zero wire_lib then (target_view (Some ?no))\<lparr>peer_id := Some pid\<rparr> else target_view (Some ?no))\<lparr>addr_head := learned_addrs (wire_store 36) (target_view (Some ?no))\<rparr>, Some st))))"
    by (elim exE)
  let ?msg = "identify_message wire_lib (wire_store 36)" and ?ack = "encode_header (update_header YAMUX_FLAG_ACK 1 0)"
  let ?fs = "[(data_header 1 0 (length ?msg), ?msg)]"
  have ml: "length ?msg \<le> 4106" using yam.identify_exchange(1) [OF wire_lib_ok st] .
  then have wf: "wf_frame (data_header 1 0 (length ?msg), ?msg)" by (intro own_data_frame(1)) simp_all
  have k: "kind_peer (new_ctx 1 True) ?fs" using wf by (auto simp: kind_peer_def frame_types YAMUX_INITIAL_WINDOW_SIZE_def has_flag_def)
  have p: "\<forall>p \<in> set [?ack, wire (data_header 1 0 (length ?msg), ?msg)]. plain_ok p"
    using ml by (simp add: plain_ok_def wire_def encode_header_def net16_def net32_def)
  have d: "data_in 1 ?fs = ?msg @ []" by (simp add: is_data_def frame_types)
  obtain cr :: "tcp_sock noise_ctx" where cr: "\<forall>i ps fs rest. tcp_unsplit i \<longrightarrow> (\<forall>p \<in> set ps. plain_ok p) \<longrightarrow> concat ps = ?ack @ concat (map wire fs) \<longrightarrow>
        kind_peer (new_ctx 1 True) fs \<longrightarrow> data_in 1 fs = ?msg @ rest \<longrightarrow> sk_rx i = noise_proposal @ wR @ noise_wire wire_lib (write_key cr) 0 ps \<longrightarrow>
        (\<exists>st. libp2p_v2_swarm_connect wire_lib (sample_swarm_env\<lparr>se_tcp_dial := (\<lambda>ip port. Some (tcp_stream, i))\<rparr>) sample_swarm ?a =
          Some (Returns True, (if accepts_zero wire_lib then (target_view (Some ?no))\<lparr>peer_id := Some pid\<rparr> else target_view (Some ?no))\<lparr>addr_head := learned_addrs (wire_store 36) (target_view (Some ?no))\<rparr>, Some st))"
    using W [rule_format, OF whole_sock_simps(1,2)] by blast
  have "(if accepts_zero wire_lib then (target_view (Some ?no))\<lparr>peer_id := Some pid\<rparr> else target_view (Some ?no))\<lparr>addr_head := learned_addrs (wire_store 36) (target_view (Some ?no))\<rparr> =
      \<lparr>peer_id = Some pid, addr_head = learned_addrs (wire_store 36) no_peer, addr_end = 0\<rparr>" by (simp add: target_view_def no_peer_def)
  moreover have "concat [?ack, wire (data_header 1 0 (length ?msg), ?msg)] = ?ack @ concat (map wire ?fs)" by simp
  note cr [THEN spec, THEN spec, THEN spec, THEN spec, THEN mp, OF whole_sock_simps(1), THEN mp, OF p, THEN mp, OF this,
    THEN mp, OF k, THEN mp, OF d, THEN mp, OF whole_sock_simps(2)]
  ultimately show ?thesis by metis
qed

section \<open>A peer that hangs up\<close>

lemma noise_read_end:
  assumes "aead_ok L" and "tcpu.nz_ready L k c" and "nz_avail L sk_rx c = []"
  shows "\<exists>c'. noise_stream_read L tcp_stream True c n = Some (None, c')"
proof -
  obtain ps where ps: "\<forall>p \<in> set ps. plain_ok p" "sk_rx (raw_stream c) = noise_wire L (read_key c) (read_nonce c) ps" "length (read_key c) = 32"
      "tcp_unsplit (raw_stream c)" "nz_buf_ok c"
    using assms(2) unfolding tcpu.nz_ready_def by blast
  have e: "nz_pending c = []" "concat ps = []" using assms(1,3) ps by (simp_all add: nz_avail_def)
  then have "ps = []" using ps(1) by (cases ps) (auto simp: plain_ok_def)
  then have "sk_rx (raw_stream c) = []" using ps(2) by simp
  then have "\<exists>s1. v2_read tcp_stream (raw_stream c) 2 = Some (Some [], s1)"
    using ps(4) by (auto simp: tcp_stream_def tcp_stream_read_def sock_recv_def tcp_unsplit_def tcp_ready_def Let_def split: option.split)
  then show ?thesis using e(1) nz_pending_Nil [OF ps(5)] by (auto simp: noise_stream_read_def)
qed

lemma swarm_identify_end:
  assumes "aead_ok L" and "noise_session L ss []"
  shows "\<exists>ss'. swarm_identify L m (noise_io L True tcp_stream) own peer ss = Some (Returns peer, ss')"
proof -
  let ?k = "length (sk_tx (raw_stream (ys_stream ss)))" and ?io = "noise_io L True tcp_stream"
  note C = tcpu.noise_stream_contract [OF assms(1) TrueI, of ?k]
  let ?s2 = "(snd (ys_alloc ss))\<lparr>next_stream_id := next_stream_id ss + 2\<rparr>"
  let ?s3 = "snd (ys_alloc ?s2)"
  have w: "v2_packet.at_wire (nz_avail L sk_rx) (nz_sent L sk_tx ?k) (tcpu.nz_ready L ?k) (ys_stream ?s3) [] []"
    using noise_session_healthy(2) [OF assms] by (simp add: ys_alloc_def)
  obtain st where st: "yamux_send_header ?io YAMUX_TYPE_WINDOW_UPDATE YAMUX_FLAG_SYN (next_stream_id ss) 0 ?s3 = Some (True, ?s3\<lparr>ys_stream := st\<rparr>)"
      "tcpu.nz_ready L ?k st" "nz_avail L sk_rx st = []"
    using v2_packet.send_header_live [OF C w] by (fastforce simp: v2_packet.at_wire_def [OF C])
  obtain c' where "noise_stream_read L tcp_stream True st 12 = Some (None, c')" using noise_read_end [OF assms(1) st(2,3)] by blast
  then have "yamux_read_header ?io (?s3\<lparr>ys_stream := st\<rparr>) = Some (None, ?s3\<lparr>ys_stream := c'\<rparr>)"
    by (simp add: yamux_read_header_def yamux_read_full_def read_loop.simps [of _ 12])
  then have "yamux_open_loop ?io (new_ctx (next_stream_id ss) False) (?s3\<lparr>ys_stream := st\<rparr>) = Some (None, ?s3\<lparr>ys_stream := c'\<rparr>)"
    by (subst yamux_open_loop.simps) simp
  then have "libp2p_yamux_stream_open ?io ss = Some (None, ?s3\<lparr>ys_stream := c'\<rparr>)"
    using st(1) assms(2) by (simp add: libp2p_yamux_stream_open_def ys_alloc_def Let_def new_ctx_def noise_session_def)
  then show ?thesis by (simp add: swarm_identify_def)
qed

text \<open>C40. \<open>libp2p_v2_swarm_connect\<close> reports success for a connection that is already gone: if the peer answers the negotiation, completes the handshake
  and hangs up, no stream can be opened and nothing is learned beyond the handshake, but the result is 1.\<close>

theorem swarm_connect_to_nobody:
  assumes "noise_meets L (se_noise ev) evR eI sI eR sR"
    and "noise_check_identity L (se_noise ev) (Some (libp2p_noise_identity_callbacks_init L True)) (snd sR) (noise_identity_payload L cbR kR (snd sR))
      (Some \<lparr>np_id = None, np_id_size = 0\<rparr>) = Some (Returns np)"
    and "noise_check_identity L evR cbR (snd sI)
      (noise_identity_payload L (Some (libp2p_noise_identity_callbacks_init L True)) (sw_private_key sw) (snd sI)) pR = Some (Returns pR')"
    and "swarm_mem_ok ev" and "libp2p_multiaddr_new_from_string True str \<noteq> None" and "\<not> strstr str (bstr ''/ws'')"
  shows "\<exists>wR. \<forall>i. tcp_unsplit i \<longrightarrow> sk_rx i = noise_proposal @ wR \<longrightarrow>
    (\<exists>st. libp2p_v2_swarm_connect L (ev\<lparr>se_tcp_dial := (\<lambda>ip port. Some (tcp_stream, i))\<rparr>) sw str = Some (Returns True, target_view np, Some st))"
proof -
  let ?cb = "Some (libp2p_noise_identity_callbacks_init L True)" and ?no = "Some \<lparr>np_id = None, np_id_size = 0\<rparr>"
  let ?est = "noise_established L (se_noise ev) evR (sw_private_key sw) kR ?cb cbR ?no pR np pR'"
  have aead: "aead_ok L" using assms(1) by (simp add: noise_meets_def)
  obtain wI wR where W: "\<forall>i r aI aR. tcp_unsplit i \<longrightarrow> tcp_unsplit r \<longrightarrow> sk_rx i = wR @ aI \<longrightarrow> sk_rx r = wI @ aR \<longrightarrow> ?est i r wI wR aI aR"
    using tcp_handshake [OF assms(1-3)] by blast
  have "\<exists>st. libp2p_v2_swarm_connect L (ev\<lparr>se_tcp_dial := (\<lambda>ip port. Some (tcp_stream, i))\<rparr>) sw str = Some (Returns True, target_view np, Some st)"
    if i: "tcp_unsplit i" "sk_rx i = noise_proposal @ wR" for i
  proof (rule swarm_connect_runs [OF assms(4-6) i])
    fix s assume s: "tcp_unsplit s" "sk_rx s = wR"
    then have "tcp_unsplit (s\<lparr>sk_rx := wI\<rparr>)" by (simp add: tcp_unsplit_def tcp_ready_def)
    then have "?est s (s\<lparr>sk_rx := wI\<rparr>) wI wR [] []" using W s by simp
    then obtain ci and cr :: "tcp_sock noise_ctx" where ci: "libp2p_noise_handshake_raw L tcp_stream (se_noise ev) (sw_private_key sw) ?no ?cb s = Some (Returns ci, np, raw_stream ci)"
        "noise_linked ci cr" "tcp_unsplit (raw_stream ci)" "sk_rx (raw_stream ci) = []"
      unfolding noise_established_def by blast
    obtain ss where ss: "libp2p_yamux_session_new ci False True (se_allocs ev) = Some ss" "ys_stream ss = ci" "\<not> ys_closed ss"
        "pending_inbound ss = []" "ys_mem ss = se_allocs ev" by (simp add: libp2p_yamux_session_new_def)
    have "noise_session L ss []" unfolding noise_session_def Let_def
      using ci(2-4) ss assms(4) by (auto simp: noise_linked_def swarm_mem_ok_def intro: exI [of _ "[]"])
    from swarm_identify_end [OF aead this] ci(1) ss(1)
    show "\<exists>ci ss ss'. libp2p_noise_handshake_raw L tcp_stream (se_noise ev) (sw_private_key sw) ?no ?cb s = Some (Returns ci, np, raw_stream ci) \<and>
      libp2p_yamux_session_new ci False True (se_allocs ev) = Some ss \<and>
      swarm_identify L (se_identify ev) (noise_io L True tcp_stream) (sw_peerstore sw) (target_view np) ss = Some (Returns (target_view np), ss')" by blast
  qed
  then show ?thesis by blast
qed

theorem swarm_connect_to_nobody_witness:
  "\<exists>i st. libp2p_v2_swarm_connect wire_lib (sample_swarm_env\<lparr>se_tcp_dial := (\<lambda>ip port. Some (tcp_stream, i))\<rparr>) sample_swarm (bstr ''/ip4/1.2.3.4/tcp/4001'') =
     Some (Returns True, target_view None, Some st)"
proof -
  have "target_view (Some \<lparr>np_id = None, np_id_size = 0\<rparr>) = target_view None" by (simp add: target_view_def)
  then show ?thesis
    using swarm_connect_to_nobody [OF sample_swarm_meets sample_swarm_checks sample_swarm_mem sample_swarm_addr] whole_sock_simps(1,2) by metis
qed

end
