(* ===== verification/Peerstore_Theorems.thy ===== *)
theory Peerstore_Theorems
  imports Peerstore_V2
begin

text \<open>
  What the peer store and the address parser guarantee.
\<close>

section \<open>The peer store as a machine\<close>

text \<open>What clients do: allocate a peer, add a peer they have, add an address.\<close>

inductive ps_step :: "peer_heap \<times> peerstore \<Rightarrow> peer_heap \<times> peerstore \<Rightarrow> bool" where
  ps_alloc: "a \<notin> dom hp \<Longrightarrow> ps_step (hp, ps) (hp(a \<mapsto> q), ps)"
| ps_add_peer: "a \<in> dom hp \<Longrightarrow> libp2p_v2_peerstore_add_peer mem hp (Some a) ps = (ok, ps') \<Longrightarrow> ps_step (hp, ps) (hp, ps')"
| ps_add_address: "fresh \<notin> dom hp \<Longrightarrow> libp2p_v2_peerstore_add_address amem fresh pid ma (hp, ps) = (ok, hp', ps') \<Longrightarrow>
    ps_step (hp, ps) (hp', ps')"

definition ps_start :: "peer_heap \<times> peerstore \<Rightarrow> bool" where
  "ps_start = (\<lambda>(hp, ps). \<exists>i. libp2p_v2_peerstore_new True i = Some ps)"

interpretation ps_machine: invariant_machine ps_start ps_step "\<lambda>(hp, ps). ps_wf hp ps"
proof unfold_locales
  show "(\<lambda>(hp, ps). ps_wf hp ps) s" if "ps_start s" for s
    using that by (auto simp: ps_start_def libp2p_v2_peerstore_new_def ps_wf_def ps_ids_def List.map_filter_simps)
  show "(\<lambda>(hp, ps). ps_wf hp ps) s'" if "(\<lambda>(hp, ps). ps_wf hp ps) s" "ps_step s s'" for s s'
    using that(2,1) by cases (auto intro: ps_fresh(1) add_peer_wf add_address_wf)
qed

text \<open>C32. The store stays well typed: in every state that clients can reach from a new store, whatever allocations fail, every
  entry points to an allocated peer and no two entries have the same id.\<close>

theorem peerstore_typed:
  assumes "libp2p_v2_peerstore_new True i = Some ps0" and "ps_step\<^sup>*\<^sup>* (hp0, ps0) (hp, ps)"
  shows "(\<forall>e \<in> set (ps_head ps). \<exists>a p. e = Some a \<and> hp a = Some p) \<and> distinct (ps_ids hp ps)"
proof -
  have "ps_start (hp0, ps0)" using assms(1) by (auto simp: ps_start_def)
  then have "ps_wf hp ps" using ps_machine.reachable_inv [OF _ assms(2)] by simp
  then show ?thesis by (force simp: ps_wf_def)
qed

definition sample_addr4 :: multi_address where
  "sample_addr4 = \<lparr>raw_string = bstr ''/ip4/10.0.0.1/tcp/4001'', ma_ip = Some (bstr ''10.0.0.1''), ma_port = 4001, ma_family = V2_AF_INET\<rparr>"

definition all_mem :: addr_mem where
  "all_mem = \<lparr>am_peer = True, am_id = True, am_entry = True, am_node = True\<rparr>"

definition empty_store :: peerstore where
  "empty_store = \<lparr>ps_local_peer_id = None, ps_head = [], ps_public_key = [], ps_listen_addrs = []\<rparr>"

theorem peerstore_typed_witness:
  "\<exists>hp ps. ps_step\<^sup>*\<^sup>* (Map.empty, empty_store) (hp, ps) \<and> ps_head ps = [Some 7] \<and> distinct (ps_ids hp ps)"
proof -
  have n: "libp2p_v2_peerstore_new True None = Some empty_store" by (simp add: libp2p_v2_peerstore_new_def empty_store_def)
  obtain hp ps where a: "libp2p_v2_peerstore_add_address all_mem 7 (Some [1]) (Some sample_addr4) (Map.empty, empty_store) = (True, hp, ps)"
    "ps_head ps = [Some 7]"
    by (simp add: libp2p_v2_peerstore_add_address_def libp2p_v2_peerstore_get_peer_def libp2p_v2_peerstore_add_peer_def all_mem_def empty_store_def Let_def)
  then have "ps_step\<^sup>*\<^sup>* (Map.empty, empty_store) (hp, ps)" by (auto intro: ps_add_address)
  with peerstore_typed [OF n this] a(2) show ?thesis by blast
qed

text \<open>C33. The store implements a finite map from ids to peers, the association list of its entries: looking an id up gives the map's peer; a
  successful \<open>add_peer\<close> of a peer with an id updates the map at that id, also in place of an older entry; an \<open>add_address\<close> that reports success
  puts the address in front of the peer's addresses and changes no other peer. If the id is new, it creates the peer, but only if there was memory
  for the copy of the id and for the entry: otherwise the map stays as it was, and the call reports success all the same.\<close>

theorem peerstore_refines_map:
  assumes "ps_wf hp ps"
  shows "(\<forall>j. Option.bind (libp2p_v2_peerstore_get_peer hp (Some j) ps) hp = ps_map hp ps j) \<and>
    (\<forall>a p i mem ps'. hp a = Some p \<longrightarrow> peer_id p = Some i \<longrightarrow> libp2p_v2_peerstore_add_peer mem hp (Some a) ps = (True, ps') \<longrightarrow>
      ps_map hp ps' = (ps_map hp ps)(i \<mapsto> p)) \<and>
    (\<forall>fresh mem i ma hp' ps'. fresh \<notin> dom hp \<longrightarrow>
      libp2p_v2_peerstore_add_address mem fresh (Some i) (Some ma) (hp, ps) = (True, hp', ps') \<longrightarrow>
      ps_map hp' ps' =
        (case ps_map hp ps i of
           None \<Rightarrow> if am_id mem \<and> am_entry mem then (ps_map hp ps)(i \<mapsto> \<lparr>peer_id = Some i, addr_head = [ma], addr_end = 0\<rparr>) else ps_map hp ps
         | Some p \<Rightarrow> (ps_map hp ps)(i \<mapsto> p\<lparr>addr_head := ma # addr_head p\<rparr>)))"
proof (intro conjI allI impI)
  fix fresh mem i ma hp' ps'
  assume f: "fresh \<notin> dom hp" and s: "libp2p_v2_peerstore_add_address mem fresh (Some i) (Some ma) (hp, ps) = (True, hp', ps')"
  show "ps_map hp' ps' =
        (case ps_map hp ps i of
           None \<Rightarrow> if am_id mem \<and> am_entry mem then (ps_map hp ps)(i \<mapsto> \<lparr>peer_id = Some i, addr_head = [ma], addr_end = 0\<rparr>) else ps_map hp ps
         | Some p \<Rightarrow> (ps_map hp ps)(i \<mapsto> p\<lparr>addr_head := ma # addr_head p\<rparr>))"
  proof (cases "ps_map hp ps i")
    case None
    then show ?thesis using add_address_lost [OF assms f s] add_address_map [OF assms f s] by simp
  next
    case (Some p)
    then show ?thesis using add_address_known [OF assms f s Some] by simp
  qed
next
  show "ps_map hp ps' = (ps_map hp ps)(i \<mapsto> p)"
    if "hp a = Some p" "peer_id p = Some i" "libp2p_v2_peerstore_add_peer mem hp (Some a) ps = (True, ps')" for a p i mem ps'
    using that by (rule add_peer_map)
qed (simp add: ps_map_get)

theorem peerstore_refines_map_witness:
  "\<exists>hp ps. libp2p_v2_peerstore_add_address all_mem 7 (Some [1]) (Some sample_addr4) (Map.empty, empty_store) = (True, hp, ps) \<and>
     ps_map hp ps [1] = Some \<lparr>peer_id = Some [1], addr_head = [sample_addr4], addr_end = 0\<rparr>"
proof -
  have w: "ps_wf Map.empty empty_store" by (simp add: ps_wf_def ps_ids_def empty_store_def List.map_filter_simps)
  obtain hp ps where a: "libp2p_v2_peerstore_add_address all_mem 7 (Some [1]) (Some sample_addr4) (Map.empty, empty_store) = (True, hp, ps)"
    by (simp add: libp2p_v2_peerstore_add_address_def libp2p_v2_peerstore_get_peer_def libp2p_v2_peerstore_add_peer_def all_mem_def empty_store_def Let_def)
  have "am_id all_mem" "am_entry all_mem" "(7 :: nat) \<notin> dom Map.empty" "ps_map Map.empty empty_store [1] = None"
    by (simp_all add: all_mem_def ps_map_def List.map_filter_simps empty_store_def)
  with peerstore_refines_map [OF w, THEN conjunct2, THEN conjunct2, rule_format, OF _ a] a show ?thesis by auto
qed

section \<open>Addresses\<close>

fun decimal :: "nat \<Rightarrow> bytes" where
  "decimal n = (if n < 10 then [of_nat (48 + n)] else decimal (n div 10) @ [of_nat (48 + n mod 10)])"

declare decimal.simps [simp del]

lemma decimal_digit: "n < 10 \<Longrightarrow> unat (of_nat (48 + n) :: byte) = 48 + n"
  by (simp only: unat_of_nat) simp

lemma decimal_digits: "d \<in> set (decimal n) \<Longrightarrow> 48 \<le> d \<and> d \<le> 57"
proof (induction n rule: decimal.induct)
  case (1 n)
  have "48 \<le> (of_nat (48 + m) :: byte) \<and> (of_nat (48 + m) :: byte) \<le> 57" if "m < 10" for m
    using decimal_digit [OF that] that by (simp add: word_le_nat_alt)
  then show ?case using 1 by (auto simp: decimal.simps [of n] split: if_splits)
qed

lemma decimal_ne [simp]: "decimal n \<noteq> []"
  by (simp add: decimal.simps)

lemma digits_val_decimal: "digits_val (decimal n) = n"
proof -
  have all: "takeWhile (\<lambda>d. 48 \<le> d \<and> d \<le> 57) (decimal n) = decimal n" for n using decimal_digits by (auto simp: takeWhile_eq_all_conv)
  have "foldl (\<lambda>n d. n * 10 + (unat d - 48)) 0 (decimal n) = n"
  proof (induction n rule: decimal.induct)
    case (1 n)
    then show ?case using decimal_digit [of n] decimal_digit [of "n mod 10"] by (auto simp: decimal.simps [of n])
  qed
  then show ?thesis by (simp add: digits_val_def all)
qed

lemma atoi_decimal: "n < 2 ^ 31 \<Longrightarrow> atoi (decimal n) = of_nat n"
proof -
  assume n: "n < 2 ^ 31"
  obtain c cs where c: "decimal n = c # cs" by (cases "decimal n") simp_all
  then have "48 \<le> c" "c \<le> 57" using decimal_digits [of c n] by auto
  then have "\<not> (c = 32 \<or> 9 \<le> c \<and> c \<le> 13)" "c \<noteq> 45" "c \<noteq> 43" by (auto simp: word_le_nat_alt)
  then have "dropWhile (\<lambda>c. c = 32 \<or> 9 \<le> c \<and> c \<le> 13) (decimal n) = decimal n" "c \<noteq> 45" "c \<noteq> 43" using c by auto
  then show ?thesis using n c digits_val_decimal [of n] by (simp add: atoi_def)
qed

lemma strtok_all_acc: "47 \<notin> set t \<Longrightarrow> strtok_all acc (t @ cs) = strtok_all (rev t @ acc) cs"
  by (induction t arbitrary: acc) auto

lemma strtok_all_token: "47 \<notin> set t \<Longrightarrow> t \<noteq> [] \<Longrightarrow> strtok_all [] (t @ 47 # cs) = t # strtok_all [] cs"
  "47 \<notin> set t \<Longrightarrow> t \<noteq> [] \<Longrightarrow> strtok_all [] t = [t]"
  using strtok_all_acc [of t "[]" "47 # cs"] strtok_all_acc [of t "[]" "[]"] by simp_all

text \<open>An address printed in the usual form is read back: \<open>/ip4/<ip>/tcp/<port>\<close>, with or without a peer id behind, of at most 255
  bytes, gives the address text, the port and the family.\<close>

theorem multiaddr_round_trip:
  assumes "ip \<noteq> []" and "47 \<notin> set ip" and "0 < port" and "port < 65536"
    and "sfx = [] \<or> (\<exists>pid. sfx = bstr ''/p2p/'' @ pid \<and> pid \<noteq> [] \<and> 47 \<notin> set pid)"
    and "str = bstr ''/ip4/'' @ ip @ bstr ''/tcp/'' @ decimal port @ sfx" and "length str \<le> 255"
  shows "libp2p_multiaddr_new_from_string True str =
    Some \<lparr>raw_string = str, ma_ip = Some ip, ma_port = of_nat port, ma_family = V2_AF_INET\<rparr>"
proof -
  have d: "47 \<notin> set (decimal port)" using decimal_digits [of 47 port] by (auto simp: word_le_nat_alt)
  have lit: "bstr ''/ip4/'' = 47 # bstr ''ip4'' @ [47]" "bstr ''/tcp/'' = 47 # bstr ''tcp'' @ [47]" "bstr ''/p2p/'' = 47 # bstr ''p2p'' @ [47]"
    "47 \<notin> set (bstr ''ip4'')" "47 \<notin> set (bstr ''tcp'')" "47 \<notin> set (bstr ''p2p'')" "bstr ''ip4'' \<noteq> []" "bstr ''tcp'' \<noteq> []" "bstr ''p2p'' \<noteq> []"
    "bstr ''tcp'' \<noteq> bstr ''ip4''" "bstr ''tcp'' \<noteq> bstr ''ip6''" "bstr ''p2p'' \<noteq> bstr ''ip4''" "bstr ''p2p'' \<noteq> bstr ''ip6''" "bstr ''p2p'' \<noteq> bstr ''tcp''"
    by (simp_all add: bstr_def)
  define tl where "tl = (if sfx = [] then [] else [bstr ''p2p'', drop 5 sfx])"
  have "strtok_all [] (decimal port @ sfx) = decimal port # tl"
  proof (cases "sfx = []")
    case False
    then obtain pid where "sfx = 47 # bstr ''p2p'' @ 47 # pid" "pid \<noteq> []" "47 \<notin> set pid" using assms(5) lit(3) by auto
    then show ?thesis using strtok_all_token [OF d decimal_ne] strtok_all_token(1) [OF lit(6,9)] strtok_all_token(2)
      by (simp add: tl_def) (simp add: bstr_def)
  qed (use strtok_all_token(2) [OF d decimal_ne] in \<open>simp add: tl_def\<close>)
  then have tok: "strtok_all [] (take 255 str) = bstr ''ip4'' # ip # bstr ''tcp'' # decimal port # tl"
    using assms(6,7) strtok_all_token(1) [OF lit(4,7)] strtok_all_token(1) [OF assms(2,1)] strtok_all_token(1) [OF lit(5,8)]
    by (simp add: lit(1,2))
  have p: "(ucast (of_nat port :: 32 word) :: 16 word) = of_nat port" using assms(4)
    by (simp add: unsigned_of_nat take_bit_nat_eq_self)
  have "unat (of_nat port :: 16 word) = port" using assms(4) by (simp add: unat_of_nat)
  then have "(of_nat port :: 16 word) \<noteq> 0" using assms(3) by auto
  moreover have "multiaddr_tokens tl ma = ma" for ma using lit by (simp add: tl_def)
  moreover have "str \<noteq> []" "hd str = 47" using assms(6) lit(1) by simp_all
  ultimately show ?thesis using tok lit(10,11) atoi_decimal [of port] assms(4) p
    by (simp add: libp2p_multiaddr_new_from_string_def Let_def)
qed

theorem multiaddr_round_trip_witness:
  "libp2p_multiaddr_new_from_string True (bstr ''/ip4/10.0.0.1/tcp/4001'') = Some sample_addr4"
proof -
  have "decimal 4001 = bstr ''4001''" by (simp add: decimal.simps bstr_def)
  then show ?thesis
    using multiaddr_round_trip [of "bstr ''10.0.0.1''" 4001 "[]" "bstr ''/ip4/10.0.0.1/tcp/4001''"] by (simp add: sample_addr4_def bstr_def)
qed

end
