(* ===== verification/Hashmap_Crc.thy ===== *)
theory Hashmap_Crc
  imports Prelude
begin

text \<open>
  The CRC-32 of \<open>src/hashmap/hashmap.c\<close>: a table-driven loop on \<open>unsigned long\<close> (64 bits),
  and the bit-by-bit division it stands for.
\<close>

unbundle bit_operations_syntax

definition crc32_tab :: "64 word list" where
  "crc32_tab =
    [0x00000000, 0x77073096, 0xee0e612c, 0x990951ba, 0x076dc419, 0x706af48f, 0xe963a535, 0x9e6495a3,
     0x0edb8832, 0x79dcb8a4, 0xe0d5e91e, 0x97d2d988, 0x09b64c2b, 0x7eb17cbd, 0xe7b82d07, 0x90bf1d91,
     0x1db71064, 0x6ab020f2, 0xf3b97148, 0x84be41de, 0x1adad47d, 0x6ddde4eb, 0xf4d4b551, 0x83d385c7,
     0x136c9856, 0x646ba8c0, 0xfd62f97a, 0x8a65c9ec, 0x14015c4f, 0x63066cd9, 0xfa0f3d63, 0x8d080df5,
     0x3b6e20c8, 0x4c69105e, 0xd56041e4, 0xa2677172, 0x3c03e4d1, 0x4b04d447, 0xd20d85fd, 0xa50ab56b,
     0x35b5a8fa, 0x42b2986c, 0xdbbbc9d6, 0xacbcf940, 0x32d86ce3, 0x45df5c75, 0xdcd60dcf, 0xabd13d59,
     0x26d930ac, 0x51de003a, 0xc8d75180, 0xbfd06116, 0x21b4f4b5, 0x56b3c423, 0xcfba9599, 0xb8bda50f,
     0x2802b89e, 0x5f058808, 0xc60cd9b2, 0xb10be924, 0x2f6f7c87, 0x58684c11, 0xc1611dab, 0xb6662d3d,
     0x76dc4190, 0x01db7106, 0x98d220bc, 0xefd5102a, 0x71b18589, 0x06b6b51f, 0x9fbfe4a5, 0xe8b8d433,
     0x7807c9a2, 0x0f00f934, 0x9609a88e, 0xe10e9818, 0x7f6a0dbb, 0x086d3d2d, 0x91646c97, 0xe6635c01,
     0x6b6b51f4, 0x1c6c6162, 0x856530d8, 0xf262004e, 0x6c0695ed, 0x1b01a57b, 0x8208f4c1, 0xf50fc457,
     0x65b0d9c6, 0x12b7e950, 0x8bbeb8ea, 0xfcb9887c, 0x62dd1ddf, 0x15da2d49, 0x8cd37cf3, 0xfbd44c65,
     0x4db26158, 0x3ab551ce, 0xa3bc0074, 0xd4bb30e2, 0x4adfa541, 0x3dd895d7, 0xa4d1c46d, 0xd3d6f4fb,
     0x4369e96a, 0x346ed9fc, 0xad678846, 0xda60b8d0, 0x44042d73, 0x33031de5, 0xaa0a4c5f, 0xdd0d7cc9,
     0x5005713c, 0x270241aa, 0xbe0b1010, 0xc90c2086, 0x5768b525, 0x206f85b3, 0xb966d409, 0xce61e49f,
     0x5edef90e, 0x29d9c998, 0xb0d09822, 0xc7d7a8b4, 0x59b33d17, 0x2eb40d81, 0xb7bd5c3b, 0xc0ba6cad,
     0xedb88320, 0x9abfb3b6, 0x03b6e20c, 0x74b1d29a, 0xead54739, 0x9dd277af, 0x04db2615, 0x73dc1683,
     0xe3630b12, 0x94643b84, 0x0d6d6a3e, 0x7a6a5aa8, 0xe40ecf0b, 0x9309ff9d, 0x0a00ae27, 0x7d079eb1,
     0xf00f9344, 0x8708a3d2, 0x1e01f268, 0x6906c2fe, 0xf762575d, 0x806567cb, 0x196c3671, 0x6e6b06e7,
     0xfed41b76, 0x89d32be0, 0x10da7a5a, 0x67dd4acc, 0xf9b9df6f, 0x8ebeeff9, 0x17b7be43, 0x60b08ed5,
     0xd6d6a3e8, 0xa1d1937e, 0x38d8c2c4, 0x4fdff252, 0xd1bb67f1, 0xa6bc5767, 0x3fb506dd, 0x48b2364b,
     0xd80d2bda, 0xaf0a1b4c, 0x36034af6, 0x41047a60, 0xdf60efc3, 0xa867df55, 0x316e8eef, 0x4669be79,
     0xcb61b38c, 0xbc66831a, 0x256fd2a0, 0x5268e236, 0xcc0c7795, 0xbb0b4703, 0x220216b9, 0x5505262f,
     0xc5ba3bbe, 0xb2bd0b28, 0x2bb45a92, 0x5cb36a04, 0xc2d7ffa7, 0xb5d0cf31, 0x2cd99e8b, 0x5bdeae1d,
     0x9b64c2b0, 0xec63f226, 0x756aa39c, 0x026d930a, 0x9c0906a9, 0xeb0e363f, 0x72076785, 0x05005713,
     0x95bf4a82, 0xe2b87a14, 0x7bb12bae, 0x0cb61b38, 0x92d28e9b, 0xe5d5be0d, 0x7cdcefb7, 0x0bdbdf21,
     0x86d3d2d4, 0xf1d4e242, 0x68ddb3f8, 0x1fda836e, 0x81be16cd, 0xf6b9265b, 0x6fb077e1, 0x18b74777,
     0x88085ae6, 0xff0f6a70, 0x66063bca, 0x11010b5c, 0x8f659eff, 0xf862ae69, 0x616bffd3, 0x166ccf45,
     0xa00ae278, 0xd70dd2ee, 0x4e048354, 0x3903b3c2, 0xa7672661, 0xd06016f7, 0x4969474d, 0x3e6e77db,
     0xaed16a4a, 0xd9d65adc, 0x40df0b66, 0x37d83bf0, 0xa9bcae53, 0xdebb9ec5, 0x47b2cf7f, 0x30b5ffe9,
     0xbdbdf21c, 0xcabac28a, 0x53b39330, 0x24b4a3a6, 0xbad03605, 0xcdd70693, 0x54de5729, 0x23d967bf,
     0xb3667a2e, 0xc4614ab8, 0x5d681b02, 0x2a6f2b94, 0xb40bbe37, 0xc30c8ea1, 0x5a05df1b, 0x2d02ef8d]"

text \<open>The loop over the bytes of the buffer.\<close>

fun crc32_loop :: "bytes \<Rightarrow> 64 word \<Rightarrow> 64 word" where
  "crc32_loop [] crc32val = crc32val"
| "crc32_loop (b # s) crc32val =
     crc32_loop s (crc32_tab ! unat ((crc32val XOR ucast b) AND 0xff) XOR drop_bit 8 crc32val)"

definition crc32 :: "bytes \<Rightarrow> nat \<Rightarrow> 64 word" where
  "crc32 s len = crc32_loop (take len s) 0"

section \<open>Division bit by bit\<close>

text \<open>One step of the shift register: the lowest bit leaves it and, if set, feeds the polynomial back.\<close>

definition crc_shift :: "64 word \<Rightarrow> 64 word" where
  "crc_shift c = (if bit c 0 then drop_bit 1 c XOR 0xedb88320 else drop_bit 1 c)"

definition crc_byte :: "64 word \<Rightarrow> byte \<Rightarrow> 64 word" where
  "crc_byte c b = (crc_shift ^^ 8) (c XOR ucast b)"

lemma crc_shift_xor: "crc_shift (a XOR b) = crc_shift a XOR crc_shift b"
  by (rule bit_eqI) (auto simp: crc_shift_def bit_simps)

lemma crc_shifts_xor: "(crc_shift ^^ n) (a XOR b) = (crc_shift ^^ n) a XOR (crc_shift ^^ n) b"
  by (induction n) (simp_all add: crc_shift_xor)

lemma crc_shifts_high: "(\<And>i. i < n \<Longrightarrow> \<not> bit c i) \<Longrightarrow> (crc_shift ^^ n) c = drop_bit n c"
proof (induction n)
  case (Suc n)
  then have "(crc_shift ^^ n) c = drop_bit n c" by simp
  moreover have "\<not> bit (drop_bit n c) 0" using Suc.prems [of n] by (simp add: bit_drop_bit_eq)
  then have "crc_shift (drop_bit n c) = drop_bit (Suc n) c" by (simp add: crc_shift_def)
  ultimately show ?case by simp
qed simp

section \<open>The table\<close>

text \<open>The division is linear, so the table is determined by its entries at the powers of two.\<close>

definition doubled :: "64 word \<Rightarrow> 64 word list \<Rightarrow> 64 word list" where
  "doubled p xs = xs @ map (\<lambda>x. x XOR p) xs"

definition crc_terms :: "64 word list \<Rightarrow> nat \<Rightarrow> bool" where
  "crc_terms xs k \<longleftrightarrow> length xs = 2 ^ k \<and> (\<forall>i < 2 ^ k. xs ! i = (crc_shift ^^ 8) (of_nat i))"

lemma of_nat_high_bit: "i < 2 ^ k \<Longrightarrow> (of_nat (2 ^ k + i) :: 64 word) = of_nat i XOR of_nat (2 ^ k)"
proof -
  assume "i < 2 ^ k"
  then have "i AND 2 ^ k = 0"
    by (metis and_exp_eq_0_iff_not_bit bit_iff_odd div_less even_zero)
  then have "2 ^ k + i = i XOR 2 ^ k" by (simp add: add.commute [of _ i] disjunctive_add_eq_xor)
  then show ?thesis by (simp only: of_nat_xor_eq)
qed

lemma crc_terms_doubled:
  assumes "crc_terms xs k" and "p = (crc_shift ^^ 8) (of_nat (2 ^ k))"
  shows "crc_terms (doubled p xs) (Suc k)"
  unfolding crc_terms_def
proof (intro conjI allI impI)
  show "length (doubled p xs) = 2 ^ Suc k" using assms by (simp add: doubled_def crc_terms_def)
  fix i :: nat
  assume i: "i < 2 ^ Suc k"
  show "doubled p xs ! i = (crc_shift ^^ 8) (of_nat i)"
  proof (cases "i < 2 ^ k")
    case True
    then show ?thesis using assms by (simp add: doubled_def crc_terms_def nth_append)
  next
    case False
    define j where "j = i - 2 ^ k"
    have j: "i = 2 ^ k + j" "j < 2 ^ k" using i False by (simp_all add: j_def)
    then have "doubled p xs ! i = (crc_shift ^^ 8) (of_nat j) XOR p"
      using assms(1) by (simp add: doubled_def crc_terms_def nth_append)
    then show ?thesis using of_nat_high_bit [OF j(2)] j(1) assms(2) by (simp add: crc_shifts_xor)
  qed
qed

lemma crc_shift_eval:
  "crc_shift (numeral (num.Bit0 n)) = drop_bit 1 (numeral (num.Bit0 n))"
  "crc_shift (numeral (num.Bit1 n)) = drop_bit 1 (numeral (num.Bit1 n)) XOR 0xedb88320"
  "crc_shift 1 = 0xedb88320"
  by (simp_all add: crc_shift_def)

lemma crc_shift_8: "(crc_shift ^^ 8) c =
    crc_shift (crc_shift (crc_shift (crc_shift (crc_shift (crc_shift (crc_shift (crc_shift c)))))))"
  by (simp add: numeral_eq_Suc)

lemma crc_powers:
  "0x77073096 = (crc_shift ^^ 8) (of_nat (2 ^ 0))" "0xee0e612c = (crc_shift ^^ 8) (of_nat (2 ^ Suc 0))"
  "0x076dc419 = (crc_shift ^^ 8) (of_nat (2 ^ Suc (Suc 0)))" "0x0edb8832 = (crc_shift ^^ 8) (of_nat (2 ^ Suc (Suc (Suc 0))))"
  "0x1db71064 = (crc_shift ^^ 8) (of_nat (2 ^ Suc (Suc (Suc (Suc 0)))))"
  "0x3b6e20c8 = (crc_shift ^^ 8) (of_nat (2 ^ Suc (Suc (Suc (Suc (Suc 0))))))"
  "0x76dc4190 = (crc_shift ^^ 8) (of_nat (2 ^ Suc (Suc (Suc (Suc (Suc (Suc 0)))))))"
  "0xedb88320 = (crc_shift ^^ 8) (of_nat (2 ^ Suc (Suc (Suc (Suc (Suc (Suc (Suc 0))))))))"
  by (simp_all add: crc_shift_8 crc_shift_eval)

lemma crc32_tab_doubled:
  "crc32_tab = doubled 0xedb88320 (doubled 0x76dc4190 (doubled 0x3b6e20c8 (doubled 0x1db71064
     (doubled 0x0edb8832 (doubled 0x076dc419 (doubled 0xee0e612c (doubled 0x77073096 [0])))))))"
  by (simp add: crc32_tab_def doubled_def)

lemma crc32_tab_terms: "crc_terms crc32_tab 8"
proof -
  have "crc_terms [0] 0" using crc_shifts_high [of 8 0] by (simp add: crc_terms_def)
  then have "crc_terms crc32_tab (Suc (Suc (Suc (Suc (Suc (Suc (Suc (Suc 0))))))))"
    unfolding crc32_tab_doubled by (intro crc_terms_doubled crc_powers)
  then show ?thesis by (simp add: numeral_eq_Suc)
qed

lemma ff_mask: "(0xff :: 64 word) = mask 8"
  by (simp add: mask_numeral)

lemma crc32_tab_nth: "crc32_tab ! unat (x AND 0xff) = (crc_shift ^^ 8) (x AND 0xff)"
proof -
  have "unat (x AND 0xff) < 2 ^ 8"
    unfolding ff_mask take_bit_eq_mask [symmetric] unsigned_take_bit_eq by (rule take_bit_nat_less_exp)
  then show ?thesis using crc32_tab_terms by (simp add: crc_terms_def)
qed

lemma crc32_step: "crc32_tab ! unat ((c XOR ucast b) AND 0xff) XOR drop_bit 8 c = crc_byte c b"
proof -
  define x where "x = c XOR (ucast b :: 64 word)"
  have split: "x = (x AND 0xff) XOR (x AND NOT 0xff)" by (rule bit_eqI) (auto simp: bit_simps)
  have "(crc_shift ^^ 8) (x AND NOT 0xff) = drop_bit 8 (x AND NOT 0xff)"
    unfolding ff_mask by (rule crc_shifts_high) (simp add: bit_simps)
  also have "\<dots> = drop_bit 8 c"
    unfolding ff_mask x_def by (rule bit_eqI) (auto simp: bit_simps dest: bit_imp_le_length)
  finally have "(crc_shift ^^ 8) x = crc32_tab ! unat (x AND 0xff) XOR drop_bit 8 c"
    using split crc_shifts_xor crc32_tab_nth by metis
  then show ?thesis by (simp add: crc_byte_def x_def)
qed

lemma crc32_loop_bits: "crc32_loop s c = foldl crc_byte c s"
  by (induction s arbitrary: c) (simp_all add: crc32_step)

end
