(* ===== verification/Hashmap.thy ===== *)
theory Hashmap
  imports Hashmap_Crc
begin

text \<open>
  The generic map of \<open>src/hashmap/hashmap.c\<close>: open addressing in an array that doubles, at most eight
  places per key.

  A key is the bytes of the C string before its NUL; the map keeps the pointer it is given, so the caller must not
  change the string while it is a key. A value is a pointer (\<open>None\<close> is NULL). \<open>hm_mem\<close> says which of the coming allocations
  succeed. \<open>table_size\<close> is an \<open>int\<close>: a product \<open>2 * table_size\<close> beyond its range becomes, as a size, larger than any
  allocation, so it counts as one that fails.
\<close>

definition INITIAL_SIZE :: nat where "INITIAL_SIZE = 256"
definition MAX_CHAIN_LENGTH :: nat where "MAX_CHAIN_LENGTH = 8"
definition MAP_MISSING :: int where "MAP_MISSING = - 3"
definition MAP_OMEM :: int where "MAP_OMEM = - 1"
definition MAP_OK :: int where "MAP_OK = 0"

type_synonym 'a any_t = "'a option"

record 'a hashmap_element =
  el_key :: "bytes option"
  in_use :: bool
  el_data :: "'a any_t"

record 'a hashmap_map =
  table_size :: nat
  hm_size :: int
  hm_data :: "'a hashmap_element list"
  hm_mem :: "nat \<Rightarrow> bool"

definition blank :: "'a hashmap_element" where
  "blank = \<lparr>el_key = None, in_use = False, el_data = None\<rparr>"

text \<open>\<open>calloc\<close> of an array for \<open>n\<close> elements.\<close>

definition hm_calloc :: "nat \<Rightarrow> 'a hashmap_map \<Rightarrow> bool \<times> 'a hashmap_map" where
  "hm_calloc n m = (n < 2 ^ 31 \<and> hm_mem m 0, m\<lparr>hm_mem := (\<lambda>k. hm_mem m (Suc k))\<rparr>)"

text \<open>\<open>mem1\<close> and \<open>mem2\<close>: whether the two allocations succeed; \<open>allocs\<close>: the later ones.\<close>

definition libp2p_libp2p_hashmap_new :: "bool \<Rightarrow> bool \<Rightarrow> (nat \<Rightarrow> bool) \<Rightarrow> 'a hashmap_map option" where
  "libp2p_libp2p_hashmap_new mem1 mem2 allocs =
     (if \<not> mem1 then None
      else if \<not> mem2 then None
      else Some \<lparr>table_size = INITIAL_SIZE, hm_size = 0, hm_data = replicate INITIAL_SIZE blank, hm_mem = allocs\<rparr>)"

section \<open>Hashing\<close>

definition hash_mix :: "64 word \<Rightarrow> 64 word" where
  "hash_mix key =
     (let key = key + push_bit 12 key;
          key = key XOR drop_bit 22 key;
          key = key + push_bit 4 key;
          key = key XOR drop_bit 9 key;
          key = key + push_bit 10 key;
          key = key XOR drop_bit 2 key;
          key = key + push_bit 7 key;
          key = key XOR drop_bit 12 key
      in drop_bit 3 key * 2654435761)"

definition hashmap_hash_int :: "'a hashmap_map \<Rightarrow> bytes \<Rightarrow> nat" where
  "hashmap_hash_int m keystring =
     unat (hash_mix (crc32 keystring (length keystring mod 2 ^ 32))) mod table_size m"

text \<open>The element in use for the key.\<close>

definition holds :: "'a hashmap_map \<Rightarrow> bytes \<Rightarrow> nat \<Rightarrow> bool" where
  "holds m key cur \<longleftrightarrow> in_use (hm_data m ! cur) \<and> el_key (hm_data m ! cur) = Some key"

text \<open>The probing loops of \<open>hashmap_hash\<close> and of lookup and removal; \<open>None\<close> of the first is \<open>MAP_FULL\<close>.\<close>

fun hash_probe :: "nat \<Rightarrow> bytes \<Rightarrow> nat \<Rightarrow> 'a hashmap_map \<Rightarrow> nat option" where
  "hash_probe 0 key cur m = None"
| "hash_probe (Suc n) key cur m =
     (if \<not> in_use (hm_data m ! cur) then Some cur
      else if holds m key cur then Some cur
      else hash_probe n key ((cur + 1) mod table_size m) m)"

fun key_probe :: "nat \<Rightarrow> bytes \<Rightarrow> nat \<Rightarrow> 'a hashmap_map \<Rightarrow> nat option" where
  "key_probe 0 key cur m = None"
| "key_probe (Suc n) key cur m =
     (if holds m key cur then Some cur else key_probe n key ((cur + 1) mod table_size m) m)"

definition hashmap_hash :: "bytes \<Rightarrow> 'a hashmap_map \<Rightarrow> nat option" where
  "hashmap_hash key m =
     (if hm_size m \<ge> int (table_size m div 2) then None
      else hash_probe MAX_CHAIN_LENGTH key (hashmap_hash_int m key) m)"

section \<open>Insertion\<close>

text \<open>\<open>hashmap_rehash\<close> calls \<open>libp2p_hashmap_put\<close>, which calls \<open>hashmap_rehash\<close> while there is no place. Every
  call in turn works on an array twice as large, which ends when the size leaves the range of \<open>int\<close>: the number
  of nested turns is the fuel of \<open>put_fuel\<close>, and \<open>PUT_FUEL\<close> is more than any map needs.\<close>

fun reinsert :: "(bytes \<Rightarrow> 'a any_t \<Rightarrow> 'a hashmap_map \<Rightarrow> (int \<times> 'a hashmap_map) option) \<Rightarrow>
    'a hashmap_element list \<Rightarrow> 'a hashmap_map \<Rightarrow> (int \<times> 'a hashmap_map) option" where
  "reinsert put [] m = Some (MAP_OK, m)"
| "reinsert put (e # es) m =
     (if \<not> in_use e then reinsert put es m
      else case put (the (el_key e)) (el_data e) m of
             None \<Rightarrow> None
           | Some (status, m1) \<Rightarrow> if status \<noteq> MAP_OK then Some (status, m1) else reinsert put es m1)"

definition rehash_with :: "(bytes \<Rightarrow> 'a any_t \<Rightarrow> 'a hashmap_map \<Rightarrow> (int \<times> 'a hashmap_map) option) \<Rightarrow>
    'a hashmap_map \<Rightarrow> (int \<times> 'a hashmap_map) option" where
  "rehash_with put m =
     (let (temp, m1) = hm_calloc (2 * table_size m) m
      in if \<not> temp then Some (MAP_OMEM, m1)
         else reinsert put (hm_data m)
                (m1\<lparr>hm_data := replicate (2 * table_size m) blank, table_size := 2 * table_size m, hm_size := 0\<rparr>))"

definition set_element :: "nat \<Rightarrow> bytes \<Rightarrow> 'a any_t \<Rightarrow> 'a hashmap_map \<Rightarrow> 'a hashmap_map" where
  "set_element index key value m =
     m\<lparr>hm_data := (hm_data m)[index := \<lparr>el_key = Some key, in_use = True, el_data = value\<rparr>], hm_size := hm_size m + 1\<rparr>"

primrec put_fuel :: "nat \<Rightarrow> bytes \<Rightarrow> 'a any_t \<Rightarrow> 'a hashmap_map \<Rightarrow> (int \<times> 'a hashmap_map) option" where
  "put_fuel 0 key value m = None"
| "put_fuel (Suc n) key value m =
     (case hashmap_hash key m of
        Some index \<Rightarrow> Some (MAP_OK, set_element index key value m)
      | None \<Rightarrow>
          (case rehash_with (put_fuel n) m of
             None \<Rightarrow> None
           | Some (status, m1) \<Rightarrow> if status = MAP_OMEM then Some (MAP_OMEM, m1) else put_fuel n key value m1))"

definition PUT_FUEL :: nat where "PUT_FUEL = 24"

definition libp2p_hashmap_put :: "bytes \<Rightarrow> 'a any_t \<Rightarrow> 'a hashmap_map \<Rightarrow> (int \<times> 'a hashmap_map) option" where
  "libp2p_hashmap_put key value m = put_fuel PUT_FUEL key value m"

definition hashmap_rehash :: "'a hashmap_map \<Rightarrow> (int \<times> 'a hashmap_map) option" where
  "hashmap_rehash m = rehash_with libp2p_hashmap_put m"

section \<open>Lookup, iteration, removal\<close>

definition libp2p_hashmap_get :: "bytes \<Rightarrow> 'a hashmap_map \<Rightarrow> int \<times> 'a any_t" where
  "libp2p_hashmap_get key m =
     (case key_probe MAX_CHAIN_LENGTH key (hashmap_hash_int m key) m of
        Some cur \<Rightarrow> (MAP_OK, el_data (hm_data m ! cur))
      | None \<Rightarrow> (MAP_MISSING, None))"

definition libp2p_hashmap_length :: "'a hashmap_map option \<Rightarrow> int" where
  "libp2p_hashmap_length mo = (case mo of Some m \<Rightarrow> hm_size m | None \<Rightarrow> 0)"

text \<open>The callback works on a state of its own (its first argument in the code) and returns a status.\<close>

fun iterate_loop :: "('a any_t \<Rightarrow> 's \<Rightarrow> int \<times> 's) \<Rightarrow> 'a hashmap_element list \<Rightarrow> 's \<Rightarrow> int \<times> 's" where
  "iterate_loop f [] s = (MAP_OK, s)"
| "iterate_loop f (e # es) s =
     (if in_use e then
        let (status, s1) = f (el_data e) s
        in if status \<noteq> MAP_OK then (status, s1) else iterate_loop f es s1
      else iterate_loop f es s)"

definition libp2p_hashmap_iterate :: "'a hashmap_map \<Rightarrow> ('a any_t \<Rightarrow> 's \<Rightarrow> int \<times> 's) \<Rightarrow> 's \<Rightarrow> int \<times> 's" where
  "libp2p_hashmap_iterate m f item =
     (if libp2p_hashmap_length (Some m) \<le> 0 then (MAP_MISSING, item) else iterate_loop f (hm_data m) item)"

definition libp2p_hashmap_remove :: "bytes \<Rightarrow> 'a hashmap_map \<Rightarrow> int \<times> 'a hashmap_map" where
  "libp2p_hashmap_remove key m =
     (case key_probe MAX_CHAIN_LENGTH key (hashmap_hash_int m key) m of
        Some cur \<Rightarrow> (MAP_OK, m\<lparr>hm_data := (hm_data m)[cur := blank], hm_size := hm_size m - 1\<rparr>)
      | None \<Rightarrow> (MAP_MISSING, m))"

end
