(* ===== verification/Hashmap_Laws.thy ===== *)
theory Hashmap_Laws
  imports Hashmap Machine
begin

text \<open>
  What the map of \<open>Hashmap\<close> holds, its invariant, and what every operation does to both.
\<close>

section \<open>The places of a key\<close>

definition place :: "'a hashmap_map \<Rightarrow> bytes \<Rightarrow> nat \<Rightarrow> nat" where
  "place m k j = (hashmap_hash_int m k + j) mod table_size m"

definition chain :: "'a hashmap_map \<Rightarrow> bytes \<Rightarrow> nat list" where
  "chain m k = map (place m k) [0..<MAX_CHAIN_LENGTH]"

definition hm_lookup :: "'a hashmap_map \<Rightarrow> bytes \<Rightarrow> 'a any_t option" where
  "hm_lookup m k = map_option (\<lambda>i. el_data (hm_data m ! i)) (find (holds m k) (chain m k))"

lemma upt_Suc_map: "map f [0..<Suc n] = f 0 # map (\<lambda>j. f (Suc j)) [0..<n]"
  by (simp add: upt_rec [of 0] map_Suc_upt [symmetric] comp_def del: upt_Suc)

lemma next_place: "((cur + 1) mod ts + j) mod ts = (cur + Suc j) mod (ts :: nat)"
  by (simp add: mod_add_left_eq)

lemma hash_probe_find:
  "cur < table_size m \<Longrightarrow> hash_probe n k cur m =
     find (\<lambda>i. \<not> in_use (hm_data m ! i) \<or> holds m k i) (map (\<lambda>j. (cur + j) mod table_size m) [0..<n])"
proof (induction n arbitrary: cur)
  case (Suc n)
  have "(cur + 1) mod table_size m < table_size m" using Suc.prems by simp
  from Suc.IH [OF this] show ?case
    unfolding hash_probe.simps upt_Suc_map next_place using Suc.prems by simp
qed simp

lemma key_probe_find:
  "cur < table_size m \<Longrightarrow> key_probe n k cur m = find (holds m k) (map (\<lambda>j. (cur + j) mod table_size m) [0..<n])"
proof (induction n arbitrary: cur)
  case (Suc n)
  have "(cur + 1) mod table_size m < table_size m" using Suc.prems by simp
  from Suc.IH [OF this] show ?case
    unfolding key_probe.simps upt_Suc_map next_place using Suc.prems by simp
qed simp

lemma hash_int_less [simp]: "0 < table_size m \<Longrightarrow> hashmap_hash_int m k < table_size m"
  by (simp add: hashmap_hash_int_def)

lemma chain_probe:
  assumes "0 < table_size m"
  shows "hash_probe MAX_CHAIN_LENGTH k (hashmap_hash_int m k) m = find (\<lambda>i. \<not> in_use (hm_data m ! i) \<or> holds m k i) (chain m k)"
    and "key_probe MAX_CHAIN_LENGTH k (hashmap_hash_int m k) m = find (holds m k) (chain m k)"
  using hash_probe_find [of "hashmap_hash_int m k" m MAX_CHAIN_LENGTH k] key_probe_find [of "hashmap_hash_int m k" m MAX_CHAIN_LENGTH k] assms
  by (simp_all add: chain_def place_def [abs_def])

lemma place_less [simp]: "0 < table_size m \<Longrightarrow> place m k j < table_size m"
  by (simp add: place_def)

lemma chain_less: "0 < table_size m \<Longrightarrow> i \<in> set (chain m k) \<Longrightarrow> i < table_size m"
  by (auto simp: chain_def)

lemma place_inject:
  assumes "8 \<le> table_size m" and "j < 8" and "j' < 8" and "place m k j = place m k j'"
  shows "j = j'"
proof -
  have "j mod table_size m = j' mod table_size m" using assms(4) by (auto simp: place_def nat_mod_eq_iff)
  then show ?thesis using assms by simp
qed

section \<open>The invariant\<close>

text \<open>Every element in use is at one of the eight places of its key, no key occurs twice, and the counter is at least
  the number of elements in use (storing a key again counts again).\<close>

definition used :: "'a hashmap_map \<Rightarrow> nat" where
  "used m = length (filter in_use (hm_data m))"


definition hm_wf :: "'a hashmap_map \<Rightarrow> bool" where
  "hm_wf m \<longleftrightarrow> 256 \<le> table_size m \<and> int (used m) \<le> hm_size m \<and> table_size m < 2 ^ 31 \<and> length (hm_data m) = table_size m \<and>
     (\<forall>i < table_size m. in_use (hm_data m ! i) \<longrightarrow> (\<exists>k. holds m k i \<and> i \<in> set (chain m k))) \<and>
     (\<forall>k i i'. i < table_size m \<longrightarrow> i' < table_size m \<longrightarrow> holds m k i \<longrightarrow> holds m k i' \<longrightarrow> i = i')"

text \<open>No place before a key is free: it holds until an element is removed.\<close>

definition hm_tight :: "'a hashmap_map \<Rightarrow> bool" where
  "hm_tight m \<longleftrightarrow> (\<forall>k j j'. j < 8 \<longrightarrow> j' < j \<longrightarrow> holds m k (place m k j) \<longrightarrow> in_use (hm_data m ! place m k j'))"

lemma holds_key: "holds m k i \<Longrightarrow> holds m k' i \<Longrightarrow> k' = k"
  by (simp add: holds_def)

lemma lookup_iff:
  assumes "hm_wf m"
  shows "hm_lookup m k = Some v \<longleftrightarrow> (\<exists>i < table_size m. holds m k i \<and> el_data (hm_data m ! i) = v)"
proof
  assume "hm_lookup m k = Some v"
  then obtain i where i: "find (holds m k) (chain m k) = Some i" "el_data (hm_data m ! i) = v" by (auto simp: hm_lookup_def)
  then have "holds m k i" "i \<in> set (chain m k)" by (auto simp: find_Some_iff)
  then show "\<exists>i < table_size m. holds m k i \<and> el_data (hm_data m ! i) = v"
    using i(2) chain_less [of m i k] assms by (auto simp: hm_wf_def)
next
  assume "\<exists>i < table_size m. holds m k i \<and> el_data (hm_data m ! i) = v"
  then obtain i where i: "i < table_size m" "holds m k i" "el_data (hm_data m ! i) = v" by blast
  then have "i \<in> set (chain m k)" using assms holds_key unfolding hm_wf_def by (metis holds_def)
  then obtain i' where f: "find (holds m k) (chain m k) = Some i'" using i(2)
    by (metis find_None_iff not_Some_eq)
  then have "holds m k i'" "i' \<in> set (chain m k)" by (auto simp: find_Some_iff)
  then have "i' = i" using i chain_less [of m i' k] assms unfolding hm_wf_def by (metis gr0I not_numeral_le_zero)
  then show "hm_lookup m k = Some v" using f i(3) by (simp add: hm_lookup_def)
qed

lemma lookup_None:
  "hm_wf m \<Longrightarrow> hm_lookup m k = None \<longleftrightarrow> (\<forall>i < table_size m. \<not> holds m k i)"
  using lookup_iff [of m k] by (metis not_Some_eq)

lemma get_lookup:
  assumes "0 < table_size m"
  shows "libp2p_hashmap_get k m = (case hm_lookup m k of Some v \<Rightarrow> (MAP_OK, v) | None \<Rightarrow> (MAP_MISSING, None))"
  using chain_probe(2) [OF assms, of k] by (simp add: libp2p_hashmap_get_def hm_lookup_def split: option.split)

text \<open>An array without elements.\<close>

lemma hm_empty:
  assumes "hm_data m = replicate (table_size m) blank" and "256 \<le> table_size m" and "table_size m < 2 ^ 31" and "hm_size m = 0"
  shows "hm_wf m" and "hm_tight m" and "hm_lookup m = Map.empty"
proof -
  have e: "i < table_size m \<Longrightarrow> \<not> in_use (hm_data m ! i)" for i using assms by (simp add: blank_def)
  then have h: "i < table_size m \<Longrightarrow> \<not> holds m k i" for k i by (simp add: holds_def)
  have "used m = 0" using assms(1) by (simp add: used_def blank_def)
  then show wf: "hm_wf m" using assms e h unfolding hm_wf_def by simp
  show "hm_tight m" using assms h by (simp add: hm_tight_def)
  show "hm_lookup m = Map.empty" using lookup_None [OF wf] h by blast
qed

section \<open>Insertion\<close>

lemma set_element_simps [simp]:
  "table_size (set_element i k v m) = table_size m" "hashmap_hash_int (set_element i k v m) = hashmap_hash_int m"
  "place (set_element i k v m) = place m" "chain (set_element i k v m) = chain m"
  "length (hm_data (set_element i k v m)) = length (hm_data m)"
  by (simp_all add: set_element_def fun_eq_iff place_def chain_def hashmap_hash_int_def)

lemma set_element_nth:
  assumes "i < length (hm_data m)"
  shows "holds (set_element i k v m) k' i' \<longleftrightarrow> (if i' = i then k' = k else holds m k' i')"
    and "in_use (hm_data (set_element i k v m) ! i') \<longleftrightarrow> i' = i \<or> in_use (hm_data m ! i')"
    and "el_data (hm_data (set_element i k v m) ! i') = (if i' = i then v else el_data (hm_data m ! i'))"
  using assms by (auto simp: set_element_def holds_def nth_list_update)

lemma filter_update:
  assumes "i < length xs"
  shows "length (filter P (xs[i := y])) + (if P (xs ! i) then 1 else 0) = length (filter P xs) + (if P y then 1 else 0)"
proof -
  have "filter P xs = filter P (take i xs) @ filter P (xs ! i # drop (Suc i) xs)"
    using id_take_nth_drop [OF assms] by (metis filter_append)
  then show ?thesis using assms by (simp add: upd_conv_take_nth_drop)
qed

lemma set_element_used: "i < length (hm_data m) \<Longrightarrow> int (used m) \<le> hm_size m \<Longrightarrow> int (used (set_element i k v m)) \<le> hm_size (set_element i k v m)"
  using filter_update [of i "hm_data m" in_use "\<lparr>el_key = Some k, in_use = True, el_data = v\<rparr>"]
  by (simp add: used_def set_element_def split: if_splits)

lemma first_free:
  assumes "hm_wf m" and "find (\<lambda>i. \<not> in_use (hm_data m ! i) \<or> holds m k i) (chain m k) = Some i"
  obtains j where "j < 8" and "i = place m k j" and "i < table_size m" and "\<not> in_use (hm_data m ! i) \<or> holds m k i"
    and "\<And>j'. j' < j \<Longrightarrow> in_use (hm_data m ! place m k j') \<and> \<not> holds m k (place m k j')"
proof -
  from assms(2) obtain j where j: "j < length (chain m k)" "\<not> in_use (hm_data m ! (chain m k ! j)) \<or> holds m k (chain m k ! j)"
    "i = chain m k ! j" "\<forall>j'<j. in_use (hm_data m ! (chain m k ! j')) \<and> \<not> holds m k (chain m k ! j')"
    by (auto simp: find_Some_iff)
  have nth: "j' < 8 \<Longrightarrow> chain m k ! j' = place m k j'" for j' by (simp add: chain_def MAX_CHAIN_LENGTH_def)
  have "j < 8" using j(1) by (simp add: chain_def MAX_CHAIN_LENGTH_def)
  moreover have "0 < table_size m" using assms(1) by (simp add: hm_wf_def)
  ultimately show ?thesis using j nth by (intro that [of j]) auto
qed

lemma in_chain: "i \<in> set (chain m k) \<longleftrightarrow> (\<exists>j < 8. i = place m k j)"
  by (auto simp: chain_def MAX_CHAIN_LENGTH_def)

lemma holds_in_chain: "hm_wf m \<Longrightarrow> i < table_size m \<Longrightarrow> holds m k i \<Longrightarrow> \<exists>j < 8. i = place m k j"
  using holds_key [of m k i] unfolding hm_wf_def by (metis holds_def in_chain)

lemma free_is_only:
  assumes "hm_wf m" and f: "find (\<lambda>i. \<not> in_use (hm_data m ! i) \<or> holds m k i) (chain m k) = Some i"
    and "hm_tight m \<or> hm_lookup m k = None" and i': "i' < table_size m" "holds m k i'"
  shows "i' = i"
proof -
  obtain j where j: "j < 8" "i = place m k j" "i < table_size m" "\<not> in_use (hm_data m ! i) \<or> holds m k i"
    "\<And>j'. j' < j \<Longrightarrow> in_use (hm_data m ! place m k j') \<and> \<not> holds m k (place m k j')"
    using first_free [OF assms(1) f] by metis
  obtain j' where j': "j' < 8" "i' = place m k j'" using holds_in_chain [OF assms(1) i'] by blast
  have "hm_tight m" using assms(3) lookup_None [OF assms(1)] i' by blast
  then have "\<not> in_use (hm_data m ! i) \<Longrightarrow> \<not> j < j'" using i' j j' unfolding hm_tight_def by metis
  moreover have "\<not> j' < j" using j(5) j' i'(2) by blast
  moreover have "holds m k i \<Longrightarrow> i' = i" using assms(1) i' j(3) unfolding hm_wf_def by blast
  ultimately show ?thesis using j j' by (metis linorder_neqE_nat)
qed

lemma set_element_ok:
  assumes wf: "hm_wf m" and f: "find (\<lambda>i. \<not> in_use (hm_data m ! i) \<or> holds m k i) (chain m k) = Some i"
    and t: "hm_tight m \<or> hm_lookup m k = None"
  shows "hm_wf (set_element i k v m)" and "hm_lookup (set_element i k v m) = (hm_lookup m)(k \<mapsto> v)"
    and "hm_tight m \<Longrightarrow> hm_tight (set_element i k v m)"
proof -
  let ?m = "set_element i k v m"
  obtain j where j: "j < 8" "i = place m k j" "i < table_size m" "\<not> in_use (hm_data m ! i) \<or> holds m k i"
    "\<And>j'. j' < j \<Longrightarrow> in_use (hm_data m ! place m k j') \<and> \<not> holds m k (place m k j')"
    using first_free [OF wf f] by metis
  have il: "i < length (hm_data m)" using wf j(3) by (simp add: hm_wf_def)
  note sn = set_element_nth [OF il, of k v]
  have other: "holds m k' i \<Longrightarrow> k' = k" for k' using j(4) by (auto simp: holds_def)
  have only: "\<lbrakk>i' < table_size m; holds m k i'\<rbrakk> \<Longrightarrow> i' = i" for i' using free_is_only [OF wf f t] by blast
  have uniq: "\<lbrakk>i1 < table_size m; i2 < table_size m; holds m k' i1; holds m k' i2\<rbrakk> \<Longrightarrow> i1 = i2" for i1 i2 k'
    using wf unfolding hm_wf_def by blast
  show wf': "hm_wf ?m" unfolding hm_wf_def
  proof (intro conjI allI impI)
    fix i' assume i': "i' < table_size ?m" "in_use (hm_data ?m ! i')"
    show "\<exists>k'. holds ?m k' i' \<and> i' \<in> set (chain ?m k')"
    proof (cases "i' = i")
      case True
      then show ?thesis using sn(1) j(1,2) by (auto simp: in_chain)
    next
      case False
      then obtain k' where "holds m k' i'" "i' \<in> set (chain m k')" using wf i' sn(2) unfolding hm_wf_def by auto
      then show ?thesis using sn(1) False by auto
    qed
  next
    fix k' i1 i2 assume "i1 < table_size ?m" "i2 < table_size ?m" "holds ?m k' i1" "holds ?m k' i2"
    then show "i1 = i2" unfolding sn(1) set_element_simps by (metis only uniq)
  next
    show "int (used ?m) \<le> hm_size ?m" using wf il by (intro set_element_used) (simp_all add: hm_wf_def)
  qed (use wf in \<open>simp_all add: hm_wf_def\<close>)
  show "hm_lookup ?m = (hm_lookup m)(k \<mapsto> v)"
  proof
    fix k'
    show "hm_lookup ?m k' = ((hm_lookup m)(k \<mapsto> v)) k'"
    proof (cases "k' = k")
      case True
      have "holds ?m k i" "el_data (hm_data ?m ! i) = v" using sn(1,3) by simp_all
      then have "hm_lookup ?m k = Some v" using lookup_iff [OF wf'] j(3) by auto
      then show ?thesis using True by simp
    next
      case False
      have "holds ?m k' i' = holds m k' i'" for i' using False other sn(1) by auto
      moreover have "holds m k' i' \<Longrightarrow> el_data (hm_data ?m ! i') = el_data (hm_data m ! i')" for i'
        using False other sn(3) by auto
      ultimately have "hm_lookup ?m k' = Some w \<longleftrightarrow> hm_lookup m k' = Some w" for w
        using lookup_iff [OF wf'] lookup_iff [OF wf] by auto
      then have "hm_lookup ?m k' = hm_lookup m k'" by (metis option.exhaust)
      then show ?thesis using False by simp
    qed
  qed
  show "hm_tight ?m" if "hm_tight m"
    unfolding hm_tight_def
  proof (intro allI impI)
    fix k' j1 j2 assume jj: "j1 < (8 :: nat)" "j2 < j1" "holds ?m k' (place ?m k' j1)"
    show "in_use (hm_data ?m ! place ?m k' j2)"
    proof (cases "place m k' j1 = i")
      case True
      then have "k' = k" using jj(3) sn(1) by simp
      then have "j1 = j" using True j(1,2) jj(1) place_inject [of m j1 j k] wf by (simp add: hm_wf_def)
      then show ?thesis using j(5) jj(2) \<open>k' = k\<close> sn(2) by simp
    next
      case False
      then have "holds m k' (place m k' j1)" using jj(3) sn(1) by simp
      then have "in_use (hm_data m ! place m k' j2)" using that jj(1,2) unfolding hm_tight_def by blast
      then show ?thesis using sn(2) by simp
    qed
  qed
qed

section \<open>Growing\<close>

definition entries :: "'a hashmap_element list \<Rightarrow> (bytes \<times> 'a any_t) list" where
  "entries es = map (\<lambda>e. (the (el_key e), el_data e)) (filter in_use es)"

lemma distinct_filter_nth:
  "(\<And>i j. i < length xs \<Longrightarrow> j < length xs \<Longrightarrow> P (xs ! i) \<Longrightarrow> P (xs ! j) \<Longrightarrow> f (xs ! i) = f (xs ! j) \<Longrightarrow> i = j) \<Longrightarrow>
   distinct (map f (filter P xs))"
proof (induction xs)
  case (Cons x xs)
  have "distinct (map f (filter P xs))"
    by (rule Cons.IH) (use Cons.prems [of "Suc _" "Suc _"] in auto)
  moreover have "f x \<notin> f ` {y \<in> set xs. P y}" if "P x"
    using Cons.prems [of 0 "Suc _"] that by (auto simp: in_set_conv_nth)
  ultimately show ?case by auto
qed simp

lemma entries_distinct:
  assumes "hm_wf m"
  shows "distinct (map fst (entries (hm_data m)))"
proof -
  have h: "i < table_size m \<Longrightarrow> holds m k i \<longleftrightarrow> in_use (hm_data m ! i) \<and> the (el_key (hm_data m ! i)) = k" for i k
    using assms by (auto simp: hm_wf_def holds_def)
  have len: "length (hm_data m) = table_size m" using assms by (simp add: hm_wf_def)
  have "distinct (map (\<lambda>e. the (el_key e)) (filter in_use (hm_data m)))"
    by (rule distinct_filter_nth) (use assms h len in \<open>metis hm_wf_def\<close>)
  then show ?thesis by (simp add: entries_def comp_def)
qed

lemma lookup_entries:
  assumes "hm_wf m"
  shows "hm_lookup m = map_of (rev (entries (hm_data m)))"
proof
  fix k
  have h: "i < table_size m \<Longrightarrow> holds m k i \<longleftrightarrow> in_use (hm_data m ! i) \<and> the (el_key (hm_data m ! i)) = k" for i k
    using assms by (auto simp: hm_wf_def holds_def)
  have len: "length (hm_data m) = table_size m" using assms by (simp add: hm_wf_def)
  have "distinct (map fst (rev (entries (hm_data m))))" using entries_distinct [OF assms] by (simp add: rev_map [symmetric])
  then have "map_of (rev (entries (hm_data m))) k = Some v \<longleftrightarrow> (k, v) \<in> set (entries (hm_data m))" for v
    by (simp add: map_of_eq_Some_iff)
  also have "(k, v) \<in> set (entries (hm_data m)) \<longleftrightarrow> hm_lookup m k = Some v" for v
    unfolding lookup_iff [OF assms] by (auto simp: entries_def in_set_conv_nth h len)
  finally show "hm_lookup m k = map_of (rev (entries (hm_data m))) k" by (metis option.exhaust)
qed

lemma map_upd_add: "(a(k \<mapsto> v)) ++ map_of (rev xs) = a ++ map_of (rev ((k, v) # xs))"
  by (rule ext) (simp add: map_add_def split: option.split)

lemma reinsert_ok:
  assumes "\<And>k v m m'. put k v m = Some (MAP_OK, m') \<Longrightarrow> hm_wf m \<Longrightarrow> hm_tight m \<Longrightarrow>
      hm_wf m' \<and> hm_tight m' \<and> hm_lookup m' = (hm_lookup m)(k \<mapsto> v)"
  shows "reinsert put es m = Some (MAP_OK, m') \<Longrightarrow> hm_wf m \<Longrightarrow> hm_tight m \<Longrightarrow>
    hm_wf m' \<and> hm_tight m' \<and> hm_lookup m' = hm_lookup m ++ map_of (rev (entries es))"
proof (induction es arbitrary: m)
  case (Cons e es)
  show ?case
  proof (cases "in_use e")
    case True
    then obtain m1 where m1: "put (the (el_key e)) (el_data e) m = Some (MAP_OK, m1)" "reinsert put es m1 = Some (MAP_OK, m')"
      using Cons.prems(1) by (auto split: option.splits if_splits)
    have s1: "hm_wf m1 \<and> hm_tight m1 \<and> hm_lookup m1 = (hm_lookup m)(the (el_key e) \<mapsto> el_data e)"
      by (rule assms [OF m1(1) Cons.prems(2,3)])
    have "entries (e # es) = (the (el_key e), el_data e) # entries es" using True by (simp add: entries_def)
    then show ?thesis using Cons.IH [OF m1(2)] s1 map_upd_add [of "hm_lookup m"] by metis
  qed (use Cons in \<open>simp add: entries_def\<close>)
qed (simp add: entries_def)

lemma rehash_ok:
  assumes "rehash_with put m = Some (MAP_OK, m')" and "hm_wf m"
    and "\<And>k v m m'. put k v m = Some (MAP_OK, m') \<Longrightarrow> hm_wf m \<Longrightarrow> hm_tight m \<Longrightarrow>
      hm_wf m' \<and> hm_tight m' \<and> hm_lookup m' = (hm_lookup m)(k \<mapsto> v)"
  shows "hm_wf m' \<and> hm_tight m' \<and> hm_lookup m' = hm_lookup m"
proof -
  obtain m1 where m1: "reinsert put (hm_data m) m1 = Some (MAP_OK, m')" "hm_data m1 = replicate (table_size m1) blank"
    "table_size m1 = 2 * table_size m" "2 * table_size m < 2 ^ 31" "hm_size m1 = 0"
    using assms(1) by (auto simp: rehash_with_def hm_calloc_def Let_def MAP_OK_def MAP_OMEM_def split: if_splits)
  have "256 \<le> table_size m1" using assms(2) m1(3) by (simp add: hm_wf_def)
  with hm_empty [OF m1(2)] m1(3-5) have e: "hm_wf m1" "hm_tight m1" "hm_lookup m1 = Map.empty" by simp_all
  show ?thesis using reinsert_ok [OF assms(3) m1(1) e(1,2)] e(3) lookup_entries [OF assms(2)] by simp
qed

text \<open>Insertion ends with \<open>MAP_OK\<close> or \<open>MAP_OMEM\<close>, within the fuel that the size of the array leaves.\<close>

definition returns :: "(int \<times> 'a hashmap_map) option \<Rightarrow> nat \<Rightarrow> bool" where
  "returns r ts \<longleftrightarrow> (\<exists>st m'. r = Some (st, m') \<and> (st = MAP_OK \<or> st = MAP_OMEM) \<and> ts \<le> table_size m' \<and> table_size m' < 2 ^ 31)"

lemma reinsert_returns:
  assumes "\<And>k v m. ts \<le> table_size m \<Longrightarrow> table_size m < 2 ^ 31 \<Longrightarrow> returns (put k v m) (table_size m)"
    and "ts \<le> table_size m" and "table_size m < 2 ^ 31"
  shows "returns (reinsert put es m) ts"
  using assms(2,3)
proof (induction es arbitrary: m)
  case (Cons e es)
  show ?case
  proof (cases "in_use e")
    case True
    obtain st m1 where m1: "put (the (el_key e)) (el_data e) m = Some (st, m1)" "st = MAP_OK \<or> st = MAP_OMEM"
      "table_size m \<le> table_size m1" "table_size m1 < 2 ^ 31"
      using assms(1) [OF Cons.prems] unfolding returns_def by blast
    moreover have "ts \<le> table_size m1" using m1(3) Cons.prems(1) by simp
    ultimately show ?thesis using Cons.IH [of m1] True by (auto simp: returns_def MAP_OK_def MAP_OMEM_def)
  qed (use Cons in simp)
qed (simp add: returns_def)

lemma put_fuel_returns:
  "0 < table_size m \<Longrightarrow> table_size m < 2 ^ 31 \<Longrightarrow> 2 ^ 31 \<le> table_size m * 2 ^ n \<Longrightarrow>
   returns (put_fuel n k v m) (table_size m)"
proof (induction n arbitrary: k v m)
  case (Suc n)
  show ?case
  proof (cases "hashmap_hash k m")
    case None
    show ?thesis
    proof (cases "2 * table_size m < 2 ^ 31 \<and> hm_mem m 0")
      case True
      have ih: "returns (put_fuel n k' v' m2) (table_size m2)" if "2 * table_size m \<le> table_size m2" "table_size m2 < 2 ^ 31"
        for k' and v' :: "'a any_t" and m2
      proof (rule Suc.IH)
        have "2 * table_size m * 2 ^ n \<le> table_size m2 * 2 ^ n" using that(1) by (rule mult_right_mono) simp
        moreover have "2 ^ 31 \<le> 2 * table_size m * 2 ^ n" using Suc.prems(3) by (simp add: mult.commute mult.left_commute)
        ultimately show "2 ^ 31 \<le> table_size m2 * 2 ^ n" by (rule order_trans [rotated])
      qed (use that Suc.prems in simp_all)
      have "returns (rehash_with (put_fuel n) m) (2 * table_size m)"
        using True unfolding rehash_with_def hm_calloc_def by (simp, intro reinsert_returns ih) simp_all
      then obtain st m1 where m1: "rehash_with (put_fuel n) m = Some (st, m1)" "st = MAP_OK \<or> st = MAP_OMEM"
        "2 * table_size m \<le> table_size m1" "table_size m1 < 2 ^ 31" unfolding returns_def by blast
      with ih [OF m1(3,4), of k v] None show ?thesis by (auto simp: returns_def MAP_OK_def MAP_OMEM_def)
    next
      case False
      then show ?thesis using None Suc.prems by (auto simp: rehash_with_def hm_calloc_def returns_def)
    qed
  qed (use Suc.prems in \<open>simp add: returns_def\<close>)
qed simp

text \<open>The same statuses whatever the fuel.\<close>

lemma reinsert_status:
  assumes "\<And>k v m st m'. put k v m = Some (st, m') \<Longrightarrow> st = MAP_OK \<or> st = MAP_OMEM"
  shows "reinsert put es m = Some (st, m') \<Longrightarrow> st = MAP_OK \<or> st = MAP_OMEM"
proof (induction es arbitrary: m)
  case (Cons e es)
  then show ?case by (auto split: if_splits option.splits dest: assms)
qed simp

lemma put_fuel_status: "put_fuel n k v m = Some (st, m') \<Longrightarrow> st = MAP_OK \<or> st = MAP_OMEM"
proof (induction n arbitrary: k v m st m')
  case (Suc n)
  from Suc.prems show ?case by (auto split: option.splits if_splits dest: Suc.IH)
qed simp

lemma rehash_status: "rehash_with (put_fuel n) m = Some (st, m') \<Longrightarrow> st = MAP_OK \<or> st = MAP_OMEM"
  by (auto simp: rehash_with_def hm_calloc_def split: if_splits dest: reinsert_status [rotated] put_fuel_status)

lemma put_fuel_ok:
  "put_fuel n k v m = Some (MAP_OK, m') \<Longrightarrow> hm_wf m \<Longrightarrow> hm_tight m \<or> hm_lookup m k = None \<Longrightarrow>
   hm_wf m' \<and> hm_lookup m' = (hm_lookup m)(k \<mapsto> v) \<and> (hm_tight m \<longrightarrow> hm_tight m')"
proof (induction n arbitrary: k v m m')
  case (Suc n)
  have pos: "0 < table_size m" using Suc.prems(2) by (simp add: hm_wf_def)
  show ?case
  proof (cases "hashmap_hash k m")
    case None
    then obtain m1 st where m1: "rehash_with (put_fuel n) m = Some (st, m1)" "put_fuel n k v m1 = Some (MAP_OK, m')" "st \<noteq> MAP_OMEM"
      using Suc.prems(1) by (auto simp: MAP_OK_def MAP_OMEM_def split: option.splits if_splits)
    then have "rehash_with (put_fuel n) m = Some (MAP_OK, m1)" using rehash_status by blast
    from rehash_ok [OF this Suc.prems(2)] Suc.IH have "hm_wf m1 \<and> hm_tight m1 \<and> hm_lookup m1 = hm_lookup m" by blast
    then show ?thesis using Suc.IH [OF m1(2)] by simp
  next
    case (Some i)
    then have f: "find (\<lambda>i. \<not> in_use (hm_data m ! i) \<or> holds m k i) (chain m k) = Some i"
      using chain_probe(1) [OF pos] by (simp add: hashmap_hash_def split: if_splits)
    have "m' = set_element i k v m" using Suc.prems(1) Some by simp
    then show ?thesis using set_element_ok [OF Suc.prems(2) f Suc.prems(3)] by simp
  qed
qed simp

section \<open>Removal\<close>

lemma remove_ok:
  assumes wf: "hm_wf m" and r: "libp2p_hashmap_remove k m = (st, m')"
  shows "hm_wf m'" and "hm_lookup m' = (hm_lookup m)(k := None)" and "st = (if hm_lookup m k = None then MAP_MISSING else MAP_OK)"
proof -
  have pos: "0 < table_size m" using wf by (simp add: hm_wf_def)
  have "hm_wf m' \<and> hm_lookup m' = (hm_lookup m)(k := None) \<and> st = (if hm_lookup m k = None then MAP_MISSING else MAP_OK)"
  proof (cases "find (holds m k) (chain m k)")
    case None
    then show ?thesis using wf r chain_probe(2) [OF pos, of k] by (auto simp: libp2p_hashmap_remove_def hm_lookup_def)
  next
    case (Some i)
    then have i: "holds m k i" "i < table_size m" using chain_less [OF pos] nth_mem by (fastforce simp: find_Some_iff)+
    have m': "m' = m\<lparr>hm_data := (hm_data m)[i := blank], hm_size := hm_size m - 1\<rparr>" and st: "st = MAP_OK"
      using r Some chain_probe(2) [OF pos, of k] by (simp_all add: libp2p_hashmap_remove_def)
    have ch: "table_size m' = table_size m" "chain m' = chain m" "length (hm_data m') = length (hm_data m)"
      by (simp_all add: m' fun_eq_iff chain_def place_def hashmap_hash_int_def)
    have nth: "hm_data m' ! i' = (if i' = i then blank else hm_data m ! i')" if "i' < table_size m" for i'
      using that wf by (simp add: m' hm_wf_def nth_list_update)
    then have h: "holds m' k' i' \<longleftrightarrow> i' \<noteq> i \<and> holds m k' i'" if "i' < table_size m" for i' k'
      using that by (simp add: holds_def blank_def)
    have wf': "hm_wf m'" unfolding hm_wf_def ch
    proof (intro conjI allI impI)
      fix i' assume i': "i' < table_size m" "in_use (hm_data m' ! i')"
      then have "i' \<noteq> i" "in_use (hm_data m ! i')" using nth by (auto simp: blank_def split: if_splits)
      then show "\<exists>k'. holds m' k' i' \<and> i' \<in> set (chain m k')" using h i'(1) wf unfolding hm_wf_def by auto
    next
      fix k' i1 i2 assume "i1 < table_size m" "i2 < table_size m" "holds m' k' i1" "holds m' k' i2"
      then show "i1 = i2" using h wf unfolding hm_wf_def by blast
    next
      show "int (used m') \<le> hm_size m'"
        using filter_update [of i "hm_data m" in_use blank] i wf by (simp add: used_def m' hm_wf_def holds_def blank_def)
    qed (use wf in \<open>simp_all add: hm_wf_def\<close>)
    have "hm_lookup m' k' = Some v \<longleftrightarrow> k' \<noteq> k \<and> hm_lookup m k' = Some v" for k' v
    proof -
      have "holds m' k' i' \<longleftrightarrow> k' \<noteq> k \<and> holds m k' i'" if "i' < table_size m" for i'
        using h [OF that] i that wf holds_key [of m k i k'] unfolding hm_wf_def by blast
      moreover have "holds m' k' i' \<Longrightarrow> hm_data m' ! i' = hm_data m ! i'" if "i' < table_size m" for i'
        using h [OF that] nth [OF that] by simp
      ultimately show ?thesis unfolding lookup_iff [OF wf'] lookup_iff [OF wf] ch by auto
    qed
    then have "hm_lookup m' = (hm_lookup m)(k := None)" by (intro ext) (metis fun_upd_apply option.exhaust)
    moreover have "hm_lookup m k \<noteq> None" using Some by (simp add: hm_lookup_def)
    ultimately show ?thesis using wf' st by auto
  qed
  then show "hm_wf m'" and "hm_lookup m' = (hm_lookup m)(k := None)" and "st = (if hm_lookup m k = None then MAP_MISSING else MAP_OK)"
    by simp_all
qed

end
