(* ===== verification/Hashmap_Theorems.thy ===== *)
theory Hashmap_Theorems
  imports Hashmap_Laws
begin

text \<open>
  What the hash map promises, and where it does not keep it, with an instance of each statement.
\<close>

section \<open>Helpers\<close>

lemma new_map_ok:
  assumes "libp2p_libp2p_hashmap_new True True allocs = Some m"
  shows "hm_wf m" "hm_tight m" "hm_lookup m = Map.empty" "table_size m = 256" "hm_size m = 0" "hm_data m = replicate 256 blank"
proof -
  have m: "table_size m = 256" "hm_size m = 0" "hm_data m = replicate 256 blank"
    using assms by (auto simp: libp2p_libp2p_hashmap_new_def INITIAL_SIZE_def)
  then show "table_size m = 256" "hm_size m = 0" "hm_data m = replicate 256 blank" by simp_all
  show "hm_wf m" "hm_tight m" "hm_lookup m = Map.empty" using hm_empty [of m] m by simp_all
qed

lemma put_cases:
  assumes "hm_wf m"
  obtains m' where "libp2p_hashmap_put k v m = Some (MAP_OK, m')" | m' where "libp2p_hashmap_put k v m = Some (MAP_OMEM, m')"
proof -
  have "returns (put_fuel PUT_FUEL k v m) (table_size m)"
    by (rule put_fuel_returns) (use assms in \<open>simp_all add: hm_wf_def PUT_FUEL_def\<close>)
  then show ?thesis using that by (auto simp: returns_def libp2p_hashmap_put_def)
qed

lemmas put_ok = put_fuel_ok [of PUT_FUEL, folded libp2p_hashmap_put_def]

lemma put_at:
  assumes "hashmap_hash k m = Some i"
  shows "libp2p_hashmap_put k v m = Some (MAP_OK, set_element i k v m)"
proof -
  have "put_fuel (Suc 23) k v m = Some (MAP_OK, set_element i k v m)" unfolding put_fuel.simps using assms by simp
  then show ?thesis by (simp add: libp2p_hashmap_put_def PUT_FUEL_def)
qed

lemma wf_get: "hm_wf m \<Longrightarrow> libp2p_hashmap_get k m = (case hm_lookup m k of Some v \<Rightarrow> (MAP_OK, v) | None \<Rightarrow> (MAP_MISSING, None))"
  by (rule get_lookup) (simp add: hm_wf_def)

lemma wf_get_OK: "hm_wf m \<Longrightarrow> fst (libp2p_hashmap_get k m) = MAP_OK \<longleftrightarrow> hm_lookup m k \<noteq> None"
  by (auto simp: wf_get MAP_OK_def MAP_MISSING_def split: option.splits)

lemma used_card: "length (hm_data m) = table_size m \<Longrightarrow> used m = card {i. i < table_size m \<and> in_use (hm_data m ! i)}"
  by (simp add: used_def length_filter_conv_card)

text \<open>A place is free while there are fewer than eight elements.\<close>

lemma put_room:
  assumes wf: "hm_wf m" and "hm_size m < 8" and "hm_lookup m k = None"
  shows "\<exists>m'. libp2p_hashmap_put k v m = Some (MAP_OK, m') \<and> hm_size m' = hm_size m + 1"
proof -
  have ts: "256 \<le> table_size m" "length (hm_data m) = table_size m" using wf by (auto simp: hm_wf_def)
  have "distinct (map (place m k) [0..<8])"
    using place_inject [of m _ _ k] ts by (auto simp: distinct_map inj_on_def)
  then have "card (set (chain m k)) = 8" using distinct_card by (fastforce simp: chain_def MAX_CHAIN_LENGTH_def)
  moreover have "set (chain m k) \<subseteq> {..<table_size m}" using chain_less [of m _ k] ts by auto
  moreover have "card {i. i < table_size m \<and> in_use (hm_data m ! i)} < 8"
    using used_card [OF ts(2)] wf assms(2) by (simp add: hm_wf_def)
  ultimately have "\<not> (\<forall>i \<in> set (chain m k). in_use (hm_data m ! i))"
    using card_mono [of "{i. i < table_size m \<and> in_use (hm_data m ! i)}" "set (chain m k)"] by auto
  then obtain i where i: "find (\<lambda>i. \<not> in_use (hm_data m ! i) \<or> holds m k i) (chain m k) = Some i"
    by (metis (mono_tags, lifting) find_None_iff not_Some_eq)
  have "hm_size m < int (table_size m div 2)" using assms(2) ts by linarith
  then have "hashmap_hash k m = Some i" using i chain_probe(1) [of m k] ts by (simp add: hashmap_hash_def)
  then show ?thesis by (simp add: put_at set_element_def)
qed

section \<open>The map as a machine\<close>

text \<open>Beside the map runs the finite map it stands for, and whether anything was removed so far. A key that is
  present may be stored again only before the first removal.\<close>

inductive hm_step :: "'a hashmap_map \<times> (bytes \<rightharpoonup> 'a any_t) \<times> bool \<Rightarrow> 'a hashmap_map \<times> (bytes \<rightharpoonup> 'a any_t) \<times> bool \<Rightarrow> bool" where
  Put: "libp2p_hashmap_put k v m = Some (MAP_OK, m') \<Longrightarrow> \<not> removed \<or> a k = None \<Longrightarrow>
    hm_step (m, a, removed) (m', a(k \<mapsto> v), removed)"
| Remove: "libp2p_hashmap_remove k m = (st, m') \<Longrightarrow> hm_step (m, a, removed) (m', a(k := None), True)"

inductive_cases hm_stepE: "hm_step s s'"

definition hm_init :: "'a hashmap_map \<times> (bytes \<rightharpoonup> 'a any_t) \<times> bool \<Rightarrow> bool" where
  "hm_init s \<longleftrightarrow> (\<exists>allocs. libp2p_libp2p_hashmap_new True True allocs = Some (fst s)) \<and> snd s = (Map.empty, False)"

definition hm_inv :: "'a hashmap_map \<times> (bytes \<rightharpoonup> 'a any_t) \<times> bool \<Rightarrow> bool" where
  "hm_inv = (\<lambda>(m, a, removed). hm_wf m \<and> hm_lookup m = a \<and> (\<not> removed \<longrightarrow> hm_tight m))"

interpretation hm_machine: invariant_machine hm_init hm_step hm_inv
proof unfold_locales
  fix s :: "'a hashmap_map \<times> (bytes \<rightharpoonup> 'a any_t) \<times> bool"
  assume "hm_init s"
  then show "hm_inv s" by (cases s) (auto simp: hm_init_def hm_inv_def new_map_ok)
next
  fix s s' :: "'a hashmap_map \<times> (bytes \<rightharpoonup> 'a any_t) \<times> bool"
  assume inv: "hm_inv s" and "hm_step s s'"
  from this(2) show "hm_inv s'"
  proof cases
    case (Put k v m m' removed a)
    then show ?thesis using inv put_ok [OF Put(3)] by (auto simp: hm_inv_def)
  next
    case (Remove k m st m' a removed)
    then show ?thesis using inv remove_ok [OF _ Remove(3)] by (auto simp: hm_inv_def)
  qed
qed

lemma iterate_entries:
  "iterate_loop (\<lambda>d s. (MAP_OK, g d s)) es s = (MAP_OK, fold g (map snd (entries es)) s)"
  by (induction es arbitrary: s) (simp_all add: entries_def)

lemma wf_iterate:
  assumes "hm_wf m"
  shows "\<exists>ks. distinct ks \<and> set ks = dom (hm_lookup m) \<and>
    snd (libp2p_hashmap_iterate m (\<lambda>d s. (MAP_OK, g d s)) s) = fold g (map (\<lambda>k. the (hm_lookup m k)) ks) s"
proof -
  let ?es = "entries (hm_data m)"
  have d: "distinct (map fst ?es)" by (rule entries_distinct [OF assms])
  have l: "hm_lookup m = map_of (rev ?es)" by (rule lookup_entries [OF assms])
  have "map (\<lambda>k. the (hm_lookup m k)) (map fst ?es) = map snd ?es"
    using d by (auto simp: l rev_map [symmetric] distinct_map map_of_eq_Some_iff)
  moreover have "set (map fst ?es) = dom (hm_lookup m)" by (simp add: l dom_map_of_conv_image_fst)
  moreover have "?es = []" if "hm_size m \<le> 0"
  proof -
    have "int (used m) \<le> 0" using assms that by (simp add: hm_wf_def)
    then show ?thesis by (simp add: used_def entries_def)
  qed
  ultimately show ?thesis using d
    by (intro exI [of _ "map fst ?es"]) (auto simp: libp2p_hashmap_iterate_def libp2p_hashmap_length_def iterate_entries simp del: map_map)
qed

lemma filled_map:
  "distinct ks \<Longrightarrow> length ks \<le> 8 \<Longrightarrow>
   \<exists>m :: 'a hashmap_map. hm_wf m \<and> hm_size m = int (length ks) \<and> dom (hm_lookup m) = set ks"
proof (induction ks)
  case Nil
  obtain m :: "'a hashmap_map" where "libp2p_libp2p_hashmap_new True True (\<lambda>_. True) = Some m"
    by (simp add: libp2p_libp2p_hashmap_new_def)
  with new_map_ok [OF this] show ?case by auto
next
  case (Cons k ks)
  then obtain m :: "'a hashmap_map" where m: "hm_wf m" "hm_size m = int (length ks)" "dom (hm_lookup m) = set ks" by auto
  have "hm_size m < 8" "hm_lookup m k = None" using m Cons.prems by (auto simp: domIff)
  from put_room [OF m(1) this, of None] obtain m' where m': "libp2p_hashmap_put k None m = Some (MAP_OK, m')" "hm_size m' = hm_size m + 1"
    by blast
  from put_ok [OF m'(1) m(1)] \<open>hm_lookup m k = None\<close> have "hm_wf m'" and l: "hm_lookup m' = (hm_lookup m)(k \<mapsto> None)" by auto
  moreover have "dom (hm_lookup m') = set (k # ks)" unfolding l using m(3) by simp
  moreover have "hm_size m' = int (length (k # ks))" using m(2) m'(2) by simp
  ultimately show ?case by blast
qed

text \<open>The first two places of a key.\<close>

lemma probes:
  "\<not> in_use (hm_data m ! i) \<Longrightarrow> hash_probe MAX_CHAIN_LENGTH k i m = Some i"
  "in_use (hm_data m ! i) \<Longrightarrow> \<not> holds m k i \<Longrightarrow> \<not> in_use (hm_data m ! (Suc i mod table_size m)) \<Longrightarrow>
    hash_probe MAX_CHAIN_LENGTH k i m = Some (Suc i mod table_size m)"
  "holds m k i \<Longrightarrow> key_probe MAX_CHAIN_LENGTH k i m = Some i"
  "\<not> holds m k i \<Longrightarrow> holds m k (Suc i mod table_size m) \<Longrightarrow> key_probe MAX_CHAIN_LENGTH k i m = Some (Suc i mod table_size m)"
proof -
  have p: "MAX_CHAIN_LENGTH = Suc (Suc 6)" by (simp add: MAX_CHAIN_LENGTH_def)
  show "\<not> in_use (hm_data m ! i) \<Longrightarrow> hash_probe MAX_CHAIN_LENGTH k i m = Some i"
    "in_use (hm_data m ! i) \<Longrightarrow> \<not> holds m k i \<Longrightarrow> \<not> in_use (hm_data m ! (Suc i mod table_size m)) \<Longrightarrow>
      hash_probe MAX_CHAIN_LENGTH k i m = Some (Suc i mod table_size m)"
    "holds m k i \<Longrightarrow> key_probe MAX_CHAIN_LENGTH k i m = Some i"
    "\<not> holds m k i \<Longrightarrow> holds m k (Suc i mod table_size m) \<Longrightarrow> key_probe MAX_CHAIN_LENGTH k i m = Some (Suc i mod table_size m)"
    unfolding p hash_probe.simps key_probe.simps by simp_all
qed

section \<open>Properties\<close>

text \<open>C25. \<open>libp2p_hashmap_put\<close> on a well-formed map always returns, with success or out of memory. After success
  of a key that the map does not have, or of any key while the map is tight (no entry has a free slot in front of it in its chain, as when nothing was removed), a lookup of the key gives
  the value and every other lookup is as before, however often the array has grown on the way. Storing a key again after a removal is left out: a second
  entry may be made in front of the old one, which a later removal or growth can bring back.\<close>

theorem put_correct:
  assumes "hm_wf m"
  shows "\<exists>st m'. libp2p_hashmap_put k v m = Some (st, m') \<and> (st = MAP_OK \<or> st = MAP_OMEM) \<and>
    (st = MAP_OK \<and> (hm_tight m \<or> libp2p_hashmap_get k m = (MAP_MISSING, None)) \<longrightarrow>
      hm_wf m' \<and> (\<forall>k'. libp2p_hashmap_get k' m' = (if k' = k then (MAP_OK, v) else libp2p_hashmap_get k' m)))"
proof (cases rule: put_cases [OF assms, of k v])
  case (1 m')
  have "hm_wf m' \<and> (\<forall>k'. libp2p_hashmap_get k' m' = (if k' = k then (MAP_OK, v) else libp2p_hashmap_get k' m))"
    if "hm_tight m \<or> libp2p_hashmap_get k m = (MAP_MISSING, None)"
  proof -
    have "hm_tight m \<or> hm_lookup m k = None"
      using that assms by (auto simp: wf_get MAP_OK_def MAP_MISSING_def split: option.splits)
    from put_ok [OF 1 assms this] show ?thesis using assms by (simp add: wf_get)
  qed
  then show ?thesis using 1 by blast
qed (auto simp: MAP_OK_def MAP_OMEM_def)

theorem put_correct_witness:
  "\<exists>m m'. libp2p_libp2p_hashmap_new True True (\<lambda>_. True) = Some m \<and> libp2p_hashmap_put [104] (Some (7 :: nat)) m = Some (MAP_OK, m') \<and>
     libp2p_hashmap_get [104] m' = (MAP_OK, Some 7) \<and> libp2p_hashmap_get [105] m' = (MAP_MISSING, None)"
proof -
  obtain m :: "nat hashmap_map" where m: "libp2p_libp2p_hashmap_new True True (\<lambda>_. True) = Some m"
    by (simp add: libp2p_libp2p_hashmap_new_def)
  note n = new_map_ok [OF m]
  obtain m' where m': "libp2p_hashmap_put [104] (Some 7) m = Some (MAP_OK, m')" using put_room [OF n(1)] n by fastforce
  show ?thesis using put_correct [OF n(1), of "[104]" "Some 7"] m m' n by (auto simp: wf_get)
qed

text \<open>C26. After any sequence of successful insertions and removals on a new map, where a key that is present is stored
  again only before the first removal, the map answers like the finite map the sequence stands for: lookups find exactly what it holds, removal
  succeeds exactly on its keys, and iteration visits every key once.\<close>

theorem map_refined:
  assumes "libp2p_libp2p_hashmap_new True True allocs = Some m0" and "hm_step\<^sup>*\<^sup>* (m0, Map.empty, False) (m, a, removed)"
  shows "(\<forall>k. libp2p_hashmap_get k m = (case a k of Some v \<Rightarrow> (MAP_OK, v) | None \<Rightarrow> (MAP_MISSING, None))) \<and>
    (\<forall>k. fst (libp2p_hashmap_remove k m) = MAP_OK \<longleftrightarrow> a k \<noteq> None) \<and>
    (\<exists>ks. distinct ks \<and> set ks = dom a \<and>
      snd (libp2p_hashmap_iterate m (\<lambda>d s. (MAP_OK, g d s)) s) = fold g (map (\<lambda>k. the (a k)) ks) s)"
proof -
  have "hm_init (m0, Map.empty, False)" using assms(1) unfolding hm_init_def by auto
  from hm_machine.reachable_inv [OF this assms(2)] have wf: "hm_wf m" and a: "hm_lookup m = a" by (simp_all add: hm_inv_def)
  have "fst (libp2p_hashmap_remove k m) = MAP_OK \<longleftrightarrow> a k \<noteq> None" for k
    using remove_ok(3) [OF wf surjective_pairing, of k] a by (simp add: MAP_OK_def MAP_MISSING_def)
  then show ?thesis using wf_get [OF wf] wf_iterate [OF wf, of g s] a by simp
qed

theorem map_refined_witness:
  "\<exists>m0 m1 m2. libp2p_libp2p_hashmap_new True True (\<lambda>_. True) = Some m0 \<and> libp2p_hashmap_put [104] (Some (7 :: nat)) m0 = Some (MAP_OK, m1) \<and>
     libp2p_hashmap_remove [104] m1 = (MAP_OK, m2) \<and> libp2p_hashmap_get [104] m2 = (MAP_MISSING, None)"
proof -
  obtain m :: "nat hashmap_map" where m: "libp2p_libp2p_hashmap_new True True (\<lambda>_. True) = Some m"
    by (simp add: libp2p_libp2p_hashmap_new_def)
  note n = new_map_ok [OF m]
  obtain m1 where m1: "libp2p_hashmap_put [104] (Some 7) m = Some (MAP_OK, m1)" using put_room [OF n(1)] n by fastforce
  obtain st m2 where m2: "libp2p_hashmap_remove [104] m1 = (st, m2)" by fastforce
  have s1: "hm_step\<^sup>*\<^sup>* (m, Map.empty, False) (m1, [[104] \<mapsto> Some 7], False)" using hm_step.Put [OF m1] by auto
  have s2: "hm_step\<^sup>*\<^sup>* (m, Map.empty, False) (m2, [[104] \<mapsto> Some 7]([104] := None), True)"
    using s1 hm_step.Remove [OF m2] by (rule rtranclp.rtrancl_into_rtrancl)
  have "st = MAP_OK" using map_refined [OF m s1] m2 by (metis fst_conv fun_upd_same option.distinct(1))
  moreover have "libp2p_hashmap_get [104] m2 = (MAP_MISSING, None)" using map_refined [OF m s2, THEN conjunct1] by simp
  ultimately show ?thesis using m m1 m2 by blast
qed

text \<open>Removal followed by an insertion leaves a stale value behind. When two keys fall on the same place, the second one
  is stored at the next place; after the first is removed, storing the second again takes the freed place and
  keeps the old element, which a removal then brings back to light.\<close>

theorem stale_after_remove:
  assumes "libp2p_libp2p_hashmap_new True True allocs = Some m0" and "k1 \<noteq> k2" and "hashmap_hash_int m0 k1 = hashmap_hash_int m0 k2"
  shows "\<exists>m1 m2 m3 m4 m5. libp2p_hashmap_put k1 a m0 = Some (MAP_OK, m1) \<and> libp2p_hashmap_put k2 b m1 = Some (MAP_OK, m2) \<and>
    libp2p_hashmap_remove k1 m2 = (MAP_OK, m3) \<and> libp2p_hashmap_put k2 c m3 = Some (MAP_OK, m4) \<and>
    libp2p_hashmap_remove k2 m4 = (MAP_OK, m5) \<and> libp2p_hashmap_get k2 m5 = (MAP_OK, b)"
proof -
  note m0 = new_map_ok(4-6) [OF assms(1)]
  define h where "h = hashmap_hash_int m0 k2"
  have h: "h < 256" using hash_int_less [of m0 k2] m0(1) by (simp add: h_def)
  define h' where "h' = Suc h mod 256"
  have h': "h' < 256" "h' \<noteq> h" "h \<noteq> h'" using h by (auto simp: h'_def mod_Suc)
  have hi: "table_size m = 256 \<Longrightarrow> hashmap_hash_int m k1 = h \<and> hashmap_hash_int m k2 = h" for m :: "'a hashmap_map"
    using assms(3) m0(1) by (simp add: h_def hashmap_hash_int_def)
  let ?e = "\<lambda>k v. \<lparr>el_key = Some k, in_use = True, el_data = v\<rparr>" and ?d = "replicate 256 blank :: 'a hashmap_element list"
  let ?m = "\<lambda>d n. m0\<lparr>hm_data := d, hm_size := n\<rparr>"
  have m0': "m0 = ?m ?d 0" using m0 by simp
  have "?d[h := blank] = ?d" using h by (metis list_update_id nth_replicate)
  then have upd: "?d[h := x, h' := y, h := blank] = ?d[h' := y]" for x y
    using h'(3) by (metis list_update_swap list_update_overwrite)
  have "libp2p_hashmap_put k1 a m0 = Some (MAP_OK, ?m (?d[h := ?e k1 a]) 1)"
    using put_at [of k1 m0 h a] hi [of m0] h m0 by (simp add: hashmap_hash_def probes set_element_def blank_def)
  moreover have "libp2p_hashmap_put k2 b (?m (?d[h := ?e k1 a]) 1) = Some (MAP_OK, ?m (?d[h := ?e k1 a, h' := ?e k2 b]) 2)"
    using put_at [of k2 "?m (?d[h := ?e k1 a]) 1" h' b] hi [of "?m (?d[h := ?e k1 a]) 1"] h h' m0 assms(2)
    by (simp add: hashmap_hash_def probes set_element_def blank_def holds_def flip: h'_def)
  moreover have "libp2p_hashmap_remove k1 (?m (?d[h := ?e k1 a, h' := ?e k2 b]) 2) = (MAP_OK, ?m (?d[h' := ?e k2 b]) 1)"
    using hi [of "?m (?d[h := ?e k1 a, h' := ?e k2 b]) 2"] h h' m0
    by (simp add: libp2p_hashmap_remove_def probes holds_def upd)
  moreover have "libp2p_hashmap_put k2 c (?m (?d[h' := ?e k2 b]) 1) = Some (MAP_OK, ?m (?d[h' := ?e k2 b, h := ?e k2 c]) 2)"
    using put_at [of k2 "?m (?d[h' := ?e k2 b]) 1" h c] hi [of "?m (?d[h' := ?e k2 b]) 1"] h h' m0
    by (simp add: hashmap_hash_def probes set_element_def blank_def)
  moreover have "libp2p_hashmap_remove k2 (?m (?d[h' := ?e k2 b, h := ?e k2 c]) 2) = (MAP_OK, ?m (?d[h' := ?e k2 b, h := blank]) 1)"
    using hi [of "?m (?d[h' := ?e k2 b, h := ?e k2 c]) 2"] h h' m0
    by (simp add: libp2p_hashmap_remove_def probes holds_def)
  moreover have "libp2p_hashmap_get k2 (?m (?d[h' := ?e k2 b, h := blank]) 1) = (MAP_OK, b)"
    using hi [of "?m (?d[h' := ?e k2 b, h := blank]) 1"] h h' m0
    by (simp add: libp2p_hashmap_get_def probes blank_def holds_def flip: h'_def)
  ultimately show ?thesis by blast
qed

text \<open>Nine strings of five bytes with the same CRC-32.\<close>

definition colliding :: "bytes list" where
  "colliding = [[104, 101, 108, 108, 111], [253, 174, 11, 9, 239], [130, 3, 103, 179, 47], [29, 214, 233, 3, 79],
    [136, 29, 142, 102, 207], [247, 176, 226, 220, 15], [98, 123, 133, 185, 143], [242, 63, 22, 182, 127], [103, 244, 113, 211, 255]]"

lemma colliding_crc: "\<forall>k \<in> set colliding. crc32 k (length k mod 2 ^ 32) = 4029829531"
  unfolding colliding_def
  by (simp add: crc32_def crc32_loop_bits crc_byte_def crc_shift_8 crc_shift_eval)

lemma colliding_hash: "k \<in> set colliding \<Longrightarrow> k' \<in> set colliding \<Longrightarrow> hashmap_hash_int m k = hashmap_hash_int m k'"
  using colliding_crc by (simp add: hashmap_hash_int_def)

theorem stale_after_remove_witness:
  "\<exists>m0 m1 m2 m3 m4 m5. libp2p_libp2p_hashmap_new True True (\<lambda>_. True) = Some m0 \<and>
     libp2p_hashmap_put (colliding ! 0) (Some 1) m0 = Some (MAP_OK, m1) \<and> libp2p_hashmap_put (colliding ! 1) (Some (2 :: nat)) m1 = Some (MAP_OK, m2) \<and>
     libp2p_hashmap_remove (colliding ! 0) m2 = (MAP_OK, m3) \<and> libp2p_hashmap_put (colliding ! 1) (Some 3) m3 = Some (MAP_OK, m4) \<and>
     libp2p_hashmap_remove (colliding ! 1) m4 = (MAP_OK, m5) \<and> libp2p_hashmap_get (colliding ! 1) m5 = (MAP_OK, Some 2)"
proof -
  obtain m :: "nat hashmap_map" where m: "libp2p_libp2p_hashmap_new True True (\<lambda>_. True) = Some m"
    by (simp add: libp2p_libp2p_hashmap_new_def)
  have "colliding ! 0 \<noteq> colliding ! 1" "hashmap_hash_int m (colliding ! 0) = hashmap_hash_int m (colliding ! 1)"
    by (simp add: colliding_def, rule colliding_hash, simp_all add: colliding_def)
  from stale_after_remove [OF m this] m show ?thesis by blast
qed

text \<open>A ninth key with the same CRC-32 as eight keys of the map cannot be stored, however much memory there
  is: every growth leaves the nine keys on the same eight places, until the size of the array leaves the range of \<open>int\<close>. The call returns,
  and reports that memory is exhausted.\<close>

theorem ninth_collision_fails:
  assumes "hm_wf m" and "distinct ks" and "length ks = 8" and "\<forall>k' \<in> set ks. fst (libp2p_hashmap_get k' m) = MAP_OK"
    and "\<forall>k' \<in> set ks. crc32 k' (length k' mod 2 ^ 32) = crc32 k (length k mod 2 ^ 32)"
    and "fst (libp2p_hashmap_get k m) = MAP_MISSING"
  shows "\<exists>m'. libp2p_hashmap_put k v m = Some (MAP_OMEM, m')"
proof (cases rule: put_cases [OF assms(1), of k v])
  case (1 m')
  have none: "hm_lookup m k = None" using assms(6) wf_get_OK [OF assms(1), of k] by (auto simp: MAP_OK_def MAP_MISSING_def)
  then have m': "hm_wf m'" and l: "hm_lookup m' = (hm_lookup m)(k \<mapsto> v)" using put_ok [OF 1 assms(1)] by simp_all
  have k: "k \<notin> set ks" using assms(1,4) none wf_get_OK by blast
  have "\<exists>i. holds m' k' i \<and> i \<in> set (chain m' k)" if "k' \<in> set (k # ks)" for k'
  proof -
    have "hm_lookup m' k' \<noteq> None" using that l assms(1,4) wf_get_OK by auto
    then obtain i where i: "i < table_size m'" "holds m' k' i" using lookup_None [OF m', of k'] by auto
    have "hashmap_hash_int m' k' = hashmap_hash_int m' k" using that assms(5) by (auto simp: hashmap_hash_int_def)
    then have "chain m' k' = chain m' k" by (simp add: chain_def place_def [abs_def])
    then show ?thesis using holds_in_chain [OF m' i] i(2) in_chain by metis
  qed
  then obtain f where f: "\<And>k'. k' \<in> set (k # ks) \<Longrightarrow> holds m' k' (f k') \<and> f k' \<in> set (chain m' k)" by metis
  then have "inj_on f (set (k # ks))" using holds_key unfolding inj_on_def by metis
  then have "card (set (k # ks)) \<le> card (set (chain m' k))" using f by (intro card_inj_on_le [of f]) auto
  also have "\<dots> \<le> 8" using card_length [of "chain m' k"] by (simp add: chain_def MAX_CHAIN_LENGTH_def)
  finally show ?thesis using assms(2,3) k by (simp add: distinct_card)
qed blast

theorem ninth_collision_fails_witness:
  "\<exists>m m' :: nat hashmap_map. (\<forall>k \<in> set (take 8 colliding). fst (libp2p_hashmap_get k m) = MAP_OK) \<and>
     libp2p_hashmap_put (colliding ! 8) (Some 9) m = Some (MAP_OMEM, m')"
proof -
  let ?ks = "take 8 colliding" and ?k = "colliding ! 8"
  have d: "distinct ?ks" "length ?ks = 8" "?k \<notin> set ?ks" "?k \<in> set colliding" "set ?ks \<subseteq> set colliding"
    by (simp_all add: colliding_def)
  obtain m :: "nat hashmap_map" where m: "hm_wf m" "dom (hm_lookup m) = set ?ks" using filled_map [of ?ks] d(1,2) by auto
  have ok: "\<forall>k' \<in> set ?ks. fst (libp2p_hashmap_get k' m) = MAP_OK" using m wf_get_OK by blast
  have "hm_lookup m ?k = None" using m(2) d(3) by blast
  then have "fst (libp2p_hashmap_get ?k m) = MAP_MISSING" by (simp add: wf_get [OF m(1)])
  moreover have "\<forall>k' \<in> set ?ks. crc32 k' (length k' mod 2 ^ 32) = crc32 ?k (length ?k mod 2 ^ 32)"
    using colliding_crc d(4,5) by (metis subsetD)
  ultimately show ?thesis using ninth_collision_fails [OF m(1) d(1,2) ok] ok by blast
qed

text \<open>C27. The table-driven \<open>crc32\<close> computes what the comment above its table says: the division by the polynomial, bit by bit. Every
  entry of the table is the result of eight steps of the shift register.\<close>

theorem crc32_is_division:
  "crc32 s len = foldl crc_byte 0 (take len s) \<and> crc32_tab = map (\<lambda>i. (crc_shift ^^ 8) (of_nat i)) [0..<256]"
proof
  show "crc32 s len = foldl crc_byte 0 (take len s)" by (simp add: crc32_def crc32_loop_bits)
  show "crc32_tab = map (\<lambda>i. (crc_shift ^^ 8) (of_nat i)) [0..<256]"
    using crc32_tab_terms by (intro nth_equalityI) (simp_all add: crc_terms_def)
qed

end
