(* ===== verification/Sha1.thy ===== *)
theory Sha1
  imports Prelude
begin

text \<open>
  \<open>src/crypto/sha1.c\<close> on a little-endian machine, as it is compiled (without \<open>SHA1HANDSOFF\<close>). The working copy of a
  block is the memory of the block itself, seen through a union as sixteen words: hashing overwrites the buffer of the
  context and, from its second block on, the data of the caller. So each operation returns what it leaves there.
\<close>

record sha1_ctx =
  sha_state :: "32 word list"
  sha_count0 :: "32 word"
  sha_count1 :: "32 word"
  sha_buffer :: bytes

definition SHA1_DIGEST_SIZE :: nat where "SHA1_DIGEST_SIZE = 20"

definition rol :: "32 word \<Rightarrow> nat \<Rightarrow> 32 word" where
  "rol value bits = push_bit bits value OR drop_bit (32 - bits) value"

text \<open>The union: four bytes of memory as a word, and back.\<close>

definition le_word :: "byte \<Rightarrow> byte \<Rightarrow> byte \<Rightarrow> byte \<Rightarrow> 32 word" where
  "le_word b0 b1 b2 b3 = ucast b0 OR push_bit 8 (ucast b1) OR push_bit 16 (ucast b2) OR push_bit 24 (ucast b3)"

definition block_words :: "bytes \<Rightarrow> 32 word list" where
  "block_words c = map (\<lambda>i. le_word (c ! (4 * i)) (c ! (4 * i + 1)) (c ! (4 * i + 2)) (c ! (4 * i + 3))) [0..<16]"

definition le_bytes :: "32 word \<Rightarrow> bytes" where
  "le_bytes w = [ucast w, ucast (drop_bit 8 w), ucast (drop_bit 16 w), ucast (drop_bit 24 w)]"

definition block_bytes :: "32 word list \<Rightarrow> bytes" where
  "block_bytes l = concat (map le_bytes l)"

text \<open>The assignments \<open>blk0\<close> and \<open>blk\<close>: the new schedule, of which the value is entry \<open>i AND 15\<close>.\<close>

definition blk0 :: "32 word list \<Rightarrow> nat \<Rightarrow> 32 word list" where
  "blk0 l i = l[i := (rol (l ! i) 24 AND 0xFF00FF00) OR (rol (l ! i) 8 AND 0x00FF00FF)]"

definition blk :: "32 word list \<Rightarrow> nat \<Rightarrow> 32 word list" where
  "blk l i = l[i AND 15 := rol (l ! ((i + 13) AND 15) XOR l ! ((i + 8) AND 15) XOR l ! ((i + 2) AND 15) XOR l ! (i AND 15)) 1]"

text \<open>The five macros \<open>R0\<close> to \<open>R4\<close> on the round's \<open>v, w, x, y, z\<close>: what is added to \<open>z\<close> besides the schedule and
  \<open>rol(v,5)\<close>.\<close>

definition round_mix :: "nat \<Rightarrow> 32 word \<Rightarrow> 32 word \<Rightarrow> 32 word \<Rightarrow> 32 word" where
  "round_mix i w x y =
     (if i < 20 then ((w AND (x XOR y)) XOR y) + 0x5A827999
      else if i < 40 then (w XOR x XOR y) + 0x6ED9EBA1
      else if i < 60 then (((w OR x) AND y) OR (w AND x)) + 0x8F1BBCDC
      else (w XOR x XOR y) + 0xCA62C1D6)"

text \<open>Round \<open>i\<close> of the unrolled sequence. The arguments of the macros rotate through \<open>a, b, c, d, e\<close> by one place to
  the left each round: in round \<open>i\<close> the \<open>j\<close>-th of them is variable \<open>4i + j\<close> modulo five.\<close>

definition sha1_round :: "nat \<Rightarrow> 32 word list \<times> 32 word list \<Rightarrow> 32 word list \<times> 32 word list" where
  "sha1_round i = (\<lambda>(vs, l).
     let v = vs ! (4 * i mod 5); w = vs ! ((4 * i + 1) mod 5); x = vs ! ((4 * i + 2) mod 5);
         y = vs ! ((4 * i + 3) mod 5); z = vs ! ((4 * i + 4) mod 5);
         l1 = (if i < 16 then blk0 l i else blk l i)
     in (vs[(4 * i + 4) mod 5 := z + (round_mix i w x y + l1 ! (i AND 15) + rol v 5), (4 * i + 1) mod 5 := rol w 30], l1))"

text \<open>The state and the 64 bytes at \<open>buffer\<close> afterwards.\<close>

definition SHA1_Transform :: "32 word list \<Rightarrow> bytes \<Rightarrow> 32 word list \<times> bytes" where
  "SHA1_Transform state buffer =
     (let (vs, l) = fold sha1_round [0..<80] (state, block_words buffer)
      in (map2 (+) state vs, block_bytes l))"

definition SHA1_Init :: "sha1_ctx \<Rightarrow> sha1_ctx" where
  "SHA1_Init context = context\<lparr>sha_state := [0x67452301, 0xEFCDAB89, 0x98BADCFE, 0x10325476, 0xC3D2E1F0],
     sha_count0 := 0, sha_count1 := 0\<rparr>"

text \<open>The loop on the caller's full blocks: the state, the memory of the blocks afterwards and the rest of the data.\<close>

function sha1_blocks :: "32 word list \<Rightarrow> bytes \<Rightarrow> 32 word list \<times> bytes \<times> bytes" where
  "sha1_blocks state data =
     (if 63 < length data then
        let (state1, b) = SHA1_Transform state (take 64 data);
            (state2, bs, rest) = sha1_blocks state1 (drop 64 data)
        in (state2, b @ bs, rest)
      else (state, [], data))"
  by pat_completeness auto
termination by (relation "measure (\<lambda>(state, data). length data)") auto

declare sha1_blocks.simps [simp del]

text \<open>The bit count: \<open>context->count[0]\<close> has 32 bits and \<open>len << 3\<close> has 64, so the comparison is one of 64 bits.\<close>

definition sha1_count :: "sha1_ctx \<Rightarrow> nat \<Rightarrow> sha1_ctx" where
  "sha1_count context n =
     (let len = of_nat n :: 64 word;
          count0 = sha_count0 context + ucast (push_bit 3 len);
          count1 = (if ucast count0 < push_bit 3 len then sha_count1 context + 1 else sha_count1 context)
      in context\<lparr>sha_count0 := count0, sha_count1 := count1 + ucast (drop_bit 29 len)\<rparr>)"

definition copy_at :: "bytes \<Rightarrow> nat \<Rightarrow> bytes \<Rightarrow> bytes" where
  "copy_at buf j d = take j buf @ d @ drop (j + length d) buf"

text \<open>The context and the memory of the data.\<close>

definition SHA1_Update :: "sha1_ctx \<Rightarrow> bytes \<Rightarrow> sha1_ctx \<times> bytes" where
  "SHA1_Update context data =
     (let j = unat (drop_bit 3 (sha_count0 context) AND 63);
          context = sha1_count context (length data)
      in if j + length data > 63 then
           let i = 64 - j;
               (state1, buffer1) = SHA1_Transform (sha_state context) (copy_at (sha_buffer context) j (take i data));
               (state2, blocks, rest) = sha1_blocks state1 (drop i data)
           in (context\<lparr>sha_state := state2, sha_buffer := copy_at buffer1 0 rest\<rparr>, take i data @ blocks @ rest)
         else (context\<lparr>sha_buffer := copy_at (sha_buffer context) j data\<rparr>, data))"

lemma sha1_count_fields [simp]: "sha_state (sha1_count ctx n) = sha_state ctx" "sha_buffer (sha1_count ctx n) = sha_buffer ctx"
  "sha_count0 (sha1_count ctx n) = sha_count0 ctx + ucast (push_bit 3 (of_nat n :: 64 word))"
  by (simp_all add: sha1_count_def Let_def)

lemma update_count [simp]: "sha_count0 (fst (SHA1_Update ctx d)) = sha_count0 (sha1_count ctx (length d))"
    "sha_count1 (fst (SHA1_Update ctx d)) = sha_count1 (sha1_count ctx (length d))"
  by (simp_all add: SHA1_Update_def Let_def split: prod.split)

text \<open>How many zero bytes the padding loop still appends.\<close>

definition pad_left :: "32 word \<Rightarrow> nat" where
  "pad_left c = (120 - unat c div 8 mod 64) mod 64"

lemma and_63: "c AND 63 = take_bit 6 (c :: 32 word)"
  by (simp add: take_bit_eq_mask mask_numeral)

lemma count_bits: "unat (drop_bit 3 (c :: 32 word) AND 63) = unat c div 8 mod 64"
proof -
  have "unat (drop_bit 3 c) = unat c div 8" by (simp only: unat_drop_bit_eq) (simp add: drop_bit_eq_div)
  then show ?thesis by (simp add: and_63 take_bit_eq_mod unat_mod_distrib)
qed

lemma div_mod_words: "n mod 4294967296 div 8 mod 64 = n div 8 mod (64 :: nat)"
proof -
  have "n mod (8 * 536870912) div 8 = n div 8 mod 536870912" by (simp only: mod_mult2_eq)
  then have "n mod 4294967296 div 8 = n div 8 mod 536870912" by simp
  moreover have "n div 8 mod 536870912 mod 64 = n div 8 mod 64" by (rule mod_mod_cancel) simp
  ultimately show ?thesis by simp
qed

lemma pad_stop: "c AND 504 = 448 \<longleftrightarrow> pad_left c = 0"
proof -
  have "c AND push_bit 3 (mask 6) = push_bit 3 (take_bit 6 (drop_bit 3 c))" by (rule bit_word_eqI) (auto simp: bit_simps)
  then have m: "c AND 504 = push_bit 3 (drop_bit 3 c AND 63)" by (simp only: and_63) (simp add: mask_numeral)
  have d: "drop_bit 3 (c AND 504) = drop_bit 3 c AND 63" by simp
  have "c AND 504 = 448 \<longleftrightarrow> drop_bit 3 c AND 63 = 56"
  proof
    assume "c AND 504 = 448"
    then show "drop_bit 3 c AND 63 = 56" using d by simp
  qed (simp only: m, simp)
  also have "\<dots> \<longleftrightarrow> unat c div 8 mod 64 = 56" by (simp only: word_unat_eq_iff count_bits) simp
  also have "\<dots> \<longleftrightarrow> pad_left c = 0" using mod_less_divisor [of 64 "unat c div 8"] by (auto simp: pad_left_def mod_if [of "120 - _"])
  finally show ?thesis .
qed

lemma pad_step:
  assumes "pad_left c \<noteq> 0"
  shows "pad_left (c + 8) = pad_left c - 1"
proof -
  have "unat (c + 8) = (unat c + 8) mod 4294967296" by (simp add: unat_word_ariths)
  moreover have "(unat c + 8) div 8 = Suc (unat c div 8)" by simp
  ultimately have u: "unat (c + 8) div 8 mod 64 = Suc (unat c div 8) mod 64" using div_mod_words [of "unat c + 8"] by (simp only:)
  define k where "k = unat c div 8 mod 64"
  have k: "k < 64" "Suc (unat c div 8) mod 64 = Suc k mod 64" by (simp_all add: k_def mod_Suc_eq)
  have lo: "(120 - n) mod 64 = 56 - n" if "n \<le> 56" for n :: nat using that mod_add_self2 [of "56 - n" 64] by simp
  have "(120 - Suc k mod 64) mod 64 = (120 - k) mod 64 - 1" if "(120 - k) mod 64 \<noteq> 0"
  proof (cases "k \<le> 56")
    case True
    then show ?thesis using that lo [of k] lo [of "Suc k"] by (cases "k = 56") simp_all
  next
    case False
    then show ?thesis using k(1) lo [of 0] by (cases "k = 63") simp_all
  qed
  then show ?thesis using assms by (simp add: pad_left_def u k(2) flip: k_def)
qed

function sha1_pad_loop :: "sha1_ctx \<Rightarrow> sha1_ctx" where
  "sha1_pad_loop context =
     (if sha_count0 context AND 504 \<noteq> 448 then sha1_pad_loop (fst (SHA1_Update context [0])) else context)"
  by pat_completeness auto
termination
  by (relation "measure (\<lambda>context. pad_left (sha_count0 context))") (auto simp: pad_stop pad_step)

declare sha1_pad_loop.simps [simp del]

definition finalcount :: "sha1_ctx \<Rightarrow> bytes" where
  "finalcount context =
     map (\<lambda>i. ucast (drop_bit ((3 - (i AND 3)) * 8) (if i \<ge> 4 then sha_count0 context else sha_count1 context) AND 255)) [0..<8]"

text \<open>The digest and the wiped context.\<close>

definition SHA1_Final :: "sha1_ctx \<Rightarrow> bytes \<times> sha1_ctx" where
  "SHA1_Final context =
     (let fc = finalcount context;
          c1 = fst (SHA1_Update context [0x80]);
          c2 = sha1_pad_loop c1;
          c3 = fst (SHA1_Update c2 fc);
          digest = map (\<lambda>i. ucast (drop_bit ((3 - (i AND 3)) * 8) (sha_state c3 ! (i div 4)) AND 255)) [0..<SHA1_DIGEST_SIZE]
      in (digest, c3\<lparr>sha_buffer := replicate 64 0, sha_state := replicate 5 0, sha_count0 := 0, sha_count1 := 0\<rparr>))"

text \<open>The returned number, the 20 bytes at \<open>output\<close> and what is left at \<open>input\<close>; \<open>junk\<close> is the uninitialised context.\<close>

definition libp2p_crypto_hashing_sha1 :: "sha1_ctx \<Rightarrow> bytes \<Rightarrow> int \<times> bytes \<times> bytes" where
  "libp2p_crypto_hashing_sha1 junk input =
     (let ctx = SHA1_Init junk;
          (ctx1, input1) = SHA1_Update ctx input;
          (output, _) = SHA1_Final ctx1
      in (40, output, input1))"

end
