(* ===== verification/Sha1_Fips.thy ===== *)
theory Sha1_Fips
  imports Sha1
begin

text \<open>
  SHA-1 as FIPS 180-4 has it, and the proof that \<open>src/crypto/sha1.c\<close> agrees with it on a block: the eighty unrolled
  rounds on renamed variables and a circular schedule of sixteen words, against the rounds of the standard and its
  schedule of eighty words.
\<close>

section \<open>SHA-1 of FIPS 180-4\<close>

definition be_word :: "bytes \<Rightarrow> 32 word" where
  "be_word bs = foldl (\<lambda>w b. push_bit 8 w OR ucast b) 0 bs"

definition be_bytes :: "32 word \<Rightarrow> bytes" where
  "be_bytes w = map (\<lambda>k. ucast (drop_bit (24 - 8 * k) w)) [0..<4]"

text \<open>The schedule: sixteen big-endian words of the block, then each next word the rotated sum of four earlier ones.\<close>

definition message_words :: "bytes \<Rightarrow> 32 word list" where
  "message_words b = map (\<lambda>t. be_word (take 4 (drop (4 * t) b))) [0..<16]"

definition schedule_next :: "32 word list \<Rightarrow> 32 word list" where
  "schedule_next W = (let t = length W in W @ [word_rotl 1 (W ! (t - 3) XOR W ! (t - 8) XOR W ! (t - 14) XOR W ! (t - 16))])"

definition schedule :: "bytes \<Rightarrow> 32 word list" where
  "schedule b = (schedule_next ^^ 64) (message_words b)"

definition fips_f :: "nat \<Rightarrow> 32 word \<Rightarrow> 32 word \<Rightarrow> 32 word \<Rightarrow> 32 word" where
  "fips_f t x y z =
     (if t < 20 then (x AND y) XOR (NOT x AND z)
      else if 40 \<le> t \<and> t < 60 then (x AND y) XOR (x AND z) XOR (y AND z)
      else x XOR y XOR z)"

definition fips_K :: "nat \<Rightarrow> 32 word" where
  "fips_K t = [0x5a827999, 0x6ed9eba1, 0x8f1bbcdc, 0xca62c1d6] ! (t div 20)"

fun fips_round :: "nat \<Rightarrow> 32 word \<Rightarrow> 32 word list \<Rightarrow> 32 word list" where
  "fips_round t Wt [a, b, c, d, e] = [word_rotl 5 a + fips_f t b c d + e + fips_K t + Wt, a, word_rotl 30 b, c, d]"
| "fips_round t Wt vs = vs"

definition compress :: "32 word list \<Rightarrow> bytes \<Rightarrow> 32 word list" where
  "compress H b = (let W = schedule b in map2 (+) H (fold (\<lambda>t. fips_round t (W ! t)) [0..<80] H))"

definition sha1_initial :: "32 word list" where
  "sha1_initial = [0x67452301, 0xefcdab89, 0x98badcfe, 0x10325476, 0xc3d2e1f0]"

text \<open>The hash value after the full blocks of a message, and the bytes left over.\<close>

function absorb :: "32 word list \<Rightarrow> bytes \<Rightarrow> 32 word list \<times> bytes" where
  "absorb H m = (if length m < 64 then (H, m) else absorb (compress H (take 64 m)) (drop 64 m))"
  by pat_completeness auto
termination by (relation "measure (\<lambda>(H, m). length m)") auto

declare absorb.simps [simp del]

text \<open>Padding with the number of bits \<open>l\<close> in the last eight bytes.\<close>

definition padded :: "bytes \<Rightarrow> 64 word \<Rightarrow> bytes" where
  "padded m l = m @ [0x80] @ replicate ((119 - length m mod 64) mod 64) 0 @ be_bytes (ucast (drop_bit 32 l)) @ be_bytes (ucast l)"

definition sha1_of :: "bytes \<Rightarrow> 64 word \<Rightarrow> bytes" where
  "sha1_of m l = concat (map be_bytes (fst (absorb sha1_initial (padded m l))))"

definition sha1 :: "bytes \<Rightarrow> bytes" where
  "sha1 m = sha1_of m (8 * of_nat (length m))"

section \<open>One block\<close>

lemma bit_rol: "0 < n \<Longrightarrow> n < 32 \<Longrightarrow> k < 32 \<Longrightarrow> bit (rol v n) k \<longleftrightarrow> bit v (if n \<le> k then k - n else 32 + k - n)"
  using bit_imp_le_length [of v "32 + k - n"] by (auto simp: rol_def bit_simps)

lemma rol_rotl:
  assumes "0 < n" and "n < 32"
  shows "rol v n = word_rotl n v"
proof (rule bit_word_eqI)
  fix k assume k: "k < LENGTH(32)"
  have "(k + 32 - n) mod 32 = (if n \<le> k then k - n else 32 + k - n)"
  proof (cases "n \<le> k")
    case True
    then have "k + 32 - n = (k - n) + 32" by simp
    then have "(k + 32 - n) mod 32 = (k - n) mod 32" by (simp only: mod_add_self2)
    then show ?thesis using True k by simp
  qed (use k in simp)
  moreover have "n mod 32 = n" using assms(2) by simp
  ultimately show "bit (rol v n) k = bit (word_rotl n v) k" using k assms bit_rol [of n k v] bit_word_rotl_iff [of n v k] by simp
qed

lemma round_mix_fips: "i < 80 \<Longrightarrow> round_mix i w x y = fips_f i w x y + fips_K i"
proof -
  assume i: "i < 80"
  have ch: "(w AND (x XOR y)) XOR y = (w AND x) XOR (NOT w AND y)"
    and maj: "((w OR x) AND y) OR (w AND x) = (w AND x) XOR (w AND y) XOR (x AND y)"
    by (rule bit_word_eqI; auto simp: bit_simps)+
  have "i div 20 = (if i < 20 then 0 else if i < 40 then 1 else if i < 60 then 2 else 3)" using i by (auto intro: div_nat_eqI)
  then show ?thesis using i by (simp add: round_mix_def fips_f_def fips_K_def ch maj)
qed

lemma be_word_4: "be_word [a, b, c, d] = ucast d OR push_bit 8 (ucast c) OR push_bit 16 (ucast b) OR push_bit 24 (ucast a)"
  by (rule bit_word_eqI) (auto simp: be_word_def bit_simps)

lemma swap_le_be: "(rol (le_word a b c d) 24 AND 0xFF00FF00) OR (rol (le_word a b c d) 8 AND 0x00FF00FF) = be_word [a, b, c, d]"
proof (rule bit_word_eqI)
  have m: "0xFF00FF00 = (push_bit 8 (mask 8) OR push_bit 24 (mask 8) :: 32 word)" "0x00FF00FF = (mask 8 OR push_bit 16 (mask 8) :: 32 word)"
    by (simp_all add: mask_numeral)
  fix k assume "k < LENGTH(32)"
  then have k: "k < 32" by simp
  have *: "bit (le_word a b c d) i \<longleftrightarrow> (if i < 8 then bit a i else if i < 16 then bit b (i - 8) else if i < 24 then bit c (i - 16) else bit d (i - 24))"
    if "i < 32" for i using that bit_imp_le_length [of a i] bit_imp_le_length [of b "i - 8"] bit_imp_le_length [of c "i - 16"]
    by (auto simp: le_word_def bit_simps)
  have **: "bit (be_word [a, b, c, d]) k \<longleftrightarrow> (if k < 8 then bit d k else if k < 16 then bit c (k - 8) else if k < 24 then bit b (k - 16) else bit a (k - 24))"
    using k bit_imp_le_length [of d k] bit_imp_le_length [of c "k - 8"] bit_imp_le_length [of b "k - 16"] by (auto simp: be_word_4 bit_simps)
  consider "k < 8" | "8 \<le> k" "k < 16" | "16 \<le> k" "k < 24" | "24 \<le> k" by linarith
  then show "bit ((rol (le_word a b c d) 24 AND 0xFF00FF00) OR (rol (le_word a b c d) 8 AND 0x00FF00FF)) k = bit (be_word [a, b, c, d]) k"
    unfolding m by cases (use k in \<open>auto simp: bit_or_iff bit_and_iff bit_push_bit_iff bit_mask_iff bit_rol * **\<close>)
qed

text \<open>The schedule of FIPS, entry by entry.\<close>

lemma length_message_words [simp]: "length (message_words b) = 16"
  by (simp add: message_words_def)

lemma length_schedule_upto [simp]: "length ((schedule_next ^^ n) W) = length W + n"
  by (induction n) (simp_all add: schedule_next_def Let_def)

lemma schedule_upto_nth: "k < length W + n \<Longrightarrow> (schedule_next ^^ (n + m)) W ! k = (schedule_next ^^ n) W ! k"
  by (induction m) (simp_all add: schedule_next_def Let_def nth_append)

lemma length_schedule [simp]: "length (schedule b) = 80"
  by (simp add: schedule_def)

lemma schedule_first: "t < 16 \<Longrightarrow> schedule b ! t = message_words b ! t"
  using schedule_upto_nth [of t "message_words b" 0 64] by (simp add: schedule_def)

lemma schedule_nth:
  assumes "16 \<le> t" and "t < 80"
  shows "schedule b ! t = word_rotl 1 (schedule b ! (t - 3) XOR schedule b ! (t - 8) XOR schedule b ! (t - 14) XOR schedule b ! (t - 16))"
proof -
  define S where "S n = (schedule_next ^^ n) (message_words b)" for n
  have S: "schedule b ! k = S n ! k" if "k < 16 + n" "n \<le> 64" for k n
    using schedule_upto_nth [of k "message_words b" n "64 - n"] that by (simp add: schedule_def S_def)
  have len: "length (S (t - 16)) = t" using assms by (simp add: S_def)
  have "S (Suc (t - 16)) = schedule_next (S (t - 16))" by (simp add: S_def)
  then have "S (Suc (t - 16)) ! t = word_rotl 1 (S (t - 16) ! (t - 3) XOR S (t - 16) ! (t - 8) XOR S (t - 16) ! (t - 14) XOR S (t - 16) ! (t - 16))"
    by (simp add: schedule_next_def len Let_def nth_append)
  moreover have "t < 16 + Suc (t - 16)" "Suc (t - 16) \<le> 64" "t - 16 \<le> 64" "t - 3 < 16 + (t - 16)" "t - 8 < 16 + (t - 16)"
    "t - 14 < 16 + (t - 16)" "t - 16 < 16 + (t - 16)" using assms by auto
  ultimately show ?thesis by (simp only: S)
qed

text \<open>The circular schedule before round \<open>i\<close>: the last sixteen entries, and the rest of the block as it was.\<close>

definition schedule_at :: "bytes \<Rightarrow> nat \<Rightarrow> 32 word list \<Rightarrow> bool" where
  "schedule_at b i l \<longleftrightarrow> length l = 16 \<and> (\<forall>t < i. i \<le> t + 16 \<longrightarrow> l ! (t mod 16) = schedule b ! t) \<and>
     (\<forall>t < 16. i \<le> t \<longrightarrow> l ! t = block_words b ! t)"

lemma and_15: "i AND 15 = i mod (16 :: nat)"
  using take_bit_eq_mask [of 4 i] by (simp add: take_bit_eq_mod mask_numeral)

lemma take_4:
  assumes "n + 4 \<le> length b"
  shows "take 4 (drop n b) = [b ! n, b ! (n + 1), b ! (n + 2), b ! (n + 3)]"
proof -
  have "drop n b = b ! n # b ! Suc n # b ! Suc (Suc n) # b ! Suc (Suc (Suc n)) # drop (Suc (Suc (Suc (Suc n)))) b"
    using assms by (simp add: Cons_nth_drop_Suc)
  then show ?thesis by (simp only:) (simp add: numeral_eq_Suc)
qed

lemma blk0_step:
  assumes "schedule_at b i l" and "i < 16" and "length b = 64"
  shows "schedule_at b (Suc i) (blk0 l i) \<and> blk0 l i ! (i AND 15) = schedule b ! i"
proof -
  have b4: "take 4 (drop (4 * i) b) = [b ! (4 * i), b ! (4 * i + 1), b ! (4 * i + 2), b ! (4 * i + 3)]"
    using assms(2,3) by (intro take_4) simp
  have "length l = 16" "l ! i = block_words b ! i" using assms by (auto simp: schedule_at_def)
  then have "blk0 l i = l[i := schedule b ! i]"
    using assms(2) swap_le_be b4 by (simp add: blk0_def schedule_first message_words_def block_words_def)
  then show ?thesis using assms(1,2) by (auto simp: schedule_at_def and_15 nth_list_update less_Suc_eq)
qed

lemma blk_step:
  assumes "schedule_at b i l" and "16 \<le> i" and "i < 80"
  shows "schedule_at b (Suc i) (blk l i) \<and> blk l i ! (i AND 15) = schedule b ! i"
proof -
  have l: "length l = 16" "\<And>t. t < i \<Longrightarrow> i \<le> t + 16 \<Longrightarrow> l ! (t mod 16) = schedule b ! t" using assms by (auto simp: schedule_at_def)
  have sub: "(i + (16 - k)) mod 16 = (i - k) mod 16" if "k \<le> 16" for k
  proof -
    have "i + (16 - k) = (i - k) + 16" using that assms(2) by simp
    then show ?thesis by (simp only: mod_add_self2)
  qed
  have e: "l ! ((i + (16 - k)) AND 15) = schedule b ! (i - k)" if "0 < k" "k \<le> 16" for k
    unfolding and_15 sub [OF that(2)] using l(2) [of "i - k"] assms(2) that by simp
  have e16: "i AND 15 = (i + (16 - 16)) AND 15" by simp
  have "l ! ((i + 13) AND 15) XOR l ! ((i + 8) AND 15) XOR l ! ((i + 2) AND 15) XOR l ! (i AND 15) =
      schedule b ! (i - 3) XOR schedule b ! (i - 8) XOR schedule b ! (i - 14) XOR schedule b ! (i - 16)"
    unfolding e16 using e [of 3] e [of 8] e [of 14] e [of 16] by simp
  then have "blk l i = l[i mod 16 := schedule b ! i]"
    unfolding blk_def schedule_nth [OF assms(2,3)] by (simp add: and_15 rol_rotl)
  moreover have "l[i mod 16 := schedule b ! i] ! (t mod 16) = schedule b ! t" if "t < Suc i" "Suc i \<le> t + 16" for t
  proof (cases "t = i")
    case False
    then have "i - t < 16" "0 < i - t" "t \<le> i" using that by simp_all
    then have "\<not> 16 dvd i - t" "t \<le> i" by (simp_all add: nat_dvd_not_less)
    then have "i mod 16 \<noteq> t mod 16" using mod_eq_dvd_iff_nat [of t i 16] by simp
    then show ?thesis using that False l(2) [of t] by simp
  qed (simp add: l(1))
  ultimately show ?thesis using assms(2) l(1) by (auto simp: schedule_at_def and_15)
qed

text \<open>The variables in the order of the standard before round \<open>i\<close>.\<close>

definition in_order :: "nat \<Rightarrow> 32 word list \<Rightarrow> 32 word list" where
  "in_order i vs = map (\<lambda>j. vs ! ((4 * i + j) mod 5)) [0, 1, 2, 3, 4]"

lemma index_mod: "4 * i mod 5 = c \<Longrightarrow> (4 * i + j) mod 5 = (c + j) mod (5 :: nat)" "4 * i mod 5 = c \<Longrightarrow> (4 * Suc i + j) mod 5 = (c + (4 + j)) mod (5 :: nat)"
  using mod_add_left_eq [of "4 * i" 5 j] mod_add_left_eq [of "4 * i" 5 "4 + j"] by (simp_all only: mult_Suc_right add_ac)

lemma in_order_index:
  assumes "4 * i mod 5 = c"
  shows "in_order i vs = map (\<lambda>j. vs ! ((c + j) mod 5)) [0, 1, 2, 3, 4]" "in_order (Suc i) vs = map (\<lambda>j. vs ! ((c + (4 + j)) mod 5)) [0, 1, 2, 3, 4]"
  by (simp_all only: in_order_def index_mod [OF assms])

lemma list_5: "length vs = 5 \<Longrightarrow> \<exists>p q r s t. vs = [p, q, r, s, t]"
  by (auto simp: length_Suc_conv numeral_eq_Suc)

lemma in_order_all:
  assumes "4 * i mod 5 = 0" and "length vs = 5"
  shows "in_order i vs = vs"
  using list_5 [OF assms(2)] unfolding in_order_index(1) [OF assms(1)] by auto

lemma sha1_round_index:
  assumes "4 * i mod 5 = c"
  shows "fst (sha1_round i (vs, l)) = vs[(c + 4) mod 5 := vs ! ((c + 4) mod 5) + (round_mix i (vs ! ((c + 1) mod 5)) (vs ! ((c + 2) mod 5)) (vs ! ((c + 3) mod 5)) +
      snd (sha1_round i (vs, l)) ! (i AND 15) + rol (vs ! c) 5), (c + 1) mod 5 := rol (vs ! ((c + 1) mod 5)) 30]"
  by (simp only: sha1_round_def index_mod [OF assms] assms Let_def split fst_conv snd_conv)

lemma round_step:
  assumes "length vs = 5" and "length b = 64" and "i < 80" and "schedule_at b i l"
  shows "\<exists>vs' l'. sha1_round i (vs, l) = (vs', l') \<and> length vs' = 5 \<and> schedule_at b (Suc i) l' \<and>
    in_order (Suc i) vs' = fips_round i (schedule b ! i) (in_order i vs)"
proof -
  define l1 where "l1 = snd (sha1_round i (vs, l))"
  have "l1 = (if i < 16 then blk0 l i else blk l i)" by (simp add: l1_def sha1_round_def Let_def)
  then have l1: "schedule_at b (Suc i) l1" "l1 ! (i AND 15) = schedule b ! i"
    using blk0_step [OF assms(4) _ assms(2)] blk_step [OF assms(4) _ assms(3)] by auto
  obtain p q r s t where vs: "vs = [p, q, r, s, t]" using list_5 [OF assms(1)] by blast
  define c where "c = 4 * i mod 5"
  have "c < 5" by (simp add: c_def)
  then consider "c = 0" | "c = 1" | "c = 2" | "c = 3" | "c = 4" by linarith
  then have "in_order (Suc i) (fst (sha1_round i (vs, l))) = fips_round i (schedule b ! i) (in_order i vs)"
    unfolding in_order_index [OF c_def [symmetric]] sha1_round_index [OF c_def [symmetric]] l1_def [symmetric] l1(2) round_mix_fips [OF assms(3)]
    by cases (simp_all add: vs rol_rotl add_ac)
  moreover have "length (fst (sha1_round i (vs, l))) = 5" using assms(1) by (simp add: sha1_round_def Let_def)
  ultimately show ?thesis using l1(1) by (metis prod.collapse l1_def)
qed

lemma rounds_fips:
  assumes "length H = 5" and "length b = 64" and "n \<le> 80"
  shows "\<exists>vs l. fold sha1_round [0..<n] (H, block_words b) = (vs, l) \<and> length vs = 5 \<and> schedule_at b n l \<and>
    in_order n vs = fold (\<lambda>t. fips_round t (schedule b ! t)) [0..<n] H"
  using assms(3)
proof (induction n)
  case 0
  then show ?case using assms(1) in_order_all [of 0 H] by (simp add: schedule_at_def block_words_def)
next
  case (Suc n)
  then obtain vs l where IH: "fold sha1_round [0..<n] (H, block_words b) = (vs, l)" "length vs = 5" "schedule_at b n l"
    "in_order n vs = fold (\<lambda>t. fips_round t (schedule b ! t)) [0..<n] H" by auto
  obtain vs' l' where st: "sha1_round n (vs, l) = (vs', l')" "length vs' = 5" "schedule_at b (Suc n) l'"
    "in_order (Suc n) vs' = fips_round n (schedule b ! n) (in_order n vs)"
    using round_step [OF IH(2) assms(2) _ IH(3)] Suc.prems by (auto simp: Suc_le_eq)
  have "fold sha1_round [0..<Suc n] (H, block_words b) = (vs', l')" using IH(1) st(1) by simp
  moreover have "in_order (Suc n) vs' = fold (\<lambda>t. fips_round t (schedule b ! t)) [0..<Suc n] H" using IH(4) st(4) by simp
  ultimately show ?case using st(2,3) by blast
qed

text \<open>What is left in the memory of a block: the last sixteen words of the schedule.\<close>

definition overwritten :: "bytes \<Rightarrow> bytes" where
  "overwritten b = block_bytes (drop 64 (schedule b))"

lemma transform_compress:
  assumes "length H = 5" and "length b = 64"
  shows "SHA1_Transform H b = (compress H b, overwritten b)"
proof -
  obtain vs l where r: "fold sha1_round [0..<80] (H, block_words b) = (vs, l)" "length vs = 5" "schedule_at b 80 l"
    "in_order 80 vs = fold (\<lambda>t. fips_round t (schedule b ! t)) [0..<80] H" using rounds_fips [OF assms order_refl] by blast
  have o: "in_order 80 vs = vs" by (rule in_order_all [OF _ r(2)]) simp
  have len: "length l = 16" and at: "\<And>t. t < 80 \<Longrightarrow> 80 \<le> t + 16 \<Longrightarrow> l ! (t mod 16) = schedule b ! t"
    using r(3) unfolding schedule_at_def by blast+
  have "l ! k = schedule b ! (64 + k)" if "k < 16" for k
  proof -
    have "(k + 16 * 4) mod 16 = k" using that by (simp only: mod_mult_self2 mod_less)
    moreover have "k + 16 * 4 = 64 + k" by simp
    ultimately have "(64 + k) mod 16 = k" by (simp only:)
    then show ?thesis using at [of "64 + k"] that by simp
  qed
  then have "l = drop 64 (schedule b)" by (intro nth_equalityI) (simp_all add: len)
  then show ?thesis unfolding SHA1_Transform_def compress_def overwritten_def Let_def r(1) split r(4) [symmetric] o by (rule arg_cong)
qed

end
