(* ===== verification/Sha1_Laws.thy ===== *)
theory Sha1_Laws
  imports Sha1_Fips
begin

text \<open>
  The running hash of \<open>src/crypto/sha1.c\<close> against the message cut into blocks: \<open>SHA1_Update\<close> keeps the hash of the full
  blocks and the rest in its buffer, whatever pieces the message comes in, and \<open>SHA1_Final\<close> pads.
\<close>

section \<open>The running hash\<close>

lemma length_fips_round [simp]: "length (fips_round t w vs) = length vs"
  by (cases "(t, w, vs)" rule: fips_round.cases) simp_all

lemma length_compress [simp]: "length (compress H b) = length H"
proof -
  have "length (fold (\<lambda>t. fips_round t (W t)) ts H) = length H" for ts W by (induction ts arbitrary: H) simp_all
  then show ?thesis by (simp only: compress_def Let_def length_map length_zip min.idem)
qed

lemma absorb_short: "length m < 64 \<Longrightarrow> absorb H m = (H, m)"
  by (simp add: absorb.simps)

lemma absorb_block: "length b = 64 \<Longrightarrow> absorb H (b @ m) = absorb (compress H b) m"
  by (simp add: absorb.simps [of H "b @ m"])

lemma absorb_length: "length H = 5 \<Longrightarrow> length (fst (absorb H m)) = 5 \<and> length (snd (absorb H m)) = length m mod 64"
proof (induction H m rule: absorb.induct)
  case (1 H m)
  then show ?case by (cases "length m < 64") (simp_all add: absorb.simps [of H m] le_mod_geq)
qed

lemma absorb_append: "absorb H (m @ d) = (case absorb H m of (H', r) \<Rightarrow> absorb H' (r @ d))"
proof (induction H m rule: absorb.induct)
  case (1 H m)
  then show ?case by (cases "length m < 64") (simp_all add: absorb.simps [of H m] absorb.simps [of H "m @ d"])
qed

text \<open>The memory of the blocks the loop has hashed.\<close>

function trampled :: "bytes \<Rightarrow> bytes" where
  "trampled d = (if length d < 64 then d else overwritten (take 64 d) @ trampled (drop 64 d))"
  by pat_completeness auto
termination by (relation "measure length") auto

declare trampled.simps [simp del]

lemma blocks_absorb:
  "length H = 5 \<Longrightarrow> \<exists>bs. sha1_blocks H d = (fst (absorb H d), bs, snd (absorb H d)) \<and> bs @ snd (absorb H d) = trampled d"
proof (induction H d rule: absorb.induct)
  case (1 H d)
  show ?case
  proof (cases "length d < 64")
    case False
    then obtain bs where "sha1_blocks (compress H (take 64 d)) (drop 64 d) = (fst (absorb H d), bs, snd (absorb H d))"
      "bs @ snd (absorb H d) = trampled (drop 64 d)" using 1 by (auto simp: absorb.simps [of H d])
    then show ?thesis using False transform_compress [OF "1.prems", of "take 64 d"]
      by (auto simp: sha1_blocks.simps [of H d] trampled.simps [of d])
  qed (simp add: sha1_blocks.simps [of H d] absorb.simps [of H d] trampled.simps [of d])
qed

definition counted :: "32 word \<Rightarrow> nat \<Rightarrow> bool" where
  "counted c n \<longleftrightarrow> unat c div 8 mod 64 = n mod 64"

definition absorbed :: "sha1_ctx \<Rightarrow> bytes \<Rightarrow> bool" where
  "absorbed ctx m \<longleftrightarrow> length (sha_state ctx) = 5 \<and> length (sha_buffer ctx) = 64 \<and>
     counted (sha_count0 ctx) (length m) \<and>
     absorb sha1_initial m = (sha_state ctx, take (length m mod 64) (sha_buffer ctx))"

lemma ucast_of_nat_64: "(ucast (of_nat k :: 64 word) :: 32 word) = of_nat k"
proof -
  have "k mod 2 ^ 64 mod 2 ^ 32 = k mod (2 ^ 32 :: nat)" by (rule mod_mod_cancel) simp
  then show ?thesis by (simp add: word_unat_eq_iff unsigned_ucast_eq unat_of_nat take_bit_eq_mod)
qed

lemma count_step: "unat (c + ucast (push_bit 3 (of_nat n :: 64 word)) :: 32 word) = (unat c + 8 * n) mod 2 ^ 32"
proof -
  have "push_bit 3 (of_nat n :: 64 word) = of_nat (8 * n)" by (simp add: push_bit_eq_mult)
  then have "(ucast (push_bit 3 (of_nat n :: 64 word)) :: 32 word) = of_nat (8 * n)" using ucast_of_nat_64 by metis
  then show ?thesis by (simp only: unat_word_ariths unat_of_nat) (simp add: mod_add_right_eq)
qed

lemma count_step_index: "unat (c + ucast (push_bit 3 (of_nat n :: 64 word)) :: 32 word) div 8 mod 64 = (unat c div 8 mod 64 + n) mod 64"
proof -
  have "(unat c + 8 * n) div 8 = unat c div 8 + n" by simp
  then show ?thesis using div_mod_words [of "unat c + 8 * n"] by (simp add: count_step mod_add_left_eq mod_add_right_eq add.commute)
qed

text \<open>Whatever the pieces are, the context holds the hash of the whole message so far.\<close>

lemma length_overwritten [simp]: "length (overwritten b) = 64"
proof -
  have "length (block_bytes l) = 4 * length l" for l by (induction l) (simp_all add: block_bytes_def le_bytes_def)
  then show ?thesis by (simp add: overwritten_def)
qed

lemma update_short:
  assumes "unat (drop_bit 3 (sha_count0 ctx) AND 63) = j" and "j + length d \<le> 63"
  shows "SHA1_Update ctx d = ((sha1_count ctx (length d))\<lparr>sha_buffer := copy_at (sha_buffer ctx) j d\<rparr>, d)"
  using assms by (simp add: SHA1_Update_def Let_def)

lemma update_long:
  assumes "unat (drop_bit 3 (sha_count0 ctx) AND 63) = j" and "j + length d > 63" and "j < 64" and "length (sha_state ctx) = 5"
    and "length (sha_buffer ctx) = 64" and "b = take j (sha_buffer ctx) @ take (64 - j) d"
    and "absorb (compress (sha_state ctx) b) (drop (64 - j) d) = (H, r)"
  shows "SHA1_Update ctx d = ((sha1_count ctx (length d))\<lparr>sha_state := H, sha_buffer := r @ drop (length r) (overwritten b)\<rparr>,
    take (64 - j) d @ trampled (drop (64 - j) d))"
proof -
  have "copy_at (sha_buffer ctx) j (take (64 - j) d) = b" "length b = 64" using assms(2,3,5,6) by (simp_all add: copy_at_def)
  moreover have "SHA1_Transform (sha_state ctx) b = (compress (sha_state ctx) b, overwritten b)"
    using transform_compress assms(4) calculation(2) .
  moreover obtain bs where "sha1_blocks (compress (sha_state ctx) b) (drop (64 - j) d) = (H, bs, r)" "bs @ r = trampled (drop (64 - j) d)"
    using blocks_absorb [of "compress (sha_state ctx) b" "drop (64 - j) d"] assms(4,7) by auto
  ultimately show ?thesis using assms(1,2) by (simp add: SHA1_Update_def Let_def copy_at_def)
qed

lemma update_absorbed:
  assumes "absorbed ctx m"
  shows "absorbed (fst (SHA1_Update ctx d)) (m @ d)"
    and "snd (SHA1_Update ctx d) = (let i = 64 - length m mod 64 in if length d < i then d else take i d @ trampled (drop i d))"
proof -
  define j where "j = length m mod 64"
  have ctx: "length (sha_state ctx) = 5" "length (sha_buffer ctx) = 64" "unat (drop_bit 3 (sha_count0 ctx) AND 63) = j"
    "absorb sha1_initial m = (sha_state ctx, take j (sha_buffer ctx))" using assms by (simp_all only: absorbed_def counted_def count_bits j_def)
  have j: "j < 64" by (simp add: j_def)
  have "counted (sha_count0 ctx) (length m)" using assms by (simp only: absorbed_def)
  then have c: "counted (sha_count0 (sha1_count ctx (length d))) (length (m @ d))"
    by (simp only: counted_def sha1_count_fields count_step_index mod_add_left_eq length_append)
  have a: "absorb sha1_initial (m @ d) = absorb (sha_state ctx) (take j (sha_buffer ctx) @ d)" by (subst absorb_append) (simp add: ctx(4))
  have l: "length (m @ d) mod 64 = (j + length d) mod 64" by (simp only: j_def mod_add_left_eq length_append)
  have "absorbed (fst (SHA1_Update ctx d)) (m @ d) \<and>
      snd (SHA1_Update ctx d) = (let i = 64 - j in if length d < i then d else take i d @ trampled (drop i d))"
  proof (cases "j + length d > 63")
    case False
    then have "length (m @ d) mod 64 = j + length d" using l by simp
    moreover have "length d < 64 - j" using False by simp
    ultimately show ?thesis using False c a ctx(1,2) j update_short [OF ctx(3), of d]
      by (simp add: absorbed_def copy_at_def absorb_short Let_def)
  next
    case True
    define b where "b = take j (sha_buffer ctx) @ take (64 - j) d"
    have b: "length b = 64" using True ctx(2) j by (simp add: b_def)
    obtain H r where r: "absorb (compress (sha_state ctx) b) (drop (64 - j) d) = (H, r)" by (rule prod.exhaust)
    have "take j (sha_buffer ctx) @ d = b @ drop (64 - j) d" by (simp add: b_def)
    then have a': "absorb sha1_initial (m @ d) = (H, r)" using a b r by (simp add: absorb_block)
    have "length sha1_initial = 5" by (simp add: sha1_initial_def)
    then have "length H = 5" "length r = length (m @ d) mod 64" using absorb_length [of sha1_initial "m @ d"] unfolding a' by simp_all
    moreover have "\<not> length d < 64 - j" using True by simp
    ultimately show ?thesis using c a' True j update_long [OF ctx(3) True j ctx(1,2) b_def r]
      by (simp add: absorbed_def Let_def)
  qed
  then show "absorbed (fst (SHA1_Update ctx d)) (m @ d)"
    and "snd (SHA1_Update ctx d) = (let i = 64 - length m mod 64 in if length d < i then d else take i d @ trampled (drop i d))"
    unfolding j_def by blast+
qed

section \<open>The padding\<close>

lemma init_absorbed: "length (sha_buffer ctx) = 64 \<Longrightarrow> absorbed (SHA1_Init ctx) []"
  by (simp add: absorbed_def counted_def SHA1_Init_def sha1_initial_def absorb_short)

lemma pad_loop_absorbed:
  "absorbed ctx m \<Longrightarrow> absorbed (sha1_pad_loop ctx) (m @ replicate (pad_left (sha_count0 ctx)) 0)"
proof (induction ctx arbitrary: m rule: sha1_pad_loop.induct)
  case (1 ctx)
  show ?case
  proof (cases "pad_left (sha_count0 ctx)")
    case (Suc k)
    have "pad_left (sha_count0 (fst (SHA1_Update ctx [0]))) = k" using pad_step [of "sha_count0 ctx"] Suc by simp
    then show ?thesis using "1.IH" [OF _ update_absorbed(1) [OF "1.prems", of "[0]"]] Suc
      by (simp add: pad_stop sha1_pad_loop.simps [of ctx] replicate_app_Cons_same)
  qed (use 1 in \<open>simp add: pad_stop sha1_pad_loop.simps [of ctx]\<close>)
qed

lemma length_be_bytes [simp]: "length (be_bytes w) = 4"
  by (simp add: be_bytes_def)

lemma byte_and_255: "(ucast (w AND 255 :: 32 word) :: byte) = ucast w"
proof -
  have "w AND 255 = take_bit 8 w" by (simp add: take_bit_eq_mask mask_numeral)
  then show ?thesis by (simp only:) (rule bit_word_eqI, simp add: bit_simps)
qed

lemma upt_8: "[0..<8] = [0, 1, 2, 3, 4, 5, 6, 7 :: nat]" and upt_4: "[0..<4] = [0, 1, 2, 3 :: nat]"
  and upt_20: "[0..<20] = [0, 1, 2, 3, 4, 5, 6, 7, 8, 9, 10, 11, 12, 13, 14, 15, 16, 17, 18, 19 :: nat]"
  by (simp_all add: upt_conv_Cons)

lemma word_cat_halves:
  fixes a b :: "32 word"
  shows "ucast (drop_bit 32 (word_cat a b :: 64 word)) = a" "ucast (word_cat a b :: 64 word) = b"
  by (rule bit_word_eqI; auto simp: bit_simps)+

lemma finalcount_be: "finalcount ctx = be_bytes (sha_count1 ctx) @ be_bytes (sha_count0 ctx)"
  by (simp add: finalcount_def be_bytes_def upt_8 upt_4 byte_and_255)

text \<open>What \<open>SHA1_Final\<close> gives for a message in the context: the hash of the message padded with the two counters.\<close>

lemma final_absorbed:
  assumes "absorbed ctx m"
  shows "fst (SHA1_Final ctx) = sha1_of m (word_cat (sha_count1 ctx) (sha_count0 ctx))"
proof -
  define c1 where "c1 = fst (SHA1_Update ctx [0x80])"
  define c3 where "c3 = fst (SHA1_Update (sha1_pad_loop c1) (finalcount ctx))"
  have c1: "absorbed c1 (m @ [0x80])" using update_absorbed(1) [OF assms] by (simp add: c1_def)
  have "pad_left (sha_count0 c1) = (120 - length (m @ [0x80 :: byte]) mod 64) mod 64" using c1 by (simp add: absorbed_def counted_def pad_left_def)
  also have "\<dots> = (119 - length m mod 64) mod 64" by (simp add: mod_Suc)
  finally have "absorbed c3 (padded m (word_cat (sha_count1 ctx) (sha_count0 ctx)))"
    using update_absorbed(1) [OF pad_loop_absorbed [OF c1], of "finalcount ctx"] by (simp add: padded_def finalcount_be c3_def word_cat_halves)
  then have "fst (absorb sha1_initial (padded m (word_cat (sha_count1 ctx) (sha_count0 ctx)))) = sha_state c3" "length (sha_state c3) = 5"
    by (simp_all add: absorbed_def)
  moreover obtain p q r s t where "sha_state c3 = [p, q, r, s, t]" using list_5 [OF calculation(2)] by blast
  moreover have "fst (SHA1_Final ctx) = map (\<lambda>i. ucast (drop_bit ((3 - (i AND 3)) * 8) (sha_state c3 ! (i div 4)) AND 255)) [0..<20]"
    by (simp add: SHA1_Final_def Let_def SHA1_DIGEST_SIZE_def c3_def c1_def)
  ultimately show ?thesis by (simp add: sha1_of_def upt_20 be_bytes_def upt_4 byte_and_255)
qed

text \<open>The counters after one call for the whole message: the 64-bit number of bits, and \<open>2 ^ 32\<close> too many when
  the message has \<open>2 ^ 29\<close> bytes or more.\<close>

definition counted_bits :: "nat \<Rightarrow> 64 word" where
  "counted_bits n = of_nat (8 * n) + (if n < 2 ^ 29 then 0 else 2 ^ 32)"

lemma counters:
  assumes "n < 2 ^ 60" and "sha_count0 ctx = 0" and "sha_count1 ctx = 0"
  shows "word_cat (sha_count1 (sha1_count ctx n)) (sha_count0 (sha1_count ctx n)) = counted_bits n"
proof -
  have len: "push_bit 3 (of_nat n :: 64 word) = of_nat (8 * n)" by (simp add: push_bit_eq_mult)
  have c0: "unat (sha_count0 (sha1_count ctx n)) = (8 * n) mod 2 ^ 32" using count_step [of 0 n] by (simp add: assms(2))
  have "unat (of_nat (8 * n) :: 64 word) = 8 * n" using assms(1) by (simp only: unat_of_nat) simp
  then have "(ucast (sha_count0 (sha1_count ctx n)) :: 64 word) < push_bit 3 (of_nat n) \<longleftrightarrow> (8 * n) mod 2 ^ 32 < 8 * n"
    unfolding len by (simp only: word_less_nat_alt unsigned_ucast_eq c0) (simp add: take_bit_nat_eq_self)
  also have "\<dots> \<longleftrightarrow> \<not> n < 2 ^ 29"
  proof (cases "n < 2 ^ 29")
    case False
    have "(8 * n) mod 2 ^ 32 < 2 ^ 32" by (rule mod_less_divisor) simp
    moreover have "2 ^ 32 \<le> 8 * n" using False by simp
    ultimately have "(8 * n) mod 2 ^ 32 < 8 * n" by (rule less_le_trans)
    then show ?thesis using False by blast
  qed simp
  finally have "sha_count1 (sha1_count ctx n) = (if n < 2 ^ 29 then 0 else 1) + ucast (drop_bit 29 (of_nat n :: 64 word))"
    using assms(2,3) by (simp add: sha1_count_def Let_def)
  moreover have q: "unat (ucast (drop_bit 29 (of_nat n :: 64 word)) :: 32 word) = n div 2 ^ 29" "n div 2 ^ 29 < 2 ^ 31"
  proof -
    show "n div 2 ^ 29 < 2 ^ 31" using assms(1) by (intro less_mult_imp_div_less) simp
    have "unat (of_nat n :: 64 word) = n" using assms(1) by (simp only: unat_of_nat) simp
    then have "unat (drop_bit 29 (of_nat n :: 64 word)) = n div 2 ^ 29" by (simp only: unat_drop_bit_eq) (simp only: drop_bit_eq_div)
    then show "unat (ucast (drop_bit 29 (of_nat n :: 64 word)) :: 32 word) = n div 2 ^ 29"
      using \<open>n div 2 ^ 29 < 2 ^ 31\<close> by (simp only: unsigned_ucast_eq) (simp add: take_bit_nat_eq_self)
  qed
  ultimately have c1: "unat (sha_count1 (sha1_count ctx n)) = (if n < 2 ^ 29 then 0 else 1) + n div 2 ^ 29"
    by (simp add: unat_word_ariths)
  have "8 * n = 2 ^ 32 * (n div 2 ^ 29) + (8 * n) mod 2 ^ 32" using mult_div_mod_eq [of "2 ^ 32" "8 * n"] by (simp add: div_mult2_eq)
  then have e: "2 ^ 32 * unat (sha_count1 (sha1_count ctx n)) + unat (sha_count0 (sha1_count ctx n)) = 8 * n + (if n < 2 ^ 29 then 0 else 2 ^ 32)"
    unfolding c0 c1 by auto
  have w: "word_cat a b = (of_nat (2 ^ 32 * unat a + unat b) :: 64 word)" for a b :: "32 word"
    by (simp add: word_cat_eq push_bit_eq_mult)
  show ?thesis unfolding w e by (simp add: counted_bits_def)
qed

lemma sha1_counted:
  assumes "length input < 2 ^ 60" and "length (sha_buffer junk) = 64"
  shows "libp2p_crypto_hashing_sha1 junk input = (40, sha1_of input (counted_bits (length input)), if length input < 64 then input else take 64 input @ trampled (drop 64 input))"
proof -
  define ctx where "ctx = SHA1_Init junk"
  have ctx: "absorbed ctx []" "sha_count0 ctx = 0" "sha_count1 ctx = 0" using init_absorbed [OF assms(2)] by (simp_all add: ctx_def SHA1_Init_def)
  have "fst (SHA1_Final (fst (SHA1_Update ctx input))) = sha1_of input (counted_bits (length input))"
    using final_absorbed [of "fst (SHA1_Update ctx input)" input] update_absorbed(1) [OF ctx(1), of input] counters [OF assms(1) ctx(2,3)] by simp
  then show ?thesis using update_absorbed(2) [OF ctx(1), of input]
    by (simp add: libp2p_crypto_hashing_sha1_def Let_def ctx_def case_prod_beta)
qed

section \<open>The properties\<close>

definition fresh_ctx :: sha1_ctx where
  "fresh_ctx = \<lparr>sha_state = replicate 5 0, sha_count0 = 0, sha_count1 = 0, sha_buffer = replicate 64 0\<rparr>"

text \<open>C34. Hashing is SHA-1: for a message below 512 MiB the 20 bytes at the output are those of FIPS 180-4, whatever the
  uninitialised context held. The number returned is 40, twice the bytes written.\<close>

theorem sha1_is_fips:
  assumes "length input < 2 ^ 29" and "length (sha_buffer junk) = 64"
  shows "\<exists>left. libp2p_crypto_hashing_sha1 junk input = (40, sha1 input, left)"
proof -
  have "length input < 2 ^ 60" using assms(1) by simp
  then show ?thesis using sha1_counted [OF _ assms(2)] assms(1) by (simp add: sha1_def counted_bits_def)
qed

theorem sha1_is_fips_witness:
  "\<exists>left. libp2p_crypto_hashing_sha1 fresh_ctx (bstr ''abc'') = (40, sha1 (bstr ''abc''), left)"
  using sha1_is_fips [of "bstr ''abc''" fresh_ctx] by (simp add: bstr_def fresh_ctx_def)

text \<open>From 512 MiB on the padding carries the wrong length, \<open>2 ^ 32\<close> bits too many: the carry test compares the 32-bit
  counter with a 64-bit number, so it is taken as well as the addition of the upper part.\<close>

theorem sha1_long_miscounts:
  assumes "2 ^ 29 \<le> length input" and "length input < 2 ^ 60" and "length (sha_buffer junk) = 64"
  shows "fst (snd (libp2p_crypto_hashing_sha1 junk input)) = sha1_of input (8 * of_nat (length input) + 2 ^ 32)"
  using sha1_counted [OF assms(2,3)] assms(1) by (simp add: counted_bits_def not_less)

theorem sha1_long_miscounts_witness:
  "fst (snd (libp2p_crypto_hashing_sha1 fresh_ctx (replicate (2 ^ 29) 0))) = sha1_of (replicate (2 ^ 29) 0) (8 * 2 ^ 29 + 2 ^ 32)"
proof -
  have "of_nat (length (replicate (2 ^ 29) (0 :: byte))) = (2 ^ 29 :: 64 word)" by (simp only: length_replicate of_nat_power of_nat_numeral)
  then show ?thesis using sha1_long_miscounts [of "replicate (2 ^ 29) 0" fresh_ctx] unfolding length_replicate
    by (simp only: fresh_ctx_def) simp
qed

lemma trampled_blocks:
  "length d = 64 * k + r \<Longrightarrow> r < 64 \<Longrightarrow>
   trampled d = concat (map (\<lambda>i. overwritten (take 64 (drop (64 * i) d))) [0..<k]) @ drop (64 * k) d"
proof (induction k arbitrary: d)
  case (Suc k)
  have "length (drop 64 d) = 64 * k + r" using Suc.prems(1) by simp
  note IH = Suc.IH [OF this Suc.prems(2)]
  have "trampled d = overwritten (take 64 d) @ trampled (drop 64 d)" using Suc.prems by (simp add: trampled.simps [of d])
  also have "map (\<lambda>i. overwritten (take 64 (drop (64 * i) d))) [0..<Suc k] =
      overwritten (take 64 d) # map (\<lambda>i. overwritten (take 64 (drop (64 * i) (drop 64 d)))) [0..<k]"
    by (simp add: map_upt_Suc del: upt_Suc) (simp add: add.commute)
  ultimately show ?case by (simp add: IH add.commute)
qed (subst trampled.simps, simp)

text \<open>C35. Hashing destroys its input, which is declared constant: the first 64 bytes and those of the last, partial block
  survive; every other block is overwritten with the last sixteen words of its message schedule.\<close>

theorem sha1_tramples_input:
  assumes "length input = 64 + 64 * k + r" and "r < 64" and "length input < 2 ^ 60" and "length (sha_buffer junk) = 64"
  shows "snd (snd (libp2p_crypto_hashing_sha1 junk input)) =
    take 64 input @ concat (map (\<lambda>i. overwritten (take 64 (drop (64 + 64 * i) input))) [0..<k]) @ drop (64 + 64 * k) input"
proof -
  have "length (drop 64 input) = 64 * k + r" using assms(1) by simp
  from trampled_blocks [OF this assms(2)] sha1_counted [OF assms(3,4)] assms(1) show ?thesis by (simp add: add.commute)
qed

text \<open>A block of ones shows it: its schedule is one of single bits, and some of the last sixteen are zero.\<close>

definition bit_next :: "bool list \<Rightarrow> bool list" where
  "bit_next W = (let t = length W in W @ [W ! (t - 3) \<noteq> (W ! (t - 8) \<noteq> (W ! (t - 14) \<noteq> W ! (t - 16)))])"

definition all_bits :: "bool \<Rightarrow> 32 word" where
  "all_bits b = (if b then - 1 else 0)"

lemma rotl_all_bits: "word_rotl 1 (all_bits b) = all_bits b"
  by (rule bit_word_eqI) (auto simp: all_bits_def bit_simps)

lemma schedule_next_bits: "16 \<le> length W \<Longrightarrow> schedule_next (map all_bits W) = map all_bits (bit_next W)"
proof -
  assume "16 \<le> length W"
  then have "0 < length W" "length W - 3 < length W" "length W - 8 < length W" "length W - 14 < length W" "length W - 16 < length W" by auto
  moreover have "all_bits a XOR all_bits b = all_bits (a \<noteq> b)" for a b by (simp add: all_bits_def)
  ultimately show ?thesis by (simp only: schedule_next_def bit_next_def Let_def length_map nth_map rotl_all_bits map_append list.map)
qed

lemma schedule_bits: "16 \<le> length W \<Longrightarrow> (schedule_next ^^ n) (map all_bits W) = map all_bits ((bit_next ^^ n) W) \<and> 16 \<le> length ((bit_next ^^ n) W)"
proof (induction n)
  case (Suc n)
  have "length (bit_next V) = Suc (length V)" for V by (simp add: bit_next_def Let_def)
  then show ?case using Suc schedule_next_bits [of "(bit_next ^^ n) W"] by simp
qed simp

fun bits_back :: "nat \<Rightarrow> bool list \<Rightarrow> bool list" where
  "bits_back 0 R = R"
| "bits_back (Suc n) R = bits_back n ((R ! 2 \<noteq> (R ! 7 \<noteq> (R ! 13 \<noteq> R ! 15))) # R)"

lemma bits_back_rev: "16 \<le> length W \<Longrightarrow> bits_back n (rev W) = rev ((bit_next ^^ n) W)"
proof (induction n arbitrary: W)
  case (Suc n)
  then have "rev (bit_next W) = (rev W ! 2 \<noteq> (rev W ! 7 \<noteq> (rev W ! 13 \<noteq> rev W ! 15))) # rev W"
    by (simp add: bit_next_def Let_def rev_nth)
  then show ?case using Suc.IH [of "bit_next W"] Suc.prems by (simp add: funpow_swap1)
qed simp

lemma byte_0_255: "(0 :: byte) \<noteq> 255"
  by simp

lemma ones_overwritten: "0 \<in> set (overwritten (replicate 64 0xFF))"
proof -
  have "(4 :: nat) = Suc (Suc (Suc (Suc 0)))" by simp
  then have "replicate 4 (0xFF :: byte) = [0xFF, 0xFF, 0xFF, 0xFF]" by (simp only: replicate.simps)
  then have "be_word (replicate 4 0xFF) = all_bits True" by (simp only: be_word_4) (simp add: all_bits_def)
  then have "message_words (replicate 64 0xFF) = map (\<lambda>_. all_bits True) [0..<16]"
    by (simp add: message_words_def)
  also have "\<dots> = map all_bits (replicate 16 True)" by (simp only: map_replicate map_replicate_const length_upt)  simp
  finally have "message_words (replicate 64 0xFF) = map all_bits (replicate 16 True)" .
  then have "schedule (replicate 64 0xFF) = map all_bits ((bit_next ^^ 64) (replicate 16 True))"
    using schedule_bits [of "replicate 16 True" 64] by (simp add: schedule_def)
  moreover have "False \<in> set (drop 64 ((bit_next ^^ 64) (replicate 16 True)))"
  proof -
    have "False \<in> set (take 16 (bits_back 64 (replicate 16 True)))" by (simp add: eval_nat_numeral)
    moreover have "take 16 (rev W) = rev (drop 64 W)" if "length W = 80" for W :: "bool list" using that by (simp add: take_rev)
    moreover have "length ((bit_next ^^ n) W) = length W + n" for n W by (induction n) (simp_all add: bit_next_def Let_def)
    ultimately show ?thesis using bits_back_rev [of "replicate 16 True" 64] by simp
  qed
  ultimately have "0 \<in> set (drop 64 (schedule (replicate 64 0xFF)))" by (force simp: drop_map all_bits_def image_iff)
  moreover have "0 \<in> set (le_bytes 0)" by (simp add: le_bytes_def)
  ultimately show ?thesis unfolding overwritten_def block_bytes_def by fastforce
qed

theorem sha1_tramples_input_witness:
  "snd (snd (libp2p_crypto_hashing_sha1 fresh_ctx (replicate 128 0xFF))) = replicate 64 0xFF @ overwritten (replicate 64 0xFF) \<and>
   overwritten (replicate 64 0xFF) \<noteq> replicate 64 0xFF"
proof
  show "snd (snd (libp2p_crypto_hashing_sha1 fresh_ctx (replicate 128 0xFF))) = replicate 64 0xFF @ overwritten (replicate 64 0xFF)"
    using sha1_tramples_input [of "replicate 128 0xFF" 1 0 fresh_ctx] by (simp add: fresh_ctx_def)
  show "overwritten (replicate 64 0xFF) \<noteq> replicate 64 0xFF" using ones_overwritten
    by (metis in_set_replicate byte_0_255)
qed

end
