(* ===== verification/Base32.thy ===== *)
theory Base32
  imports Prelude
begin

text \<open>
  Base 32: \<open>src/crypto/encoding/base32.c\<close>, both directions, as the two public functions use them: without a decoding
  context, so that a newline is a character like any other. A character is a byte, \<open>unsigned char\<close> values become
  \<open>int\<close> before they are shifted. A call of the encoder or decoder returns what it writes to its buffer, whose size limits
  it at every single write.
\<close>

section \<open>Encoding\<close>

definition b32str :: bytes where
  "b32str = bstr ''ABCDEFGHIJKLMNOPQRSTUVWXYZ234567''"

definition b32_char :: "nat \<Rightarrow> byte" where
  "b32_char v = b32str ! (v AND 0x1f)"

text \<open>The eight characters of one round of the loop. \<open>n\<close> is \<open>inlen\<close> when the round begins; it counts down with
  each further byte that is used.\<close>

definition encode_group :: "bytes \<Rightarrow> bytes" where
  "encode_group src =
     (let n = length src; u = (\<lambda>i. unat (byte_at src i))
      in [b32_char (drop_bit 3 (u 0)),
          b32_char (push_bit 2 (u 0) + (if n > 1 then drop_bit 6 (u 1) else 0)),
          (if n > 1 then b32_char (drop_bit 1 (u 1)) else 61),
          (if n > 1 then b32_char (push_bit 4 (u 1) + (if n > 2 then drop_bit 4 (u 2) else 0)) else 61),
          (if n > 2 then b32_char (push_bit 1 (u 2) + (if n > 3 then drop_bit 7 (u 3) else 0)) else 61),
          (if n > 3 then b32_char (drop_bit 2 (u 3)) else 61),
          (if n > 3 then b32_char (push_bit 3 (u 3) + (if n > 4 then drop_bit 5 (u 4) else 0)) else 61),
          (if n > 4 then b32_char (u 4) else 61)])"

function encode_groups :: "bytes \<Rightarrow> nat \<Rightarrow> bytes" where
  "encode_groups src outlen =
     (if src \<noteq> [] \<and> outlen \<noteq> 0 then take outlen (encode_group src) @ encode_groups (drop 5 src) (outlen - 8) else [])"
  by pat_completeness auto
termination by (relation "measure (\<lambda>(src, outlen). outlen)") auto

declare encode_groups.simps [simp del]

text \<open>What is written to the buffer, with the terminating zero when there is room.\<close>

definition base32_encode :: "bytes \<Rightarrow> nat \<Rightarrow> bytes" where
  "base32_encode src outlen = (let out = encode_groups src outlen in if length out < outlen then out @ [0] else out)"

definition libp2p_crypto_encoding_base32_encode_size :: "nat \<Rightarrow> nat" where
  "libp2p_crypto_encoding_base32_encode_size n = (n + 4) div 5 * 8 + 1"

text \<open>The buffer and its length afterwards. A buffer of no bytes is read in front of its beginning.\<close>

definition libp2p_crypto_encoding_base32_encode :: "bytes \<Rightarrow> nat \<Rightarrow> (bytes \<times> nat) option" where
  "libp2p_crypto_encoding_base32_encode incoming results_length =
     (let results = memcpy (replicate results_length 0) (base32_encode incoming results_length)
      in if results_length = 0 then None
         else Some (results, if results ! (results_length - 1) = 0 then length (takeWhile (\<lambda>b. b \<noteq> 0) results) else results_length))"

section \<open>Decoding\<close>

text \<open>The macro \<open>B32\<close>, and the table made with it, whose entries 64 and 164 are made from 32 and 132.\<close>

definition B32 :: "byte \<Rightarrow> int" where
  "B32 c = (case find_index (\<lambda>d. d = c) b32str of Some i \<Rightarrow> int i | None \<Rightarrow> - 1)"

definition b32 :: "byte \<Rightarrow> int" where
  "b32 c = B32 (if c = 64 then 32 else if c = 164 then 132 else c)"

definition isbase32 :: "byte \<Rightarrow> bool" where
  "isbase32 ch \<longleftrightarrow> 0 \<le> b32 ch"

text \<open>One guarded write: nothing when the buffer is full.\<close>

definition put_char :: "nat \<Rightarrow> int \<Rightarrow> bytes \<Rightarrow> bytes" where
  "put_char outleft v out = (if length out < outleft then out @ [of_int v] else out)"

text \<open>The return value and the bytes written to the \<open>outleft\<close> bytes that are left.\<close>

definition decode_8 :: "bytes \<Rightarrow> nat \<Rightarrow> bool \<times> bytes" where
  "decode_8 src outleft =
     (let b = (\<lambda>i. b32 (src ! i)); eq = (\<lambda>i. src ! i = 61)
      in if length src < 8 then (False, [])
         else if \<not> isbase32 (src ! 0) \<or> \<not> isbase32 (src ! 1) then (False, [])
         else let out = put_char outleft (push_bit 3 (b 0) OR drop_bit 2 (b 1)) []
              in if eq 2 then (eq 3 \<and> eq 4 \<and> eq 5 \<and> eq 6 \<and> eq 7, out)
                 else if \<not> isbase32 (src ! 2) \<or> \<not> isbase32 (src ! 3) then (False, out)
                 else let out = put_char outleft (push_bit 6 (b 1) OR push_bit 1 (b 2) OR drop_bit 4 (b 3)) out
                      in if eq 4 then (eq 5 \<and> eq 6 \<and> eq 7, out)
                         else if \<not> isbase32 (src ! 4) then (False, out)
                         else let out = put_char outleft (push_bit 4 (b 3) OR drop_bit 1 (b 4)) out
                              in if eq 5 then (eq 6 \<and> eq 7, out)
                                 else if \<not> isbase32 (src ! 5) \<or> \<not> isbase32 (src ! 6) then (False, out)
                                 else let out = put_char outleft (push_bit 7 (b 4) OR push_bit 2 (b 5) OR drop_bit 3 (b 6)) out
                                      in if eq 7 then (True, out)
                                         else if \<not> isbase32 (src ! 7) then (False, out)
                                         else (True, put_char outleft (push_bit 5 (b 6) OR b 7) out))"

text \<open>The loop without a context: groups as long as they decode; the group that does not is decoded once more from the
  same place, to leave its first bytes in the buffer.\<close>

function base32_decode :: "bytes \<Rightarrow> nat \<Rightarrow> bool \<times> bytes" where
  "base32_decode src outleft =
     (if fst (decode_8 src outleft) then
        let out = snd (decode_8 src outleft); (ok, rest) = base32_decode (drop 8 src) (outleft - length out) in (ok, out @ rest)
      else if src = [] then (True, [])
      else (False, snd (decode_8 src outleft)))"
  by pat_completeness auto
termination
  by (relation "measure (\<lambda>(src, outleft). length src)") (auto simp: decode_8_def Let_def split: if_splits)

declare base32_decode.simps [simp del]

definition libp2p_crypto_encoding_base32_decode_size :: "nat \<Rightarrow> nat" where
  "libp2p_crypto_encoding_base32_decode_size n = 5 * (n div 8) + 5"

text \<open>The return value, the bytes at the front of the buffer and their number.\<close>

definition libp2p_crypto_encoding_base32_decode :: "bytes \<Rightarrow> nat \<Rightarrow> bool \<times> bytes \<times> nat" where
  "libp2p_crypto_encoding_base32_decode incoming results_length =
     (let (ok, out) = base32_decode incoming results_length in (ok, out, length out))"

section \<open>One group\<close>

lemma find_index_nth: "distinct xs \<Longrightarrow> i < length xs \<Longrightarrow> find_index (\<lambda>d. d = xs ! i) xs = Some i"
  by (auto simp: find_index_Some nth_eq_iff_index_eq)

lemma b32str_facts: "length b32str = 32" "distinct b32str" "\<forall>c \<in> set b32str. c \<noteq> 0 \<and> c \<noteq> 61 \<and> c \<noteq> 64 \<and> c \<noteq> 164"
  by (simp_all add: b32str_def bstr_def)

lemma and_1f: "v AND 0x1f = v mod (32 :: nat)"
  using take_bit_eq_mask [of 5 v] by (simp add: take_bit_eq_mod mask_numeral)

lemma b32_char_value [simp]: "b32_char v \<noteq> 61" "b32_char v \<noteq> 0" "b32 (b32_char v) = int (v mod 32)" "isbase32 (b32_char v)"
proof -
  have c: "b32_char v = b32str ! (v mod 32)" "b32_char v \<in> set b32str" by (simp_all add: b32_char_def and_1f b32str_facts)
  then show "b32_char v \<noteq> 61" "b32_char v \<noteq> 0" using b32str_facts(3) by auto
  have "b32 (b32_char v) = B32 (b32_char v)" using c(2) b32str_facts(3) by (auto simp: b32_def)
  moreover have "find_index (\<lambda>d. d = b32str ! (v mod 32)) b32str = Some (v mod 32)" by (rule find_index_nth) (simp_all add: b32str_facts)
  ultimately show "b32 (b32_char v) = int (v mod 32)" by (simp add: c(1) B32_def)
  then show "isbase32 (b32_char v)" by (simp add: isbase32_def)
qed

text \<open>The characters put together again.\<close>

lemma add_low: "b < 2 ^ k \<Longrightarrow> push_bit k a + b = push_bit k a OR (b :: nat)"
proof -
  assume "b < 2 ^ k"
  then have "take_bit k b = b" by (simp add: take_bit_nat_eq_self)
  then have "push_bit k a AND b = 0" by (metis (no_types) bit_eqI bit_and_iff bit_push_bit_iff bit_take_bit_iff bit_0_eq bot_apply bot_bool_def linorder_not_le)
  then show ?thesis by (rule disjunctive_add_eq_or)
qed

lemma drop_byte: "k \<le> 8 \<Longrightarrow> drop_bit k (unat (x :: byte)) < 2 ^ (8 - k)"
proof -
  assume "k \<le> 8"
  then have "unat x < 2 ^ (8 - k) * 2 ^ k" by (simp flip: power_add)
  then show ?thesis by (simp add: drop_bit_eq_div less_mult_imp_div_less)
qed

definition val32 :: "nat \<Rightarrow> nat" where "val32 v = v mod 32"

lemma byte_bit: "bit (unat (x :: byte)) n \<longleftrightarrow> bit x n"
  by (simp add: bit_unsigned_iff bit_imp_le_length conj_absorb)

lemma bit_val32: "bit (int (val32 v)) n \<longleftrightarrow> n < 5 \<and> bit v n"
  using bit_take_bit_iff [of 5 v n] by (simp add: val32_def take_bit_eq_mod bit_of_nat_iff)

lemma bit_joined:
  fixes a b :: byte
  assumes "k + m = 8"
  shows "bit (push_bit k (unat a) + drop_bit m (unat b)) n \<longleftrightarrow> (if k \<le> n then bit a (n - k) else bit b (n + m))"
proof -
  have "drop_bit m (unat b) < 2 ^ k" using drop_byte [of m b] assms by (metis add_diff_cancel_right' le_add2)
  moreover have "\<not> bit b (n + m)" if "k \<le> n" using that assms bit_imp_le_length [of b "n + m"] by auto
  ultimately show ?thesis by (auto simp: add_low bit_simps byte_bit add.commute [of n])
qed

lemma eights: "2 + 6 = (8 :: nat)" "4 + 4 = (8 :: nat)" "1 + 7 = (8 :: nat)" "3 + 5 = (8 :: nat)"
  by simp_all

lemma bit_shifted: "bit (push_bit m (k :: int)) n \<longleftrightarrow> m \<le> n \<and> bit k (n - m)" "bit (drop_bit m (k :: int)) n \<longleftrightarrow> bit k (m + n)"
    "bit (drop_bit m (l :: nat)) n \<longleftrightarrow> bit l (m + n)"
  by (simp_all add: bit_simps)

lemmas group_bits = bit_shifted bit_val32 eights [THEN bit_joined] byte_bit bit_or_iff bit_word_of_int_iff

lemma byte_eqI: "(\<And>n. n \<in> {0, 1, 2, 3, 4, 5, 6, 7} \<Longrightarrow> bit x n = bit y n) \<Longrightarrow> x = (y :: byte)"
  by (rule bit_word_eqI) (simp add: less_Suc_eq numeral_eq_Suc)

lemma group_byte:
  fixes w x y :: byte
  shows "of_int (push_bit 3 (int (val32 (drop_bit 3 (unat x)))) OR drop_bit 2 (int (val32 (push_bit 2 (unat x) + drop_bit 6 (unat y))))) = x"
    "of_int (push_bit 6 (int (val32 (push_bit 2 (unat w) + drop_bit 6 (unat x)))) OR push_bit 1 (int (val32 (drop_bit 1 (unat x)))) OR
       drop_bit 4 (int (val32 (push_bit 4 (unat x) + drop_bit 4 (unat y))))) = x"
    "of_int (push_bit 4 (int (val32 (push_bit 4 (unat w) + drop_bit 4 (unat x)))) OR drop_bit 1 (int (val32 (push_bit 1 (unat x) + drop_bit 7 (unat y))))) = x"
    "of_int (push_bit 7 (int (val32 (push_bit 1 (unat w) + drop_bit 7 (unat x)))) OR push_bit 2 (int (val32 (drop_bit 2 (unat x)))) OR
       drop_bit 3 (int (val32 (push_bit 3 (unat x) + drop_bit 5 (unat y))))) = x"
    "of_int (push_bit 5 (int (val32 (push_bit 3 (unat w) + drop_bit 5 (unat x)))) OR int (val32 (unat x))) = x"
  by (rule byte_eqI; unfold group_bits; auto simp: numeral_eq_Suc)+

lemma low_bits:
  fixes w x :: byte
  shows "of_int (push_bit 3 (int (val32 (drop_bit 3 (unat x)))) OR drop_bit 2 (int (val32 (push_bit 2 (unat x))))) = x"
    "of_int (push_bit 6 (int (val32 (push_bit 2 (unat w) + drop_bit 6 (unat x)))) OR push_bit 1 (int (val32 (drop_bit 1 (unat x)))) OR
       drop_bit 4 (int (val32 (push_bit 4 (unat x))))) = x"
    "of_int (push_bit 4 (int (val32 (push_bit 4 (unat w) + drop_bit 4 (unat x)))) OR drop_bit 1 (int (val32 (push_bit 1 (unat x))))) = x"
    "of_int (push_bit 7 (int (val32 (push_bit 1 (unat w) + drop_bit 7 (unat x)))) OR push_bit 2 (int (val32 (drop_bit 2 (unat x)))) OR
       drop_bit 3 (int (val32 (push_bit 3 (unat x))))) = x"
  using group_byte(1) [of x 0] group_byte(2) [of w x 0] group_byte(3) [of w x 0] group_byte(4) [of w x 0] by simp_all

lemmas group_values = group_byte [unfolded val32_def, simplified] low_bits [unfolded val32_def, simplified]

lemma encode_group_Cons:
  "encode_group [a] = [b32_char (drop_bit 3 (unat a)), b32_char (push_bit 2 (unat a)), 61, 61, 61, 61, 61, 61]"
  "encode_group [a, b] = [b32_char (drop_bit 3 (unat a)), b32_char (push_bit 2 (unat a) + drop_bit 6 (unat b)),
     b32_char (drop_bit 1 (unat b)), b32_char (push_bit 4 (unat b)), 61, 61, 61, 61]"
  "encode_group [a, b, c] = [b32_char (drop_bit 3 (unat a)), b32_char (push_bit 2 (unat a) + drop_bit 6 (unat b)),
     b32_char (drop_bit 1 (unat b)), b32_char (push_bit 4 (unat b) + drop_bit 4 (unat c)), b32_char (push_bit 1 (unat c)), 61, 61, 61]"
  "encode_group [a, b, c, d] = [b32_char (drop_bit 3 (unat a)), b32_char (push_bit 2 (unat a) + drop_bit 6 (unat b)),
     b32_char (drop_bit 1 (unat b)), b32_char (push_bit 4 (unat b) + drop_bit 4 (unat c)), b32_char (push_bit 1 (unat c) + drop_bit 7 (unat d)),
     b32_char (drop_bit 2 (unat d)), b32_char (push_bit 3 (unat d)), 61]"
  "encode_group (a # b # c # d # e # es) = [b32_char (drop_bit 3 (unat a)), b32_char (push_bit 2 (unat a) + drop_bit 6 (unat b)),
     b32_char (drop_bit 1 (unat b)), b32_char (push_bit 4 (unat b) + drop_bit 4 (unat c)), b32_char (push_bit 1 (unat c) + drop_bit 7 (unat d)),
     b32_char (drop_bit 2 (unat d)), b32_char (push_bit 3 (unat d) + drop_bit 5 (unat e)), b32_char (unat e)]"
  by (simp_all add: encode_group_def Let_def byte_at_def)

lemma group_cases:
  assumes "src \<noteq> []"
  obtains a where "src = [a]" | a b where "src = [a, b]" | a b c where "src = [a, b, c]" | a b c d where "src = [a, b, c, d]"
    | a b c d e es where "src = a # b # c # d # e # es"
  using assms by (metis list.exhaust)

lemma decode_group:
  assumes "src \<noteq> []" and "min 5 (length src) \<le> outleft"
  shows "decode_8 (encode_group src @ r) outleft = (True, take 5 src)"
  using assms(1)
  by (cases src rule: group_cases)
    (use assms(2) in \<open>simp_all only: encode_group_Cons, simp_all add: decode_8_def Let_def put_char_def group_values\<close>)

lemma length_encode_group [simp]: "length (encode_group src) = 8"
  by (simp add: encode_group_def Let_def)

section \<open>Whole texts\<close>

function base32_text :: "bytes \<Rightarrow> bytes" where
  "base32_text src = (if src = [] then [] else encode_group src @ base32_text (drop 5 src))"
  by pat_completeness auto
termination by (relation "measure length") auto

declare base32_text.simps [simp del]

lemma base32_text_Nil [simp]: "base32_text [] = []"
  by (simp add: base32_text.simps)

lemma length_base32_text: "length (base32_text src) = (length src + 4) div 5 * 8"
proof (induction src rule: base32_text.induct)
  case (1 src)
  show ?case
  proof (cases "src = []")
    case False
    then have "length src + 4 = length src - 1 + 5" by (cases src) simp_all
    then have "(length src + 4) div 5 = Suc ((length src - 1) div 5)" by (simp only: div_add_self2)
    also have "(length src - 1) div 5 = (length (drop 5 src) + 4) div 5" by (cases "length src < 5") simp_all
    finally have "(length src + 4) div 5 = Suc ((length (drop 5 src) + 4) div 5)" .
    then show ?thesis using 1 False by (simp add: base32_text.simps [of src])
  qed simp
qed

lemma base32_text_chars: "0 \<notin> set (base32_text src)"
proof (induction src rule: base32_text.induct)
  case (1 src)
  have "0 \<notin> set (encode_group src)" by (auto simp: encode_group_def Let_def dest: sym)
  then show ?case using 1 by (cases "src = []") (simp_all add: base32_text.simps [of src])
qed

lemma encode_groups_text: "encode_groups src outlen = take outlen (base32_text src)"
proof (induction src outlen rule: encode_groups.induct)
  case (1 src outlen)
  show ?case
  proof (cases "src = [] \<or> outlen = 0")
    case False
    then show ?thesis using 1 by (simp add: encode_groups.simps [of src] base32_text.simps [of src])
  qed (subst encode_groups.simps, auto)
qed

lemma decode_text: "length src \<le> outleft \<Longrightarrow> base32_decode (base32_text src) outleft = (True, src)"
proof (induction src arbitrary: outleft rule: base32_text.induct)
  case (1 src)
  show ?case
  proof (cases "src = []")
    case False
    have d: "decode_8 (base32_text src) outleft = (True, take 5 src)"
      using decode_group [OF False, of outleft "base32_text (drop 5 src)"] "1.prems" False by (simp add: base32_text.simps [of src])
    have "drop 8 (base32_text src) = base32_text (drop 5 src)" using False by (simp add: base32_text.simps [of src])
    moreover have "base32_decode (base32_text (drop 5 src)) (outleft - min 5 (length src)) = (True, drop 5 src)"
      using "1.IH" [OF False, of "outleft - min 5 (length src)"] "1.prems" by simp
    ultimately show ?thesis using d by (simp add: base32_decode.simps [of "base32_text src"] min.commute)
  qed (simp add: base32_decode.simps decode_8_def)
qed

lemma decode_8_fits: "length (snd (decode_8 src outleft)) \<le> min 5 outleft"
  by (auto simp: decode_8_def Let_def put_char_def)

text \<open>Whatever is decoded, the buffer is not left, and success means whole groups.\<close>

lemma decode_8_whole: "fst (decode_8 src outleft) \<Longrightarrow> 8 \<le> length src"
  by (auto simp: decode_8_def Let_def split: if_splits)

lemma base32_decode_fits:
  "length (snd (base32_decode src outleft)) \<le> outleft \<and>
   (fst (base32_decode src outleft) \<longrightarrow> 8 dvd length src \<and> length (snd (base32_decode src outleft)) \<le> 5 * (length src div 8))"
proof (induction src outleft rule: base32_decode.induct)
  case (1 src outleft)
  show ?case
  proof (cases "fst (decode_8 src outleft)")
    case True
    then have "length src = length (drop 8 src) + 8" using decode_8_whole by fastforce
    then have "8 dvd length src \<longleftrightarrow> 8 dvd length (drop 8 src)" "length src div 8 = Suc (length (drop 8 src) div 8)"
      by (simp_all only: dvd_add_left_iff dvd_refl div_add_self2)
    then show ?thesis using True "1.IH" [OF True refl] decode_8_fits [of src outleft]
      by (auto simp: base32_decode.simps [of src] Let_def split: prod.splits)
  next
    case False
    then show ?thesis using decode_8_fits [of src outleft] by (auto simp: base32_decode.simps [of src])
  qed
qed

text \<open>C36. Decoding undoes encoding: data of any length encodes, in a buffer of the size that
  \<open>libp2p_crypto_encoding_base32_encode_size\<close> names or one byte less, to eight characters for every five bytes or part
  of them, and decoding these in a buffer large enough for the data gives the data back.\<close>

theorem base32_round_trip:
  assumes "libp2p_crypto_encoding_base32_encode_size (length data) \<le> results_length + 1" and "0 < results_length" and "length data \<le> n"
  shows "\<exists>text. libp2p_crypto_encoding_base32_encode data results_length = Some (memcpy (replicate results_length 0) text, length text) \<and>
    length text = (length data + 4) div 5 * 8 \<and> 0 \<notin> set text \<and> libp2p_crypto_encoding_base32_decode text n = (True, data, length data)"
proof -
  let ?t = "base32_text data"
  have len: "length ?t \<le> results_length" using assms(1) by (simp add: length_base32_text libp2p_crypto_encoding_base32_encode_size_def)
  define results where "results = memcpy (replicate results_length 0) (base32_encode data results_length)"
  have r: "results = ?t @ replicate (results_length - length ?t) 0"
    using len by (auto simp: results_def base32_encode_def encode_groups_text Let_def memcpy_def Cons_replicate_eq replicate_append_same)
  have "(if results ! (results_length - 1) = 0 then length (takeWhile (\<lambda>b. b \<noteq> 0) results) else results_length) = length ?t"
  proof (cases "results_length = length ?t")
    case True
    have "takeWhile (\<lambda>b. b \<noteq> 0) ?t = ?t" using base32_text_chars [of data] by (auto simp: takeWhile_eq_all_conv)
    then have "length (takeWhile (\<lambda>b. b \<noteq> 0) ?t) = length ?t" by (simp only:)
    with True show ?thesis by (simp add: r)
  next
    case False
    then have "\<not> results_length - 1 < length ?t" "results_length - 1 - length ?t < results_length - length ?t" using len assms(2) by simp_all
    then have "results ! (results_length - 1) = 0" by (simp add: r nth_append)
    moreover have "takeWhile (\<lambda>b. b \<noteq> 0) results = ?t" using base32_text_chars [of data] False len
      by (simp add: r takeWhile_append takeWhile_replicate)
    ultimately show ?thesis by simp
  qed
  then have "libp2p_crypto_encoding_base32_encode data results_length = Some (memcpy (replicate results_length 0) ?t, length ?t)"
    using assms(2) len by (simp add: libp2p_crypto_encoding_base32_encode_def Let_def flip: results_def) (simp add: r memcpy_def)
  then show ?thesis using decode_text [OF assms(3)] length_base32_text base32_text_chars
    by (intro exI [of _ ?t]) (simp add: libp2p_crypto_encoding_base32_decode_def)
qed

theorem base32_round_trip_witness:
  "\<exists>text. libp2p_crypto_encoding_base32_encode (bstr ''foobar'') 17 = Some (memcpy (replicate 17 0) text, length text) \<and>
    length text = 16 \<and> 0 \<notin> set text \<and> libp2p_crypto_encoding_base32_decode text 6 = (True, bstr ''foobar'', 6)"
proof -
  have "length (bstr ''foobar'') = 6" by (simp add: bstr_def)
  then show ?thesis using base32_round_trip [of "bstr ''foobar''" 17 6] by (simp add: libp2p_crypto_encoding_base32_encode_size_def)
qed

end
