(* ===== verification/Containers.thy ===== *)
theory Containers
  imports External
begin

text \<open>
  The containers of \<open>src/utils\<close>: the growing vector of pointers (\<open>vector.c\<close>) and the byte queue that threads share
  (\<open>threadsafe_buffer.c\<close>). Every function of the queue holds its mutex from its first to its last access, so each is one
  step, and what threads can do to it is any sequence of such steps. Allocations may fail (\<open>mem\<close>); a result is a value or
  undefined behaviour, an access outside the memory a container owns. Pointers to containers are not null.
\<close>

section \<open>The vector\<close>

text \<open>\<open>vc_items\<close> is the memory of the array: a cell is a pointer, null or not.\<close>

record 'a vec =
  vc_items :: "'a option list"
  vc_capacity :: nat
  vc_total :: nat

text \<open>\<open>junk\<close> is what newly allocated cells hold. Neither allocation is checked.\<close>

definition libp2p_utils_vector_new :: "bool \<Rightarrow> bool \<Rightarrow> (nat \<Rightarrow> 'a option) \<Rightarrow> nat \<Rightarrow> 'a vec outcome" where
  "libp2p_utils_vector_new mem mem_items junk initial_size =
     (if \<not> mem then Undefined
      else Returns \<lparr>vc_items = (if mem_items then map junk [0..<initial_size] else []), vc_capacity = initial_size, vc_total = 0\<rparr>)"

definition libp2p_utils_vector_total :: "'a vec \<Rightarrow> nat" where
  "libp2p_utils_vector_total v = vc_total v"

text \<open>\<open>realloc\<close> to no bytes frees the array and gives null.\<close>

definition libp2p_utils_vector_resize :: "bool \<Rightarrow> (nat \<Rightarrow> 'a option) \<Rightarrow> nat \<Rightarrow> 'a vec \<Rightarrow> 'a vec" where
  "libp2p_utils_vector_resize mem junk capacity v =
     (if capacity = 0 then v\<lparr>vc_items := []\<rparr>
      else if \<not> mem then v
      else v\<lparr>vc_items := take capacity (vc_items v) @ map junk [length (vc_items v)..<capacity], vc_capacity := capacity\<rparr>)"

definition libp2p_utils_vector_add :: "bool \<Rightarrow> (nat \<Rightarrow> 'a option) \<Rightarrow> 'a option \<Rightarrow> 'a vec \<Rightarrow> (nat \<times> 'a vec) outcome" where
  "libp2p_utils_vector_add mem junk item v =
     (let v1 = (if vc_capacity v = vc_total v then libp2p_utils_vector_resize mem junk (vc_capacity v * 2) v else v)
      in if vc_total v1 < length (vc_items v1)
         then Returns (vc_total v1 + 1, v1\<lparr>vc_items := (vc_items v1)[vc_total v1 := item], vc_total := vc_total v1 + 1\<rparr>)
         else Undefined)"

definition libp2p_utils_vector_set :: "int \<Rightarrow> 'a option \<Rightarrow> 'a vec \<Rightarrow> 'a vec" where
  "libp2p_utils_vector_set index item v =
     (if index \<ge> 0 \<and> index < int (vc_total v) then v\<lparr>vc_items := (vc_items v)[nat index := item]\<rparr> else v)"

definition libp2p_utils_vector_get :: "int \<Rightarrow> 'a vec \<Rightarrow> 'a option" where
  "libp2p_utils_vector_get index v = (if index \<ge> 0 \<and> index < int (vc_total v) then vc_items v ! nat index else None)"

definition vector_shift :: "nat \<Rightarrow> 'a option list \<Rightarrow> 'a option list" where
  "vector_shift n its = fold (\<lambda>i its. its[i := its ! (i + 1), i + 1 := None]) [0..<n] its"

definition libp2p_utils_vector_delete :: "bool \<Rightarrow> (nat \<Rightarrow> 'a option) \<Rightarrow> int \<Rightarrow> 'a vec \<Rightarrow> 'a vec" where
  "libp2p_utils_vector_delete mem junk index v =
     (if index < 0 \<or> index \<ge> int (vc_total v) then v
      else let v1 = v\<lparr>vc_items := vector_shift (vc_total v - 1) ((vc_items v)[nat index := None]), vc_total := vc_total v - 1\<rparr>
           in if vc_total v1 > 0 \<and> vc_total v1 = vc_capacity v1 div 4
              then libp2p_utils_vector_resize mem junk (vc_capacity v1 div 2) v1 else v1)"

text \<open>The vector as a list.\<close>

definition vec_wf :: "'a vec \<Rightarrow> bool" where
  "vec_wf v \<longleftrightarrow> 0 < vc_capacity v \<and> vc_total v \<le> vc_capacity v \<and> length (vc_items v) = vc_capacity v"

definition vec_list :: "'a vec \<Rightarrow> 'a option list" where
  "vec_list v = take (vc_total v) (vc_items v)"

lemma vec_new: "0 < n \<Longrightarrow> \<exists>v. libp2p_utils_vector_new True True junk n = Returns v \<and> vec_wf v \<and> vec_list v = []"
  by (simp add: libp2p_utils_vector_new_def vec_wf_def vec_list_def)

lemma vec_resize:
  assumes "vec_wf v" and "vc_total v \<le> n" and "0 < n"
  shows "vec_wf (libp2p_utils_vector_resize mem junk n v)" "vec_list (libp2p_utils_vector_resize mem junk n v) = vec_list v"
    "vc_total (libp2p_utils_vector_resize mem junk n v) = vc_total v"
  using assms by (auto simp: libp2p_utils_vector_resize_def vec_wf_def vec_list_def min_def)

lemma vec_add:
  assumes "vec_wf v" and "mem \<or> vc_total v < vc_capacity v"
  shows "\<exists>v'. libp2p_utils_vector_add mem junk item v = Returns (vc_total v + 1, v') \<and> vec_wf v' \<and> vec_list v' = vec_list v @ [item]"
proof -
  define v1 where "v1 = (if vc_capacity v = vc_total v then libp2p_utils_vector_resize mem junk (vc_capacity v * 2) v else v)"
  have v1: "vec_wf v1" "vec_list v1 = vec_list v" "vc_total v1 = vc_total v"
    using vec_resize [OF assms(1), of "vc_capacity v * 2" mem junk] assms(1) by (auto simp: v1_def vec_wf_def)
  moreover have "vc_total v1 < vc_capacity v1"
    using assms by (auto simp: v1_def libp2p_utils_vector_resize_def vec_wf_def)
  ultimately show ?thesis
    by (auto simp: libp2p_utils_vector_add_def Let_def vec_wf_def vec_list_def take_Suc_conv_app_nth simp flip: v1_def)
qed

lemma vec_set_get:
  assumes "vec_wf v"
  shows "vec_list (libp2p_utils_vector_set (int i) x v) = (vec_list v)[i := x]" "vec_wf (libp2p_utils_vector_set (int i) x v)"
    "libp2p_utils_vector_get (int i) v = (if i < length (vec_list v) then vec_list v ! i else None)"
  using assms by (auto simp: libp2p_utils_vector_set_def libp2p_utils_vector_get_def vec_list_def vec_wf_def take_update_swap list_update_beyond)

lemma vector_shift_nth:
  assumes "n < length its"
  shows "length (vector_shift n its) = length its \<and> (\<forall>j < length its. vector_shift n its ! j = (if j < n then its ! (j + 1) else if j = n \<and> 0 < n then None else its ! j))"
  using assms
proof (induction n)
  case (Suc n)
  have "vector_shift (Suc n) its = (let l = vector_shift n its in l[n := l ! (n + 1), n + 1 := None])" by (simp add: vector_shift_def Let_def)
  then show ?case using Suc by (auto simp: Let_def nth_list_update less_Suc_eq)
qed (simp add: vector_shift_def)

lemma take_shift: "n < length its \<Longrightarrow> take n (vector_shift n its) = take n (tl its)"
  using vector_shift_nth [of n its] by (intro nth_equalityI) (simp_all add: nth_tl)

text \<open>Deleting an element of a vector shifts every element, from the first on: the first element is lost and the
  deleted place, now one to the left, holds a null pointer. Only deleting the first element does what it should.\<close>

theorem vector_delete_loses_first:
  assumes "vec_wf v" and "i < length (vec_list v)"
  shows "vec_list (libp2p_utils_vector_delete mem junk (int i) v) = tl ((vec_list v)[i := None]) \<and>
    (i = 0 \<longrightarrow> vec_list (libp2p_utils_vector_delete mem junk (int i) v) = drop 1 (vec_list v)) \<and>
    (0 < i \<longrightarrow> libp2p_utils_vector_get (int i - 1) (libp2p_utils_vector_delete mem junk (int i) v) = None)"
proof -
  define v1 where "v1 = v\<lparr>vc_items := vector_shift (vc_total v - 1) ((vc_items v)[i := None]), vc_total := vc_total v - 1\<rparr>"
  have i: "i < vc_total v" "vc_total v \<le> length (vc_items v)" using assms by (auto simp: vec_list_def vec_wf_def)
  have "vec_list v1 = take (vc_total v - 1) (tl ((vc_items v)[i := None]))"
    using take_shift [of "vc_total v - 1" "(vc_items v)[i := None]"] i by (simp add: v1_def vec_list_def)
  also have "\<dots> = tl ((vec_list v)[i := None])" using i by (simp add: vec_list_def take_update_swap [symmetric] tl_take)
  finally have l: "vec_list v1 = tl ((vec_list v)[i := None])" .
  have w: "vec_wf v1" using assms(1) i vector_shift_nth [of "vc_total v - 1" "(vc_items v)[i := None]"] by (auto simp: v1_def vec_wf_def)
  define v2 where "v2 = libp2p_utils_vector_delete mem junk (int i) v"
  have "vec_list v2 = vec_list v1 \<and> vec_wf v2"
    using vec_resize [OF w, of "vc_capacity v div 2" mem junk] w i by (auto simp: v2_def libp2p_utils_vector_delete_def Let_def v1_def)
  then have v2: "vec_list v2 = tl ((vec_list v)[i := None])" "vec_wf v2" using l by simp_all
  have "tl ((vec_list v)[i := None]) = drop 1 (vec_list v)" if "i = 0" using that by (cases "vec_list v") simp_all
  moreover have "libp2p_utils_vector_get (int i - 1) v2 = None" if "0 < i"
  proof -
    have "int i - 1 = int (i - 1)" using that by simp
    then show ?thesis using vec_set_get(3) [OF v2(2), of "i - 1"] v2(1) assms(2) that by (simp add: nth_tl)
  qed
  ultimately show ?thesis using v2(1) unfolding v2_def by metis
qed

theorem vector_delete_loses_first_witness:
  "\<exists>v. vec_list v = [Some 1, Some 2, Some (3 :: nat)] \<and>
     vec_list (libp2p_utils_vector_delete True (\<lambda>_. None) 2 v) = [Some 2, None] \<and>
     libp2p_utils_vector_get 1 (libp2p_utils_vector_delete True (\<lambda>_. None) 2 v) = None"
proof -
  let ?v = "\<lparr>vc_items = [Some 1, Some 2, Some (3 :: nat), None], vc_capacity = 4, vc_total = 3\<rparr>"
  have l: "vec_list ?v = [Some 1, Some 2, Some 3]" by (simp add: vec_list_def)
  have "vec_wf ?v" by (simp add: vec_wf_def)
  then show ?thesis using vector_delete_loses_first [of ?v 2 True "\<lambda>_. None"] l by (intro exI [of _ ?v]) simp
qed

section \<open>The byte queue\<close>

text \<open>The contract of a queue of bytes: what is put in comes out once, in order.\<close>

datatype queue_op = Put bytes | Get nat

locale byte_queue =
  fixes put :: "bytes \<Rightarrow> 'q \<Rightarrow> 'q" and get :: "nat \<Rightarrow> 'q \<Rightarrow> bytes \<times> 'q" and content :: "'q \<Rightarrow> bytes" and invar :: "'q \<Rightarrow> bool"
  assumes put_content: "invar q \<Longrightarrow> content (put b q) = content q @ b"
    and get_content: "invar q \<Longrightarrow> content q = fst (get n q) @ content (snd (get n q)) \<and> length (fst (get n q)) = min n (length (content q))"
    and put_invar: "invar q \<Longrightarrow> invar (put b q)" and get_invar: "invar q \<Longrightarrow> invar (snd (get n q))"
begin

fun run :: "queue_op list \<Rightarrow> 'q \<Rightarrow> bytes \<times> 'q" where
  "run [] q = ([], q)"
| "run (Put b # ops) q = run ops (put b q)"
| "run (Get n # ops) q = (case run ops (snd (get n q)) of (out, q') \<Rightarrow> (fst (get n q) @ out, q'))"

fun puts :: "queue_op list \<Rightarrow> bytes" where
  "puts [] = []"
| "puts (Put b # ops) = b @ puts ops"
| "puts (Get n # ops) = puts ops"

lemma fifo: "invar q \<Longrightarrow> content q @ puts ops = fst (run ops q) @ content (snd (run ops q)) \<and> invar (snd (run ops q))"
proof (induction ops arbitrary: q rule: puts.induct)
  case (2 b ops)
  then show ?case using 2(1) [OF put_invar [OF 2(2)], of b] put_content [OF 2(2), of b] by simp
next
  case (3 n ops)
  obtain out q' where "run ops (snd (get n q)) = (out, q')" by (rule prod.exhaust)
  then show ?case using 3(1) [OF get_invar [OF 3(2)], of n] get_content [OF 3(2), of n] by simp
qed simp

end

text \<open>The buffer of the source: \<open>tb_buffer\<close> is null or a block of \<open>tb_size\<close> bytes.\<close>

record tbuffer =
  tb_size :: nat
  tb_buffer :: "bytes option"

definition threadsafe_buffer_context_new :: "bool \<Rightarrow> tbuffer option" where
  "threadsafe_buffer_context_new mem = (if mem then Some \<lparr>tb_size = 0, tb_buffer = None\<rparr> else None)"

definition threadsafe_buffer_peek :: "nat \<Rightarrow> tbuffer \<Rightarrow> bytes" where
  "threadsafe_buffer_peek results_size c =
     (case tb_buffer c of
        None \<Rightarrow> []
      | Some b \<Rightarrow> if tb_size c > 0 then take (if results_size < tb_size c then results_size else tb_size c) b else [])"

text \<open>The allocation for the rest is not checked.\<close>

definition threadsafe_buffer_read :: "bool \<Rightarrow> nat \<Rightarrow> tbuffer \<Rightarrow> (bytes \<times> tbuffer) outcome" where
  "threadsafe_buffer_read mem results_size c =
     (case tb_buffer c of
        None \<Rightarrow> Returns ([], c)
      | Some b \<Rightarrow>
          if tb_size c = 0 then Returns ([], c)
          else let bytes_read = (if results_size < tb_size c then results_size else tb_size c)
               in if bytes_read = 0 then Returns ([], c)
                  else if tb_size c - bytes_read > 0 then
                    if \<not> mem then Undefined
                    else Returns (take bytes_read b, c\<lparr>tb_buffer := Some (take (tb_size c - bytes_read) (drop bytes_read b)), tb_size := tb_size c - bytes_read\<rparr>)
                  else Returns (take bytes_read b, c\<lparr>tb_buffer := None, tb_size := 0\<rparr>))"

definition threadsafe_buffer_write :: "bool \<Rightarrow> bytes \<Rightarrow> tbuffer \<Rightarrow> nat \<times> tbuffer" where
  "threadsafe_buffer_write mem bytes c =
     (if bytes = [] then (0, c)
      else if \<not> mem then (0, c)
      else (length bytes, c\<lparr>tb_buffer := Some (take (tb_size c) (case tb_buffer c of None \<Rightarrow> [] | Some b \<Rightarrow> b) @ bytes), tb_size := tb_size c + length bytes\<rparr>))"

definition tb_content :: "tbuffer \<Rightarrow> bytes" where
  "tb_content c = (case tb_buffer c of None \<Rightarrow> [] | Some b \<Rightarrow> b)"

definition tb_wf :: "tbuffer \<Rightarrow> bool" where
  "tb_wf c \<longleftrightarrow> length (tb_content c) = tb_size c"

text \<open>With memory at hand, writing and reading are the operations of a queue.\<close>

definition tb_put :: "bytes \<Rightarrow> tbuffer \<Rightarrow> tbuffer" where
  "tb_put b c = snd (threadsafe_buffer_write True b c)"

definition tb_get :: "nat \<Rightarrow> tbuffer \<Rightarrow> bytes \<times> tbuffer" where
  "tb_get n c = (case threadsafe_buffer_read True n c of Returns r \<Rightarrow> r | _ \<Rightarrow> ([], c))"

lemma tb_read:
  assumes "tb_wf c"
  shows "threadsafe_buffer_read True n c = Returns (take n (tb_content c), snd (tb_get n c))"
    and "tb_content (snd (tb_get n c)) = drop n (tb_content c)" and "tb_wf (snd (tb_get n c))"
  using assms by (auto simp: threadsafe_buffer_read_def tb_get_def tb_wf_def tb_content_def Let_def split: option.splits)

lemma tb_read_get: "tb_wf c \<Longrightarrow> tb_get n c = (take n (tb_content c), snd (tb_get n c))"
  using tb_read(1) [of c n] unfolding tb_get_def by (cases "threadsafe_buffer_read True n c") auto

lemma tb_write: "tb_wf c \<Longrightarrow> tb_content (tb_put b c) = tb_content c @ b \<and> tb_wf (tb_put b c)"
  by (auto simp: threadsafe_buffer_write_def tb_put_def tb_wf_def tb_content_def split: option.splits)

interpretation tb: byte_queue tb_put tb_get tb_content tb_wf
  by unfold_locales (use tb_read tb_write tb_read_get in \<open>simp_all, metis append_take_drop_id fst_conv length_take min.commute\<close>)

text \<open>What any number of threads do with the buffer: a sequence of calls, in the order in which they get the mutex. The
  results of the reads, the bytes that the writes report as added, and the buffer at the end.\<close>

datatype tb_op = TbWrite bool bytes | TbRead bool nat | TbPeek nat

fun tb_run :: "tb_op list \<Rightarrow> tbuffer \<Rightarrow> (bytes \<times> bytes \<times> tbuffer) outcome" where
  "tb_run [] c = Returns ([], [], c)"
| "tb_run (TbWrite mem b # ops) c =
     (case threadsafe_buffer_write mem b c of (n, c1) \<Rightarrow>
        case tb_run ops c1 of Returns (r, w, c2) \<Rightarrow> Returns (r, take n b @ w, c2) | Fails \<Rightarrow> Fails | Undefined \<Rightarrow> Undefined)"
| "tb_run (TbRead mem n # ops) c =
     (case threadsafe_buffer_read mem n c of
        Returns (r1, c1) \<Rightarrow> (case tb_run ops c1 of Returns (r, w, c2) \<Rightarrow> Returns (r1 @ r, w, c2) | Fails \<Rightarrow> Fails | Undefined \<Rightarrow> Undefined)
      | Fails \<Rightarrow> Fails
      | Undefined \<Rightarrow> Undefined)"
| "tb_run (TbPeek n # ops) c = tb_run ops c"

fun queue_ops :: "tb_op list \<Rightarrow> queue_op list" where
  "queue_ops [] = []"
| "queue_ops (TbWrite mem b # ops) = (if mem then Put b # queue_ops ops else queue_ops ops)"
| "queue_ops (TbRead mem n # ops) = Get n # queue_ops ops"
| "queue_ops (TbPeek n # ops) = queue_ops ops"

text \<open>A read without memory does what a read with memory does, or is undefined: bytes remain and there is no block for them.\<close>

lemma tb_read_mem:
  "threadsafe_buffer_read False n c = threadsafe_buffer_read True n c \<or>
   threadsafe_buffer_read False n c = Undefined \<and> 0 < n \<and> n < tb_size c"
  by (auto simp: threadsafe_buffer_read_def Let_def split: option.split)

lemma tb_run_queue:
  "tb_wf c \<Longrightarrow>
   tb_run ops c = Returns (fst (tb.run (queue_ops ops) c), tb.puts (queue_ops ops), snd (tb.run (queue_ops ops) c)) \<or>
   tb_run ops c = Undefined \<and> (\<exists>n. TbRead False n \<in> set ops)"
proof (induction ops arbitrary: c rule: queue_ops.induct)
  case (2 mem b ops)
  have w: "threadsafe_buffer_write mem b c = (if mem then length b else 0, if mem then tb_put b c else c)"
    by (simp add: threadsafe_buffer_write_def tb_put_def)
  have "tb_wf (if mem then tb_put b c else c)" using 2 tb_write by simp
  with 2(1) 2(2) w show ?case by (cases mem) fastforce+
next
  case (3 mem n ops)
  obtain out q' where o: "tb.run (queue_ops ops) (snd (tb_get n c)) = (out, q')" by (rule prod.exhaust)
  have g: "fst (tb_get n c) = take n (tb_content c)" using arg_cong [OF tb_read_get [OF 3(2), of n], of fst] by simp
  have IH: "tb_run ops (snd (tb_get n c)) = Returns (out, tb.puts (queue_ops ops), q') \<or>
      tb_run ops (snd (tb_get n c)) = Undefined \<and> (\<exists>n. TbRead False n \<in> set ops)" using 3(1) [OF tb_read(3) [OF 3(2)], of n] o by simp
  show ?case
  proof (cases "threadsafe_buffer_read mem n c = threadsafe_buffer_read True n c")
    case True
    then have "tb_run (TbRead mem n # ops) c = (case tb_run ops (snd (tb_get n c)) of Returns (r, w, c2) \<Rightarrow> Returns (take n (tb_content c) @ r, w, c2)
      | Fails \<Rightarrow> Fails | Undefined \<Rightarrow> Undefined)" using tb_read(1) [OF 3(2), of n] by simp
    then show ?thesis using IH o g by auto
  next
    case False
    then have "\<not> mem" by auto
    with False tb_read_mem [of n c] show ?thesis by auto
  qed
qed simp_all

text \<open>C37. The buffer is a queue for all its threads: in whatever order their calls get the mutex, and whichever writes find no memory, the bytes that the
  reads hand out, followed by what is left, are the bytes that were there and those that the writes reported as added, in order, none lost, none twice;
  and a peek is what the next read would give. The only other outcome is that one of the reads, of fewer bytes than there are, finds no memory for the
  rest: the source then copies through a null pointer, which C does not define.\<close>

theorem buffer_is_fifo:
  assumes "tb_wf c"
  shows "(\<exists>r w c'. tb_run ops c = Returns (r, w, c') \<and> tb_wf c' \<and> tb_content c @ w = r @ tb_content c' \<and>
      threadsafe_buffer_read True n c' = Returns (threadsafe_buffer_peek n c', snd (tb_get n c'))) \<or>
    tb_run ops c = Undefined \<and> (\<exists>n. TbRead False n \<in> set ops)"
proof -
  let ?c' = "snd (tb.run (queue_ops ops) c)"
  have f: "tb_content c @ tb.puts (queue_ops ops) = fst (tb.run (queue_ops ops) c) @ tb_content ?c'" "tb_wf ?c'"
    using tb.fifo [OF assms(1)] by auto
  have "threadsafe_buffer_peek n ?c' = take n (tb_content ?c')"
    using f(2) by (auto simp: threadsafe_buffer_peek_def tb_wf_def tb_content_def split: option.splits)
  then show ?thesis using tb_run_queue [OF assms, of ops] f tb_read(1) [OF f(2), of n] by auto
qed

theorem buffer_is_fifo_witness:
  "\<exists>r w c'. tb_run [TbWrite True [1, 2, 3], TbRead True 2, TbWrite False [4], TbWrite True [5]] \<lparr>tb_size = 0, tb_buffer = None\<rparr> = Returns (r, w, c') \<and>
     tb_wf c' \<and> w = r @ tb_content c' \<and> threadsafe_buffer_read True 9 c' = Returns (threadsafe_buffer_peek 9 c', snd (tb_get 9 c'))"
  using buffer_is_fifo [of "\<lparr>tb_size = 0, tb_buffer = None\<rparr>" "[TbWrite True [1, 2, 3], TbRead True 2, TbWrite False [4], TbWrite True [5]]" 9]
  by (simp add: tb_wf_def tb_content_def)

end
