(* ===== verification/Url.thy ===== *)
theory Url
  imports External
begin

text \<open>
  Percent-encoding: \<open>src/utils/urlencode.c\<close>. A C string is the list of its bytes, without the NUL. \<open>char\<close> is signed: a byte
  from 128 on is a negative index into the hexadecimal digits. \<open>mem\<close> and \<open>mem2\<close> say whether \<open>malloc\<close> and \<open>realloc\<close>
  succeed; a failure (\<open>NULL\<close>) is \<open>Fails\<close>, an access outside a buffer is \<open>Undefined\<close>.
\<close>

definition isalnum :: "byte \<Rightarrow> bool" where
  "isalnum c \<longleftrightarrow> 48 \<le> c \<and> c \<le> 57 \<or> 65 \<le> c \<and> c \<le> 90 \<or> 97 \<le> c \<and> c \<le> 122"

definition hex_digits :: bytes where
  "hex_digits = bstr ''0123456789abcdef''"

definition url_char :: "byte \<Rightarrow> bytes" where
  "url_char c = (if isalnum c then [c] else [37, hex_digits ! unat (drop_bit 4 c), hex_digits ! unat (c AND 15)])"

text \<open>The buffer has three bytes for each character and none for the terminating zero.\<close>

definition libp2p_utils_url_encode :: "bool \<Rightarrow> bool \<Rightarrow> bytes \<Rightarrow> bytes outcome" where
  "libp2p_utils_url_encode mem mem2 src =
     (let written = concat (map url_char src) @ [0]
      in if \<not> mem then Fails
         else if (\<exists>c \<in> set src. 128 \<le> c) \<or> length written > length src * 3 then Undefined
         else if \<not> mem2 then Fails
         else Returns (butlast written))"

definition h2b :: "byte \<Rightarrow> nat" where
  "h2b c = (if 48 \<le> c \<and> c \<le> 57 then unat c - 48
     else if 97 \<le> c \<and> c \<le> 102 then unat c - 97 + 10
     else if 65 \<le> c \<and> c \<le> 70 then unat c - 65 + 10
     else 0)"

text \<open>A percent sign takes the next two bytes, whether or not the string ends there.\<close>

fun url_decode_loop :: "bytes \<Rightarrow> bytes option" where
  "url_decode_loop [] = Some []"
| "url_decode_loop (c # cs) =
     (if c \<noteq> 37 then map_option ((#) c) (url_decode_loop cs)
      else case cs of
             a # b # ds \<Rightarrow> map_option ((#) (of_nat (push_bit 4 (h2b a)) OR of_nat (h2b b AND 15))) (url_decode_loop ds)
           | _ \<Rightarrow> None)"

definition libp2p_utils_url_decode :: "bool \<Rightarrow> bool \<Rightarrow> bytes \<Rightarrow> bytes outcome" where
  "libp2p_utils_url_decode mem mem2 src =
     (case (mem, url_decode_loop src) of
        (True, Some out) \<Rightarrow> if mem2 then Returns out else Fails
      | _ \<Rightarrow> Undefined)"

section \<open>One character\<close>

lemma hex_back: "\<forall>v \<in> set [0..<16]. h2b (hex_digits ! v) = v \<and> hex_digits ! v \<noteq> 0"
  by code_simp

lemma nibbles: "of_nat (push_bit 4 (unat (drop_bit 4 c))) OR of_nat (unat (c AND 15) AND 15) = (c :: byte)"
proof -
  have "of_nat (push_bit 4 (unat (drop_bit 4 c))) = push_bit 4 (drop_bit 4 c)"
    by (simp add: push_bit_of_nat [symmetric])
  moreover have "of_nat (unat (c AND 15) AND 15) = take_bit 4 c"
    by (simp add: of_nat_and_eq mask_numeral [symmetric] take_bit_eq_mask flip: and.assoc) (simp add: mask_numeral and.assoc)
  ultimately show ?thesis
    using bits_ident [of 4 c] disjunctive_add [of "push_bit 4 (drop_bit 4 c)" "take_bit 4 c"] by (simp add: bit_simps)
qed

lemma nibble_bound: "unat (drop_bit 4 (c :: byte)) \<in> set [0..<16]" "unat (c AND 15) \<in> set [0..<16]"
proof -
  have "unat c < 256" by (rule unsigned_less [of c, simplified])
  then have "unat c div 16 < 16" by linarith
  then show "unat (drop_bit 4 c) \<in> set [0..<16]" by (simp add: drop_bit_eq_div unat_div)
  have "unat (c AND 15) \<le> unat (15 :: byte)" using word_and_le1 [of c 15] by (simp only: word_le_nat_alt)
  then show "unat (c AND 15) \<in> set [0..<16]" by simp
qed

lemma url_char_back:
  assumes "c < 128"
  shows "isalnum c \<Longrightarrow> c \<noteq> 37" and "url_decode_loop (url_char c @ r) = map_option ((#) c) (url_decode_loop r)" and "c \<noteq> 0 \<Longrightarrow> 0 \<notin> set (url_char c)"
proof -
  show a: "c \<noteq> 37" if "isalnum c" using that by (auto simp: isalnum_def)
  have "h2b (hex_digits ! unat (drop_bit 4 c)) = unat (drop_bit 4 c)" "h2b (hex_digits ! unat (c AND 15)) = unat (c AND 15)"
    "hex_digits ! unat (drop_bit 4 c) \<noteq> 0" "hex_digits ! unat (c AND 15) \<noteq> 0"
    using hex_back nibble_bound by blast+
  then show "url_decode_loop (url_char c @ r) = map_option ((#) c) (url_decode_loop r)" "c \<noteq> 0 \<Longrightarrow> 0 \<notin> set (url_char c)"
    using a nibbles [of c] by (auto simp: url_char_def)
qed

lemma url_decode_back: "\<forall>c \<in> set s. c < 128 \<Longrightarrow> url_decode_loop (concat (map url_char s)) = Some s"
  by (induction s) (simp_all add: url_char_back(2))

lemma url_written: "length (concat (map url_char s)) + 2 * length (filter isalnum s) = 3 * length s"
  by (induction s) (simp_all add: url_char_def)

section \<open>Strings\<close>

text \<open>Decoding undoes encoding for a string of ASCII characters at least one of which is a letter or a digit.\<close>

theorem url_round_trip:
  assumes "\<forall>c \<in> set s. c \<noteq> 0 \<and> c < 128" and "\<exists>c \<in> set s. isalnum c"
  shows "\<exists>t. libp2p_utils_url_encode True True s = Returns t \<and> 0 \<notin> set t \<and> libp2p_utils_url_decode True True t = Returns s"
proof -
  have "0 < length (filter isalnum s)" using assms(2) by (auto simp: filter_empty_conv)
  then have "length (concat (map url_char s)) < 3 * length s" using url_written [of s] by linarith
  then have "libp2p_utils_url_encode True True s = Returns (concat (map url_char s))"
    using assms(1) by (auto simp: libp2p_utils_url_encode_def Let_def not_le butlast_append)
  moreover have "0 \<notin> set (concat (map url_char s))" using assms(1) url_char_back(3) by auto
  ultimately show ?thesis using url_decode_back [of s] assms(1) by (simp add: libp2p_utils_url_decode_def)
qed

theorem url_round_trip_witness:
  "\<exists>t. libp2p_utils_url_encode True True (bstr ''a/b'') = Returns t \<and> 0 \<notin> set t \<and> libp2p_utils_url_decode True True t = Returns (bstr ''a/b'')"
  using url_round_trip [of "bstr ''a/b''"] by (simp add: bstr_def isalnum_def)

text \<open>Encoding a string of ASCII characters none of which is a letter or a digit, the empty string among them, writes the
  terminating zero one byte behind the buffer.\<close>

theorem url_encode_overflows:
  assumes "\<forall>c \<in> set s. c < 128 \<and> \<not> isalnum c"
  shows "libp2p_utils_url_encode True mem2 s = Undefined"
proof -
  have "filter isalnum s = []" using assms by (simp add: filter_empty_conv)
  then have "length (concat (map url_char s)) = 3 * length s" using url_written [of s] by simp
  then show ?thesis by (simp add: libp2p_utils_url_encode_def Let_def)
qed

theorem url_encode_overflows_witness: "libp2p_utils_url_encode True True (bstr ''/'') = Undefined"
  using url_encode_overflows [of "bstr ''/''" True] by (simp add: bstr_def isalnum_def)

end
