(* ===== verification/Secio_V2.thy ===== *)
theory Secio_V2
  imports V2_Theorems External
begin

text \<open>
  The secure channel that \<open>src/v2\<close> calls SECIO, \<open>src/v2/src/conn/secio.c\<close>, over any stream. AES-256 in counter mode is a parameter: \<open>ks key iv i\<close>
  is byte \<open>i\<close> of its key stream, with which OpenSSL combines the data; a cipher context is its position in that stream. Buffers are
  shorter than \<open>2 ^ 31\<close> bytes. A write through the end of the buffer on the stack is \<open>Undefined\<close>.
\<close>

definition SECIO_PROTOCOL_ID :: bytes where "SECIO_PROTOCOL_ID = bstr ''/secio/1.0.0''"
definition NONCE_SIZE :: nat where "NONCE_SIZE = 16"

record 's secio_ctx =
  sc_raw :: 's
  sc_read_pos :: nat
  sc_write_pos :: nat
  sc_local_nonce :: bytes
  sc_remote_nonce :: bytes

type_synonym key_stream = "bytes \<Rightarrow> bytes \<Rightarrow> nat \<Rightarrow> byte"

text \<open>\<open>EVP_EncryptUpdate\<close> and \<open>EVP_DecryptUpdate\<close> at a position of the stream under the key and the vector the handshake sets: zeros.\<close>

definition secio_crypt :: "key_stream \<Rightarrow> nat \<Rightarrow> bytes \<Rightarrow> bytes" where
  "secio_crypt ks pos data = map (\<lambda>(i, b). b XOR ks (replicate 32 0) (replicate 16 0) i) (zip [pos..<pos + length data] data)"

definition secio_stream_read :: "key_stream \<Rightarrow> 's v2stream \<Rightarrow> 's secio_ctx \<Rightarrow> nat \<Rightarrow> (bytes option \<times> 's secio_ctx) option" where
  "secio_stream_read ks io c count =
     (case v2_read io (sc_raw c) (min count 2048) of
        None \<Rightarrow> None
      | Some (None, s) \<Rightarrow> Some (None, c\<lparr>sc_raw := s\<rparr>)
      | Some (Some cipher_buf, s) \<Rightarrow>
          Some (Some (secio_crypt ks (sc_read_pos c) cipher_buf), c\<lparr>sc_raw := s, sc_read_pos := sc_read_pos c + length cipher_buf\<rparr>))"

definition secio_stream_write :: "key_stream \<Rightarrow> 's v2stream \<Rightarrow> 's secio_ctx \<Rightarrow> bytes \<Rightarrow> (int \<times> 's secio_ctx) outcome option" where
  "secio_stream_write ks io c buf =
     (if length buf > 2048 then Some Undefined
      else case v2_write io (sc_raw c) (secio_crypt ks (sc_write_pos c) buf) of
             None \<Rightarrow> None
           | Some (r, s) \<Rightarrow> Some (Returns (r, c\<lparr>sc_raw := s, sc_write_pos := sc_write_pos c + length buf\<rparr>)))"

definition secio_stream_close :: "'s v2stream \<Rightarrow> 's secio_ctx \<Rightarrow> 's secio_ctx" where
  "secio_stream_close io c = c\<lparr>sc_raw := v2_close io (sc_raw c)\<rparr>"

text \<open>As a stream; a write without a defined result has none.\<close>

definition secio_io :: "key_stream \<Rightarrow> 's v2stream \<Rightarrow> 's secio_ctx v2stream" where
  "secio_io ks io =
     \<lparr>v2_read = secio_stream_read ks io,
      v2_write = (\<lambda>c b. case secio_stream_write ks io c b of Some (Returns r) \<Rightarrow> Some r | _ \<Rightarrow> None),
      v2_close = secio_stream_close io\<rparr>"

text \<open>What one handshake meets: the allocations, in order, and the random nonce. The contexts of the cipher are not checked. The
  nonces are exchanged in one write and one read of any length, and nothing is made of them.\<close>

record secio_env =
  sv_write_msg :: bool
  sv_ctx :: bool
  sv_nonce :: "bytes option"
  sv_ciphers :: bool
  sv_stream :: bool

definition libp2p_secio_handshake :: "'s v2stream \<Rightarrow> secio_env \<Rightarrow> 's \<Rightarrow> ('s secio_ctx outcome \<times> 's) option" where
  "libp2p_secio_handshake io ev st =
     do {
       (ok, st1) \<leftarrow> libp2p_net_multistream_negotiate_protocol io (sv_write_msg ev) (Some SECIO_PROTOCOL_ID) st;
       if \<not> ok \<or> \<not> sv_ctx ev then Some (Fails, st1)
       else case sv_nonce ev of
              None \<Rightarrow> Some (Fails, st1)
            | Some local_nonce \<Rightarrow>
                do {
                  (w, st2) \<leftarrow> v2_write io st1 local_nonce;
                  if w \<le> 0 then Some (Fails, st2)
                  else do {
                    (r, st3) \<leftarrow> v2_read io st2 NONCE_SIZE;
                    case r of
                      None \<Rightarrow> Some (Fails, st3)
                    | Some n \<Rightarrow>
                        if n = [] then Some (Fails, st3)
                        else if \<not> sv_ciphers ev then Some (Undefined, st3)
                        else if \<not> sv_stream ev then Some (Fails, st3)
                        else Some (Returns \<lparr>sc_raw = st3, sc_read_pos = 0, sc_write_pos = 0, sc_local_nonce = local_nonce,
                               sc_remote_nonce = memcpy (replicate NONCE_SIZE 0) n\<rparr>, st3)
                  }
                }
     }"

section \<open>The channel keeps the stream contract\<close>

lemma secio_crypt_Nil [simp]: "secio_crypt ks pos [] = []"
  by (simp add: secio_crypt_def)

lemma length_secio_crypt [simp]: "length (secio_crypt ks pos d) = length d"
  by (simp add: secio_crypt_def)

lemma secio_crypt_nth: "i < length d \<Longrightarrow> secio_crypt ks pos d ! i = d ! i XOR ks (replicate 32 0) (replicate 16 0) (pos + i)"
  by (simp add: secio_crypt_def)

lemma secio_crypt_twice [simp]: "secio_crypt ks pos (secio_crypt ks pos d) = d"
  by (rule nth_equalityI) (simp_all add: secio_crypt_nth xor.assoc)

lemma secio_crypt_append: "secio_crypt ks pos (a @ b) = secio_crypt ks pos a @ secio_crypt ks (pos + length a) b"
  by (rule nth_equalityI) (auto simp: secio_crypt_nth nth_append)

lemma secio_crypt_eq_Nil [simp]: "secio_crypt ks pos d = [] \<longleftrightarrow> d = []"
  by (metis length_0_conv length_secio_crypt)

definition sc_avail :: "key_stream \<Rightarrow> ('s \<Rightarrow> bytes) \<Rightarrow> 's secio_ctx \<Rightarrow> bytes" where
  "sc_avail ks avail c = secio_crypt ks (sc_read_pos c) (avail (sc_raw c))"

text \<open>\<open>k\<close> bytes were sent below before the channel was there.\<close>

definition sc_sent :: "key_stream \<Rightarrow> ('s \<Rightarrow> bytes) \<Rightarrow> nat \<Rightarrow> 's secio_ctx \<Rightarrow> bytes" where
  "sc_sent ks sent k c = secio_crypt ks 0 (drop k (sent (sc_raw c)))"

definition sc_ready :: "('s \<Rightarrow> bool) \<Rightarrow> ('s \<Rightarrow> bytes) \<Rightarrow> nat \<Rightarrow> 's secio_ctx \<Rightarrow> bool" where
  "sc_ready ready sent k c \<longleftrightarrow> ready (sc_raw c) \<and> k + sc_write_pos c = length (sent (sc_raw c))"

definition sc_room :: "('s \<Rightarrow> nat \<Rightarrow> bool) \<Rightarrow> 's secio_ctx \<Rightarrow> nat \<Rightarrow> bool" where
  "sc_room room c n \<longleftrightarrow> n \<le> 2048 \<and> room (sc_raw c) n"

context v2_live
begin

theorem secio_stream_contract:
  "v2_live (secio_io ks io) (sc_avail ks avail) (sc_sent ks sent k) (sc_ready ready sent k) (sc_room room)"
proof (rule v2_live.intro)
  fix c :: "'s secio_ctx" and n :: nat
  assume c: "sc_ready ready sent k c" "0 < n" "sc_avail ks avail c \<noteq> []"
  then obtain bs s where r: "v2_read io (sc_raw c) (min n 2048) = Some (Some bs, s)" "bs \<noteq> []" "length bs \<le> min n 2048"
      "avail (sc_raw c) = bs @ avail s" "sent s = sent (sc_raw c)" "ready s" "\<forall>k. room (sc_raw c) k \<longrightarrow> room s k"
    using read_live [of "sc_raw c" "min n 2048"] by (auto simp: sc_ready_def sc_avail_def)
  then show "\<exists>bs c'. v2_read (secio_io ks io) c n = Some (Some bs, c') \<and> bs \<noteq> [] \<and> length bs \<le> n \<and> sc_avail ks avail c = bs @ sc_avail ks avail c' \<and>
      sc_sent ks sent k c' = sc_sent ks sent k c \<and> sc_ready ready sent k c' \<and> (\<forall>j. sc_room room c j \<longrightarrow> sc_room room c' j)"
    using c(1) by (simp add: secio_io_def secio_stream_read_def sc_avail_def sc_sent_def sc_ready_def sc_room_def secio_crypt_append)
next
  fix c :: "'s secio_ctx" and n and b :: bytes
  assume c: "sc_ready ready sent k c" "sc_room room c n" "0 < length b" "length b \<le> n"
  let ?b = "secio_crypt ks (sc_write_pos c) b"
  obtain s where w: "v2_write io (sc_raw c) ?b = Some (int (length b), s)" "sent s = sent (sc_raw c) @ ?b" "avail s = avail (sc_raw c)"
      "ready s" "room s (n - length b)"
    using write_live [of "sc_raw c" n ?b] c by (auto simp: sc_ready_def sc_room_def)
  have "drop k (sent s) = drop k (sent (sc_raw c)) @ ?b" "length (drop k (sent (sc_raw c))) = sc_write_pos c"
    using c(1) w(2) by (auto simp: sc_ready_def)
  then have "secio_crypt ks 0 (drop k (sent s)) = secio_crypt ks 0 (drop k (sent (sc_raw c))) @ b" by (simp add: secio_crypt_append)
  then show "\<exists>c'. v2_write (secio_io ks io) c b = Some (int (length b), c') \<and> sc_sent ks sent k c' = sc_sent ks sent k c @ b \<and>
      sc_avail ks avail c' = sc_avail ks avail c \<and> sc_ready ready sent k c' \<and> sc_room room c' (n - length b)"
    using c w by (auto simp: secio_io_def secio_stream_write_def sc_avail_def sc_sent_def sc_ready_def sc_room_def)
qed

end

interpretation sec: v2_live "secio_io ks tcp_stream" "sc_avail ks sk_rx" "sc_sent ks sk_tx k" "sc_ready tcp_ready sk_tx k" "sc_room (\<lambda>_ _. True)"
  by (rule tcp.secio_stream_contract)

section \<open>What the channel keeps to itself\<close>

fun secio_write_all :: "key_stream \<Rightarrow> 's v2stream \<Rightarrow> 's secio_ctx \<Rightarrow> bytes list \<Rightarrow> (bool \<times> 's secio_ctx) option" where
  "secio_write_all ks io c [] = Some (True, c)"
| "secio_write_all ks io c (b # bs) =
     (case v2_write (secio_io ks io) c b of
        None \<Rightarrow> None
      | Some (n, c1) \<Rightarrow> if n = int (length b) then secio_write_all ks io c1 bs else Some (False, c1))"

lemma secio_write_all_live:
  "tcp_ready (sc_raw c) \<Longrightarrow> \<forall>b \<in> set bs. 0 < length b \<and> length b \<le> 2048 \<Longrightarrow>
   \<exists>c'. secio_write_all ks tcp_stream c bs = Some (True, c') \<and> sk_tx (sc_raw c') = sk_tx (sc_raw c) @ secio_crypt ks (sc_write_pos c) (concat bs)"
proof (induction bs arbitrary: c)
  case (Cons b bs)
  let ?b = "secio_crypt ks (sc_write_pos c) b"
  have "0 < length ?b" "length ?b \<le> length b" using Cons.prems(2) by simp_all
  then obtain s where s: "v2_write tcp_stream (sc_raw c) ?b = Some (int (length b), s)" "sk_tx s = sk_tx (sc_raw c) @ ?b" "tcp_ready s"
    using tcp.write_live [OF Cons.prems(1) TrueI, of ?b "length b"] by auto
  let ?c = "c\<lparr>sc_raw := s, sc_write_pos := sc_write_pos c + length b\<rparr>"
  obtain c' where "secio_write_all ks tcp_stream ?c bs = Some (True, c')" "sk_tx (sc_raw c') = sk_tx s @ secio_crypt ks (sc_write_pos ?c) (concat bs)"
    using Cons.IH [of ?c] s(3) Cons.prems(2) by auto
  with s Cons.prems(2) show ?case by (simp add: secio_io_def secio_stream_write_def secio_crypt_append)
qed simp

lemma secio_handshake_fresh: "libp2p_secio_handshake io ev st = Some (Returns c, st') \<Longrightarrow> sc_write_pos c = 0 \<and> sc_read_pos c = 0"
  by (auto simp: libp2p_secio_handshake_def Option.bind_eq_Some_conv split: if_splits option.splits)

text \<open>The channel delivers, and to everyone: after a handshake, whatever nonces were exchanged, writes of at most 2048 bytes succeed on a socket that works, and
  the bytes on the wire are the data combined with the key stream of the zero key and the zero vector. Whoever computes that stream reads the
  data off the wire; any context, of any handshake with anyone, on a socket that delivers the bytes, reads them.\<close>

theorem secio_has_no_secret:
  assumes "libp2p_secio_handshake tcp_stream ev i = Some (Returns c, st)" and "tcp_ready (sc_raw c)" and "\<forall>b \<in> set bs. 0 < length b \<and> length b \<le> 2048"
  shows "\<exists>c' w. secio_write_all ks tcp_stream c bs = Some (True, c') \<and> sk_tx (sc_raw c') = sk_tx (sc_raw c) @ w \<and> secio_crypt ks 0 w = concat bs \<and>
    (\<forall>ev' i' d st' s n. libp2p_secio_handshake tcp_stream ev' i' = Some (Returns d, st') \<longrightarrow> tcp_ready s \<longrightarrow> sk_rx s = w \<longrightarrow> n \<le> length (concat bs) \<longrightarrow>
      (\<exists>d'. read_loop (secio_io ks tcp_stream) n [] (d\<lparr>sc_raw := s\<rparr>) = Some (Some (take n (concat bs)), d')))"
proof -
  let ?w = "secio_crypt ks 0 (concat bs)"
  obtain c' where c': "secio_write_all ks tcp_stream c bs = Some (True, c')" "sk_tx (sc_raw c') = sk_tx (sc_raw c) @ ?w"
    using secio_write_all_live [OF assms(2,3), of ks] secio_handshake_fresh [OF assms(1)] by auto
  have "\<exists>d'. read_loop (secio_io ks tcp_stream) n [] (d\<lparr>sc_raw := s\<rparr>) = Some (Some (take n (concat bs)), d')"
    if "libp2p_secio_handshake tcp_stream ev' i' = Some (Returns d, st')" "tcp_ready s" "sk_rx s = ?w" "n \<le> length (concat bs)" for ev' i' d st' s n
  proof -
    let ?d = "d\<lparr>sc_raw := s\<rparr>"
    have "sc_ready tcp_ready sk_tx (length (sk_tx s)) ?d" "sc_avail ks sk_rx ?d = concat bs"
      using that(2,3) secio_handshake_fresh [OF that(1)] by (simp_all add: sc_ready_def sc_avail_def)
    with sec.read_loop_live [of "length (sk_tx s)" ?d n ks "[]"] that(4) show ?thesis by auto
  qed
  with c' show ?thesis by (intro exI [of _ c'] exI [of _ ?w]) simp
qed

text \<open>A dialer whose peer answers the proposal and sends its nonce.\<close>

definition secio_rx :: bytes where
  "secio_rx = frame (SECIO_PROTOCOL_ID @ [10]) @ replicate 16 5"

theorem secio_has_no_secret_witness:
  "\<exists>c st c' w. libp2p_secio_handshake tcp_stream \<lparr>sv_write_msg = True, sv_ctx = True, sv_nonce = Some (replicate 16 3), sv_ciphers = True, sv_stream = True\<rparr>
      (sample_sock secio_rx) = Some (Returns c, st) \<and>
    secio_write_all (\<lambda>k v i. of_nat i) tcp_stream c [[1, 2], [3]] = Some (True, c') \<and> sk_tx (sc_raw c') = sk_tx (sc_raw c) @ w \<and>
    secio_crypt (\<lambda>k v i. of_nat i) 0 w = [1, 2, 3]"
proof -
  let ?ev = "\<lparr>sv_write_msg = True, sv_ctx = True, sv_nonce = Some (replicate 16 3), sv_ciphers = True, sv_stream = True\<rparr>"
  have p: "0 \<notin> set SECIO_PROTOCOL_ID" "length SECIO_PROTOCOL_ID = 12" by (simp_all add: SECIO_PROTOCOL_ID_def bstr_def)
  have "sk_rx (sample_sock secio_rx) = frame (SECIO_PROTOCOL_ID @ [10]) @ replicate 16 5" by (simp add: secio_rx_def)
  with tcp.negotiate_live [OF sample_sock_simps(1) TrueI p(1) _ le_refl, of secio_rx "SECIO_PROTOCOL_ID @ [10]" "replicate 16 5"] p obtain s1 where
    s1: "libp2p_net_multistream_negotiate_protocol tcp_stream True (Some SECIO_PROTOCOL_ID) (sample_sock secio_rx) = Some (True, s1)"
      "sk_rx s1 = replicate 16 5" "tcp_ready s1" by auto
  obtain s2 where s2: "v2_write tcp_stream s1 (replicate 16 3) = Some (16, s2)" "sk_rx s2 = replicate 16 5" "tcp_ready s2"
    using tcp.write_live [OF s1(3) TrueI, of "replicate 16 3" 16] s1(2) by auto
  obtain n s3 where s3: "v2_read tcp_stream s2 NONCE_SIZE = Some (Some n, s3)" "n \<noteq> []" "tcp_ready s3"
    using tcp.read_live [OF s2(3), of NONCE_SIZE] s2(2) by (auto simp: NONCE_SIZE_def)
  let ?c = "\<lparr>sc_raw = s3, sc_read_pos = 0, sc_write_pos = 0, sc_local_nonce = replicate 16 3, sc_remote_nonce = memcpy (replicate NONCE_SIZE 0) n\<rparr>"
  have h: "libp2p_secio_handshake tcp_stream ?ev (sample_sock secio_rx) = Some (Returns ?c, s3)"
    using s1(1) s2(1) s3(1,2) by (simp add: libp2p_secio_handshake_def)
  have "tcp_ready (sc_raw ?c)" "\<forall>b \<in> set [[1 :: byte, 2], [3]]. 0 < length b \<and> length b \<le> 2048" using s3(3) by simp_all
  from secio_has_no_secret [OF h this, of "\<lambda>k v i. of_nat i"] h show ?thesis by auto
qed

end
