(* ===== verification/Spec2Isabelle.thy ===== *)
theory Spec2Isabelle
  imports Dht_Theorems Swarm_Theorems Peerstore_Theorems Hashmap_Theorems Sha1_Laws Base32 Containers Url Secio_V2
begin

text \<open>
  A verification library for c-libp2p.

  \<^bold>\<open>The program.\<close> Three parts of it carry most of its own logic. The first is the Mainline DHT of \<open>src/routing/dht.c\<close>,
  which \<open>src/routing/kademlia.c\<close> drives: it feeds received datagrams and timeouts to \<open>dht_periodic\<close> and starts searches
  with \<open>dht_search\<close>. The second is the stream stack of \<open>src/v2\<close>: a stream is a struct of function pointers (\<open>read\<close>,
  \<open>write\<close>, \<open>close\<close>), TCP provides one (\<open>src/v2/src/net/tcp_dial.c\<close>), multistream negotiates a protocol over any
  (\<open>src/v2/src/conn/multistream.c\<close>), Noise turns one into an encrypted one (\<open>src/v2/src/conn/noise.c\<close>) and yamux
  multiplexes many over one (\<open>src/v2/src/conn/yamux.c\<close>); identify tells the peer who one is, and the swarm (\<open>src/v2/src/swarm/swarm.c\<close>) puts
  them on top of each other. The third are the identities of the nodes: keys, peer ids, the callbacks
  of the Noise handshake, addresses and the peer store. Beside them stand utilities the rest uses: the hash map, the
  encodings, SHA-1, the containers of \<open>src/utils\<close>.

  \<^bold>\<open>Shared theories.\<close> \<open>Prelude\<close>: bytes, lists, big-endian numbers, counting lemmas, collections. \<open>Machine\<close>: state machines
  with an invariant, as a locale. \<open>External\<close>: the libraries (OpenSSL, protobuf, varint, multihash, which are outside the repository, and
  mbedtls, which is vendored under \<open>src/thirdparty/mbedtls\<close> and left a parameter as third-party code) as a record of functions, and the predicates that
  state what they document; a property that needs one of them has it as a hypothesis, and its witness a concrete record for which it holds. A decoder is
  asked to work only where the length it is told covers what it reads; what it makes of a tag of field 0, which protobuf does not have, is left open, and
  the properties say what follows from either answer.

  \<^bold>\<open>Theories of the DHT.\<close>
  \<^item> \<open>Dht_Id\<close>: 20-byte identifiers, \<open>xorcmp\<close>, \<open>common_bits\<close>, \<open>lowbit\<close>.
  \<^item> \<open>Dht_State\<close>: the structs as records, the static variables of the file as one record, the constants,
    the loop of \<open>kademlia.c\<close> that reads random bytes in pieces.
    Every operation takes this record and returns it; a call that may fail to return yields an option.
  \<^item> \<open>Dht_Send\<close>: transaction ids and all \<open>send_*\<close> functions, byte by byte.
  \<^item> \<open>Dht_Table\<close>, \<open>Dht_Routing\<close>, \<open>Dht_Growth\<close>: buckets and \<open>new_node\<close>; their invariant (a partition
    of the identifier space); why \<open>new_node\<close> ends when memory is available.
  \<^item> \<open>Dht_Storage\<close>: peers announced to us, tokens, rate limiting.
  \<^item> \<open>Nearest\<close>, \<open>Dht_Search\<close>, \<open>Dht_Closest\<close>: bounded lists of the nearest nodes as a
    locale, and its two uses, searches and answers.
  \<^item> \<open>Dht_Parse\<close>: \<open>parse_message\<close>. \<open>Dht_Main\<close>: start, stop, export, statistics.
  \<^item> \<open>Dht_Periodic\<close>: \<open>dht_periodic\<close>, and the DHT as a machine, whose steps are the
    public calls, \<open>dht_uninit\<close> among them. A stop frees the stored peers and the searches and leaves their counters: the invariant says by how much
    the counters are ahead of the lists, and that they agree while a socket is open. \<open>Dht_Security\<close>: what may change the storage;
    blacklisted addresses. \<open>Dht_Theorems\<close>: the properties.

  \<^bold>\<open>Theories of the streams.\<close>
  \<^item> \<open>Stream_V2\<close>: the stream interface as locales: \<open>v2_live\<close> (a stream that works), \<open>v2_duplex\<close> (a stream that in any
    state neither reorders nor invents bytes and always returns), \<open>v2_packet\<close> (small writes are taken whole) and \<open>v2_framed\<close> (a
    two-byte header is not split).
  \<^item> \<open>Tcp_V2\<close>: sockets, and the interpretations of these locales on the TCP stream. What the kernel does is data of
    the socket: how much each \<open>recv\<close> hands out, how often each \<open>send\<close> is interrupted.
  \<^item> \<open>Multistream_V2\<close>: messages and negotiation over any stream. \<open>V2_Theorems\<close>: negotiation over TCP.
  \<^item> \<open>Yamux_V2\<close>: all of \<open>yamux.c\<close>. \<open>Yamux_Laws\<close>: headers, passing over frames, reading and writing.
    \<open>Yamux_Total\<close>: every call returns. \<open>Yamux_Session\<close>: a session as a machine; opening and
    accepting. \<open>Yamux_Stream\<close>: a yamux stream is again a stream of \<open>v2_live\<close>. \<open>Yamux_Theorems\<close>: the properties.
  \<^item> \<open>Noise_V2\<close>: all of \<open>noise.c\<close>: key derivation, the encrypted stream with its buffer and counters, the identity
    payload, both sides of the handshake. \<open>Noise_Handshake\<close>: the three messages as the two sides see them.
    \<open>Noise_Stream\<close>: an established channel is again a stream of \<open>v2_packet\<close>. \<open>Noise_Identity\<close>: what the payload decoder
    makes of payloads. \<open>Noise_Theorems\<close>, \<open>Noise_Channel\<close>: the properties of the handshake and of the channel.
  \<^item> \<open>Secio_V2\<close>: the channel that \<open>src/v2/src/conn/secio.c\<close> calls SECIO, which is again a stream of \<open>v2_live\<close> and, its key being all zeros, keeps
    nothing secret (\<open>secio_has_no_secret\<close>).
  \<^item> \<open>Stack_V2\<close>: negotiation over yamux over Noise over TCP, from the contracts alone.
  \<^item> \<open>Identify_V2\<close>: the identify message, sent and received over any stream. \<open>Identify_Laws\<close>: from the encoders of the sender to
    the decoders of the receiver. \<open>Identify_Theorems\<close>: the properties, over yamux over TCP.
  \<^item> \<open>Swarm_V2\<close>: \<open>libp2p_v2_swarm_connect\<close>, which calls all of the above in turn. \<open>Swarm_Theorems\<close>: a whole connection.

  \<^bold>\<open>Theories of the identities.\<close>
  \<^item> \<open>Peer_Id\<close>: public keys as protobuf messages and the peer id of a key (\<open>src/crypto/key.c\<close>, \<open>peerutils.c\<close>).
    \<open>Noise_Callbacks\<close>: the callbacks of the handshake with the RSA and Ed25519 functions below them. \<open>Identity_Theorems\<close>: the properties.
  \<^item> \<open>Peerstore_V2\<close>: addresses and the peer store, which holds pointers into a heap of peers.
    \<open>Peerstore_Theorems\<close>: the store as a machine beside the finite map it stands for.

  \<^bold>\<open>Theories of the utilities.\<close>
  \<^item> \<open>Hashmap_Crc\<close>: the table-driven CRC-32, its division bit by bit and why they agree (the table is linear, so its
    entries at the powers of two determine it). \<open>Hashmap\<close>: the map. \<open>Hashmap_Laws\<close>: its invariant, what each operation does to the
    entries, growth. \<open>Hashmap_Theorems\<close>: the map as a machine beside the finite map it stands for.
  \<^item> \<open>Base58\<close>, \<open>Base58_Theorems\<close>: both directions on machine words, the numbers they compute. \<open>Base32\<close>: both directions.
  \<^item> \<open>Sha1\<close>: \<open>src/crypto/sha1.c\<close> with its work in the buffer of the caller. \<open>Sha1_Fips\<close>: the standard, and that the
    eighty unrolled rounds follow it. \<open>Sha1_Laws\<close>: the running hash, padding, the properties.
  \<^item> \<open>Containers\<close>: the vector and the byte queue that threads share, the latter against a locale of queues.
    \<open>Url\<close>: percent-encoding.

  \<^bold>\<open>Conventions.\<close> Integers have their width where it matters (\<open>byte\<close>, \<open>16 word\<close>, \<open>32 word\<close>, \<open>64 word\<close>); the
  time of the DHT is an \<open>int\<close> of seconds, lengths are \<open>nat\<close>. Allocation, randomness, the clock and
  what the network delivers are parameters or fields of the state, never assumed to succeed unless a theorem says so. A TCP socket delivers finitely many
  bytes and then end of file or an error; a \<open>recv\<close> that blocks for ever is not modelled, so that \<open>yamux_calls_return\<close> is about connections that
  end. A call that
  reads or writes outside its memory gives \<open>Undefined\<close> (or \<open>None\<close> where the theory says so). Loops
  are \<open>fun\<close> or \<open>function\<close> with a measure, and where a loop of the code may run for ever
  (\<open>new_node\<close>, the frame loops of yamux, the payload decoder of Noise) it is a \<open>partial_function\<close> whose value \<open>None\<close> means that the
  call does not return; \<open>dht_periodic_returns\<close>, \<open>new_node_returns\<close> and \<open>yamux_calls_return\<close> say when it does,
  \<open>new_node_livelock\<close> and \<open>noise_payload_hangs\<close> when it does not. Fuel is used once: insertion into the hash map and its
  growth call each other, each time on an array twice as large, and 24 nested calls are more than the doublings from 256 elements to the range
  of \<open>int\<close> allow; \<open>put_correct\<close> shows that it never runs out.

  \<^bold>\<open>What is shown.\<close> The DHT never corrupts its tables nor aborts, whatever arrives (\<open>dht_reachable_safe\<close>), and each operation does what it
  promises: the buckets, the metric (\<open>xorcmp_metric\<close>), searches and answers hold the nearest nodes
  (\<open>search_keeps_nearest\<close>, \<open>closest_nodes_correct\<close>), the storage is a map with expiry, announcing needs a token
  (\<open>storage_needs_token\<close>), messages fit their buffers (\<open>parse_message_fits\<close>). The Noise handshake agrees on crossed keys and the channel delivers
  (\<open>noise_handshake_agrees\<close>, \<open>noise_channel_delivers\<close>); negotiation completes over each layer and over all of them
  (\<open>handshake_completes\<close>, \<open>negotiation_over_stack\<close>) and refuses what it should; connecting runs through all layers and, as far as the
  decoder of keys puts up with the byte behind them, learns who the peer is (\<open>swarm_connect_completes\<close>, \<open>identify_round_trip\<close>); windows are respected, stream ids never clash. The peer store and the hash map
  refine finite maps (\<open>peerstore_refines_map\<close>, \<open>map_refined\<close>), CRC-32 and SHA-1 are what they claim to be
  (\<open>crc32_is_division\<close>, \<open>sha1_is_fips\<close>), base 58 and base 32 are undone by their decoders, the shared buffer is a queue.
  Other theorems prove flaws: endless recursion when memory is short, a handshake that accepts nobody (\<open>noise_accepts_anonymous\<close>), does
  not return or reaches undefined behaviour on hostile payloads (\<open>noise_payload_hangs\<close>, \<open>bad_rsa_key_undefined\<close>), reused nonces, frames that two
  layers cut differently, data lost with FIN, pings that cross, peer ids that collide, input that hashing overwrites, a key read past its
  end (\<open>identify_reads_behind_key\<close>), success reported without a connection (\<open>swarm_connect_to_nobody\<close>), deletion of the wrong element, buffers one byte too short.

  \<^bold>\<open>Not modelled.\<close> Debug output; the threads, sockets and sleeping around the DHT in \<open>kademlia.c\<close>; name resolution and
  connecting in \<open>tcp_dial.c\<close>; TLS, QUIC and WebSocket, which are sequences of calls into OpenSSL, ngtcp2 and the socket layer; the
  first-generation stack (\<open>src/yamux\<close>, \<open>src/secio\<close>, \<open>src/net\<close>, \<open>src/record\<close>), which \<open>src/v2\<close> replaces and whose messages
  are made by the absent submodules for protobuf and multiaddr; what is freed.
\<close>

end
